(* ===== verification/Prelude.thy ===== *)
theory Prelude
  imports Main "HOL-Library.AList"
begin

text \<open>
  Shared vocabulary of the development: timestamps, exceptions and results, Python
  dictionaries as association lists in insertion order, and the handful of SQL statement
  shapes the repositories send to PostgreSQL (a filtered \<open>SELECT\<close>, an
  \<open>UPDATE ... RETURNING\<close> and an \<open>INSERT ... RETURNING\<close>, the last two subject to the
  table's \<open>CHECK\<close> and \<open>UNIQUE\<close> constraints).  The lemmas at the end carry the
  component proofs: they are declared \<open>[simp]\<close> or collected in \<open>sql\<close>.
\<close>

section \<open>Identifiers, time and results\<close>

text \<open>
  A UUID is an opaque identifier compared for equality.  Its textual form matters only where
  messages are parsed, and is modelled there.  An instant is a UTC time in microseconds, the
  resolution of both \<open>datetime\<close> and \<open>timestamptz\<close>; every clock of the application is
  \<open>datetime.now(UTC)\<close>, so instants are always timezone-aware.
\<close>

type_synonym uuid = nat
type_synonym instant = int
type_synonym bytes = "nat list"

text \<open>A Python string is the list of its code points; \<open>lit\<close> gives the code points of a literal.\<close>

type_synonym pystr = "nat list"

definition lit :: "string \<Rightarrow> pystr" where
  "lit s = map of_char s"

text \<open>The successive readings an operation takes from the clock.\<close>

type_synonym clock = "nat \<Rightarrow> instant"

definition seconds :: "int \<Rightarrow> int" where
  "seconds n = n * 1000000"

definition minutes :: "int \<Rightarrow> int" where
  "minutes n = seconds (60 * n)"

definition days :: "int \<Rightarrow> int" where
  "days n = minutes (24 * 60 * n)"

text \<open>
  The exceptions the modelled code raises.  \<open>BackendUnavailableError\<close> is what the database
  boundary turns every PostgreSQL error into (\<open>app/database.py\<close>, \<open>Database.fetch\<close>).
\<close>

datatype exc =
    ValueError
  | RuntimeError
  | TypeError
  | UnicodeEncodeError
  | BackendUnavailableError
  | ConnectionLimitError
  | TransferError
  | TransferCapacityError
  | DeviceAuthFailure
  | DeviceLinkingRateLimited
  | OtpInvalidError
  | OtpRateLimitedError
  | InvalidOtpError
  | AuthGatewayUnavailableError
  | TurnAuthorizationError
  | TurnCredentialRateLimitedError
  | TurnProviderUnavailableError
  | TurnCredentialProviderError
  | ConfigurationError
  | HTTPException nat

text \<open>Python's subclass relation, as an \<open>except ValueError\<close> clause sees it.\<close>

fun is_ValueError :: "exc \<Rightarrow> bool" where
  "is_ValueError ValueError = True"
| "is_ValueError UnicodeEncodeError = True"
| "is_ValueError TransferError = True"
| "is_ValueError TransferCapacityError = True"
| "is_ValueError DeviceAuthFailure = True"
| "is_ValueError DeviceLinkingRateLimited = True"
| "is_ValueError OtpInvalidError = True"
| "is_ValueError InvalidOtpError = True"
| "is_ValueError TurnAuthorizationError = True"
| "is_ValueError ConfigurationError = True"
| "is_ValueError _ = False"

fun is_TransferError :: "exc \<Rightarrow> bool" where
  "is_TransferError TransferError = True"
| "is_TransferError TransferCapacityError = True"
| "is_TransferError _ = False"

fun is_RuntimeError :: "exc \<Rightarrow> bool" where
  "is_RuntimeError RuntimeError = True"
| "is_RuntimeError BackendUnavailableError = True"
| "is_RuntimeError ConnectionLimitError = True"
| "is_RuntimeError OtpRateLimitedError = True"
| "is_RuntimeError AuthGatewayUnavailableError = True"
| "is_RuntimeError TurnCredentialRateLimitedError = True"
| "is_RuntimeError TurnProviderUnavailableError = True"
| "is_RuntimeError TurnCredentialProviderError = True"
| "is_RuntimeError _ = False"

type_synonym 'a res = "exc + 'a"

text \<open>Run \<open>x\<close>, then \<open>k\<close> on its value unless it raised.\<close>

definition bind_res :: "'a res \<Rightarrow> ('a \<Rightarrow> 'b res) \<Rightarrow> 'b res" where
  "bind_res x k = (case x of Inl e \<Rightarrow> Inl e | Inr v \<Rightarrow> k v)"

section \<open>Dictionaries\<close>

text \<open>
  A Python dictionary keeps its items in insertion order; assigning to a present key keeps
  the item's place.  \<open>AList.update\<close> and \<open>AList.delete\<close> do exactly that on a list of
  pairs.
\<close>

type_synonym ('k, 'v) dict = "('k \<times> 'v) list"

definition dict_get :: "('k, 'v) dict \<Rightarrow> 'k \<Rightarrow> 'v option" where
  "dict_get d k = map_of d k"

definition dict_set :: "'k \<Rightarrow> 'v \<Rightarrow> ('k, 'v) dict \<Rightarrow> ('k, 'v) dict" where
  "dict_set k v d = AList.update k v d"

definition dict_del :: "'k \<Rightarrow> ('k, 'v) dict \<Rightarrow> ('k, 'v) dict" where
  "dict_del k d = AList.delete k d"

definition dict_values :: "('k, 'v) dict \<Rightarrow> 'v list" where
  "dict_values d = map snd d"

definition dict_ok :: "('k, 'v) dict \<Rightarrow> bool" where
  "dict_ok d \<longleftrightarrow> distinct (map fst d)"

section \<open>SQL statements\<close>

text \<open>
  A table is the list of its rows.  \<open>sql_update ok p f t\<close> runs
  \<open>UPDATE t SET f WHERE p RETURNING *\<close>: when one of the new rows breaks the table's
  \<open>CHECK\<close> constraint \<open>ok\<close> the statement fails as a whole and the table is unchanged.
  \<open>sql_insert ok clash rows t\<close> inserts rows unless one breaks \<open>ok\<close> or clashes with a
  present row, or with another new row, on a unique index.
\<close>

definition sql_select :: "('r \<Rightarrow> bool) \<Rightarrow> 'r list \<Rightarrow> 'r list" where
  "sql_select p t = filter p t"

definition sql_update ::
    "('r \<Rightarrow> bool) \<Rightarrow> ('r \<Rightarrow> bool) \<Rightarrow> ('r \<Rightarrow> 'r) \<Rightarrow> 'r list \<Rightarrow> 'r list res \<times> 'r list" where
  "sql_update ok p f t =
     (if list_all (\<lambda>r. p r \<longrightarrow> ok (f r)) t
      then (Inr (map f (filter p t)), map (\<lambda>r. if p r then f r else r) t)
      else (Inl BackendUnavailableError, t))"

definition sql_insert ::
    "('r \<Rightarrow> bool) \<Rightarrow> ('r \<Rightarrow> 'r \<Rightarrow> bool) \<Rightarrow> 'r list \<Rightarrow> 'r list \<Rightarrow> 'r list res \<times> 'r list" where
  "sql_insert ok clash rows t =
     (if list_all (\<lambda>r. ok r \<and> list_all (\<lambda>q. \<not> clash q r) t) rows \<and>
         sorted_wrt (\<lambda>q r. \<not> clash q r) rows
      then (Inr rows, t @ rows)
      else (Inl BackendUnavailableError, t))"

text \<open>\<open>first_row\<close> and \<open>required_row\<close> of \<open>repositories/base.py\<close>.\<close>

definition first_row :: "'r list \<Rightarrow> 'r option" where
  "first_row rows = (case rows of [] \<Rightarrow> None | r # _ \<Rightarrow> Some r)"

definition required_row :: "'r list \<Rightarrow> 'r res" where
  "required_row rows = (case first_row rows of None \<Rightarrow> Inl RuntimeError | Some r \<Rightarrow> Inr r)"

text \<open>\<open>COALESCE\<close> of a nullable column with a value.\<close>

definition coalesce :: "'a option \<Rightarrow> 'a \<Rightarrow> 'a option" where
  "coalesce x d = (case x of None \<Rightarrow> Some d | Some v \<Rightarrow> Some v)"

section \<open>Lemmas shared by the components\<close>

named_theorems sql \<open>statement shapes of the repositories\<close>
named_theorems keep \<open>preservation facts of the step relations\<close>

lemmas time_defs = seconds_def minutes_def days_def

lemma bind_res_simps [simp]:
  "bind_res (Inl e) k = Inl e" "bind_res (Inr v) k = k v"
  by (simp_all add: bind_res_def)

lemma bind_res_Inr: "bind_res x k = Inr y \<longleftrightarrow> (\<exists>v. x = Inr v \<and> k v = Inr y)"
  by (cases x) simp_all

lemma dict_get_set [simp]: "dict_get (dict_set k v d) = (dict_get d)(k \<mapsto> v)"
  by (rule ext) (simp add: dict_get_def dict_set_def update_conv)

lemma dict_get_del [simp]: "dict_get (dict_del k d) = (dict_get d)(k := None)"
  by (rule ext) (simp add: dict_get_def dict_del_def delete_conv)

lemma dict_get_Nil [simp]: "dict_get [] k = None"
  by (simp add: dict_get_def)

lemma dict_ok_Nil [simp]: "dict_ok []"
  by (simp add: dict_ok_def)

lemma dict_ok_set [simp]: "dict_ok d \<Longrightarrow> dict_ok (dict_set k v d)"
  by (simp add: dict_ok_def dict_set_def distinct_update)

lemma dict_ok_del [simp]: "dict_ok d \<Longrightarrow> dict_ok (dict_del k d)"
  by (simp add: dict_ok_def dict_del_def distinct_delete)

lemma dict_get_SomeD: "dict_get d k = Some v \<Longrightarrow> (k, v) \<in> set d"
  by (simp add: dict_get_def map_of_SomeD)

lemma dict_get_iff: "dict_ok d \<Longrightarrow> dict_get d k = Some v \<longleftrightarrow> (k, v) \<in> set d"
  by (simp add: dict_get_def dict_ok_def)

lemma coalesce_simps [simp]:
  "coalesce None d = Some d" "coalesce (Some v) d = Some v"
  by (simp_all add: coalesce_def)

lemma coalesce_not_None [simp]: "coalesce x d \<noteq> None"
  by (cases x) simp_all

lemma first_row_simps [simp]:
  "first_row [] = None" "first_row (r # rs) = Some r"
  by (simp_all add: first_row_def)

lemma first_row_None_iff [simp]: "first_row rs = None \<longleftrightarrow> rs = []"
  by (cases rs) simp_all

lemma first_row_SomeD: "first_row rs = Some r \<Longrightarrow> r \<in> set rs"
  by (cases rs) simp_all

lemma required_row_simps [simp]:
  "required_row [] = Inl RuntimeError" "required_row (r # rs) = Inr r"
  by (simp_all add: required_row_def)

lemma sql_update_fails [sql]:
  "fst (sql_update ok p f t) = Inl e \<Longrightarrow> snd (sql_update ok p f t) = t"
  by (auto simp: sql_update_def split: if_splits)

lemma sql_update_key:
  assumes "\<And>r. key (f r) = key r"
  shows "map key (snd (sql_update ok p f t)) = map key t"
  by (auto simp: sql_update_def assms)


lemma distinct_filter_eq: "distinct xs \<Longrightarrow> x \<in> set xs \<Longrightarrow> filter (\<lambda>y. y = x) xs = [x]"
  by (induction xs) (auto simp: filter_empty_conv)

lemma distinct_key_eq:
  "distinct (map key xs) \<Longrightarrow> x \<in> set xs \<Longrightarrow> y \<in> set xs \<Longrightarrow> key x = key y \<Longrightarrow> x = y"
  by (metis distinct_map inj_onD)


lemma dict_set_set [simp]: "dict_set k v (dict_set k w d) = dict_set k v d"
  by (simp add: dict_set_def)

lemma dict_get_keyed:
  "distinct (map key xs) \<Longrightarrow>
     dict_get (map (\<lambda>x. (key x, x)) xs) k = Some x \<longleftrightarrow> x \<in> set xs \<and> key x = k"
  by (subst dict_get_iff) (auto simp: dict_ok_def comp_def)

lemma dict_set_keyed:
  assumes "distinct (map key xs)" and "x \<in> set xs" and "key y = key x"
  shows "dict_set (key x) y (map (\<lambda>z. (key z, z)) xs) =
           map (\<lambda>z. (key z, z)) (map (\<lambda>z. if key z = key x then y else z) xs)"
  using assms
proof (induction xs)
  case (Cons z xs)
  have "map (\<lambda>u. if key u = key x then y else u) xs = xs" if "key z = key x"
    using Cons.prems that by (intro map_idI) (force simp: image_iff)
  with Cons show ?case
    by (auto simp: dict_set_def simp del: map_map)
qed simp


lemma length_concat_key:
  assumes "distinct (map key xs)" and "\<And>x. x \<in> set xs \<Longrightarrow> key x \<noteq> k \<Longrightarrow> f x = []"
    and "\<And>x. x \<in> set xs \<Longrightarrow> length (f x) \<le> 1"
  shows "length (concat (map f xs)) \<le> 1"
  using assms
proof (induction xs)
  case (Cons x xs)
  have "length (concat (map f xs)) = 0" if "key x = k"
    using Cons.prems that by (auto simp: image_iff)
  moreover have "length (concat (map f xs)) \<le> 1"
    using Cons.prems by (intro Cons.IH) simp_all
  moreover have "length (f x) \<le> 1" "key x \<noteq> k \<Longrightarrow> f x = []"
    using Cons.prems by simp_all
  ultimately show ?case by (cases "key x = k") (simp_all del: length_0_conv)
qed simp


lemma dict_set_keyed_new:
  "key y \<notin> key ` set xs \<Longrightarrow>
     dict_set (key y) y (map (\<lambda>z. (key z, z)) xs) = map (\<lambda>z. (key z, z)) (xs @ [y])"
  by (induction xs) (auto simp: dict_set_def)


text \<open>Quantities summed over, and properties of all, items of a dictionary.\<close>

definition dict_sum :: "('v \<Rightarrow> int) \<Rightarrow> ('k, 'v) dict \<Rightarrow> int" where
  "dict_sum f d = sum_list (map (\<lambda>x. f (snd x)) d)"

definition dict_all :: "('k \<Rightarrow> 'v \<Rightarrow> bool) \<Rightarrow> ('k, 'v) dict \<Rightarrow> bool" where
  "dict_all P d = list_all (\<lambda>(k, v). P k v) d"

definition dict_val :: "('v \<Rightarrow> int) \<Rightarrow> 'v option \<Rightarrow> int" where
  "dict_val f x = (case x of None \<Rightarrow> 0 | Some v \<Rightarrow> f v)"

lemma dict_val_simps [simp]: "dict_val f None = 0" "dict_val f (Some v) = f v"
  by (simp_all add: dict_val_def)

lemma dict_sum_Nil [simp]: "dict_sum f [] = 0"
  by (simp add: dict_sum_def)

lemma dict_sum_Cons [simp]: "dict_sum f (x # d) = f (snd x) + dict_sum f d"
  by (simp add: dict_sum_def)

lemma dict_all_simps [simp]:
  "dict_all P []" "dict_all P (x # d) = (P (fst x) (snd x) \<and> dict_all P d)"
  by (auto simp: dict_all_def)

lemma dict_sum_set: "dict_sum f (dict_set k v d) = dict_sum f d - dict_val f (dict_get d k) + f v"
  by (induction d) (auto simp: dict_set_def dict_get_def)

lemma dict_get_notin: "k \<notin> fst ` set d \<Longrightarrow> dict_get d k = None"
  by (simp add: dict_get_def map_of_eq_None_iff)

lemma dict_del_notin: "k \<notin> fst ` set d \<Longrightarrow> dict_del k d = d"
  by (auto simp: dict_del_def intro: delete_id)

lemma dict_sum_del:
  "dict_ok d \<Longrightarrow> dict_sum f (dict_del k d) = dict_sum f d - dict_val f (dict_get d k)"
proof (induction d)
  case (Cons x d)
  then show ?case
    using dict_get_notin [of k d] dict_del_notin [of k d]
    by (cases "fst x = k") (auto simp: dict_ok_def dict_del_def dict_get_def AList.delete_eq)
qed (simp add: dict_del_def)

lemma dict_all_set: "dict_all P d \<Longrightarrow> P k v \<Longrightarrow> dict_all P (dict_set k v d)"
  by (induction d) (auto simp: dict_set_def)

lemma dict_all_del: "dict_all P d \<Longrightarrow> dict_all P (dict_del k d)"
  by (induction d) (auto simp: dict_del_def AList.delete_eq)

lemma dict_all_get: "dict_all P d \<Longrightarrow> dict_get d k = Some v \<Longrightarrow> P k v"
  by (induction d) (auto simp: dict_get_def split: if_splits)

lemma dict_all_mono: "dict_all P d \<Longrightarrow> (\<And>k v. P k v \<Longrightarrow> Q k v) \<Longrightarrow> dict_all Q d"
  by (induction d) auto

lemma dict_all_filter: "dict_all P d \<Longrightarrow> dict_all P (filter Q d)"
  by (induction d) auto

lemma dict_ok_filter: "dict_ok d \<Longrightarrow> dict_ok (filter Q d)"
  by (simp add: dict_ok_def distinct_map_filter)

lemma dict_sum_mono: "dict_all (\<lambda>k v. f v \<le> g v) d \<Longrightarrow> dict_sum f d \<le> dict_sum g d"
  by (induction d) auto

lemma dict_sum_nonneg: "dict_all (\<lambda>k v. 0 \<le> f v) d \<Longrightarrow> 0 \<le> dict_sum f d"
  by (induction d) auto

lemma dict_length_sum: "int (length d) = dict_sum (\<lambda>_. 1) d"
  by (induction d) auto

lemma dict_set_not_Nil [simp]: "dict_set k v d \<noteq> []"
  by (cases d) (auto simp: dict_set_def split: prod.split)

end
