(* ===== verification/PyText.thy ===== *)
theory PyText
  imports Prelude Complex_Main "HOL-Library.Log_Nat" "HOL-Library.Code_Target_Numeral"
begin

text \<open>
  The parts of Python's text and time library that the control plane's messages depend on: UTF-8
  sizes, hexadecimal and decimal digits, the textual form of \<open>uuid.UUID\<close>, ISO timestamps,
  \<open>datetime.fromtimestamp\<close> on milliseconds, JSON values and \<open>json.dumps\<close>.
\<close>

section \<open>UTF-8\<close>

text \<open>\<open>s.encode("utf-8")\<close>: a lone surrogate cannot be encoded.\<close>

definition surrogate :: "nat \<Rightarrow> bool" where
  "surrogate c \<longleftrightarrow> 0xD800 \<le> c \<and> c \<le> 0xDFFF"

definition utf8_width :: "nat \<Rightarrow> nat" where
  "utf8_width c = (if c < 0x80 then 1 else if c < 0x800 then 2 else if c < 0x10000 then 3 else 4)"

definition utf8_len :: "pystr \<Rightarrow> nat res" where
  "utf8_len s = (if list_ex surrogate s then Inl UnicodeEncodeError
                 else Inr (sum_list (map utf8_width s)))"

section \<open>Digits\<close>

definition hex_digit :: "nat \<Rightarrow> nat" where
  "hex_digit n = (if n < 10 then 48 + n else 87 + n)"

definition hex_value :: "nat \<Rightarrow> nat option" where
  "hex_value c = (if 48 \<le> c \<and> c \<le> 57 then Some (c - 48)
                  else if 97 \<le> c \<and> c \<le> 102 then Some (c - 87)
                  else if 65 \<le> c \<and> c \<le> 70 then Some (c - 55) else None)"

fun hex_digits :: "nat \<Rightarrow> nat \<Rightarrow> pystr" where
  "hex_digits 0 n = []"
| "hex_digits (Suc k) n = hex_digits k (n div 16) @ [hex_digit (n mod 16)]"

fun hex_parse :: "nat \<Rightarrow> pystr \<Rightarrow> nat option" where
  "hex_parse acc [] = Some acc"
| "hex_parse acc (c # cs) =
     (case hex_value c of None \<Rightarrow> None | Some v \<Rightarrow> hex_parse (16 * acc + v) cs)"

fun dec_digits :: "nat \<Rightarrow> pystr" where
  "dec_digits n = (if n < 10 then [48 + n] else dec_digits (n div 10) @ [48 + n mod 10])"

declare dec_digits.simps [simp del]

definition dec_pad :: "nat \<Rightarrow> nat \<Rightarrow> pystr" where
  "dec_pad w n = (let ds = dec_digits n in replicate (w - length ds) 48 @ ds)"

definition int_str :: "int \<Rightarrow> pystr" where
  "int_str n = (if n < 0 then 45 # dec_digits (nat (- n)) else dec_digits (nat n))"

section \<open>UUID text\<close>

text \<open>\<open>str(uuid)\<close>: 32 hexadecimal digits in groups of 8, 4, 4, 4 and 12.\<close>

definition uuid_str :: "uuid \<Rightarrow> pystr" where
  "uuid_str u =
     (let h = hex_digits 32 u
      in take 8 h @ [45] @ take 4 (drop 8 h) @ [45] @ take 4 (drop 12 h) @ [45] @
         take 4 (drop 16 h) @ [45] @ drop 20 h)"

text \<open>
  \<open>UUID(text)\<close>: braces are stripped and hyphens removed, 32 hexadecimal digits must remain.
  (Python also drops the prefixes \<open>urn:\<close> and \<open>uuid:\<close> and its \<open>int\<close> reads other digit
  forms; none of those texts is canonical, so \<open>_canonical_uuid\<close> rejects them either way.)
\<close>

definition uuid_parse :: "pystr \<Rightarrow> uuid option" where
  "uuid_parse s =
     (let braces = (\<lambda>c. c = 123 \<or> c = 125);
          stripped = rev (dropWhile braces (rev (dropWhile braces s)));
          h = filter (\<lambda>c. c \<noteq> 45) stripped
      in if length h = 32 then hex_parse 0 h else None)"

section \<open>Time\<close>

text \<open>Year, month and day of a day number counted from 1970-01-01 (proleptic Gregorian).\<close>

definition civil :: "int \<Rightarrow> int \<times> int \<times> int" where
  "civil z0 =
     (let z = z0 + 719468;
          era = z div 146097;
          doe = z mod 146097;
          yoe = (doe - doe div 1460 + doe div 36524 - doe div 146096) div 365;
          doy = doe - (365 * yoe + yoe div 4 - yoe div 100);
          mp = (5 * doy + 2) div 153;
          day = doy - (153 * mp + 2) div 5 + 1;
          month = (if mp < 10 then mp + 3 else mp - 9);
          year = yoe + era * 400 + (if month \<le> 2 then 1 else 0)
      in (year, month, day))"

text \<open>\<open>isoformat()\<close> of an aware UTC time: microseconds only when they are not zero.\<close>

definition isoformat :: "instant \<Rightarrow> pystr" where
  "isoformat t =
     (let us = t mod 1000000; s = t div 1000000; sod = s mod 86400;
          (y, m, d) = civil (s div 86400)
      in dec_pad 4 (nat y) @ [45] @ dec_pad 2 (nat m) @ [45] @ dec_pad 2 (nat d) @ lit ''T'' @
         dec_pad 2 (nat (sod div 3600)) @ [58] @ dec_pad 2 (nat (sod div 60 mod 60)) @ [58] @
         dec_pad 2 (nat (sod mod 60)) @
         (if us = 0 then [] else [46] @ dec_pad 6 (nat us)) @ lit ''+00:00'')"

text \<open>The ratio \<open>p / q\<close> rounded to the nearest double with ties to even, as \<open>m * 2 ^ e\<close> with
  \<open>e\<close> possibly negative; both arguments positive, no underflow.\<close>

definition round_half_even :: "int \<Rightarrow> int \<Rightarrow> int" where
  "round_half_even p q =
     (let d = p div q; r = p mod q
      in if 2 * r < q then d else if 2 * r > q then d + 1 else if even d then d else d + 1)"

definition double_ratio :: "int \<Rightarrow> int \<Rightarrow> int \<times> int" where
  "double_ratio p q =
     (let e0 = int (nat (bitlen p)) - int (nat (bitlen q)) - 53;
          scale = (\<lambda>e. if e \<ge> 0 then (p, q * 2 ^ nat e) else (p * 2 ^ nat (- e), q));
          e = (if (case scale e0 of (a, b) \<Rightarrow> a div b) < 2 ^ 53 then e0 else e0 + 1)
      in (case scale e of (a, b) \<Rightarrow> (round_half_even a b, e)))"

text \<open>
  \<open>datetime.fromtimestamp(v / 1000, tz=UTC)\<close> for an integer \<open>v \<ge> 0\<close>: the quotient is
  rounded to a double, its fraction times a million is rounded to a double and then to an
  integer, ties to even; years after 9999 are out of range, and an integer too large for a double
  overflows (both make \<open>_message_expiry\<close> return \<open>None\<close>).
\<close>

definition fromtimestamp_ms :: "int \<Rightarrow> instant option" where
  "fromtimestamp_ms v =
     (if v = 0 then Some 0
      else if v \<ge> 253402300800 * 1000 then None
      else case double_ratio v 1000 of (m, e) \<Rightarrow>
        let (n, d) = (if e \<ge> 0 then (m * 2 ^ nat e, 1) else (m, 2 ^ nat (- e)));
            whole = n div d; frac = n mod d;
            us = (if frac = 0 then 0
                  else case double_ratio (frac * 1000000) d of (m', e') \<Rightarrow>
                    if e' \<ge> 0 then m' * 2 ^ nat e' else round_half_even m' (2 ^ nat (- e')));
            t = whole * 1000000 + us
        in if t < 253402300800 * 1000000 then Some t else None)"

section \<open>JSON\<close>

text \<open>
  The values \<open>json.loads\<close> returns.  A float carries its exact value (\<open>None\<close> for an infinity
  or NaN) and the text \<open>json.dumps\<close> writes for it; an object is a dictionary in member order.
\<close>

datatype json =
    JNull
  | JBool bool
  | JInt int
  | JFloat "rat option" pystr
  | JStr pystr
  | JArr "json list"
  | JObj "(pystr \<times> json) list"

definition unicode_escape :: "nat \<Rightarrow> pystr" where
  "unicode_escape c = [92, 117] @ hex_digits 4 c"

definition escape_char :: "bool \<Rightarrow> nat \<Rightarrow> pystr" where
  "escape_char ensure_ascii c =
     (if c = 34 then [92, 34] else if c = 92 then [92, 92]
      else if c = 10 then [92, 110] else if c = 13 then [92, 114] else if c = 9 then [92, 116]
      else if c = 12 then [92, 102] else if c = 8 then [92, 98]
      else if c < 32 then unicode_escape c
      else if ensure_ascii \<and> c > 126 then
        (if c < 0x10000 then unicode_escape c
         else unicode_escape (0xD800 + (c - 0x10000) div 0x400) @
              unicode_escape (0xDC00 + (c - 0x10000) mod 0x400))
      else [c])"

definition json_string :: "bool \<Rightarrow> pystr \<Rightarrow> pystr" where
  "json_string ensure_ascii s = [34] @ concat (map (escape_char ensure_ascii) s) @ [34]"

text \<open>\<open>json.dumps(value, separators=(",", ":"), ensure_ascii=b)\<close>.\<close>

fun json_dumps :: "bool \<Rightarrow> json \<Rightarrow> pystr"
  and json_items :: "bool \<Rightarrow> json list \<Rightarrow> pystr"
  and json_members :: "bool \<Rightarrow> (pystr \<times> json) list \<Rightarrow> pystr" where
  "json_dumps b JNull = lit ''null''"
| "json_dumps b (JBool x) = (if x then lit ''true'' else lit ''false'')"
| "json_dumps b (JInt n) = int_str n"
| "json_dumps b (JFloat v text) = text"
| "json_dumps b (JStr s) = json_string b s"
| "json_dumps b (JArr xs) = [91] @ json_items b xs @ [93]"
| "json_dumps b (JObj ms) = [123] @ json_members b ms @ [125]"
| "json_items b [] = []"
| "json_items b [x] = json_dumps b x"
| "json_items b (x # y # xs) = json_dumps b x @ [44] @ json_items b (y # xs)"
| "json_members b [] = []"
| "json_members b [(k, x)] = json_string b k @ [58] @ json_dumps b x"
| "json_members b ((k, x) # m # ms) =
     json_string b k @ [58] @ json_dumps b x @ [44] @ json_members b (m # ms)"

text \<open>\<open>value == text\<close> and \<open>value == n\<close>: \<open>True\<close> equals 1 and a float equals the integer of its value.\<close>

definition eq_str :: "json \<Rightarrow> pystr \<Rightarrow> bool" where
  "eq_str v s \<longleftrightarrow> v = JStr s"

fun eq_int :: "json \<Rightarrow> int \<Rightarrow> bool" where
  "eq_int (JBool b) n = (n = (if b then 1 else 0))"
| "eq_int (JInt m) n = (m = n)"
| "eq_int (JFloat v t) n = (v = Some (of_int n))"
| "eq_int _ n = False"

text \<open>Membership of a value in a \<open>frozenset\<close> of strings: a list or a dict cannot be hashed.\<close>

fun in_frozenset :: "json \<Rightarrow> pystr list \<Rightarrow> bool res" where
  "in_frozenset (JArr _) ss = Inl TypeError"
| "in_frozenset (JObj _) ss = Inl TypeError"
| "in_frozenset (JStr s) ss = Inr (s \<in> set ss)"
| "in_frozenset _ ss = Inr False"

section \<open>Lemmas\<close>

lemma hex_value_digit [simp]: "n < 16 \<Longrightarrow> hex_value (hex_digit n) = Some n"
  by (auto simp: hex_value_def hex_digit_def)

lemma hex_digit_range: "n < 16 \<Longrightarrow> 48 \<le> hex_digit n \<and> hex_digit n < 103"
  by (simp add: hex_digit_def)

lemma length_hex_digits [simp]: "length (hex_digits k n) = k"
  by (induction k arbitrary: n) simp_all

lemma hex_digits_range: "c \<in> set (hex_digits k n) \<Longrightarrow> 48 \<le> c \<and> c < 103"
  by (induction k arbitrary: n) (auto dest: hex_digit_range [of "_ mod 16"] simp: hex_digit_def)

lemma hex_parse_append:
  "hex_parse acc (xs @ ys) = (case hex_parse acc xs of None \<Rightarrow> None | Some a \<Rightarrow> hex_parse a ys)"
  by (induction xs arbitrary: acc) (auto split: option.split)

lemma hex_parse_digits: "n < 16 ^ k \<Longrightarrow> hex_parse acc (hex_digits k n) = Some (acc * 16 ^ k + n)"
proof (induction k arbitrary: n)
  case (Suc k)
  then have "n div 16 < 16 ^ k"
    by (simp add: less_mult_imp_div_less mult.commute)
  with Suc.IH show ?case
    by (simp add: hex_parse_append algebra_simps)
qed simp

lemma filter_hex_digits [simp]: "filter (\<lambda>c. c \<noteq> 45) (hex_digits k n) = hex_digits k n"
  by (rule filter_True) (auto dest: hex_digits_range)

lemma filter_take_hex [simp]:
  "filter (\<lambda>c. c \<noteq> 45) (take i (drop j (hex_digits k n))) = take i (drop j (hex_digits k n))"
  "filter (\<lambda>c. c \<noteq> 45) (take i (hex_digits k n)) = take i (hex_digits k n)"
  "filter (\<lambda>c. c \<noteq> 45) (drop j (hex_digits k n)) = drop j (hex_digits k n)"
  by (rule filter_True, auto dest!: in_set_takeD in_set_dropD hex_digits_range)+

lemma take_drop_groups:
  "take a h @ take b (drop a h) @ take c (drop (a + b) h) @ take e (drop (a + b + c) h) @
     drop (a + b + c + e) h = h"
  by (metis append_take_drop_id add.commute drop_drop)

lemma filter_uuid_str: "filter (\<lambda>c. c \<noteq> 45) (uuid_str u) = hex_digits 32 u"
  using take_drop_groups [of 8 "hex_digits 32 u" 4 4 4] by (simp add: uuid_str_def Let_def)

lemma uuid_str_range: "c \<in> set (uuid_str u) \<Longrightarrow> c < 103"
  by (auto simp: uuid_str_def Let_def dest!: in_set_takeD in_set_dropD hex_digits_range)

lemma uuid_parse_str: "u < 2 ^ 128 \<Longrightarrow> uuid_parse (uuid_str u) = Some u"
proof -
  assume u: "u < 2 ^ 128"
  have drop: "dropWhile (\<lambda>c. c = 123 \<or> c = 125) xs = xs" if "set xs \<subseteq> set (uuid_str u)" for xs
    using that by (cases xs) (auto dest: uuid_str_range)
  show ?thesis
    using hex_parse_digits [of u 32 0] u
    by (simp add: uuid_parse_def drop filter_uuid_str Let_def)
qed

lemma utf8_len_Inr: "utf8_len s = Inr n \<longleftrightarrow> \<not> list_ex surrogate s \<and> n = sum_list (map utf8_width s)"
  by (auto simp: utf8_len_def)

lemma length_le_utf8: "utf8_len s = Inr n \<Longrightarrow> length s \<le> n"
proof -
  have "length s \<le> sum_list (map utf8_width s)"
    by (induction s) (auto simp: utf8_width_def)
  then show "utf8_len s = Inr n \<Longrightarrow> length s \<le> n"
    by (simp add: utf8_len_Inr)
qed

lemma hex_parse_bound: "hex_parse acc cs = Some n \<Longrightarrow> n < (acc + 1) * 16 ^ length cs"
proof (induction cs arbitrary: acc)
  case (Cons c cs)
  then obtain v where v: "hex_value c = Some v" "hex_parse (16 * acc + v) cs = Some n"
    by (auto split: option.splits)
  have "v < 16"
    using v(1) by (auto simp: hex_value_def split: if_splits)
  then have "(16 * acc + v + 1) * 16 ^ length cs \<le> (16 * (acc + 1)) * 16 ^ length cs"
    by (intro mult_right_mono) simp_all
  also have "\<dots> = (acc + 1) * 16 ^ length (c # cs)"
    by (simp add: algebra_simps)
  finally show ?case
    using Cons.IH [OF v(2)] by linarith
qed simp

lemma uuid_parse_bound: "uuid_parse s = Some u \<Longrightarrow> u < 2 ^ 128"
  using hex_parse_bound [of 0] by (fastforce simp: uuid_parse_def Let_def split: if_splits)

text \<open>Values without lone surrogates serialise without error.\<close>

fun clean_json :: "json \<Rightarrow> bool"
  and clean_items :: "json list \<Rightarrow> bool"
  and clean_members :: "(pystr \<times> json) list \<Rightarrow> bool" where
  "clean_json (JFloat v t) = (\<not> list_ex surrogate t)"
| "clean_json (JStr s) = (\<not> list_ex surrogate s)"
| "clean_json (JArr xs) = clean_items xs"
| "clean_json (JObj ms) = clean_members ms"
| "clean_json _ = True"
| "clean_items [] = True"
| "clean_items (x # xs) = (clean_json x \<and> clean_items xs)"
| "clean_members [] = True"
| "clean_members ((k, x) # ms) = (\<not> list_ex surrogate k \<and> clean_json x \<and> clean_members ms)"

lemma not_surrogate_small: "c < 0xD800 \<Longrightarrow> \<not> surrogate c"
  by (simp add: surrogate_def)

lemma dec_digits_range: "c \<in> set (dec_digits n) \<Longrightarrow> 48 \<le> c \<and> c < 58"
proof (induction n rule: dec_digits.induct)
  case (1 n)
  then show ?case
    using dec_digits.simps [of n] by (auto split: if_splits)
qed

lemma surrogate_free_int: "\<not> list_ex surrogate (int_str n)"
  by (auto simp: int_str_def list_ex_iff surrogate_def dest!: dec_digits_range)

lemma surrogate_free_escape: "\<not> surrogate c \<Longrightarrow> \<not> list_ex surrogate (escape_char False c)"
  by (auto simp: escape_char_def unicode_escape_def list_ex_iff surrogate_def dest!: hex_digits_range)

lemma surrogate_free_string: "\<not> list_ex surrogate s \<Longrightarrow> \<not> list_ex surrogate (json_string False s)"
  using surrogate_free_escape
  by (induction s) (auto simp: json_string_def list_ex_iff surrogate_def)

lemma surrogate_free_dumps:
  "clean_json x \<Longrightarrow> \<not> list_ex surrogate (json_dumps False x)"
  "clean_items xs \<Longrightarrow> \<not> list_ex surrogate (json_items False xs)"
  "clean_members ms \<Longrightarrow> \<not> list_ex surrogate (json_members False ms)"
proof (induction False x and False xs and False ms rule: json_dumps_json_items_json_members.induct)
qed (auto simp: surrogate_free_int surrogate_free_string not_surrogate_small lit_def)

end
