(* ===== verification/Models.thy ===== *)
theory Models
  imports PyText
begin

text \<open>
  The typed records of \<open>repositories/models.py\<close> and the database they are rows of.  A table
  of schema \<open>private\<close> is the list of its records: a \<open>*_from_row\<close> function only renames
  the columns of a row to the fields of the record, so rows and records are identified.
  The \<open>CHECK\<close> constraints are those of the migrations under \<open>supabase/migrations\<close>.
\<close>

section \<open>Statuses\<close>

datatype device_status = Active | Inactive | Revoked

datatype otp_status = OtpActive | OtpConsumed | OtpExpired

datatype transfer_status =
    Offered | Accepted | Negotiating | Connected | Transferring
  | Completed | Rejected | Expired | Cancelled | Failed

section \<open>Records\<close>

record account =
  ac_id :: uuid
  ac_supabase_user_id :: uuid
  ac_email_normalized :: pystr
  ac_device_epoch :: int
  ac_created_at :: instant
  ac_email_fallback_at :: "instant option"
  ac_deleted_at :: "instant option"

record device =
  dv_id :: uuid
  dv_user_id :: uuid
  dv_epoch :: int
  dv_label :: pystr
  dv_signing_public_key_spki :: bytes
  dv_fingerprint :: bytes
  dv_status :: device_status
  dv_created_at :: instant
  dv_last_seen_at :: instant
  dv_revoked_at :: "instant option"
  dv_linked_by_device_id :: "uuid option"

record session =
  se_id :: uuid
  se_user_id :: uuid
  se_device_id :: uuid
  se_token_hash :: bytes
  se_csrf_hash :: bytes
  se_epoch :: int
  se_created_at :: instant
  se_last_seen_at :: instant
  se_idle_expires_at :: instant
  se_absolute_expires_at :: instant
  se_revoked_at :: "instant option"
  se_revocation_reason :: "pystr option"

record device_challenge =
  ch_id :: uuid
  ch_device_id :: uuid
  ch_nonce_hash :: bytes
  ch_origin :: pystr
  ch_created_at :: instant
  ch_expires_at :: instant
  ch_consumed_at :: "instant option"
  ch_attempt_count :: int

record device_linking_otp =
  ot_id :: uuid
  ot_user_id :: uuid
  ot_issuing_device_id :: uuid
  ot_otp_hash :: bytes
  ot_status :: otp_status
  ot_attempt_count :: int
  ot_created_at :: instant
  ot_expires_at :: instant
  ot_consumed_at :: "instant option"

record websocket_ticket =
  tk_id :: uuid
  tk_session_id :: uuid
  tk_token_hash :: bytes
  tk_created_at :: instant
  tk_expires_at :: instant
  tk_consumed_at :: "instant option"

record transfer_request =
  tr_id :: uuid
  tr_user_id :: uuid
  tr_sender_device_id :: uuid
  tr_recipient_device_id :: uuid
  tr_protocol_version :: int
  tr_status :: transfer_status
  tr_created_at :: instant
  tr_expires_at :: instant
  tr_accepted_at :: "instant option"
  tr_completed_at :: "instant option"
  tr_failure_code :: "pystr option"
  tr_relay_used :: bool

record security_event =
  ev_id :: uuid
  ev_user_id :: "uuid option"
  ev_device_id :: "uuid option"
  ev_event_type :: pystr
  ev_outcome :: pystr
  ev_network_fingerprint :: "bytes option"
  ev_details :: json
  ev_created_at :: instant
  ev_expires_at :: instant

record rate_limit_bucket =
  rb_scope :: pystr
  rb_bucket_key :: bytes
  rb_window_started_at :: instant
  rb_window_expires_at :: instant
  rb_request_count :: int

section \<open>The database\<close>

record db =
  app_users :: "account list"
  devices :: "device list"
  app_sessions :: "session list"
  device_challenges :: "device_challenge list"
  device_linking_otps :: "device_linking_otp list"
  websocket_tickets :: "websocket_ticket list"
  transfer_requests :: "transfer_request list"
  security_events :: "security_event list"
  rate_limit_buckets :: "rate_limit_bucket list"

definition empty_db :: db where
  "empty_db =
     \<lparr>app_users = [], devices = [], app_sessions = [], device_challenges = [],
      device_linking_otps = [], websocket_tickets = [], transfer_requests = [],
      security_events = [], rate_limit_buckets = []\<rparr>"

text \<open>\<open>EXISTS (SELECT 1 FROM app_users AS account WHERE account.id = u AND deleted_at IS NULL)\<close>.\<close>

definition live_account :: "db \<Rightarrow> uuid \<Rightarrow> bool" where
  "live_account d u = list_ex (\<lambda>a. ac_id a = u \<and> ac_deleted_at a = None) (app_users d)"

text \<open>
  The join of \<open>devices\<close> with \<open>app_users\<close> the statements share: the device is active,
  of the account's current epoch, and the account is not deleted.
\<close>

definition active_device :: "db \<Rightarrow> uuid \<Rightarrow> uuid \<Rightarrow> bool" where
  "active_device d u i =
     list_ex
       (\<lambda>v. dv_id v = i \<and> dv_user_id v = u \<and> dv_status v = Active \<and>
            list_ex (\<lambda>a. ac_id a = dv_user_id v \<and> ac_deleted_at a = None \<and>
                         dv_epoch v = ac_device_epoch a)
              (app_users d))
       (devices d)"

text \<open>The table constraints of \<open>transfer_requests\<close>.\<close>

definition transfer_check :: "transfer_request \<Rightarrow> bool" where
  "transfer_check r \<longleftrightarrow>
     tr_sender_device_id r \<noteq> tr_recipient_device_id r \<and>
     1 \<le> tr_protocol_version r \<and> tr_protocol_version r \<le> 32767 \<and>
     tr_created_at r < tr_expires_at r \<and>
     (case tr_accepted_at r of None \<Rightarrow> True | Some a \<Rightarrow> tr_created_at r \<le> a) \<and>
     (case tr_completed_at r of None \<Rightarrow> True
      | Some c \<Rightarrow> (case tr_accepted_at r of None \<Rightarrow> tr_created_at r | Some a \<Rightarrow> a) \<le> c) \<and>
     (tr_status r = Completed) = (tr_completed_at r \<noteq> None) \<and>
     (case tr_failure_code r of None \<Rightarrow> tr_status r \<noteq> Failed
      | Some c \<Rightarrow> tr_status r = Failed \<and> 1 \<le> length c \<and> length c \<le> 64) \<and>
     (tr_status r \<in> {Offered, Rejected, Expired} \<or> tr_accepted_at r \<noteq> None)"

section \<open>Lemmas\<close>

lemma active_device_live [elim]: "active_device d u i \<Longrightarrow> live_account d u"
  by (auto simp: active_device_def live_account_def list_ex_iff)

lemma active_device_iff:
  "active_device d u i \<longleftrightarrow>
     (\<exists>v a. v \<in> set (devices d) \<and> a \<in> set (app_users d) \<and> dv_id v = i \<and> dv_user_id v = u \<and>
            dv_status v = Active \<and> ac_id a = u \<and> ac_deleted_at a = None \<and>
            dv_epoch v = ac_device_epoch a)"
  by (auto simp: active_device_def list_ex_iff)

lemma active_device_cong:
  "app_users d' = app_users d \<Longrightarrow> devices d' = devices d \<Longrightarrow> active_device d' = active_device d"
  by (simp add: active_device_def fun_eq_iff)

lemma live_account_cong: "app_users d' = app_users d \<Longrightarrow> live_account d' = live_account d"
  by (simp add: live_account_def fun_eq_iff)

lemma live_account_transfers [simp]: "live_account (d\<lparr>transfer_requests := t\<rparr>) = live_account d"
  by (rule live_account_cong) simp

lemma active_device_transfers [simp]:
  "active_device (d\<lparr>transfer_requests := t\<rparr>) = active_device d"
  by (rule active_device_cong) simp_all

section \<open>A sample database\<close>

text \<open>One account with two active devices and one transfer of a given status, for the witnesses.\<close>

definition sample_account :: account where
  "sample_account =
     \<lparr>ac_id = 1, ac_supabase_user_id = 2, ac_email_normalized = lit ''a@b'', ac_device_epoch = 0,
      ac_created_at = 0, ac_email_fallback_at = None, ac_deleted_at = None\<rparr>"

definition sample_device :: "uuid \<Rightarrow> device" where
  "sample_device i =
     \<lparr>dv_id = i, dv_user_id = 1, dv_epoch = 0, dv_label = lit ''laptop'',
      dv_signing_public_key_spki = [i], dv_fingerprint = [i], dv_status = Active,
      dv_created_at = 0, dv_last_seen_at = 0, dv_revoked_at = None, dv_linked_by_device_id = None\<rparr>"

definition sample_transfer :: "transfer_status \<Rightarrow> transfer_request" where
  "sample_transfer s =
     \<lparr>tr_id = 7, tr_user_id = 1, tr_sender_device_id = 10, tr_recipient_device_id = 11,
      tr_protocol_version = 1, tr_status = s, tr_created_at = 0, tr_expires_at = 2000000,
      tr_accepted_at = (if s \<in> {Offered, Rejected, Expired} then None else Some 1),
      tr_completed_at = (if s = Completed then Some 2 else None),
      tr_failure_code = (if s = Failed then Some (lit ''x'') else None), tr_relay_used = False\<rparr>"

definition sample_db :: "transfer_status \<Rightarrow> db" where
  "sample_db s =
     empty_db\<lparr>app_users := [sample_account], devices := [sample_device 10, sample_device 11],
              transfer_requests := [sample_transfer s]\<rparr>"

lemmas sample_defs =
  sample_account_def sample_device_def sample_transfer_def sample_db_def empty_db_def

end
