(* ===== verification/SessionRepo.thy ===== *)
theory SessionRepo
  imports Models
begin

text \<open>
  Application sessions: \<open>SessionRepository\<close> of \<open>repositories/sessions.py\<close> on the database and
  \<open>InMemorySessionRepository\<close> of \<open>app/sessions.py\<close> on two dictionaries.  \<open>now\<close> is
  \<open>CURRENT_TIMESTAMP\<close>, or the reading of \<open>datetime.now(UTC)\<close>.
\<close>

section \<open>The table\<close>

definition SESSION_IDLE_LIFETIME :: int where "SESSION_IDLE_LIFETIME = days 30"

definition SESSION_ABSOLUTE_LIFETIME :: int where "SESSION_ABSOLUTE_LIFETIME = days 90"

definition REVOCATION_REASONS :: "pystr list" where
  "REVOCATION_REASONS =
     map lit [''logout'', ''revoked'', ''expired'', ''recovery'', ''device_revoked'', ''account_deleted'',
              ''rotation'', ''security'']"

text \<open>The \<open>CHECK\<close> constraints of \<open>app_sessions\<close>.\<close>

definition session_check :: "session \<Rightarrow> bool" where
  "session_check s \<longleftrightarrow>
     length (se_token_hash s) = 32 \<and> length (se_csrf_hash s) = 32 \<and> 0 \<le> se_epoch s \<and>
     se_created_at s \<le> se_last_seen_at s \<and> se_created_at s < se_idle_expires_at s \<and>
     se_idle_expires_at s \<le> se_absolute_expires_at s \<and>
     (case (se_revoked_at s, se_revocation_reason s) of
        (None, None) \<Rightarrow> True
      | (Some _, Some reason) \<Rightarrow> reason \<in> set REVOCATION_REASONS
      | _ \<Rightarrow> False)"

text \<open>
  The condition on a session that the lookups and the refreshing updates share: not revoked, not
  expired, its account not deleted and its device active, both at the session's epoch.
\<close>

definition session_usable :: "instant \<Rightarrow> session \<Rightarrow> bool" where
  "session_usable now s \<longleftrightarrow>
     se_revoked_at s = None \<and> se_idle_expires_at s > now \<and> se_absolute_expires_at s > now"

definition session_account :: "session \<Rightarrow> account \<Rightarrow> bool" where
  "session_account s a \<longleftrightarrow>
     ac_id a = se_user_id s \<and> ac_deleted_at a = None \<and> ac_device_epoch a = se_epoch s"

definition session_device :: "session \<Rightarrow> device \<Rightarrow> bool" where
  "session_device s v \<longleftrightarrow>
     dv_user_id v = se_user_id s \<and> dv_id v = se_device_id s \<and> dv_status v = Active \<and>
     dv_epoch v = se_epoch s"

definition session_bound :: "db \<Rightarrow> session \<Rightarrow> bool" where
  "session_bound d s \<longleftrightarrow>
     list_ex (session_account s) (app_users d) \<and> list_ex (session_device s) (devices d)"

section \<open>Lookups\<close>

definition sess_get_by_id :: "uuid \<Rightarrow> uuid \<Rightarrow> db \<Rightarrow> session option" where
  "sess_get_by_id account_id session_id d =
     first_row (sql_select (\<lambda>s. se_user_id s = account_id \<and> se_id s = session_id) (app_sessions d))"

definition sess_get_by_token_hash :: "instant \<Rightarrow> uuid \<Rightarrow> bytes \<Rightarrow> db \<Rightarrow> session option" where
  "sess_get_by_token_hash now account_id token_hash d =
     first_row
       (sql_select
          (\<lambda>s. se_user_id s = account_id \<and> se_token_hash s = token_hash \<and> session_usable now s \<and>
               session_bound d s)
          (app_sessions d))"

text \<open>The lookups that join the three tables: one result row per matching account and device.\<close>

definition session_join :: "(session \<Rightarrow> bool) \<Rightarrow> instant \<Rightarrow> db \<Rightarrow> session list" where
  "session_join p now d =
     [s. s \<leftarrow> app_sessions d, a \<leftarrow> app_users d, v \<leftarrow> devices d,
         p s \<and> session_usable now s \<and> session_account s a \<and> session_device s v]"

definition find_by_token_hash :: "instant \<Rightarrow> bytes \<Rightarrow> db \<Rightarrow> session option" where
  "find_by_token_hash now token_hash d =
     first_row (session_join (\<lambda>s. se_token_hash s = token_hash) now d)"

definition find_current_by_id :: "instant \<Rightarrow> uuid \<Rightarrow> db \<Rightarrow> session option" where
  "find_current_by_id now session_id d = first_row (session_join (\<lambda>s. se_id s = session_id) now d)"

definition newest_sessions :: "session list \<Rightarrow> session list" where
  "newest_sessions rs = sort_key (\<lambda>s. - se_created_at s) rs"

definition sess_list_for_account :: "uuid \<Rightarrow> db \<Rightarrow> session list" where
  "sess_list_for_account account_id d =
     newest_sessions (sql_select (\<lambda>s. se_user_id s = account_id) (app_sessions d))"

definition sess_list_by_account :: "uuid \<Rightarrow> db \<Rightarrow> session list" where
  "sess_list_by_account account_id d = sess_list_for_account account_id d"

section \<open>Creation\<close>

definition new_session ::
    "instant \<Rightarrow> uuid \<Rightarrow> uuid \<Rightarrow> uuid \<Rightarrow> bytes \<Rightarrow> bytes \<Rightarrow> int \<Rightarrow> instant \<Rightarrow> instant \<Rightarrow> session" where
  "new_session now fresh account_id device_id token_hash csrf_hash epoch idle_expires_at absolute_expires_at =
     \<lparr>se_id = fresh, se_user_id = account_id, se_device_id = device_id, se_token_hash = token_hash,
      se_csrf_hash = csrf_hash, se_epoch = epoch, se_created_at = now, se_last_seen_at = now,
      se_idle_expires_at = idle_expires_at, se_absolute_expires_at = absolute_expires_at,
      se_revoked_at = None, se_revocation_reason = None\<rparr>"

definition sess_create ::
    "instant \<Rightarrow> uuid \<Rightarrow> uuid \<Rightarrow> uuid \<Rightarrow> bytes \<Rightarrow> bytes \<Rightarrow> int \<Rightarrow> instant \<Rightarrow> instant \<Rightarrow> db \<Rightarrow>
     session res \<times> db" where
  "sess_create now fresh account_id device_id token_hash csrf_hash epoch idle_expires_at
       absolute_expires_at d =
     (let rows =
        [new_session now fresh (ac_id a) (dv_id v) token_hash csrf_hash epoch idle_expires_at
           absolute_expires_at.
           a \<leftarrow> app_users d, v \<leftarrow> devices d,
           dv_user_id v = ac_id a \<and> ac_id a = account_id \<and> ac_deleted_at a = None \<and>
           dv_id v = device_id \<and> dv_status v = Active \<and> dv_epoch v = ac_device_epoch a \<and>
           epoch = ac_device_epoch a]
      in case sql_insert session_check
                (\<lambda>q r. se_id q = se_id r \<or> se_token_hash q = se_token_hash r) rows (app_sessions d) of
           (Inl e, _) \<Rightarrow> (Inl e, d)
         | (Inr out, t) \<Rightarrow> (required_row out, d\<lparr>app_sessions := t\<rparr>))"

section \<open>Updates\<close>

definition sess_update ::
    "(session \<Rightarrow> bool) \<Rightarrow> (session \<Rightarrow> session) \<Rightarrow> db \<Rightarrow> session list res \<times> db" where
  "sess_update p f d =
     (case sql_update session_check p f (app_sessions d) of
        (Inl e, _) \<Rightarrow> (Inl e, d)
      | (Inr rows, t) \<Rightarrow> (Inr rows, d\<lparr>app_sessions := t\<rparr>))"

definition one_row :: "'r list res \<times> 's \<Rightarrow> 'r option res \<times> 's" where
  "one_row = (\<lambda>(res, d). (bind_res res (\<lambda>rows. Inr (first_row rows)), d))"

definition row_count :: "'r list res \<times> 's \<Rightarrow> nat res \<times> 's" where
  "row_count = (\<lambda>(res, d). (bind_res res (\<lambda>rows. Inr (length rows)), d))"

definition touched :: "instant \<Rightarrow> session \<Rightarrow> session" where
  "touched now s =
     s\<lparr>se_last_seen_at := now,
       se_idle_expires_at := min (now + SESSION_IDLE_LIFETIME) (se_absolute_expires_at s)\<rparr>"

definition revoked :: "instant \<Rightarrow> pystr \<Rightarrow> session \<Rightarrow> session" where
  "revoked now reason s =
     s\<lparr>se_revoked_at := coalesce (se_revoked_at s) now, se_revocation_reason := Some reason\<rparr>"

definition touch_last_seen :: "instant \<Rightarrow> uuid \<Rightarrow> uuid \<Rightarrow> db \<Rightarrow> session option res \<times> db" where
  "touch_last_seen now account_id session_id d =
     one_row (sess_update
       (\<lambda>s. se_user_id s = account_id \<and> se_id s = session_id \<and> session_usable now s \<and> session_bound d s)
       (touched now) d)"

definition replace_csrf_hash ::
    "instant \<Rightarrow> uuid \<Rightarrow> uuid \<Rightarrow> bytes \<Rightarrow> db \<Rightarrow> session option res \<times> db" where
  "replace_csrf_hash now account_id session_id csrf_hash d =
     one_row (sess_update
       (\<lambda>s. se_user_id s = account_id \<and> se_id s = session_id \<and> session_usable now s \<and> session_bound d s)
       (\<lambda>s. s\<lparr>se_csrf_hash := csrf_hash\<rparr>) d)"

definition sess_revoke :: "instant \<Rightarrow> uuid \<Rightarrow> uuid \<Rightarrow> pystr \<Rightarrow> db \<Rightarrow> session option res \<times> db" where
  "sess_revoke now account_id session_id reason d =
     one_row (sess_update
       (\<lambda>s. se_user_id s = account_id \<and> se_id s = session_id \<and> se_revoked_at s = None)
       (revoked now reason) d)"

definition revoke_by_token_hash :: "instant \<Rightarrow> uuid \<Rightarrow> bytes \<Rightarrow> pystr \<Rightarrow> db \<Rightarrow> session option res \<times> db" where
  "revoke_by_token_hash now account_id token_hash reason d =
     one_row (sess_update
       (\<lambda>s. se_user_id s = account_id \<and> se_token_hash s = token_hash \<and> se_revoked_at s = None)
       (revoked now reason) d)"

definition revoke_for_device :: "instant \<Rightarrow> uuid \<Rightarrow> uuid \<Rightarrow> pystr \<Rightarrow> db \<Rightarrow> nat res \<times> db" where
  "revoke_for_device now account_id device_id reason d =
     row_count (sess_update
       (\<lambda>s. se_user_id s = account_id \<and> se_device_id s = device_id \<and> se_revoked_at s = None)
       (revoked now reason) d)"

definition revoke_for_account :: "instant \<Rightarrow> uuid \<Rightarrow> pystr \<Rightarrow> db \<Rightarrow> nat res \<times> db" where
  "revoke_for_account now account_id reason d =
     row_count (sess_update
       (\<lambda>s. se_user_id s = account_id \<and> se_revoked_at s = None) (revoked now reason) d)"

section \<open>The in-memory repository\<close>

record session_store =
  ss_records :: "(uuid, session) dict"
  ss_by_token_hash :: "(bytes, uuid) dict"

definition empty_session_store :: session_store where
  "empty_session_store = \<lparr>ss_records = [], ss_by_token_hash = []\<rparr>"

definition ms_create ::
    "instant \<Rightarrow> uuid \<Rightarrow> uuid \<Rightarrow> uuid \<Rightarrow> bytes \<Rightarrow> bytes \<Rightarrow> int \<Rightarrow> instant \<Rightarrow> instant \<Rightarrow> session_store \<Rightarrow>
     session \<times> session_store" where
  "ms_create now fresh account_id device_id token_hash csrf_hash epoch idle_expires_at
       absolute_expires_at st =
     (let record = new_session now fresh account_id device_id token_hash csrf_hash epoch
                     idle_expires_at absolute_expires_at
      in (record,
          st\<lparr>ss_records := dict_set fresh record (ss_records st),
             ss_by_token_hash := dict_set token_hash fresh (ss_by_token_hash st)\<rparr>))"

definition ms_remove :: "uuid \<Rightarrow> uuid \<Rightarrow> session_store \<Rightarrow> bool \<times> session_store" where
  "ms_remove account_id session_id st =
     (case dict_get (ss_records st) session_id of
        None \<Rightarrow> (False, st)
      | Some record \<Rightarrow>
          if se_user_id record \<noteq> account_id then (False, st)
          else (True, st\<lparr>ss_records := dict_del session_id (ss_records st),
                         ss_by_token_hash := dict_del (se_token_hash record) (ss_by_token_hash st)\<rparr>))"

definition ms_find_by_token_hash :: "instant \<Rightarrow> bytes \<Rightarrow> session_store \<Rightarrow> session option" where
  "ms_find_by_token_hash now token_hash st =
     (case dict_get (ss_by_token_hash st) token_hash of
        None \<Rightarrow> None
      | Some record_id \<Rightarrow>
          (case dict_get (ss_records st) record_id of
             None \<Rightarrow> None
           | Some record \<Rightarrow> if session_usable now record then Some record else None))"

definition ms_find_current_by_id :: "instant \<Rightarrow> uuid \<Rightarrow> session_store \<Rightarrow> session option" where
  "ms_find_current_by_id now session_id st =
     (case dict_get (ss_records st) session_id of
        None \<Rightarrow> None
      | Some record \<Rightarrow> if session_usable now record then Some record else None)"

definition ms_get_by_token_hash :: "instant \<Rightarrow> uuid \<Rightarrow> bytes \<Rightarrow> session_store \<Rightarrow> session option" where
  "ms_get_by_token_hash now account_id token_hash st =
     (case ms_find_by_token_hash now token_hash st of
        None \<Rightarrow> None
      | Some record \<Rightarrow> if se_user_id record = account_id then Some record else None)"

definition ms_list_for_account :: "uuid \<Rightarrow> session_store \<Rightarrow> session list" where
  "ms_list_for_account account_id st =
     newest_sessions (filter (\<lambda>s. se_user_id s = account_id) (dict_values (ss_records st)))"

definition ms_touch_last_seen ::
    "instant \<Rightarrow> uuid \<Rightarrow> uuid \<Rightarrow> session_store \<Rightarrow> session option \<times> session_store" where
  "ms_touch_last_seen now account_id session_id st =
     (case dict_get (ss_records st) session_id of
        None \<Rightarrow> (None, st)
      | Some record \<Rightarrow>
          if se_user_id record \<noteq> account_id \<or> \<not> session_usable now record then (None, st)
          else let updated = touched now record
               in (Some updated, st\<lparr>ss_records := dict_set session_id updated (ss_records st)\<rparr>))"

definition ms_replace_csrf_hash ::
    "instant \<Rightarrow> uuid \<Rightarrow> uuid \<Rightarrow> bytes \<Rightarrow> session_store \<Rightarrow> session option \<times> session_store" where
  "ms_replace_csrf_hash now account_id session_id csrf_hash st =
     (case dict_get (ss_records st) session_id of
        None \<Rightarrow> (None, st)
      | Some record \<Rightarrow>
          if se_user_id record \<noteq> account_id \<or> \<not> session_usable now record then (None, st)
          else let updated = record\<lparr>se_csrf_hash := csrf_hash\<rparr>
               in (Some updated, st\<lparr>ss_records := dict_set session_id updated (ss_records st)\<rparr>))"

text \<open>\<open>_replace(record, revoked_at=current, revocation_reason=reason)\<close>.\<close>

definition ms_revoked :: "instant \<Rightarrow> pystr \<Rightarrow> session \<Rightarrow> session" where
  "ms_revoked now reason record =
     record\<lparr>se_revoked_at := Some now, se_revocation_reason := Some reason\<rparr>"

definition ms_revoke ::
    "instant \<Rightarrow> uuid \<Rightarrow> uuid \<Rightarrow> pystr \<Rightarrow> session_store \<Rightarrow> session option \<times> session_store" where
  "ms_revoke now account_id session_id reason st =
     (case dict_get (ss_records st) session_id of
        None \<Rightarrow> (None, st)
      | Some record \<Rightarrow>
          if se_user_id record \<noteq> account_id \<or> se_revoked_at record \<noteq> None then (None, st)
          else let updated = ms_revoked now reason record
               in (Some updated, st\<lparr>ss_records := dict_set session_id updated (ss_records st)\<rparr>))"

definition ms_revoke_by_token_hash ::
    "instant \<Rightarrow> instant \<Rightarrow> uuid \<Rightarrow> bytes \<Rightarrow> pystr \<Rightarrow> session_store \<Rightarrow> session option \<times> session_store" where
  "ms_revoke_by_token_hash t1 t2 account_id token_hash reason st =
     (case ms_get_by_token_hash t1 account_id token_hash st of
        None \<Rightarrow> (None, st)
      | Some record \<Rightarrow> ms_revoke t2 account_id (se_id record) reason st)"

definition ms_revoke_where ::
    "(session \<Rightarrow> bool) \<Rightarrow> instant \<Rightarrow> pystr \<Rightarrow> session_store \<Rightarrow> nat \<times> session_store" where
  "ms_revoke_where p now reason st =
     (let targets = filter (\<lambda>s. p s \<and> se_revoked_at s = None) (dict_values (ss_records st))
      in (length targets,
          st\<lparr>ss_records :=
             fold (\<lambda>s. dict_set (se_id s) (ms_revoked now reason s)) targets (ss_records st)\<rparr>))"

definition ms_revoke_for_device ::
    "instant \<Rightarrow> uuid \<Rightarrow> uuid \<Rightarrow> pystr \<Rightarrow> session_store \<Rightarrow> nat \<times> session_store" where
  "ms_revoke_for_device now account_id device_id reason st =
     ms_revoke_where (\<lambda>s. se_user_id s = account_id \<and> se_device_id s = device_id) now reason st"

definition ms_revoke_for_account ::
    "instant \<Rightarrow> uuid \<Rightarrow> pystr \<Rightarrow> session_store \<Rightarrow> nat \<times> session_store" where
  "ms_revoke_for_account now account_id reason st =
     ms_revoke_where (\<lambda>s. se_user_id s = account_id) now reason st"

section \<open>Facts about the statements\<close>

definition session_inv :: "db \<Rightarrow> bool" where
  "session_inv d \<longleftrightarrow>
     distinct (map se_id (app_sessions d)) \<and> distinct (map se_token_hash (app_sessions d)) \<and>
     list_all session_check (app_sessions d)"

text \<open>What an update may do to a row: a revoked row is not changed any more.\<close>

definition session_evolves :: "session \<Rightarrow> session \<Rightarrow> bool" where
  "session_evolves s s' \<longleftrightarrow>
     se_id s' = se_id s \<and> se_user_id s' = se_user_id s \<and> se_device_id s' = se_device_id s \<and>
     se_token_hash s' = se_token_hash s \<and> se_epoch s' = se_epoch s \<and>
     se_created_at s' = se_created_at s \<and> se_absolute_expires_at s' = se_absolute_expires_at s \<and>
     (se_revoked_at s \<noteq> None \<longrightarrow> s' = s)"

lemma session_evolves_refl [simp]: "session_evolves s s"
  by (simp add: session_evolves_def)

lemma session_evolves_trans: "session_evolves s u \<Longrightarrow> session_evolves u w \<Longrightarrow> session_evolves s w"
  by (cases "se_revoked_at s = None") (auto simp: session_evolves_def)

lemma session_evolves_updates [simp]:
  "session_usable now s \<Longrightarrow> session_evolves s (touched now' s)"
  "session_usable now s \<Longrightarrow> session_evolves s (s\<lparr>se_csrf_hash := h\<rparr>)"
  "se_revoked_at s = None \<Longrightarrow> session_evolves s (revoked now' r s)"
  by (simp_all add: session_evolves_def session_usable_def touched_def revoked_def)

lemma session_bound_cong:
  "app_users d' = app_users d \<Longrightarrow> devices d' = devices d \<Longrightarrow> session_bound d' = session_bound d"
  by (simp add: session_bound_def fun_eq_iff)

lemma sess_update_cases:
  obtains (written) "list_all (\<lambda>s. p s \<longrightarrow> session_check (f s)) (app_sessions d)"
      "sess_update p f d = (Inr (map f (filter p (app_sessions d))),
         d\<lparr>app_sessions := map (\<lambda>s. if p s then f s else s) (app_sessions d)\<rparr>)"
  | (failed) "\<not> list_all (\<lambda>s. p s \<longrightarrow> session_check (f s)) (app_sessions d)"
      "sess_update p f d = (Inl BackendUnavailableError, d)"
  by (cases "list_all (\<lambda>s. p s \<longrightarrow> session_check (f s)) (app_sessions d)")
     (auto simp: sess_update_def sql_update_def)

lemma snd_one_row [simp]: "snd (one_row x) = snd x" "snd (row_count x) = snd x"
  by (simp_all add: one_row_def row_count_def split: prod.split)

text \<open>One update, as the rest of the theory uses it.\<close>

lemma sess_update_evolves:
  assumes "\<And>s. p s \<Longrightarrow> session_evolves s (f s)"
  shows "list_all2 session_evolves (app_sessions d) (app_sessions (snd (sess_update p f d)))"
    and "session_inv d \<Longrightarrow> session_inv (snd (sess_update p f d))"
proof -
  have k: "se_id (if p s then f s else s) = se_id s" "se_token_hash (if p s then f s else s) = se_token_hash s" for s
    using assms [of s] by (simp_all add: session_evolves_def)
  have ids: "map se_id (map (\<lambda>s. if p s then f s else s) xs) = map se_id xs"
    "map se_token_hash (map (\<lambda>s. if p s then f s else s) xs) = map se_token_hash xs" for xs
    by (simp_all add: k)
  show "list_all2 session_evolves (app_sessions d) (app_sessions (snd (sess_update p f d)))"
    by (cases rule: sess_update_cases [of p f d])
       (auto simp: list.rel_map list.rel_refl intro!: list.rel_refl_strong assms)
  assume inv: "session_inv d"
  show "session_inv (snd (sess_update p f d))"
  proof (cases rule: sess_update_cases [of p f d])
    case written
    then have "list_all session_check (map (\<lambda>s. if p s then f s else s) (app_sessions d))"
      using inv by (auto simp: session_inv_def list_all_iff)
    then show ?thesis
      using inv written(2) by (simp add: session_inv_def ids del: map_map)
  qed (use inv in simp)
qed

lemma sess_create_cases:
  obtains (stored) s where "s = new_session now fresh a v th ch ep idle hard"
      "sess_create now fresh a v th ch ep idle hard d = (Inr s, d\<lparr>app_sessions := app_sessions d @ [s]\<rparr>)"
      "session_check s" "fresh \<notin> se_id ` set (app_sessions d)" "th \<notin> se_token_hash ` set (app_sessions d)"
      "session_bound d s"
  | (refused) e where "sess_create now fresh a v th ch ep idle hard d = (Inl e, d)"
proof -
  let ?s = "new_session now fresh a v th ch ep idle hard"
  define rows where "rows = [new_session now fresh (ac_id u) (dv_id w) th ch ep idle hard.
           u \<leftarrow> app_users d, w \<leftarrow> devices d,
           dv_user_id w = ac_id u \<and> ac_id u = a \<and> ac_deleted_at u = None \<and>
           dv_id w = v \<and> dv_status w = Active \<and> dv_epoch w = ac_device_epoch u \<and>
           ep = ac_device_epoch u]"
  have rows_s: "r = ?s \<and> session_bound d ?s" if "r \<in> set rows" for r
    using that unfolding rows_def
    by (fastforce simp: session_bound_def list_ex_iff session_account_def session_device_def new_session_def)
  have out: "sess_create now fresh a v th ch ep idle hard d =
      (case sql_insert session_check (\<lambda>q r. se_id q = se_id r \<or> se_token_hash q = se_token_hash r)
              rows (app_sessions d) of
         (Inl e, _) \<Rightarrow> (Inl e, d) | (Inr out, t) \<Rightarrow> (required_row out, d\<lparr>app_sessions := t\<rparr>))"
    by (simp add: sess_create_def rows_def Let_def)
  show ?thesis
  proof (cases rows)
    case Nil
    then show ?thesis using out by (intro refused) (simp add: sql_insert_def)
  next
    case (Cons r rs)
    show ?thesis
    proof (cases "sql_insert session_check (\<lambda>q r. se_id q = se_id r \<or> se_token_hash q = se_token_hash r)
              rows (app_sessions d)")
      case (Pair res t)
      show ?thesis
      proof (cases res)
        case (Inl e)
        then show ?thesis using out Pair by (intro refused) simp
      next
        case (Inr x)
        have rs: "rs = []"
        proof (rule ccontr)
          assume "rs \<noteq> []"
          then obtain r' rs' where "rs = r' # rs'" by (cases rs) auto
          then show False
            using Inr Pair Cons rows_s by (auto simp: sql_insert_def split: if_splits)
        qed
        have r: "r = ?s" "session_bound d ?s" using rows_s Cons by auto
        have "session_check r" and fresh: "\<forall>q\<in>set (app_sessions d). se_id q \<noteq> se_id r \<and> se_token_hash q \<noteq> se_token_hash r"
          and "x = [r]" "t = app_sessions d @ [r]"
          using Inr Pair Cons rs by (auto simp: sql_insert_def list_all_iff split: if_splits)
        then show ?thesis
          using out Pair Inr r by (intro stored [of ?s]) (auto simp: new_session_def)
      qed
    qed
  qed
qed

lemma session_join_iff:
  "s \<in> set (session_join p now d) \<longleftrightarrow>
     s \<in> set (app_sessions d) \<and> p s \<and> session_usable now s \<and> session_bound d s"
  by (auto simp: session_join_def session_bound_def list_ex_iff)

lemma option_eqI: "(\<And>x. a = Some x \<longleftrightarrow> b = Some x) \<Longrightarrow> a = b"
  by (cases a; cases b) auto

text \<open>A lookup by a unique column finds the row that satisfies the condition.\<close>

lemma first_row_unique:
  assumes "\<And>s. s \<in> set rows \<longleftrightarrow> s \<in> set t \<and> key s = k \<and> P s" and "distinct (map key t)"
  shows "first_row rows = Some s \<longleftrightarrow> s \<in> set t \<and> key s = k \<and> P s"
proof
  assume s: "s \<in> set t \<and> key s = k \<and> P s"
  then obtain r rs where "rows = r # rs" using assms(1) by (metis empty_iff list.exhaust list.set(1))
  moreover from this have "r \<in> set t \<and> key r = k" using assms(1) by auto
  ultimately show "first_row rows = Some s"
    using distinct_key_eq [OF assms(2)] s by force
qed (use assms(1) in \<open>auto dest: first_row_SomeD\<close>)

lemma find_by_token_hash_iff:
  "session_inv d \<Longrightarrow> find_by_token_hash now h d = Some s \<longleftrightarrow>
     s \<in> set (app_sessions d) \<and> se_token_hash s = h \<and> session_usable now s \<and> session_bound d s"
  unfolding find_by_token_hash_def
  by (rule first_row_unique [where key = se_token_hash]) (auto simp: session_join_iff session_inv_def)

lemma find_current_by_id_iff:
  "session_inv d \<Longrightarrow> find_current_by_id now i d = Some s \<longleftrightarrow>
     s \<in> set (app_sessions d) \<and> se_id s = i \<and> session_usable now s \<and> session_bound d s"
  unfolding find_current_by_id_def
  by (rule first_row_unique [where key = se_id]) (auto simp: session_join_iff session_inv_def)

lemma sess_get_by_token_hash_iff:
  "session_inv d \<Longrightarrow> sess_get_by_token_hash now a h d = Some s \<longleftrightarrow>
     s \<in> set (app_sessions d) \<and> se_token_hash s = h \<and>
     se_user_id s = a \<and> session_usable now s \<and> session_bound d s"
  unfolding sess_get_by_token_hash_def
  by (rule first_row_unique [where key = se_token_hash]) (auto simp: sql_select_def session_inv_def)

section \<open>Histories\<close>

text \<open>
  The session table under any interleaving: creations, the updates of the repository by any account
  at any time, and statements on the other tables.  Rows are only deleted by the cleanup job.
\<close>

inductive session_step :: "db \<Rightarrow> db \<Rightarrow> bool" where
  "session_step d (snd (sess_create now fresh a v th ch ep idle hard d))"
| "session_step d (snd (touch_last_seen now a i d))"
| "session_step d (snd (replace_csrf_hash now a i h d))"
| "session_step d (snd (sess_revoke now a i r d))"
| "session_step d (snd (revoke_by_token_hash now a h r d))"
| "session_step d (snd (revoke_for_device now a v r d))"
| "session_step d (snd (revoke_for_account now a r d))"
| "app_sessions d' = app_sessions d \<Longrightarrow> session_step d d'"

lemmas sess_op_defs =
  touch_last_seen_def replace_csrf_hash_def sess_revoke_def revoke_by_token_hash_def
  revoke_for_device_def revoke_for_account_def

text \<open>The table after a step: the old rows, evolved, and perhaps a new one.\<close>

lemma session_step_table:
  assumes "session_step d d'" and "session_inv d"
  obtains old new where "app_sessions d' = old @ new" "list_all2 session_evolves (app_sessions d) old"
    "session_inv d'"
proof -
  note result = that
  have upd: thesis if "d' = snd (sess_update p f d)" "\<And>s. p s \<Longrightarrow> session_evolves s (f s)" for p f
    using sess_update_evolves [of p f d, OF that(2)] that(1) assms(2)
    by (intro result [of "app_sessions d'" "[]"]) auto
  show thesis
    using assms(1)
  proof cases
    case (1 now fresh a v th ch ep idle hard)
    show thesis
    proof (cases rule: sess_create_cases [of now fresh a v th ch ep idle hard d])
      case (stored s)
      then show thesis
        using assms(2) 1
        by (intro that [of "app_sessions d" "[s]"])
           (auto simp: session_inv_def list.rel_refl new_session_def)
    next
      case (refused e)
      then show thesis using assms(2) 1 by (intro that [of "app_sessions d" "[]"]) (auto simp: list.rel_refl)
    qed
  next
    case 8
    then show thesis
      using assms(2) by (intro that [of "app_sessions d" "[]"]) (simp_all add: list.rel_refl session_inv_def)
  qed (auto simp: sess_op_defs intro: upd)
qed

lemma session_steps_table:
  assumes "session_step\<^sup>*\<^sup>* d d'" and "session_inv d"
  shows "session_inv d' \<and> (\<forall>s\<in>set (app_sessions d). \<exists>s'\<in>set (app_sessions d'). session_evolves s s')"
  using assms(1)
proof (induction rule: rtranclp_induct)
  case base
  have "\<exists>s'\<in>set (app_sessions d). session_evolves s s'" if "s \<in> set (app_sessions d)" for s
    using that by (intro bexI [of _ s]) simp_all
  then show ?case using assms(2) by (intro conjI ballI)
next
  case (step y z)
  note y = step.IH [THEN conjunct1] step.IH [THEN conjunct2]
  obtain old new where o: "app_sessions z = old @ new" "list_all2 session_evolves (app_sessions y) old"
    "session_inv z"
    using session_step_table [OF step.hyps(2) y(1)] .
  have "\<exists>s'\<in>set (app_sessions z). session_evolves s s'" if s: "s \<in> set (app_sessions d)" for s
  proof -
    obtain u where u: "u \<in> set (app_sessions y)" "session_evolves s u"
      using bspec [OF y(2) s] by (rule bexE)
    then obtain w where w: "w \<in> set old" "session_evolves u w"
      using o(2) by (metis in_set_conv_nth list_all2_conv_all_nth)
    have "session_evolves s w" using u(2) w(2) by (rule session_evolves_trans)
    then show ?thesis using w(1) o(1) by (intro bexI [of _ w]) simp_all
  qed
  then show ?case using o(3) by (intro conjI ballI)
qed

text \<open>
  The lookups agree with each other and with what a current session is.  On a table with
  unique identifiers and token digests, the joining lookups return a session exactly when it is
  stored under that digest or identifier, not revoked, before both deadlines, and its account
  (not deleted) and device (active) are at its epoch; the nested form \<open>get_by_token_hash\<close>
  returns the same session restricted to the account.
\<close>

theorem session_lookup_exact:
  assumes "session_inv d"
  shows "(find_by_token_hash now h d = Some s \<longleftrightarrow>
            s \<in> set (app_sessions d) \<and> se_token_hash s = h \<and> session_usable now s \<and> session_bound d s) \<and>
         (find_current_by_id now i d = Some s \<longleftrightarrow>
            s \<in> set (app_sessions d) \<and> se_id s = i \<and> session_usable now s \<and> session_bound d s) \<and>
         sess_get_by_token_hash now a h d =
           (case find_by_token_hash now h d of
              None \<Rightarrow> None | Some s \<Rightarrow> if se_user_id s = a then Some s else None)"
proof -
  have "sess_get_by_token_hash now a h d =
      (case find_by_token_hash now h d of None \<Rightarrow> None | Some s \<Rightarrow> if se_user_id s = a then Some s else None)"
  proof (rule option_eqI)
    fix x
    have "sess_get_by_token_hash now a h d = Some x \<longleftrightarrow> find_by_token_hash now h d = Some x \<and> se_user_id x = a"
      using sess_get_by_token_hash_iff [OF assms] find_by_token_hash_iff [OF assms] by blast
    then show "sess_get_by_token_hash now a h d = Some x \<longleftrightarrow>
        (case find_by_token_hash now h d of None \<Rightarrow> None | Some s \<Rightarrow> if se_user_id s = a then Some s else None) = Some x"
      by (auto split: option.split)
  qed
  then show ?thesis
    using find_by_token_hash_iff [OF assms] find_current_by_id_iff [OF assms] by blast
qed

text \<open>The sample database with one session of device 10, last seen at time 0.\<close>

definition sample_session :: session where
  "sample_session =
     new_session 0 5 1 10 (replicate 32 1) (replicate 32 2) 0 (days 30) (days 90)"

definition session_db :: "session list \<Rightarrow> db" where
  "session_db ss = (sample_db Offered)\<lparr>app_sessions := ss\<rparr>"

lemmas sample_session_defs =
  sample_session_def session_db_def new_session_def session_inv_def session_check_def
  session_usable_def session_bound_def session_account_def session_device_def sample_defs time_defs

lemma sample_session_inv: "session_inv (session_db [sample_session])"
  by (simp add: sample_session_defs)

theorem session_lookup_exact_witness:
  "find_by_token_hash 9 (replicate 32 1) (session_db [sample_session]) = Some sample_session"
  using session_lookup_exact [OF sample_session_inv, of 9 "replicate 32 1" sample_session 5 1]
  by (simp add: sample_session_defs)

text \<open>
  C11.  The end of a session is final.  Over any history of statements that do not delete sessions, by
  any account and at any times: a session that was revoked keeps its row exactly as it is, with the
  time and the reason of its revocation, and the lookups of authentication never return it again,
  under its token digest or its identifier; nor do they ever return a session at or after the
  absolute deadline it was created with, however often it is refreshed.
\<close>

theorem session_end_final:
  assumes "session_inv d" and "s \<in> set (app_sessions d)" and "session_step\<^sup>*\<^sup>* d d'"
    and "se_revoked_at s \<noteq> None \<or> se_absolute_expires_at s \<le> now"
  shows "find_by_token_hash now (se_token_hash s) d' = None \<and> find_current_by_id now (se_id s) d' = None \<and>
    (se_revoked_at s \<noteq> None \<longrightarrow> s \<in> set (app_sessions d'))"
proof -
  obtain s' where d': "session_inv d'" "s' \<in> set (app_sessions d')" "session_evolves s s'"
    using session_steps_table [OF assms(3,1)] assms(2) by blast
  have dead: "\<not> session_usable now s'"
    using d'(3) assms(4) by (auto simp: session_evolves_def session_usable_def)
  have key: "se_token_hash s' = se_token_hash s" "se_id s' = se_id s"
    using d'(3) by (simp_all add: session_evolves_def)
  have "u = s'" if "u \<in> set (app_sessions d')" "se_token_hash u = se_token_hash s \<or> se_id u = se_id s" for u
    using that d'(1,2) key distinct_key_eq [of se_token_hash "app_sessions d'" u s']
      distinct_key_eq [of se_id "app_sessions d'" u s'] by (auto simp: session_inv_def)
  then have "find_by_token_hash now (se_token_hash s) d' \<noteq> Some u" "find_current_by_id now (se_id s) d' \<noteq> Some u" for u
    using dead by (auto simp: find_by_token_hash_iff [OF d'(1)] find_current_by_id_iff [OF d'(1)])
  moreover have "se_revoked_at s \<noteq> None \<Longrightarrow> s \<in> set (app_sessions d')"
    using d'(2,3) by (auto simp: session_evolves_def)
  ultimately show ?thesis by (meson not_None_eq)
qed

theorem session_end_final_witness:
  "let s = revoked 8 (lit ''logout'') sample_session;
       d' = snd (sess_revoke 9 1 (se_id s) (lit ''rotation'') (snd (touch_last_seen 9 1 (se_id s) (session_db [s]))))
   in find_by_token_hash 9 (replicate 32 1) d' = None \<and> s \<in> set (app_sessions d')"
proof -
  let ?s = "revoked 8 (lit ''logout'') sample_session"
  let ?d1 = "snd (touch_last_seen 9 1 (se_id ?s) (session_db [?s]))"
  let ?d' = "snd (sess_revoke 9 1 (se_id ?s) (lit ''rotation'') ?d1)"
  have "session_step (session_db [?s]) ?d1" "session_step ?d1 ?d'" by (rule session_step.intros)+
  then have "session_step\<^sup>*\<^sup>* (session_db [?s]) ?d'" by simp
  moreover have "session_inv (session_db [?s])"
    by (simp add: revoked_def REVOCATION_REASONS_def sample_session_defs)
  moreover have "se_token_hash ?s = replicate 32 1" "se_revoked_at ?s \<noteq> None" "?s \<in> set (app_sessions (session_db [?s]))"
    by (simp_all add: revoked_def coalesce_def session_db_def sample_session_def new_session_def)
  ultimately show ?thesis
    using session_end_final [of "session_db [?s]" ?s ?d' 9] by (simp add: Let_def)
qed

text \<open>
  \<open>revoke_for_account\<close> with its default reason never works.  The reason
  \<open>account_cleanup\<close> is not one the table admits, so whenever the account has a session that is not
  revoked, the statement is refused as a whole and all of its sessions stay valid.
\<close>

theorem revoke_for_account_default_raises:
  assumes "s \<in> set (app_sessions d)" and "se_user_id s = a" and "se_revoked_at s = None"
  shows "revoke_for_account now a (lit ''account_cleanup'') d = (Inl BackendUnavailableError, d)"
proof -
  have "\<not> session_check (revoked now (lit ''account_cleanup'') u)" for u
    by (auto simp: session_check_def revoked_def REVOCATION_REASONS_def lit_def coalesce_def split: option.splits)
  then show ?thesis
    using assms unfolding revoke_for_account_def
    by (cases rule: sess_update_cases [of "\<lambda>s. se_user_id s = a \<and> se_revoked_at s = None"
          "revoked now (lit ''account_cleanup'')" d]) (auto simp: list_all_iff row_count_def)
qed

theorem revoke_for_account_default_raises_witness:
  "revoke_for_account 9 1 (lit ''account_cleanup'') (session_db [sample_session]) =
     (Inl BackendUnavailableError, session_db [sample_session])"
  by (rule revoke_for_account_default_raises [of sample_session])
     (simp_all add: session_db_def sample_session_def new_session_def)

end
