(* ===== verification/SessionPort.thy ===== *)
theory SessionPort
  imports SessionRepo
begin

text \<open>
  The session repository as its clients see it: \<open>SessionRepositoryPort\<close> of \<open>app/sessions.py\<close>,
  \<open>SessionQueryPort\<close> of \<open>app/session_api.py\<close> and \<open>CurrentSessionRepositoryPort\<close> of
  \<open>app/presence.py\<close>, as one record of operations.  The locale \<open>session_repository\<close> states what
  the clients rely on; both repositories satisfy it.
\<close>

record 's session_port =
  sp_find_by_token_hash :: "instant \<Rightarrow> bytes \<Rightarrow> 's \<Rightarrow> session option"
  sp_find_current_by_id :: "instant \<Rightarrow> uuid \<Rightarrow> 's \<Rightarrow> session option"
  sp_list_for_account :: "uuid \<Rightarrow> 's \<Rightarrow> session list"
  sp_create ::
    "instant \<Rightarrow> uuid \<Rightarrow> uuid \<Rightarrow> uuid \<Rightarrow> bytes \<Rightarrow> bytes \<Rightarrow> int \<Rightarrow> instant \<Rightarrow> instant \<Rightarrow> 's \<Rightarrow>
     session res \<times> 's"
  sp_touch_last_seen :: "instant \<Rightarrow> uuid \<Rightarrow> uuid \<Rightarrow> 's \<Rightarrow> session option res \<times> 's"
  sp_replace_csrf_hash :: "instant \<Rightarrow> uuid \<Rightarrow> uuid \<Rightarrow> bytes \<Rightarrow> 's \<Rightarrow> session option res \<times> 's"
  sp_revoke :: "instant \<Rightarrow> uuid \<Rightarrow> uuid \<Rightarrow> pystr \<Rightarrow> 's \<Rightarrow> session option res \<times> 's"

definition sql_sessions :: "db session_port" where
  "sql_sessions =
     \<lparr>sp_find_by_token_hash = find_by_token_hash, sp_find_current_by_id = find_current_by_id,
      sp_list_for_account = sess_list_for_account, sp_create = sess_create,
      sp_touch_last_seen = touch_last_seen, sp_replace_csrf_hash = replace_csrf_hash,
      sp_revoke = sess_revoke\<rparr>"

definition returning :: "'a \<times> 's \<Rightarrow> 'a res \<times> 's" where
  "returning x = (Inr (fst x), snd x)"

definition mem_sessions :: "session_store session_port" where
  "mem_sessions =
     \<lparr>sp_find_by_token_hash = ms_find_by_token_hash, sp_find_current_by_id = ms_find_current_by_id,
      sp_list_for_account = ms_list_for_account,
      sp_create = (\<lambda>now fresh a v th ch ep idle hard st.
        returning (ms_create now fresh a v th ch ep idle hard st)),
      sp_touch_last_seen = (\<lambda>now a i st. returning (ms_touch_last_seen now a i st)),
      sp_replace_csrf_hash = (\<lambda>now a i h st. returning (ms_replace_csrf_hash now a i h st)),
      sp_revoke = (\<lambda>now a i r st. returning (ms_revoke now a i r st))\<rparr>"

section \<open>The contract\<close>

text \<open>
  \<open>rows\<close> are the stored sessions, \<open>bound s x\<close> says that the repository still considers the account
  and the device of \<open>x\<close> good in the state \<open>s\<close>.
\<close>

locale session_repository =
  fixes port :: "'s session_port" and rows :: "'s \<Rightarrow> session list" and inv :: "'s \<Rightarrow> bool"
    and bound :: "'s \<Rightarrow> session \<Rightarrow> bool"
  assumes find_law: "inv s \<Longrightarrow> sp_find_by_token_hash port now h s = Some x \<longleftrightarrow>
      x \<in> set (rows s) \<and> se_token_hash x = h \<and> session_usable now x \<and> bound s x"
    and current_law: "inv s \<Longrightarrow> sp_find_current_by_id port now i s = Some x \<longleftrightarrow>
      x \<in> set (rows s) \<and> se_id x = i \<and> session_usable now x \<and> bound s x"
    and list_law: "inv s \<Longrightarrow> x \<in> set (sp_list_for_account port a s) \<longleftrightarrow>
      x \<in> set (rows s) \<and> se_user_id x = a"
    and create_law: "inv s \<Longrightarrow> fresh \<notin> se_id ` set (rows s) \<Longrightarrow> th \<notin> se_token_hash ` set (rows s) \<Longrightarrow>
      sp_create port now fresh a v th ch ep idle hard s = (made, s') \<Longrightarrow>
      inv s' \<and>
      (case made of Inl _ \<Rightarrow> s' = s
       | Inr x \<Rightarrow> x = new_session now fresh a v th ch ep idle hard \<and> rows s' = rows s @ [x] \<and> bound s' x)"
    and touch_live: "inv s \<Longrightarrow> x \<in> set (rows s) \<Longrightarrow> session_usable now x \<Longrightarrow> bound s x \<Longrightarrow> se_created_at x \<le> now \<Longrightarrow>
      \<exists>s'. sp_touch_last_seen port now (se_user_id x) (se_id x) s = (Inr (Some (touched now x)), s')"
    and touch_law: "inv s \<Longrightarrow> sp_touch_last_seen port now a i s = (out, s') \<Longrightarrow>
      inv s' \<and> list_all2 session_evolves (rows s) (rows s') \<and>
      (\<forall>x. out = Inr (Some x) \<longrightarrow> x \<in> set (rows s') \<and>
         (\<exists>y\<in>set (rows s). x = touched now y \<and> se_user_id y = a \<and> se_id y = i \<and> session_usable now y))"
    and csrf_law: "inv s \<Longrightarrow> sp_replace_csrf_hash port now a i h s = (out, s') \<Longrightarrow>
      inv s' \<and> list_all2 session_evolves (rows s) (rows s') \<and>
      (\<forall>x. out = Inr (Some x) \<longrightarrow> x \<in> set (rows s') \<and> se_csrf_hash x = h \<and>
         se_user_id x = a \<and> se_id x = i \<and> session_usable now x)"
    and revoke_law: "inv s \<Longrightarrow> sp_revoke port now a i r s = (out, s') \<Longrightarrow>
      inv s' \<and> list_all2 session_evolves (rows s) (rows s') \<and>
      (\<forall>x. out = Inr (Some x) \<longrightarrow> x \<in> set (rows s') \<and> se_user_id x = a \<and> se_id x = i \<and>
         se_revoked_at x = Some now \<and> se_revocation_reason x = Some r)"
    and unique_law: "inv s \<Longrightarrow> distinct (map se_id (rows s)) \<and> distinct (map se_token_hash (rows s))"

section \<open>The SQL repository\<close>

lemma one_row_update:
  assumes "one_row (sess_update p f d) = (out, d')" and "session_inv d"
    and ev: "\<forall>s. p s \<longrightarrow> session_evolves s (f s)"
  shows "session_inv d' \<and> list_all2 session_evolves (app_sessions d) (app_sessions d') \<and>
    (\<forall>x. out = Inr (Some x) \<longrightarrow> x \<in> set (app_sessions d') \<and> (\<exists>y\<in>set (app_sessions d). p y \<and> x = f y))"
proof -
  have d': "d' = snd (sess_update p f d)" using assms(1) snd_one_row(1) [of "sess_update p f d"] by simp
  have "x \<in> set (app_sessions d') \<and> (\<exists>y\<in>set (app_sessions d). p y \<and> x = f y)" if "out = Inr (Some x)" for x
  proof (cases rule: sess_update_cases [of p f d])
    case written
    then have "first_row (map f (filter p (app_sessions d))) = Some x"
      using assms(1) that by (simp add: one_row_def)
    then obtain y where "y \<in> set (app_sessions d)" "p y" "x = f y" by (auto dest!: first_row_SomeD)
    then show ?thesis using d' written(2) by (auto simp: image_iff)
  next
    case failed
    then show ?thesis using assms(1) that by (simp add: one_row_def)
  qed
  then show ?thesis
    using d' sess_update_evolves [of p f d] ev assms(2) by simp
qed

lemma session_check_touched:
  assumes "session_check x" and "session_usable now x" and "se_created_at x \<le> now"
  shows "session_check (touched now x)"
  using assms by (auto simp: session_check_def touched_def session_usable_def SESSION_IDLE_LIFETIME_def time_defs)

lemma sess_touch_live:
  assumes "session_inv d" and "x \<in> set (app_sessions d)" and "session_usable now x" and "session_bound d x"
    and "se_created_at x \<le> now"
  shows "\<exists>d'. touch_last_seen now (se_user_id x) (se_id x) d = (Inr (Some (touched now x)), d')"
proof -
  let ?p = "\<lambda>s. se_user_id s = se_user_id x \<and> se_id s = se_id x \<and> session_usable now s \<and> session_bound d s"
  have only: "s = x" if "s \<in> set (app_sessions d)" "?p s" for s
    using that assms(1,2) distinct_key_eq [of se_id "app_sessions d" s x] by (simp add: session_inv_def)
  have "filter ?p (app_sessions d) = filter (\<lambda>s. s = x) (app_sessions d)"
    using only assms(3,4) by (intro filter_cong) auto
  also have "\<dots> = [x]"
    using assms(1,2) by (simp add: distinct_filter_eq session_inv_def distinct_map)
  finally have rows: "filter ?p (app_sessions d) = [x]" .
  have "session_check x" using assms(1,2) by (simp add: session_inv_def list_all_iff)
  then have "list_all (\<lambda>s. ?p s \<longrightarrow> session_check (touched now s)) (app_sessions d)"
    using only session_check_touched assms(3,5) by (auto simp: list_all_iff)
  then show ?thesis
    by (cases rule: sess_update_cases [of ?p "touched now" d])
       (auto simp: touch_last_seen_def one_row_def rows)
qed

interpretation sqls: session_repository sql_sessions app_sessions session_inv session_bound
proof unfold_locales
  fix s now fresh a v th ch ep idle hard out s'
  assume "session_inv s" "sp_create sql_sessions now fresh a v th ch ep idle hard s = (out, s')"
  then show "session_inv s' \<and> (case out of Inl _ \<Rightarrow> s' = s
      | Inr x \<Rightarrow> x = new_session now fresh a v th ch ep idle hard \<and> app_sessions s' = app_sessions s @ [x] \<and> session_bound s' x)"
    by (cases rule: sess_create_cases [of now fresh a v th ch ep idle hard s])
       (auto simp: sql_sessions_def session_inv_def new_session_def session_bound_def)
next
  fix s now x
  assume "session_inv s" "x \<in> set (app_sessions s)" "session_usable now x" "session_bound s x" "se_created_at x \<le> now"
  then show "\<exists>s'. sp_touch_last_seen sql_sessions now (se_user_id x) (se_id x) s = (Inr (Some (touched now x)), s')"
    using sess_touch_live by (simp add: sql_sessions_def)
next
  fix s now a i out s'
  assume i: "session_inv s" and e: "sp_touch_last_seen sql_sessions now a i s = (out, s')"
  have "one_row (sess_update (\<lambda>sa. se_user_id sa = a \<and> se_id sa = i \<and> session_usable now sa \<and> session_bound s sa)
      (touched now) s) = (out, s')"
    using e by (simp add: sql_sessions_def touch_last_seen_def)
  moreover have "\<forall>sa. se_user_id sa = a \<and> se_id sa = i \<and> session_usable now sa \<and> session_bound s sa \<longrightarrow> session_evolves sa (touched now sa)"
    by auto
  ultimately have "session_inv s' \<and> list_all2 session_evolves (app_sessions s) (app_sessions s') \<and>
      (\<forall>x. out = Inr (Some x) \<longrightarrow> x \<in> set (app_sessions s') \<and>
         (\<exists>sa\<in>set (app_sessions s). (se_user_id sa = a \<and> se_id sa = i \<and> session_usable now sa \<and> session_bound s sa) \<and> x = touched now sa))"
    by (rule one_row_update [OF _ i])
  then show "session_inv s' \<and> list_all2 session_evolves (app_sessions s) (app_sessions s') \<and>
      (\<forall>x. out = Inr (Some x) \<longrightarrow> x \<in> set (app_sessions s') \<and> (\<exists>y\<in>set (app_sessions s).
         x = touched now y \<and> se_user_id y = a \<and> se_id y = i \<and> session_usable now y))"
    by auto
next
  fix s now a i h out s'
  assume i: "session_inv s" and e: "sp_replace_csrf_hash sql_sessions now a i h s = (out, s')"
  have "one_row (sess_update (\<lambda>sa. se_user_id sa = a \<and> se_id sa = i \<and> session_usable now sa \<and> session_bound s sa)
      (\<lambda>s. s\<lparr>se_csrf_hash := h\<rparr>) s) = (out, s')"
    using e by (simp add: sql_sessions_def replace_csrf_hash_def)
  moreover have "\<forall>sa. se_user_id sa = a \<and> se_id sa = i \<and> session_usable now sa \<and> session_bound s sa \<longrightarrow> session_evolves sa (sa\<lparr>se_csrf_hash := h\<rparr>)"
    by auto
  ultimately have "session_inv s' \<and> list_all2 session_evolves (app_sessions s) (app_sessions s') \<and>
      (\<forall>x. out = Inr (Some x) \<longrightarrow> x \<in> set (app_sessions s') \<and>
         (\<exists>sa\<in>set (app_sessions s). (se_user_id sa = a \<and> se_id sa = i \<and> session_usable now sa \<and> session_bound s sa) \<and> x = sa\<lparr>se_csrf_hash := h\<rparr>))"
    by (rule one_row_update [OF _ i])
  then show "session_inv s' \<and> list_all2 session_evolves (app_sessions s) (app_sessions s') \<and>
      (\<forall>x. out = Inr (Some x) \<longrightarrow> x \<in> set (app_sessions s') \<and> se_csrf_hash x = h \<and>
         se_user_id x = a \<and> se_id x = i \<and> session_usable now x)"
    by (auto simp: session_usable_def)
next
  fix s now a i r out s'
  assume i: "session_inv s" and e: "sp_revoke sql_sessions now a i r s = (out, s')"
  have "one_row (sess_update (\<lambda>sa. se_user_id sa = a \<and> se_id sa = i \<and> se_revoked_at sa = None)
      (revoked now r) s) = (out, s')"
    using e by (simp add: sql_sessions_def sess_revoke_def)
  moreover have "\<forall>sa. se_user_id sa = a \<and> se_id sa = i \<and> se_revoked_at sa = None \<longrightarrow> session_evolves sa (revoked now r sa)"
    by auto
  ultimately have "session_inv s' \<and> list_all2 session_evolves (app_sessions s) (app_sessions s') \<and>
      (\<forall>x. out = Inr (Some x) \<longrightarrow> x \<in> set (app_sessions s') \<and>
         (\<exists>sa\<in>set (app_sessions s). (se_user_id sa = a \<and> se_id sa = i \<and> se_revoked_at sa = None) \<and> x = revoked now r sa))"
    by (rule one_row_update [OF _ i])
  then show "session_inv s' \<and> list_all2 session_evolves (app_sessions s) (app_sessions s') \<and>
      (\<forall>x. out = Inr (Some x) \<longrightarrow> x \<in> set (app_sessions s') \<and> se_user_id x = a \<and> se_id x = i \<and>
         se_revoked_at x = Some now \<and> se_revocation_reason x = Some r)"
    by (auto simp: revoked_def)
qed (simp_all add: sql_sessions_def find_by_token_hash_iff find_current_by_id_iff sess_list_for_account_def
      newest_sessions_def sql_select_def session_inv_def)

section \<open>The in-memory repository\<close>

definition ms_rows :: "session_store \<Rightarrow> session list" where
  "ms_rows st = dict_values (ss_records st)"

definition ms_inv :: "session_store \<Rightarrow> bool" where
  "ms_inv st \<longleftrightarrow>
     dict_ok (ss_records st) \<and> dict_all (\<lambda>i x. se_id x = i) (ss_records st) \<and>
     distinct (map se_token_hash (ms_rows st)) \<and>
     (\<forall>h i. dict_get (ss_by_token_hash st) h = Some i \<longleftrightarrow>
        (\<exists>x\<in>set (ms_rows st). se_token_hash x = h \<and> se_id x = i))"

lemma ms_get_iff:
  assumes "ms_inv st"
  shows "dict_get (ss_records st) i = Some x \<longleftrightarrow> x \<in> set (ms_rows st) \<and> se_id x = i"
proof -
  have ok: "dict_ok (ss_records st)" and key: "\<forall>(i, x)\<in>set (ss_records st). se_id x = i"
    using assms by (auto simp: ms_inv_def dict_all_def list_all_iff)
  show ?thesis
    unfolding dict_get_iff [OF ok] ms_rows_def dict_values_def using key by force
qed

lemma ms_rows_set:
  assumes "dict_get (ss_records st) i = Some y" and that: "dict_ok (ss_records st)"
  shows "ms_rows (st\<lparr>ss_records := dict_set i x (ss_records st)\<rparr>) =
           map (\<lambda>(k, z). if k = i then x else z) (ss_records st)"
proof (cases st)
  case (fields R H)
  have "dict_get R i = Some y \<Longrightarrow> dict_ok R \<Longrightarrow>
      dict_values (dict_set i x R) = map (\<lambda>(k, z). if k = i then x else z) R"
  proof (induction R)
    case (Cons p R)
    have "map (\<lambda>(k, z). if k = i then x else z) R = map snd R" if "fst p = i"
      using Cons.prems(2) that by (auto simp: dict_ok_def intro!: map_cong) (metis fst_conv imageI)
    then show ?case
      using Cons by (cases p) (auto simp: dict_get_def dict_set_def dict_values_def dict_ok_def)
  qed simp
  then show ?thesis using fields assms that by (simp add: ms_rows_def)
qed

text \<open>Replacing a stored record by one that evolved from it.\<close>

lemma ms_replace:
  assumes "ms_inv st" and "dict_get (ss_records st) i = Some y" and "session_evolves y x"
  defines "st' \<equiv> st\<lparr>ss_records := dict_set i x (ss_records st)\<rparr>"
  shows "ms_inv st' \<and> list_all2 session_evolves (ms_rows st) (ms_rows st') \<and> x \<in> set (ms_rows st')"
proof -
  have ok: "dict_ok (ss_records st)" using assms(1) by (simp add: ms_inv_def)
  have rows: "ms_rows st' = map (\<lambda>(k, z). if k = i then x else z) (ss_records st)"
    using ms_rows_set [OF assms(2) ok] by (simp add: st'_def)
  have y: "(i, y) \<in> set (ss_records st)" using assms(2) by (rule dict_get_SomeD)
  have only: "z = y" if "(i, z) \<in> set (ss_records st)" for z
    using that assms(2) ok by (metis dict_get_iff option.inject)
  have ev: "list_all2 session_evolves (ms_rows st) (ms_rows st')"
    unfolding rows by (auto simp: ms_rows_def dict_values_def list.rel_map intro!: list.rel_refl_strong assms(3) dest: only)
  have th: "map se_token_hash (ms_rows st') = map se_token_hash (ms_rows st)"
    and ids: "map (\<lambda>z. (se_token_hash z, se_id z)) (ms_rows st') = map (\<lambda>z. (se_token_hash z, se_id z)) (ms_rows st)"
    using ev by (induction rule: list_all2_induct) (auto simp: session_evolves_def)
  have id: "se_id x = i"
    using assms(2,3) ms_get_iff [OF assms(1), of i y] by (simp add: session_evolves_def)
  have pair: "(\<exists>z\<in>set xs. se_token_hash z = h \<and> se_id z = j) \<longleftrightarrow>
      (h, j) \<in> set (map (\<lambda>z. (se_token_hash z, se_id z)) xs)" for xs h j
    by auto
  have pairs: "(\<exists>z\<in>set (ms_rows st'). se_token_hash z = h \<and> se_id z = j) \<longleftrightarrow>
      (\<exists>z\<in>set (ms_rows st). se_token_hash z = h \<and> se_id z = j)" for h j
    unfolding pair ids ..
  have "ms_inv st'"
    using assms(1) id unfolding ms_inv_def th pairs by (simp add: st'_def dict_all_set)
  moreover have "x \<in> set (ms_rows st')" using y by (force simp: rows)
  ultimately show ?thesis using ev by simp
qed

lemma returning_eq: "returning x = (out, s') \<longleftrightarrow> out = Inr (fst x) \<and> s' = snd x"
  by (auto simp: returning_def)

text \<open>The three updates have one shape: nothing, or a usable record replaced by an evolved one.\<close>

lemma ms_update_law:
  assumes "ms_inv st" and "(case dict_get (ss_records st) i of
        None \<Rightarrow> (None, st)
      | Some y \<Rightarrow>
          if n y then (None, st)
          else let x = f y in (Some x, st\<lparr>ss_records := dict_set i x (ss_records st)\<rparr>)) = (out, st')"
    and "\<forall>y. \<not> n y \<longrightarrow> session_evolves y (f y)"
  shows "ms_inv st' \<and> list_all2 session_evolves (ms_rows st) (ms_rows st') \<and>
    (\<forall>x. out = Some x \<longrightarrow> x \<in> set (ms_rows st') \<and> (\<exists>y\<in>set (ms_rows st). se_id y = i \<and> \<not> n y \<and> x = f y))"
proof (cases "\<exists>y. dict_get (ss_records st) i = Some y \<and> \<not> n y")
  case False
  then have "out = None" "st' = st"
    using assms(2) by (auto split: option.splits)
  then show ?thesis using assms(1) by (simp add: list.rel_refl)
next
  case True
  then obtain y where y: "dict_get (ss_records st) i = Some y" "\<not> n y" by blast
  then have o: "out = Some (f y)" "st' = st\<lparr>ss_records := dict_set i (f y) (ss_records st)\<rparr>"
    using assms(2) by (simp_all add: Let_def)
  have "y \<in> set (ms_rows st) \<and> se_id y = i" using ms_get_iff [OF assms(1)] y(1) by blast
  then show ?thesis
    using o y(2) ms_replace [OF assms(1) y(1) assms(3) [rule_format, OF y(2)]] by blast
qed

lemma ms_create_law:
  assumes "ms_inv st" and "fresh \<notin> se_id ` set (ms_rows st)" and "th \<notin> se_token_hash ` set (ms_rows st)"
    and "ms_create now fresh a v th ch ep idle hard st = (x, st')"
  shows "ms_inv st' \<and> x = new_session now fresh a v th ch ep idle hard \<and> ms_rows st' = ms_rows st @ [x]"
proof -
  have x: "x = new_session now fresh a v th ch ep idle hard"
    and st': "st' = st\<lparr>ss_records := dict_set fresh x (ss_records st),
                     ss_by_token_hash := dict_set th fresh (ss_by_token_hash st)\<rparr>"
    using assms(4) by (auto simp: ms_create_def Let_def)
  have "fst ` set (ss_records st) = se_id ` set (ms_rows st)"
    using assms(1) unfolding ms_inv_def ms_rows_def dict_values_def dict_all_def list_all_iff
    by (auto simp: image_iff) force+
  then have new: "fresh \<notin> fst ` set (ss_records st)" using assms(2) by simp
  have "dict_values (dict_set k z d) = dict_values d @ [z]" if "k \<notin> fst ` set d"
    for k :: uuid and z :: session and d
    using that by (induction d) (auto simp: dict_values_def dict_set_def)
  then have rows: "ms_rows st' = ms_rows st @ [x]" using new by (simp add: ms_rows_def st')
  have "se_id x = fresh" "se_token_hash x = th" by (simp_all add: x new_session_def)
  then have "ms_inv st'"
    using assms(1-3) unfolding ms_inv_def rows
    by (auto simp: st' dict_all_set) (metis imageI)+
  then show ?thesis using x rows by simp
qed

lemma ms_find_iff:
  assumes "ms_inv st"
  shows "ms_find_by_token_hash now h st = Some x \<longleftrightarrow>
    x \<in> set (ms_rows st) \<and> se_token_hash x = h \<and> session_usable now x"
proof (cases "dict_get (ss_by_token_hash st) h")
  case None
  moreover have "\<not> (x \<in> set (ms_rows st) \<and> se_token_hash x = h)"
    using None assms unfolding ms_inv_def by (metis option.distinct(1))
  ultimately show ?thesis by (auto simp: ms_find_by_token_hash_def)
next
  case (Some j)
  then obtain y where y: "y \<in> set (ms_rows st)" "se_token_hash y = h" "se_id y = j"
    using assms by (auto simp: ms_inv_def)
  then have "dict_get (ss_records st) j = Some y" using ms_get_iff [OF assms] by blast
  moreover have "x = y" if "x \<in> set (ms_rows st)" "se_token_hash x = h"
    using that y assms distinct_key_eq [of se_token_hash "ms_rows st" x y] by (simp add: ms_inv_def)
  ultimately show ?thesis
    using Some y by (auto simp: ms_find_by_token_hash_def)
qed

interpretation mems: session_repository mem_sessions ms_rows ms_inv "\<lambda>_ _. True"
proof unfold_locales
  fix s now h x
  assume "ms_inv s"
  from ms_find_iff [OF this] show "sp_find_by_token_hash mem_sessions now h s = Some x \<longleftrightarrow>
      x \<in> set (ms_rows s) \<and> se_token_hash x = h \<and> session_usable now x \<and> True"
    by (simp add: mem_sessions_def)
next
  fix s now i x
  assume "ms_inv s"
  then have "dict_get (ss_records s) i = Some y \<longleftrightarrow> y \<in> set (ms_rows s) \<and> se_id y = i" for y
    by (rule ms_get_iff)
  moreover have "sp_find_current_by_id mem_sessions now i s = Some x \<longleftrightarrow>
      dict_get (ss_records s) i = Some x \<and> session_usable now x"
    by (auto simp: mem_sessions_def ms_find_current_by_id_def split: option.split)
  ultimately show "sp_find_current_by_id mem_sessions now i s = Some x \<longleftrightarrow>
      x \<in> set (ms_rows s) \<and> se_id x = i \<and> session_usable now x \<and> True"
    by simp
next
  fix s now fresh a v th ch ep idle hard made s'
  assume i: "ms_inv s" "fresh \<notin> se_id ` set (ms_rows s)" "th \<notin> se_token_hash ` set (ms_rows s)"
    and "sp_create mem_sessions now fresh a v th ch ep idle hard s = (made, s')"
  then obtain x where x: "made = Inr x" "ms_create now fresh a v th ch ep idle hard s = (x, s')"
    by (auto simp: mem_sessions_def returning_def prod_eq_iff)
  from ms_create_law [OF i x(2)] show "ms_inv s' \<and> (case made of Inl _ \<Rightarrow> s' = s
      | Inr x \<Rightarrow> x = new_session now fresh a v th ch ep idle hard \<and> ms_rows s' = ms_rows s @ [x] \<and> True)"
    by (simp add: x(1))
next
  fix s now x
  assume "ms_inv s" "x \<in> set (ms_rows s)" "session_usable now x"
  then show "\<exists>s'. sp_touch_last_seen mem_sessions now (se_user_id x) (se_id x) s = (Inr (Some (touched now x)), s')"
    using ms_get_iff [of s "se_id x" x] by (simp add: mem_sessions_def ms_touch_last_seen_def returning_def Let_def)
next
  fix s now a i out s'
  assume i: "ms_inv s" and "sp_touch_last_seen mem_sessions now a i s = (out, s')"
  then obtain q where q: "out = Inr q" "ms_touch_last_seen now a i s = (q, s')"
    by (auto simp: mem_sessions_def returning_def prod_eq_iff)
  have "\<forall>y. \<not> (se_user_id y \<noteq> a \<or> \<not> session_usable now y) \<longrightarrow> session_evolves y (touched now y)"
    by (auto simp: ms_revoked_def session_evolves_def session_usable_def touched_def)
  from ms_update_law [OF i q(2) [unfolded ms_touch_last_seen_def] this]
  show "ms_inv s' \<and> list_all2 session_evolves (ms_rows s) (ms_rows s') \<and>
      (\<forall>x. out = Inr (Some x) \<longrightarrow> x \<in> set (ms_rows s') \<and> (\<exists>y\<in>set (ms_rows s).
         x = touched now y \<and> se_user_id y = a \<and> se_id y = i \<and> session_usable now y))"
    by (auto simp: q(1))
next
  fix s now a i h out s'
  assume i: "ms_inv s" and "sp_replace_csrf_hash mem_sessions now a i h s = (out, s')"
  then obtain q where q: "out = Inr q" "ms_replace_csrf_hash now a i h s = (q, s')"
    by (auto simp: mem_sessions_def returning_def prod_eq_iff)
  have "\<forall>y. \<not> (se_user_id y \<noteq> a \<or> \<not> session_usable now y) \<longrightarrow> session_evolves y (y\<lparr>se_csrf_hash := h\<rparr>)"
    by (auto simp: ms_revoked_def session_evolves_def session_usable_def touched_def)
  from ms_update_law [OF i q(2) [unfolded ms_replace_csrf_hash_def] this]
  show "ms_inv s' \<and> list_all2 session_evolves (ms_rows s) (ms_rows s') \<and>
      (\<forall>x. out = Inr (Some x) \<longrightarrow> x \<in> set (ms_rows s') \<and> se_csrf_hash x = h \<and>
         se_user_id x = a \<and> se_id x = i \<and> session_usable now x)"
    by (auto simp: q(1) session_usable_def)
next
  fix s now a i r out s'
  assume i: "ms_inv s" and "sp_revoke mem_sessions now a i r s = (out, s')"
  then obtain q where q: "out = Inr q" "ms_revoke now a i r s = (q, s')"
    by (auto simp: mem_sessions_def returning_def prod_eq_iff)
  have "\<forall>y. \<not> (se_user_id y \<noteq> a \<or> se_revoked_at y \<noteq> None) \<longrightarrow> session_evolves y (ms_revoked now r y)"
    by (auto simp: ms_revoked_def session_evolves_def session_usable_def touched_def)
  from ms_update_law [OF i q(2) [unfolded ms_revoke_def] this]
  show "ms_inv s' \<and> list_all2 session_evolves (ms_rows s) (ms_rows s') \<and>
      (\<forall>x. out = Inr (Some x) \<longrightarrow> x \<in> set (ms_rows s') \<and> se_user_id x = a \<and> se_id x = i \<and>
         se_revoked_at x = Some now \<and> se_revocation_reason x = Some r)"
    by (auto simp: q(1) ms_revoked_def)
next
  fix s
  assume i: "ms_inv s"
  have "map se_id (ms_rows s) = map fst (ss_records s)"
    using i by (auto simp: ms_inv_def ms_rows_def dict_values_def dict_all_def list_all_iff)
  then show "distinct (map se_id (ms_rows s)) \<and> distinct (map se_token_hash (ms_rows s))"
    using i by (simp add: ms_inv_def dict_ok_def)
qed (auto simp: mem_sessions_def ms_list_for_account_def newest_sessions_def ms_rows_def)

end
