(* ===== verification/TicketRepo.thy ===== *)
theory TicketRepo
  imports SessionPort
begin

text \<open>
  The WebSocket ticket repositories of \<open>repositories/websocket_tickets.py\<close>: the SQL statements of
  \<open>WebSocketTicketRepository\<close> on the tables, and \<open>InMemoryWebSocketTicketRepository\<close> on
  dictionaries.  The in-memory \<open>_consume\<close> looks its session up between two critical sections; the
  sections are separate definitions, so that a history may interleave them.
\<close>

section \<open>The SQL repository\<close>

definition ticket_check :: "websocket_ticket \<Rightarrow> bool" where
  "ticket_check t \<longleftrightarrow>
     length (tk_token_hash t) = 32 \<and> tk_created_at t < tk_expires_at t \<and>
     (case tk_consumed_at t of None \<Rightarrow> True | Some c \<Rightarrow> tk_created_at t \<le> c)"

definition ticket_open :: "instant \<Rightarrow> websocket_ticket \<Rightarrow> bool" where
  "ticket_open now t \<longleftrightarrow> tk_consumed_at t = None \<and> tk_expires_at t > now"

text \<open>
  The session a ticket is bound to is current and of the account, if one is asked for: the join of
  \<open>app_sessions\<close>, \<open>app_users\<close> and \<open>devices\<close> the statements share.
\<close>

definition ticket_session :: "instant \<Rightarrow> uuid option \<Rightarrow> db \<Rightarrow> uuid \<Rightarrow> bool" where
  "ticket_session now account_id d session_id =
     list_ex (\<lambda>s. se_id s = session_id \<and> (case account_id of None \<Rightarrow> True | Some a \<Rightarrow> se_user_id s = a) \<and>
                  session_usable now s \<and> session_bound d s) (app_sessions d)"

definition tk_get_by_id :: "uuid \<Rightarrow> uuid \<Rightarrow> db \<Rightarrow> websocket_ticket option" where
  "tk_get_by_id account_id ticket_id d =
     first_row [t. t \<leftarrow> websocket_tickets d, s \<leftarrow> app_sessions d, a \<leftarrow> app_users d,
                  se_id s = tk_session_id t \<and> ac_id a = se_user_id s \<and> ac_id a = account_id \<and>
                  tk_id t = ticket_id \<and> ac_deleted_at a = None]"

definition tk_get_by_token_hash :: "instant \<Rightarrow> uuid \<Rightarrow> bytes \<Rightarrow> db \<Rightarrow> websocket_ticket option" where
  "tk_get_by_token_hash now account_id token_hash d =
     first_row [t. t \<leftarrow> websocket_tickets d, s \<leftarrow> app_sessions d, a \<leftarrow> app_users d, v \<leftarrow> devices d,
                  se_id s = tk_session_id t \<and> ac_id a = se_user_id s \<and> dv_id v = se_device_id s \<and>
                  dv_user_id v = ac_id a \<and> ac_id a = account_id \<and> tk_token_hash t = token_hash \<and>
                  ticket_open now t \<and> ac_deleted_at a = None \<and> session_usable now s \<and>
                  se_epoch s = ac_device_epoch a \<and> dv_status v = Active \<and> dv_epoch v = ac_device_epoch a]"

definition new_ticket :: "instant \<Rightarrow> uuid \<Rightarrow> uuid \<Rightarrow> bytes \<Rightarrow> instant \<Rightarrow> websocket_ticket" where
  "new_ticket now fresh session_id token_hash expires_at =
     \<lparr>tk_id = fresh, tk_session_id = session_id, tk_token_hash = token_hash, tk_created_at = now,
      tk_expires_at = expires_at, tk_consumed_at = None\<rparr>"

definition tk_create ::
    "instant \<Rightarrow> uuid \<Rightarrow> uuid \<Rightarrow> uuid \<Rightarrow> bytes \<Rightarrow> instant \<Rightarrow> db \<Rightarrow> websocket_ticket res \<times> db" where
  "tk_create now fresh account_id session_id token_hash expires_at d =
     (let rows =
        [new_ticket now fresh (se_id s) token_hash expires_at.
           s \<leftarrow> app_sessions d, a \<leftarrow> app_users d, v \<leftarrow> devices d,
           ac_id a = se_user_id s \<and> dv_id v = se_device_id s \<and> dv_user_id v = ac_id a \<and>
           ac_id a = account_id \<and> se_id s = session_id \<and> ac_deleted_at a = None \<and> session_usable now s \<and>
           se_epoch s = ac_device_epoch a \<and> dv_status v = Active \<and> dv_epoch v = ac_device_epoch a]
      in case sql_insert ticket_check
                (\<lambda>q r. tk_id q = tk_id r \<or> tk_token_hash q = tk_token_hash r) rows (websocket_tickets d) of
           (Inl e, _) \<Rightarrow> (Inl e, d)
         | (Inr out, t) \<Rightarrow> (required_row out, d\<lparr>websocket_tickets := t\<rparr>))"

text \<open>The \<open>UPDATE\<close> the three consuming statements share: \<open>p\<close> selects the ticket.\<close>

definition tk_consume_where ::
    "(websocket_ticket \<Rightarrow> bool) \<Rightarrow> uuid option \<Rightarrow> instant \<Rightarrow> db \<Rightarrow> websocket_ticket option res \<times> db" where
  "tk_consume_where p account_id now d =
     (case sql_update ticket_check
             (\<lambda>t. p t \<and> ticket_open now t \<and> ticket_session now account_id d (tk_session_id t))
             (\<lambda>t. t\<lparr>tk_consumed_at := Some now\<rparr>) (websocket_tickets d) of
        (Inl e, _) \<Rightarrow> (Inl e, d)
      | (Inr rows, t) \<Rightarrow> (Inr (first_row rows), d\<lparr>websocket_tickets := t\<rparr>))"

definition tk_consume :: "instant \<Rightarrow> uuid \<Rightarrow> bytes \<Rightarrow> db \<Rightarrow> websocket_ticket option res \<times> db" where
  "tk_consume now account_id token_hash d =
     tk_consume_where (\<lambda>t. tk_token_hash t = token_hash) (Some account_id) now d"

definition tk_consume_for_socket :: "instant \<Rightarrow> bytes \<Rightarrow> db \<Rightarrow> websocket_ticket option res \<times> db" where
  "tk_consume_for_socket now token_hash d =
     tk_consume_where (\<lambda>t. tk_token_hash t = token_hash) None now d"

definition tk_consume_by_id :: "instant \<Rightarrow> uuid \<Rightarrow> uuid \<Rightarrow> db \<Rightarrow> websocket_ticket option res \<times> db" where
  "tk_consume_by_id now account_id ticket_id d =
     tk_consume_where (\<lambda>t. tk_id t = ticket_id) (Some account_id) now d"

definition tk_consume_by_token_hash :: "instant \<Rightarrow> uuid \<Rightarrow> bytes \<Rightarrow> db \<Rightarrow> websocket_ticket option res \<times> db" where
  "tk_consume_by_token_hash now account_id token_hash d = tk_consume now account_id token_hash d"

section \<open>The in-memory repository\<close>

record ticket_store =
  ts_records :: "(uuid, websocket_ticket) dict"
  ts_accounts :: "(uuid, uuid) dict"
  ts_by_token_hash :: "(bytes, uuid) dict"

definition empty_ticket_store :: ticket_store where
  "empty_ticket_store = \<lparr>ts_records = [], ts_accounts = [], ts_by_token_hash = []\<rparr>"

text \<open>
  \<open>sessions\<close> is the lookup \<open>find_current_by_id\<close> of the session repository the store was built with,
  at the time of the call; \<open>None\<close> when there is no repository, or one without the lookup.
\<close>

type_synonym session_lookup = "(uuid \<Rightarrow> session option) option"

definition session_is_current :: "session_lookup \<Rightarrow> uuid \<Rightarrow> uuid \<Rightarrow> bool" where
  "session_is_current sessions account_id session_id =
     (case sessions of
        None \<Rightarrow> True
      | Some lookup \<Rightarrow> (case lookup session_id of None \<Rightarrow> False | Some s \<Rightarrow> se_user_id s = account_id))"

definition mt_get_by_id :: "uuid \<Rightarrow> uuid \<Rightarrow> ticket_store \<Rightarrow> websocket_ticket option" where
  "mt_get_by_id account_id ticket_id st =
     (case dict_get (ts_records st) ticket_id of
        None \<Rightarrow> None
      | Some record \<Rightarrow> if dict_get (ts_accounts st) ticket_id \<noteq> Some account_id then None else Some record)"

definition record_for_token :: "bytes \<Rightarrow> ticket_store \<Rightarrow> websocket_ticket option \<times> uuid option" where
  "record_for_token token_hash st =
     (case dict_get (ts_by_token_hash st) token_hash of
        None \<Rightarrow> (None, None)
      | Some ticket_id \<Rightarrow> (dict_get (ts_records st) ticket_id, dict_get (ts_accounts st) ticket_id))"

definition is_usable :: "instant \<Rightarrow> websocket_ticket \<Rightarrow> bool" where
  "is_usable now record \<longleftrightarrow> tk_consumed_at record = None \<and> tk_expires_at record > now"

definition mt_get_by_token_hash ::
    "session_lookup \<Rightarrow> instant \<Rightarrow> uuid \<Rightarrow> bytes \<Rightarrow> ticket_store \<Rightarrow> websocket_ticket option" where
  "mt_get_by_token_hash sessions now account_id token_hash st =
     (case record_for_token token_hash st of
        (Some record, owner) \<Rightarrow>
          if owner \<noteq> Some account_id \<or> \<not> is_usable now record then None
          else if \<not> session_is_current sessions account_id (tk_session_id record) then None
          else Some record
      | (None, _) \<Rightarrow> None)"

text \<open>\<open>create\<close>: the checks, and then the critical section.\<close>

definition mt_store :: "uuid \<Rightarrow> websocket_ticket \<Rightarrow> ticket_store \<Rightarrow> websocket_ticket res \<times> ticket_store" where
  "mt_store account_id record st =
     (if dict_get (ts_by_token_hash st) (tk_token_hash record) \<noteq> None then (Inl ValueError, st)
      else (Inr record,
            st\<lparr>ts_records := dict_set (tk_id record) record (ts_records st),
               ts_accounts := dict_set (tk_id record) account_id (ts_accounts st),
               ts_by_token_hash := dict_set (tk_token_hash record) (tk_id record) (ts_by_token_hash st)\<rparr>))"

definition mt_create ::
    "session_lookup \<Rightarrow> instant \<Rightarrow> uuid \<Rightarrow> uuid \<Rightarrow> uuid \<Rightarrow> bytes \<Rightarrow> instant \<Rightarrow> ticket_store \<Rightarrow>
     websocket_ticket res \<times> ticket_store" where
  "mt_create sessions current fresh account_id session_id token_hash expires_at st =
     (if expires_at \<le> current then (Inl ValueError, st)
      else if length token_hash \<noteq> 32 then (Inl ValueError, st)
      else if \<not> session_is_current sessions account_id session_id then (Inl RuntimeError, st)
      else mt_store account_id (new_ticket current fresh session_id token_hash expires_at) st)"

text \<open>\<open>_consume\<close>: the candidate that is read first, and the critical section that takes it.\<close>

definition mt_candidate ::
    "session_lookup \<Rightarrow> instant \<Rightarrow> bytes \<Rightarrow> uuid option \<Rightarrow> ticket_store \<Rightarrow> (websocket_ticket \<times> uuid) option" where
  "mt_candidate sessions now token_hash account_id st =
     (case record_for_token token_hash st of
        (Some record, Some owner) \<Rightarrow>
          if (account_id \<noteq> None \<and> account_id \<noteq> Some owner) \<or> \<not> is_usable now record then None
          else if \<not> session_is_current sessions owner (tk_session_id record) then None
          else Some (record, owner)
      | _ \<Rightarrow> None)"

definition mt_take ::
    "instant \<Rightarrow> websocket_ticket \<Rightarrow> uuid \<Rightarrow> ticket_store \<Rightarrow> websocket_ticket option \<times> ticket_store" where
  "mt_take current record owner st =
     (case dict_get (ts_records st) (tk_id record) of
        None \<Rightarrow> (None, st)
      | Some latest \<Rightarrow>
          if tk_consumed_at latest \<noteq> None \<or> tk_expires_at latest \<le> current \<or>
             dict_get (ts_accounts st) (tk_id record) \<noteq> Some owner
          then (None, st)
          else let consumed = latest\<lparr>tk_consumed_at := Some current\<rparr>
               in (Some consumed, st\<lparr>ts_records := dict_set (tk_id latest) consumed (ts_records st)\<rparr>))"

definition mt_do_consume ::
    "session_lookup \<Rightarrow> instant \<Rightarrow> instant \<Rightarrow> bytes \<Rightarrow> uuid option \<Rightarrow> ticket_store \<Rightarrow>
     websocket_ticket option \<times> ticket_store" where
  "mt_do_consume sessions t1 t2 token_hash account_id st =
     (case mt_candidate sessions t1 token_hash account_id st of
        None \<Rightarrow> (None, st)
      | Some (record, owner) \<Rightarrow> mt_take t2 record owner st)"

definition mt_consume ::
    "session_lookup \<Rightarrow> instant \<Rightarrow> instant \<Rightarrow> uuid \<Rightarrow> bytes \<Rightarrow> ticket_store \<Rightarrow>
     websocket_ticket option \<times> ticket_store" where
  "mt_consume sessions t1 t2 account_id token_hash st =
     mt_do_consume sessions t1 t2 token_hash (Some account_id) st"

definition mt_consume_for_socket ::
    "session_lookup \<Rightarrow> instant \<Rightarrow> instant \<Rightarrow> bytes \<Rightarrow> ticket_store \<Rightarrow> websocket_ticket option \<times> ticket_store" where
  "mt_consume_for_socket sessions t1 t2 token_hash st = mt_do_consume sessions t1 t2 token_hash None st"

definition mt_consume_by_id ::
    "session_lookup \<Rightarrow> instant \<Rightarrow> instant \<Rightarrow> uuid \<Rightarrow> uuid \<Rightarrow> ticket_store \<Rightarrow>
     websocket_ticket option \<times> ticket_store" where
  "mt_consume_by_id sessions t1 t2 account_id ticket_id st =
     (case dict_get (ts_records st) ticket_id of
        None \<Rightarrow> (None, st)
      | Some record \<Rightarrow>
          if dict_get (ts_accounts st) ticket_id \<noteq> Some account_id then (None, st)
          else mt_do_consume sessions t1 t2 (tk_token_hash record) (Some account_id) st)"

definition mt_consume_by_token_hash ::
    "session_lookup \<Rightarrow> instant \<Rightarrow> instant \<Rightarrow> uuid \<Rightarrow> bytes \<Rightarrow> ticket_store \<Rightarrow>
     websocket_ticket option \<times> ticket_store" where
  "mt_consume_by_token_hash sessions t1 t2 account_id token_hash st =
     mt_consume sessions t1 t2 account_id token_hash st"

section \<open>Single use\<close>

text \<open>
  The contract of a store of single-use credentials: a step that hands one out finds it open and
  closes it, any other step opens at most the ones it creates.
\<close>

fun handed_out :: "('op \<Rightarrow> 's \<Rightarrow> 'i option \<times> 's) \<Rightarrow> 'op list \<Rightarrow> 's \<Rightarrow> 'i list" where
  "handed_out step [] s = []"
| "handed_out step (op # ops) s =
     (case step op s of
        (None, s') \<Rightarrow> handed_out step ops s'
      | (Some i, s') \<Rightarrow> i # handed_out step ops s')"

locale single_use =
  fixes step :: "'op \<Rightarrow> 's \<Rightarrow> 'i option \<times> 's" and made :: "'op \<Rightarrow> 'i list"
    and open_ids :: "'s \<Rightarrow> 'i set" and inv :: "'s \<Rightarrow> bool"
  assumes hands_out: "inv s \<Longrightarrow> step op s = (Some i, s') \<Longrightarrow> i \<in> open_ids s \<and> open_ids s' \<subseteq> open_ids s - {i}"
    and opens: "inv s \<Longrightarrow> step op s = (None, s') \<Longrightarrow> open_ids s' \<subseteq> open_ids s \<union> set (made op)"
    and keeps: "inv s \<Longrightarrow> step op s = (out, s') \<Longrightarrow> inv s'"
begin

lemma handed_out_once:
  assumes "inv s" "distinct (concat (map made ops))" "open_ids s \<inter> set (concat (map made ops)) = {}"
  shows "distinct (handed_out step ops s) \<and>
         set (handed_out step ops s) \<subseteq> open_ids s \<union> set (concat (map made ops))"
  using assms
proof (induction ops arbitrary: s)
  case (Cons op ops)
  obtain out s' where st: "step op s = (out, s')" by fastforce
  have sub: "open_ids s' \<subseteq> open_ids s \<union> set (made op)"
    using Cons.prems(1) st opens [of s op s'] hands_out [of s op _ s'] by (cases out) auto
  have "set (made op) \<inter> set (concat (map made ops)) = {}" using Cons.prems(2) by simp
  then have new: "open_ids s' \<inter> set (concat (map made ops)) = {}" using sub Cons.prems(3) by simp blast
  have IH: "distinct (handed_out step ops s')"
      "set (handed_out step ops s') \<subseteq> open_ids s' \<union> set (concat (map made ops))"
    using Cons.IH [OF keeps [OF Cons.prems(1) st] _ new] Cons.prems(2) by auto
  show ?case
  proof (cases out)
    case None
    then show ?thesis using IH sub st by auto
  next
    case (Some i)
    then have "i \<in> open_ids s" "i \<notin> open_ids s'" using hands_out [of s op i s'] Cons.prems(1) st by auto
    then show ?thesis using IH sub Some st Cons.prems(3) by auto
  qed
qed simp

end

text \<open>Histories of the SQL repository: its statements, deletions, and any change of the other tables.\<close>

datatype ticket_op =
    TkCreate instant uuid uuid uuid bytes instant
  | TkConsume instant uuid bytes
  | TkConsumeForSocket instant bytes
  | TkConsumeById instant uuid uuid
  | TkDelete "websocket_ticket \<Rightarrow> bool"
  | TkOther db

definition consumed_id :: "websocket_ticket option res \<times> 's \<Rightarrow> uuid option \<times> 's" where
  "consumed_id r =
     (case r of (Inr (Some t), s) \<Rightarrow> (Some (tk_id t), s) | (_, s) \<Rightarrow> (None, s))"

fun ticket_step :: "ticket_op \<Rightarrow> db \<Rightarrow> uuid option \<times> db" where
  "ticket_step (TkCreate now fresh a i h e) d = (None, snd (tk_create now fresh a i h e d))"
| "ticket_step (TkConsume now a h) d = consumed_id (tk_consume now a h d)"
| "ticket_step (TkConsumeForSocket now h) d = consumed_id (tk_consume_for_socket now h d)"
| "ticket_step (TkConsumeById now a i) d = consumed_id (tk_consume_by_id now a i d)"
| "ticket_step (TkDelete p) d = (None, d\<lparr>websocket_tickets := filter (\<lambda>t. \<not> p t) (websocket_tickets d)\<rparr>)"
| "ticket_step (TkOther d') d = (None, d'\<lparr>websocket_tickets := websocket_tickets d\<rparr>)"

fun ticket_made :: "ticket_op \<Rightarrow> uuid list" where
  "ticket_made (TkCreate now fresh a i h e) = [fresh]"
| "ticket_made _ = []"

definition open_tickets :: "websocket_ticket list \<Rightarrow> uuid set" where
  "open_tickets ts = tk_id ` {t \<in> set ts. tk_consumed_at t = None}"

definition ticket_inv :: "db \<Rightarrow> bool" where
  "ticket_inv d \<longleftrightarrow>
     distinct (map tk_id (websocket_tickets d)) \<and> distinct (map tk_token_hash (websocket_tickets d))"

lemma open_tickets_map:
  assumes "\<And>t. tk_id (f t) = tk_id t" "\<And>t. tk_consumed_at (f t) \<noteq> None"
  shows "open_tickets (map (\<lambda>t. if p t then f t else t) ts) = tk_id ` {t \<in> set ts. \<not> p t \<and> tk_consumed_at t = None}"
  using assms unfolding open_tickets_def by (auto simp: image_iff split: if_splits) (metis option.discI)

lemma tk_consume_where_cases:
  obtains (none) out where "tk_consume_where p a now d = (out, d)" "out = Inr None \<or> isl out"
  | (some) y where "y \<in> set (websocket_tickets d)" "p y" "ticket_open now y"
      "ticket_session now a d (tk_session_id y)"
      "tk_consume_where p a now d = (Inr (Some (y\<lparr>tk_consumed_at := Some now\<rparr>)),
         d\<lparr>websocket_tickets := map (\<lambda>t. if p t \<and> ticket_open now t \<and> ticket_session now a d (tk_session_id t)
              then t\<lparr>tk_consumed_at := Some now\<rparr> else t) (websocket_tickets d)\<rparr>)"
proof -
  let ?p = "\<lambda>t. p t \<and> ticket_open now t \<and> ticket_session now a d (tk_session_id t)"
  show ?thesis
  proof (cases "filter ?p (websocket_tickets d)")
    case Nil
    then have "map (\<lambda>t. if ?p t then t\<lparr>tk_consumed_at := Some now\<rparr> else t) (websocket_tickets d) = websocket_tickets d"
      by (auto simp: filter_empty_conv intro!: map_idI)
    then show ?thesis
      using Nil by (intro none [of "Inr None"]) (auto simp: tk_consume_where_def sql_update_def filter_empty_conv list_all_iff)
  next
    case (Cons y ys)
    then have "y \<in> set (filter ?p (websocket_tickets d))" by simp
    then have y: "y \<in> set (websocket_tickets d)" "?p y" by auto
    show ?thesis
    proof (cases "list_all (\<lambda>t. ?p t \<longrightarrow> ticket_check (t\<lparr>tk_consumed_at := Some now\<rparr>)) (websocket_tickets d)")
      case True
      then show ?thesis using Cons y by (intro some [of y]) (auto simp: tk_consume_where_def sql_update_def)
    next
      case False
      then show ?thesis
        by (intro none [of "Inl BackendUnavailableError"]) (simp_all add: tk_consume_where_def sql_update_def)
    qed
  qed
qed

lemma consume_where_hands_out:
  assumes "ticket_inv d" "consumed_id (tk_consume_where p a now d) = (out, d')"
  shows "ticket_inv d' \<and> open_tickets (websocket_tickets d') \<subseteq> open_tickets (websocket_tickets d) \<and>
    (\<forall>i. out = Some i \<longrightarrow> i \<in> open_tickets (websocket_tickets d) \<and> i \<notin> open_tickets (websocket_tickets d'))"
proof (cases rule: tk_consume_where_cases [of p a now d])
  case (none x)
  then have "out = None" "d' = d" using assms(2) by (auto simp: consumed_id_def isl_def)
  then show ?thesis using assms(1) by simp
next
  case (some y)
  let ?f = "\<lambda>t. t\<lparr>tk_consumed_at := Some now\<rparr>"
  let ?p = "\<lambda>t. p t \<and> ticket_open now t \<and> ticket_session now a d (tk_session_id t)"
  have d': "d' = d\<lparr>websocket_tickets := map (\<lambda>t. if ?p t then ?f t else t) (websocket_tickets d)\<rparr>"
    and out: "out = Some (tk_id y)"
    using some(5) assms(2) by (auto simp only: consumed_id_def prod.case sum.case option.case prod.inject) simp
  have now_open: "open_tickets (websocket_tickets d') = tk_id ` {t \<in> set (websocket_tickets d). \<not> ?p t \<and> tk_consumed_at t = None}"
  proof -
    have wt: "websocket_tickets d' = map (\<lambda>t. if ?p t then ?f t else t) (websocket_tickets d)" by (simp add: d')
    show ?thesis unfolding wt by (rule open_tickets_map) simp_all
  qed
  have inj: "inj_on tk_id (set (websocket_tickets d))" using assms(1) by (simp add: ticket_inv_def distinct_map)
  have "tk_id y \<notin> open_tickets (websocket_tickets d')"
  proof
    assume "tk_id y \<in> open_tickets (websocket_tickets d')"
    then obtain t where t: "t \<in> set (websocket_tickets d)" "\<not> ?p t" "tk_id y = tk_id t" unfolding now_open by blast
    have "y = t" by (rule inj_onD [OF inj t(3) some(1) t(1)])
    then show False using t(2) some(2-4) by blast
  qed
  moreover have "tk_id y \<in> open_tickets (websocket_tickets d)"
    using some(1,3) by (auto simp: open_tickets_def ticket_open_def)
  moreover have "open_tickets (websocket_tickets d') \<subseteq> open_tickets (websocket_tickets d)"
    unfolding now_open by (auto simp: open_tickets_def)
  moreover have "ticket_inv d'"
  proof -
    have "map tk_id (websocket_tickets d') = map tk_id (websocket_tickets d)"
      "map tk_token_hash (websocket_tickets d') = map tk_token_hash (websocket_tickets d)" by (simp_all add: d')
    then show ?thesis using assms(1) by (simp only: ticket_inv_def)
  qed
  ultimately show ?thesis using out by simp
qed

lemma tk_create_cases:
  obtains (stored) t where "t = new_ticket now fresh i h e"
      "tk_create now fresh a i h e d = (Inr t, d\<lparr>websocket_tickets := websocket_tickets d @ [t]\<rparr>)"
      "ticket_check t" "fresh \<notin> tk_id ` set (websocket_tickets d)" "h \<notin> tk_token_hash ` set (websocket_tickets d)"
      "ticket_session now (Some a) d i"
  | (refused) x where "tk_create now fresh a i h e d = (Inl x, d)"
proof -
  let ?t = "new_ticket now fresh i h e"
  define rows where "rows = [new_ticket now fresh (se_id s) h e.
           s \<leftarrow> app_sessions d, u \<leftarrow> app_users d, v \<leftarrow> devices d,
           ac_id u = se_user_id s \<and> dv_id v = se_device_id s \<and> dv_user_id v = ac_id u \<and>
           ac_id u = a \<and> se_id s = i \<and> ac_deleted_at u = None \<and> session_usable now s \<and>
           se_epoch s = ac_device_epoch u \<and> dv_status v = Active \<and> dv_epoch v = ac_device_epoch u]"
  have rows: "r = ?t \<and> ticket_session now (Some a) d i" if r: "r \<in> set rows" for r
  proof -
    have "\<exists>s u v. s \<in> set (app_sessions d) \<and> u \<in> set (app_users d) \<and> v \<in> set (devices d) \<and>
      r = new_ticket now fresh (se_id s) h e \<and> ac_id u = se_user_id s \<and> dv_id v = se_device_id s \<and>
      dv_user_id v = ac_id u \<and> ac_id u = a \<and> se_id s = i \<and> ac_deleted_at u = None \<and> session_usable now s \<and>
      se_epoch s = ac_device_epoch u \<and> dv_status v = Active \<and> dv_epoch v = ac_device_epoch u"
      using r unfolding rows_def by (auto split: if_splits)
    then obtain s u v where *: "s \<in> set (app_sessions d)" "u \<in> set (app_users d)" "v \<in> set (devices d)"
        "r = new_ticket now fresh i h e" "se_id s = i" "se_user_id s = a" "session_usable now s"
        "session_account s u" "session_device s v"
      unfolding session_account_def session_device_def by metis
    then have "session_bound d s" unfolding session_bound_def list_ex_iff by blast
    then show ?thesis using * by (auto simp: ticket_session_def list_ex_iff)
  qed
  let ?ins = "sql_insert ticket_check (\<lambda>q r. tk_id q = tk_id r \<or> tk_token_hash q = tk_token_hash r)
    rows (websocket_tickets d)"
  have out: "tk_create now fresh a i h e d =
      (case ?ins of (Inl e, _) \<Rightarrow> (Inl e, d) | (Inr out, t) \<Rightarrow> (required_row out, d\<lparr>websocket_tickets := t\<rparr>))"
    by (simp add: tk_create_def rows_def Let_def)
  consider (empty) "rows = []" | (failed) "fst ?ins = Inl BackendUnavailableError"
    | (one) "rows = [?t]" "?ins = (Inr [?t], websocket_tickets d @ [?t])"
  proof (cases rows)
    case (Cons r rs)
    have r: "r = ?t" using rows [of r] Cons by simp
    show ?thesis
    proof (cases rs)
      case Nil
      let ?ok = "ticket_check ?t \<and>
        list_all (\<lambda>q. \<not> (tk_id q = tk_id ?t \<or> tk_token_hash q = tk_token_hash ?t)) (websocket_tickets d)"
      have rt: "rows = [?t]" using Nil Cons r by simp
      have ins: "?ins = (if ?ok then (Inr [?t], websocket_tickets d @ [?t])
                         else (Inl BackendUnavailableError, websocket_tickets d))"
        unfolding rt by (simp add: sql_insert_def)
      show ?thesis
      proof (cases ?ok)
        case True
        have "?ins = (Inr [?t], websocket_tickets d @ [?t])" unfolding ins by (rule if_P [OF True])
        then show ?thesis using that(3) rt by blast
      next
        case False
        have "fst ?ins = Inl BackendUnavailableError" unfolding ins if_not_P [OF False] by simp
        then show ?thesis using that(2) by blast
      qed
    next
      case (Cons r' rs')
      then have "r' = ?t" using rows [of r'] \<open>rows = r # rs\<close> by simp
      then show ?thesis using that(2) r \<open>rows = r # rs\<close> Cons by (simp add: sql_insert_def)
    qed
  qed (use that in blast)
  then show ?thesis
  proof cases
    case empty
    then show ?thesis using out by (intro refused) (simp add: sql_insert_def)
  next
    case failed
    then show ?thesis using out by (intro refused) (cases ?ins, simp)
  next
    case one
    then have "ticket_check ?t \<and> list_all (\<lambda>q. \<not> (tk_id q = tk_id ?t \<or> tk_token_hash q = tk_token_hash ?t)) (websocket_tickets d)"
      by (auto simp: sql_insert_def split: if_splits)
    then show ?thesis
      using one out rows [of ?t] by (intro stored [of ?t]) (auto simp: list_all_iff new_ticket_def)
  qed
qed

lemma create_opens:
  assumes "ticket_inv d" "tk_create now fresh a i h e d = (out, d')"
  shows "ticket_inv d' \<and> open_tickets (websocket_tickets d') \<subseteq> insert fresh (open_tickets (websocket_tickets d))"
  using assms
  by (cases rule: tk_create_cases [of now fresh i h e a d])
    (auto simp: ticket_inv_def new_ticket_def open_tickets_def)

lemmas consume_defs = tk_consume_def tk_consume_for_socket_def tk_consume_by_id_def

interpretation sqlt: single_use ticket_step ticket_made "\<lambda>d. open_tickets (websocket_tickets d)" ticket_inv
proof unfold_locales
  fix s op i s'
  assume "ticket_inv s" "ticket_step op s = (Some i, s')"
  then show "i \<in> open_tickets (websocket_tickets s) \<and>
      open_tickets (websocket_tickets s') \<subseteq> open_tickets (websocket_tickets s) - {i}"
    using consume_where_hands_out [of s _ _ _ "Some i" s'] by (cases op) (auto simp: consume_defs)
next
  fix s op s'
  assume *: "ticket_inv s" "ticket_step op s = (None, s')"
  show "open_tickets (websocket_tickets s') \<subseteq> open_tickets (websocket_tickets s) \<union> set (ticket_made op)"
  proof (cases op)
    case (TkCreate now fresh a i h e)
    then show ?thesis
      using *(2) create_opens [OF *(1), of now fresh a i h e, OF prod.collapse [symmetric]] by auto
  qed (use * consume_where_hands_out [OF *(1), of _ _ _ None s'] in
       \<open>auto simp: consume_defs open_tickets_def\<close>)
next
  fix s op out s'
  assume *: "ticket_inv s" "ticket_step op s = (out, s')"
  show "ticket_inv s'"
  proof (cases op)
    case (TkCreate now fresh a i h e)
    then show ?thesis
      using *(2) create_opens [OF *(1), of now fresh a i h e, OF prod.collapse [symmetric]] by auto
  next
    case (TkDelete p)
    then show ?thesis using * by (auto simp: ticket_inv_def distinct_map_filter)
  next
    case (TkOther d')
    then show ?thesis using * by (auto simp: ticket_inv_def)
  qed (use * consume_where_hands_out [OF *(1), of _ _ _ out s'] in \<open>auto simp: consume_defs\<close>)
qed

text \<open>
  Histories of the in-memory repository: its operations and, since coroutines interleave between
  them, its two critical sections on their own, with any candidate.
\<close>

datatype store_op =
    MtCreate session_lookup instant uuid uuid uuid bytes instant
  | MtStore uuid websocket_ticket
  | MtConsume session_lookup instant instant uuid bytes
  | MtConsumeForSocket session_lookup instant instant bytes
  | MtConsumeById session_lookup instant instant uuid uuid
  | MtTake instant websocket_ticket uuid

definition taken_id :: "websocket_ticket option \<times> 's \<Rightarrow> uuid option \<times> 's" where
  "taken_id r = (map_option tk_id (fst r), snd r)"

fun store_step :: "store_op \<Rightarrow> ticket_store \<Rightarrow> uuid option \<times> ticket_store" where
  "store_step (MtCreate ss now fresh a i h e) st = (None, snd (mt_create ss now fresh a i h e st))"
| "store_step (MtStore a record) st = (None, snd (mt_store a record st))"
| "store_step (MtConsume ss t1 t2 a h) st = taken_id (mt_consume ss t1 t2 a h st)"
| "store_step (MtConsumeForSocket ss t1 t2 h) st = taken_id (mt_consume_for_socket ss t1 t2 h st)"
| "store_step (MtConsumeById ss t1 t2 a i) st = taken_id (mt_consume_by_id ss t1 t2 a i st)"
| "store_step (MtTake now record owner) st = taken_id (mt_take now record owner st)"

fun store_made :: "store_op \<Rightarrow> uuid list" where
  "store_made (MtCreate ss now fresh a i h e) = [fresh]"
| "store_made (MtStore a record) = [tk_id record]"
| "store_made _ = []"

definition ids_match :: "ticket_store \<Rightarrow> bool" where
  "ids_match st \<longleftrightarrow> dict_all (\<lambda>i r. tk_id r = i) (ts_records st)"

definition open_records :: "ticket_store \<Rightarrow> uuid set" where
  "open_records st = {i. \<exists>r. dict_get (ts_records st) i = Some r \<and> tk_consumed_at r = None}"

lemma mt_store_opens:
  assumes "ids_match st"
  shows "ids_match (snd (mt_store a r st)) \<and> open_records (snd (mt_store a r st)) \<subseteq> insert (tk_id r) (open_records st)"
  using assms by (auto simp: mt_store_def ids_match_def open_records_def dict_all_set split: if_splits)

lemma mt_take_hands_out:
  assumes "ids_match st" "mt_take now r owner st = (out, st')"
  shows "ids_match st' \<and> open_records st' \<subseteq> open_records st \<and>
    (\<forall>t. out = Some t \<longrightarrow> tk_id t \<in> open_records st \<and> tk_id t \<notin> open_records st')"
proof (cases "dict_get (ts_records st) (tk_id r)")
  case None
  then show ?thesis using assms by (auto simp: mt_take_def)
next
  case (Some latest)
  then have "tk_id latest = tk_id r" using assms(1) dict_all_get unfolding ids_match_def by fastforce
  then show ?thesis
    using assms Some
    by (auto simp: mt_take_def Let_def ids_match_def open_records_def dict_all_set split: if_splits)
qed

lemma mt_do_consume_cases:
  obtains "mt_do_consume ss t1 t2 h a st = (None, st)"
  | r owner where "mt_candidate ss t1 h a st = Some (r, owner)" "mt_do_consume ss t1 t2 h a st = mt_take t2 r owner st"
  by (cases "mt_candidate ss t1 h a st") (auto simp: mt_do_consume_def)

definition closes :: "uuid option \<Rightarrow> ticket_store \<Rightarrow> ticket_store \<Rightarrow> bool" where
  "closes out st st' \<longleftrightarrow> ids_match st' \<and> open_records st' \<subseteq> open_records st \<and>
     (case out of None \<Rightarrow> True | Some i \<Rightarrow> i \<in> open_records st \<and> i \<notin> open_records st')"

lemma closes_take: "ids_match st \<Longrightarrow> taken_id (mt_take now r owner st) = (out, st') \<Longrightarrow> closes out st st'"
  using mt_take_hands_out [of st now r owner] by (cases "mt_take now r owner st") (auto simp: closes_def taken_id_def split: option.split)

lemma closes_same: "ids_match st \<Longrightarrow> taken_id (None, st) = (out, st') \<Longrightarrow> closes out st st'"
  by (auto simp: closes_def taken_id_def)

lemma closes_do_consume:
  assumes "ids_match st" "taken_id (mt_do_consume ss t1 t2 h a st) = (out, st')"
  shows "closes out st st'"
  by (cases rule: mt_do_consume_cases [of ss t1 t2 h a st])
    (use assms closes_same closes_take in metis)+

lemma store_step_closes:
  assumes "ids_match st" "store_made op = []" "store_step op st = (out, st')"
  shows "closes out st st'"
proof (cases op)
  case (MtConsumeById ss t1 t2 a i)
  then have r: "taken_id (mt_consume_by_id ss t1 t2 a i st) = (out, st')" using assms(3) by simp
  show ?thesis
  proof (cases "\<exists>h. mt_consume_by_id ss t1 t2 a i st = mt_do_consume ss t1 t2 h (Some a) st")
    case True
    then show ?thesis using r assms(1) closes_do_consume by metis
  next
    case False
    then have "mt_consume_by_id ss t1 t2 a i st = (None, st)"
      by (auto simp: mt_consume_by_id_def split: option.splits if_splits)
    then show ?thesis using r assms(1) closes_same by metis
  qed
qed (use assms in \<open>simp_all add: closes_take closes_do_consume mt_consume_def mt_consume_for_socket_def\<close>)

lemma store_step_opens:
  assumes "ids_match st" "store_made op \<noteq> []" "store_step op st = (out, st')"
  shows "out = None \<and> ids_match st' \<and> open_records st' \<subseteq> open_records st \<union> set (store_made op)"
proof (cases op)
  case (MtCreate ss now fresh a i h e)
  let ?t = "new_ticket now fresh i h e"
  have "st' = st \<or> st' = snd (mt_store a ?t st)" using assms(3) MtCreate by (auto simp: mt_create_def split: if_splits)
  moreover have "tk_id ?t = fresh" by (simp add: new_ticket_def)
  ultimately show ?thesis using mt_store_opens [OF assms(1), of a ?t] assms MtCreate by auto
next
  case (MtStore a r)
  then show ?thesis using mt_store_opens [OF assms(1), of a r] assms by auto
qed (use assms in simp_all)

interpretation memt: single_use store_step store_made open_records ids_match
proof unfold_locales
  fix s op i s'
  assume *: "ids_match s" "store_step op s = (Some i, s')"
  then have "store_made op = []" using store_step_opens [OF *(1) _ *(2)] by blast
  then show "i \<in> open_records s \<and> open_records s' \<subseteq> open_records s - {i}"
    using store_step_closes [OF *(1) _ *(2)] by (auto simp: closes_def)
next
  fix s op s'
  assume *: "ids_match s" "store_step op s = (None, s')"
  show "open_records s' \<subseteq> open_records s \<union> set (store_made op)"
    using store_step_closes [OF *(1) _ *(2)] store_step_opens [OF *(1) _ *(2)]
    by (cases "store_made op = []") (auto simp: closes_def)
next
  fix s op out s'
  assume *: "ids_match s" "store_step op s = (out, s')"
  show "ids_match s'"
    using store_step_closes [OF *(1) _ *(2)] store_step_opens [OF *(1) _ *(2)]
    by (cases "store_made op = []") (auto simp: closes_def)
qed

text \<open>
  C4.  A ticket is handed out at most once.  Over any history of the SQL statements, of deletions
  and of changes to every other table, and over any history of the in-memory operations and of their
  interleaved critical sections, no ticket identifier is returned by two consumptions, as long as
  the identifiers of created tickets are new; a ticket that was consumed at the start is never
  returned.
\<close>

theorem ticket_single_use:
  assumes "ticket_inv d" "distinct (concat (map ticket_made ops))"
    and "open_tickets (websocket_tickets d) \<inter> set (concat (map ticket_made ops)) = {}"
    and "ids_match st" "distinct (concat (map store_made mops))"
    and "open_records st \<inter> set (concat (map store_made mops)) = {}"
  shows "distinct (handed_out ticket_step ops d) \<and>
    set (handed_out ticket_step ops d) \<subseteq> open_tickets (websocket_tickets d) \<union> set (concat (map ticket_made ops)) \<and>
    distinct (handed_out store_step mops st) \<and>
    set (handed_out store_step mops st) \<subseteq> open_records st \<union> set (concat (map store_made mops))"
  using sqlt.handed_out_once [OF assms(1-3)] memt.handed_out_once [OF assms(4-6)] by blast

definition sample_ticket :: websocket_ticket where
  "sample_ticket = new_ticket 1 20 5 (replicate 32 3) 60"

definition ticket_db :: db where
  "ticket_db = (session_db [sample_session])\<lparr>websocket_tickets := [sample_ticket]\<rparr>"

theorem ticket_single_use_witness:
  "handed_out ticket_step
      [TkConsumeForSocket 2 (replicate 32 3), TkConsumeForSocket 3 (replicate 32 3),
       TkCreate 4 21 1 5 (replicate 32 4) 70, TkConsumeById 5 1 21, TkConsume 6 1 (replicate 32 4)] ticket_db = [20, 21] \<and>
   distinct (handed_out ticket_step
      [TkConsumeForSocket 2 (replicate 32 3), TkConsumeForSocket 3 (replicate 32 3),
       TkCreate 4 21 1 5 (replicate 32 4) 70, TkConsumeById 5 1 21, TkConsume 6 1 (replicate 32 4)] ticket_db) \<and>
   distinct (handed_out store_step
      [MtCreate None 1 20 1 5 (replicate 32 3) 60, MtConsumeForSocket None 2 2 (replicate 32 3),
       MtTake 3 sample_ticket 1] empty_ticket_store)"
proof -
  let ?ops = "[TkConsumeForSocket 2 (replicate 32 3), TkConsumeForSocket 3 (replicate 32 3),
       TkCreate 4 21 1 5 (replicate 32 4) 70, TkConsumeById 5 1 21, TkConsume 6 1 (replicate 32 4)]"
  let ?mops = "[MtCreate None 1 20 1 5 (replicate 32 3) 60, MtConsumeForSocket None 2 2 (replicate 32 3),
       MtTake 3 sample_ticket 1]"
  have "ticket_inv ticket_db" by code_simp
  moreover have "open_tickets (websocket_tickets ticket_db) \<inter> set (concat (map ticket_made ?ops)) = {}"
    by (auto simp: open_tickets_def ticket_db_def sample_ticket_def new_ticket_def)
  moreover have "ids_match empty_ticket_store" "open_records empty_ticket_store \<inter> set (concat (map store_made ?mops)) = {}"
    by (simp_all add: ids_match_def open_records_def empty_ticket_store_def)
  ultimately have "distinct (handed_out ticket_step ?ops ticket_db) \<and> distinct (handed_out store_step ?mops empty_ticket_store)"
    using ticket_single_use [of ticket_db ?ops empty_ticket_store ?mops] by simp
  moreover have "handed_out ticket_step ?ops ticket_db = [20, 21]" by code_simp
  ultimately show ?thesis by simp
qed

section \<open>The repository as the socket routes see it\<close>

text \<open>
  \<open>WebSocketTicketRepositoryPort\<close> of \<open>app/presence.py\<close>.  A consumption reads the clock more than
  once in memory; the SQL statement reads it once.
\<close>

record 's ticket_port =
  tkp_create :: "instant \<Rightarrow> uuid \<Rightarrow> uuid \<Rightarrow> uuid \<Rightarrow> bytes \<Rightarrow> instant \<Rightarrow> 's \<Rightarrow> websocket_ticket res \<times> 's"
  tkp_consume_for_socket :: "clock \<Rightarrow> bytes \<Rightarrow> 's \<Rightarrow> websocket_ticket option res \<times> 's"

definition sql_tickets :: "db ticket_port" where
  "sql_tickets =
     \<lparr>tkp_create = tk_create, tkp_consume_for_socket = (\<lambda>clk. tk_consume_for_socket (clk 0))\<rparr>"

text \<open>The in-memory store beside the in-memory session store it looks sessions up in.\<close>

definition mem_tickets :: "(ticket_store \<times> session_store) ticket_port" where
  "mem_tickets =
     \<lparr>tkp_create = (\<lambda>now fresh a i h e (st, ss).
        case mt_create (Some (\<lambda>j. ms_find_current_by_id now j ss)) now fresh a i h e st of
          (out, st') \<Rightarrow> (out, st', ss)),
      tkp_consume_for_socket = (\<lambda>clk h (st, ss).
        case mt_consume_for_socket (Some (\<lambda>j. ms_find_current_by_id (clk 1) j ss)) (clk 0) (clk 2) h st of
          (out, st') \<Rightarrow> (Inr out, st', ss))\<rparr>"

locale ticket_repository =
  fixes port :: "'s ticket_port" and rows :: "'s \<Rightarrow> websocket_ticket set" and inv :: "'s \<Rightarrow> bool"
  assumes create_law: "inv s \<Longrightarrow> fresh \<notin> tk_id ` rows s \<Longrightarrow> tkp_create port now fresh a i h e s = (out, s') \<Longrightarrow>
      inv s' \<and>
      (case out of Inl _ \<Rightarrow> s' = s
       | Inr t \<Rightarrow> t = new_ticket now fresh i h e \<and> rows s' = insert t (rows s) \<and> now < e \<and>
           h \<notin> tk_token_hash ` rows s)"
    and consume_law: "inv s \<Longrightarrow> tkp_consume_for_socket port clk h s = (found, s') \<Longrightarrow>
      inv s' \<and>
      (case found of Inr (Some t) \<Rightarrow>
         (\<exists>y now. y \<in> rows s \<and> tk_token_hash y = h \<and> ticket_open now y \<and> now \<in> range clk \<and>
            t = y\<lparr>tk_consumed_at := Some now\<rparr> \<and> rows s' = insert t (rows s - {y}))
       | _ \<Rightarrow> s' = s)"

lemma insert_replaced:
  assumes "y \<in> set ts" "distinct (map key ts)" "\<And>t. t \<in> set ts \<Longrightarrow> q t \<longleftrightarrow> t = y"
  shows "set (map (\<lambda>t. if q t then f t else t) ts) = insert (f y) (set ts - {y})"
  using assms by auto

interpretation sqlk: ticket_repository sql_tickets "\<lambda>d. set (websocket_tickets d)" ticket_inv
proof unfold_locales
  fix s fresh now a i h e out s'
  assume *: "ticket_inv s" "tkp_create sql_tickets now fresh a i h e s = (out, s')"
  then have c: "tk_create now fresh a i h e s = (out, s')" by (simp add: sql_tickets_def)
  then have "ticket_inv s'" using create_opens [OF *(1)] by blast
  then show "ticket_inv s' \<and> (case out of Inl _ \<Rightarrow> s' = s
       | Inr t \<Rightarrow> t = new_ticket now fresh i h e \<and> set (websocket_tickets s') = insert t (set (websocket_tickets s)) \<and>
           now < e \<and> h \<notin> tk_token_hash ` set (websocket_tickets s))"
    using c by (cases rule: tk_create_cases [of now fresh i h e a s]) (auto simp: ticket_check_def new_ticket_def)
next
  fix s clk h out s'
  assume *: "ticket_inv s" "tkp_consume_for_socket sql_tickets clk h s = (out, s')"
  then have c: "tk_consume_where (\<lambda>t. tk_token_hash t = h) None (clk 0) s = (out, s')"
    by (simp add: sql_tickets_def tk_consume_for_socket_def)
  have "snd (consumed_id (out, s')) = s'" by (simp add: consumed_id_def split: sum.split option.split)
  then have "ticket_inv s'"
    using consume_where_hands_out [OF *(1), of "\<lambda>t. tk_token_hash t = h" None "clk 0", OF prod.collapse [symmetric]] c
    by simp
  moreover have "case out of Inr (Some t) \<Rightarrow>
         (\<exists>y now. y \<in> set (websocket_tickets s) \<and> tk_token_hash y = h \<and> ticket_open now y \<and> now \<in> range clk \<and>
            t = y\<lparr>tk_consumed_at := Some now\<rparr> \<and> set (websocket_tickets s') = insert t (set (websocket_tickets s) - {y}))
       | _ \<Rightarrow> s' = s"
  proof (cases rule: tk_consume_where_cases [of "\<lambda>t. tk_token_hash t = h" None "clk 0" s])
    case (none x)
    then show ?thesis using c by (auto simp: isl_def)
  next
    case (some y)
    let ?q = "\<lambda>t. tk_token_hash t = h \<and> ticket_open (clk 0) t \<and> ticket_session (clk 0) None s (tk_session_id t)"
    have inj: "inj_on tk_token_hash (set (websocket_tickets s))" using *(1) by (simp add: ticket_inv_def distinct_map)
    have q: "?q t \<longleftrightarrow> t = y" if t: "t \<in> set (websocket_tickets s)" for t
      using inj_onD [OF inj _ t some(1)] some(2-4) by auto
    have "set (websocket_tickets s') = insert (y\<lparr>tk_consumed_at := Some (clk 0)\<rparr>) (set (websocket_tickets s) - {y})"
      using insert_replaced [of y "websocket_tickets s" tk_id ?q "\<lambda>t. t\<lparr>tk_consumed_at := Some (clk 0)\<rparr>", OF some(1) _ q]
        *(1) some(5) c by (auto simp: ticket_inv_def)
    then show ?thesis using some c by auto
  qed
  ultimately show "ticket_inv s' \<and> (case out of Inr (Some t) \<Rightarrow>
         (\<exists>y now. y \<in> set (websocket_tickets s) \<and> tk_token_hash y = h \<and> ticket_open now y \<and> now \<in> range clk \<and>
            t = y\<lparr>tk_consumed_at := Some now\<rparr> \<and> set (websocket_tickets s') = insert t (set (websocket_tickets s) - {y}))
       | _ \<Rightarrow> s' = s)" by blast
qed

text \<open>The in-memory store: both dictionaries describe the same tickets.\<close>

definition store_inv :: "ticket_store \<Rightarrow> bool" where
  "store_inv st \<longleftrightarrow>
     (\<forall>i r. dict_get (ts_records st) i = Some r \<longrightarrow>
        tk_id r = i \<and> dict_get (ts_by_token_hash st) (tk_token_hash r) = Some i) \<and>
     (\<forall>h i. dict_get (ts_by_token_hash st) h = Some i \<longrightarrow>
        (\<exists>r. dict_get (ts_records st) i = Some r \<and> tk_token_hash r = h))"

lemma store_inv_store:
  assumes "store_inv st" "dict_get (ts_records st) (tk_id t) = None" "mt_store a t st = (out, st')"
  shows "store_inv st' \<and> (case out of Inl _ \<Rightarrow> st' = st
    | Inr x \<Rightarrow> x = t \<and> ran (dict_get (ts_records st')) = insert t (ran (dict_get (ts_records st))) \<and>
        tk_token_hash t \<notin> tk_token_hash ` ran (dict_get (ts_records st)))"
proof (cases "dict_get (ts_by_token_hash st) (tk_token_hash t)")
  case None
  have "r \<noteq> t \<and> tk_token_hash r \<noteq> tk_token_hash t" if "dict_get (ts_records st) i = Some r" for i r
    using that assms(1,2) None unfolding store_inv_def by (metis option.distinct(1))
  moreover from this have "store_inv st'"
    using assms None unfolding mt_store_def store_inv_def by (fastforce split: if_splits)
  ultimately have "store_inv st'" "tk_token_hash t \<notin> tk_token_hash ` ran (dict_get (ts_records st))"
    by (force simp: ran_def)+
  then show ?thesis using assms(2,3) None by (auto simp: mt_store_def)
next
  case (Some i)
  then show ?thesis using assms by (auto simp: mt_store_def)
qed

lemma ran_upd_replace:
  assumes "m k = Some y" "\<forall>i. i \<noteq> k \<longrightarrow> m i \<noteq> Some y"
  shows "ran (m(k \<mapsto> t)) = insert t (ran m - {y})"
proof -
  have "x \<in> ran (m(k \<mapsto> t)) \<longleftrightarrow> x = t \<or> (\<exists>i. i \<noteq> k \<and> m i = Some x)" for x
    unfolding ran_def by (simp only: mem_Collect_eq fun_upd_apply) (metis option.inject)
  moreover have "(\<exists>i. i \<noteq> k \<and> m i = Some x) \<longleftrightarrow> x \<in> ran m \<and> x \<noteq> y" for x
    using assms by (auto simp: ran_def) (metis option.inject)
  ultimately show ?thesis by (simp add: set_eq_iff)
qed

lemma store_inv_take:
  assumes "store_inv st" "mt_take now r owner st = (out, st')"
  shows "store_inv st' \<and> (case out of None \<Rightarrow> st' = st
    | Some t \<Rightarrow> \<exists>y. dict_get (ts_records st) (tk_id r) = Some y \<and> ticket_open now y \<and>
        t = y\<lparr>tk_consumed_at := Some now\<rparr> \<and>
        ran (dict_get (ts_records st')) = insert t (ran (dict_get (ts_records st)) - {y}))"
proof (cases out)
  case None
  then show ?thesis using assms by (auto simp: mt_take_def Let_def split: option.splits if_splits)
next
  case (Some t)
  then obtain y where y: "dict_get (ts_records st) (tk_id r) = Some y" "ticket_open now y"
      "t = y\<lparr>tk_consumed_at := Some now\<rparr>" "st' = st\<lparr>ts_records := dict_set (tk_id y) t (ts_records st)\<rparr>"
    using assms(2) by (auto simp: mt_take_def ticket_open_def Let_def split: option.splits if_splits)
  have yid: "tk_id y = tk_id r" using assms(1) y(1) by (auto simp: store_inv_def)
  have uniq: "\<forall>i. i \<noteq> tk_id r \<longrightarrow> dict_get (ts_records st) i \<noteq> Some y"
    using assms(1) yid by (auto simp: store_inv_def)
  have "ran (dict_get (ts_records st')) = insert t (ran (dict_get (ts_records st)) - {y})"
    using ran_upd_replace [of "dict_get (ts_records st)" _ y t, OF y(1) uniq] by (simp add: y(4) yid)
  moreover have "tk_token_hash t = tk_token_hash y" "tk_id t = tk_id y" by (simp_all add: y(3))
  then have "store_inv st'"
    using assms(1) y(1) yid unfolding store_inv_def y(4) by (simp split: if_splits) (metis option.inject)
  ultimately show ?thesis using Some y by simp
qed

interpretation memk: ticket_repository mem_tickets "\<lambda>(st, ss). ran (dict_get (ts_records st))" "\<lambda>(st, ss). store_inv st"
proof unfold_locales
  fix s fresh now a i h e out s'
  assume *: "case s of (st, ss) \<Rightarrow> store_inv st"
    "fresh \<notin> tk_id ` (case s of (st, ss) \<Rightarrow> ran (dict_get (ts_records st)))"
    "tkp_create mem_tickets now fresh a i h e s = (out, s')"
  obtain st ss where s: "s = (st, ss)" by (cases s)
  let ?t = "new_ticket now fresh i h e"
  have "dict_get (ts_records st) (tk_id ?t) = None"
    using *(1,2) by (cases "dict_get (ts_records st) fresh") (force simp: s new_ticket_def store_inv_def ran_def)+
  from store_inv_store [OF _ this, of a] *(1,3)
  show "(case s' of (st, ss) \<Rightarrow> store_inv st) \<and>
    (case out of Inl _ \<Rightarrow> s' = s
     | Inr t \<Rightarrow> t = ?t \<and> (case s' of (st, ss) \<Rightarrow> ran (dict_get (ts_records st))) =
           insert t (case s of (st, ss) \<Rightarrow> ran (dict_get (ts_records st))) \<and> now < e \<and>
         h \<notin> tk_token_hash ` (case s of (st, ss) \<Rightarrow> ran (dict_get (ts_records st))))"
    by (fastforce simp: s mem_tickets_def mt_create_def new_ticket_def split: prod.splits if_splits sum.splits)
next
  fix s clk h found s'
  assume *: "case s of (st, ss) \<Rightarrow> store_inv st" "tkp_consume_for_socket mem_tickets clk h s = (found, s')"
  obtain st ss where s: "s = (st, ss)" by (cases s)
  let ?look = "Some (\<lambda>j. ms_find_current_by_id (clk 1) j ss)"
  obtain out st' where c: "mt_do_consume ?look (clk 0) (clk 2) h None st = (out, st')" "found = Inr out" "s' = (st', ss)"
    using *(2) by (auto simp: s mem_tickets_def mt_consume_for_socket_def split: prod.splits)
  show "(case s' of (st, ss) \<Rightarrow> store_inv st) \<and>
      (case found of Inr (Some t) \<Rightarrow>
         (\<exists>y now. y \<in> (case s of (st, ss) \<Rightarrow> ran (dict_get (ts_records st))) \<and> tk_token_hash y = h \<and>
            ticket_open now y \<and> now \<in> range clk \<and> t = y\<lparr>tk_consumed_at := Some now\<rparr> \<and>
            (case s' of (st, ss) \<Rightarrow> ran (dict_get (ts_records st))) =
              insert t ((case s of (st, ss) \<Rightarrow> ran (dict_get (ts_records st))) - {y}))
       | _ \<Rightarrow> s' = s)"
  proof (cases rule: mt_do_consume_cases [of ?look "clk 0" "clk 2" h None st])
    case 1
    then show ?thesis using * c by (simp add: s)
  next
    case (2 r owner)
    then have "dict_get (ts_by_token_hash st) h = Some (tk_id r) \<and> tk_token_hash r = h \<and>
        dict_get (ts_records st) (tk_id r) = Some r"
      using *(1) unfolding s prod.case store_inv_def
      by (auto simp: mt_candidate_def record_for_token_def split: option.splits if_splits) (metis option.inject)
    then show ?thesis
      using 2 c *(1) store_inv_take [of st "clk 2" r owner out st']
      by (cases out) (auto simp: s ran_def)
  qed
qed
end
