(* ===== verification/Encoding.thy ===== *)
theory Encoding
  imports PyText
begin

text \<open>
  Byte strings at the boundary of the API: unpadded base64url (\<open>app/device_crypto.py\<close>,
  \<open>app/sessions.py\<close>), opaque tokens and the digests stored for them.  SHA-256 is the standard
  library's \<open>hashlib\<close>, a parameter of the functions that use it; random bytes are arguments.
\<close>

definition b64_char :: "nat \<Rightarrow> nat" where
  "b64_char n =
     (if n < 26 then 65 + n else if n < 52 then 71 + n else if n < 62 then n - 4
      else if n = 62 then 45 else 95)"

definition b64_value :: "nat \<Rightarrow> nat option" where
  "b64_value c =
     (if 65 \<le> c \<and> c \<le> 90 then Some (c - 65)
      else if 97 \<le> c \<and> c \<le> 122 then Some (c - 71)
      else if 48 \<le> c \<and> c \<le> 57 then Some (c + 4)
      else if c = 45 then Some 62 else if c = 95 then Some 63 else None)"

text \<open>\<open>base64.urlsafe_b64encode(value).decode("ascii").rstrip("=")\<close>.\<close>

fun encode_base64url :: "bytes \<Rightarrow> pystr" where
  "encode_base64url [] = []"
| "encode_base64url [a] = [b64_char (a div 4), b64_char (a mod 4 * 16)]"
| "encode_base64url [a, b] =
     [b64_char (a div 4), b64_char (a mod 4 * 16 + b div 16), b64_char (b mod 16 * 4)]"
| "encode_base64url (a # b # c # rest) =
     [b64_char (a div 4), b64_char (a mod 4 * 16 + b div 16), b64_char (b mod 16 * 4 + c div 64),
      b64_char (c mod 64)] @ encode_base64url rest"

text \<open>
  The decoder on 6-bit values; one value left over is an error, and the unused low bits of the last
  value are dropped, as \<open>base64.b64decode\<close> does also with \<open>validate=True\<close>.
\<close>

fun b64_groups :: "nat list \<Rightarrow> bytes option" where
  "b64_groups [] = Some []"
| "b64_groups [p] = None"
| "b64_groups [p, q] = Some [p * 4 + q div 16]"
| "b64_groups [p, q, r] = Some [p * 4 + q div 16, q mod 16 * 16 + r div 4]"
| "b64_groups (p # q # r # s # rest) =
     map_option (\<lambda>bs. [p * 4 + q div 16, q mod 16 * 16 + r div 4, r mod 4 * 64 + s] @ bs)
       (b64_groups rest)"

definition decode_base64url :: "nat \<Rightarrow> pystr \<Rightarrow> bytes res" where
  "decode_base64url maximum_bytes value =
     (if value = [] \<or> length value > maximum_bytes * 2 then Inl ValueError
      else if list_ex (\<lambda>c. b64_value c = None) value then Inl ValueError
      else case b64_groups (map (the \<circ> b64_value) value) of
             None \<Rightarrow> Inl ValueError
           | Some decoded \<Rightarrow>
               if decoded = [] \<or> length decoded > maximum_bytes then Inl ValueError else Inr decoded)"

section \<open>Opaque tokens\<close>

definition SESSION_TOKEN_BYTES :: nat where "SESSION_TOKEN_BYTES = 32"

definition CSRF_SECRET_BYTES :: nat where "CSRF_SECRET_BYTES = 32"

text \<open>\<open>random n\<close> is what \<open>secrets.token_bytes(n)\<close> returned.\<close>

definition new_opaque_token :: "(nat \<Rightarrow> bytes) \<Rightarrow> nat \<Rightarrow> pystr res" where
  "new_opaque_token random byte_length =
     (if byte_length < SESSION_TOKEN_BYTES then Inl ValueError
      else Inr (encode_base64url (random byte_length)))"

text \<open>\<open>str.encode("ascii")\<close>.\<close>

definition encode_ascii :: "pystr \<Rightarrow> bytes res" where
  "encode_ascii s = (if list_all (\<lambda>c. c < 128) s then Inr s else Inl UnicodeEncodeError)"

definition hash_secret :: "(bytes \<Rightarrow> bytes) \<Rightarrow> pystr \<Rightarrow> bytes res" where
  "hash_secret sha256 value = bind_res (encode_ascii value) (\<lambda>raw. Inr (sha256 raw))"

text \<open>\<open>str.encode()\<close>: UTF-8.\<close>

definition utf8_bytes :: "nat \<Rightarrow> bytes" where
  "utf8_bytes c =
     (if c < 0x80 then [c]
      else if c < 0x800 then [0xC0 + c div 64, 0x80 + c mod 64]
      else if c < 0x10000 then [0xE0 + c div 4096, 0x80 + c div 64 mod 64, 0x80 + c mod 64]
      else [0xF0 + c div 262144, 0x80 + c div 4096 mod 64, 0x80 + c div 64 mod 64, 0x80 + c mod 64])"

definition encode_utf8 :: "pystr \<Rightarrow> bytes res" where
  "encode_utf8 s =
     (if list_ex surrogate s then Inl UnicodeEncodeError else Inr (concat (map utf8_bytes s)))"

section \<open>Lemmas\<close>

lemma b64_value_char [simp]: "n < 64 \<Longrightarrow> b64_value (b64_char n) = Some n"
  by (auto simp: b64_value_def b64_char_def)

lemma b64_char_ascii: "n < 64 \<Longrightarrow> b64_char n < 128"
  by (auto simp: b64_char_def)

lemma div_mod_bounds:
  "(a::nat) < 256 \<Longrightarrow> a div 4 < 64" "a mod 4 * 16 < 64" "(b::nat) mod 16 * 4 < 64" "(c::nat) mod 64 < 64"
  "b < 256 \<Longrightarrow> a mod 4 * 16 + b div 16 < 64" "c < 256 \<Longrightarrow> b mod 16 * 4 + c div 64 < 64"
  by linarith+

lemma regroup:
  fixes b c :: nat
  assumes "b < 256"
  shows "b div 16 div 16 = 0" and "b div 16 mod 16 * 16 + b mod 16 = b"
    and "b div 64 div 4 = 0" and "b div 64 mod 4 * 64 + b mod 64 = b"
proof -
  show "b div 16 div 16 = 0" "b div 64 div 4 = 0" using assms by simp_all
  then have "b div 16 mod 16 = b div 16" "b div 64 mod 4 = b div 64"
    using assms by (simp_all add: mod_less)
  then show "b div 16 mod 16 * 16 + b mod 16 = b" "b div 64 mod 4 * 64 + b mod 64 = b"
    by simp_all
qed

lemma b64_values_encode:
  "list_all (\<lambda>b. b < 256) bs \<Longrightarrow> list_all (\<lambda>c. c < 128 \<and> b64_value c \<noteq> None) (encode_base64url bs)"
  by (induction bs rule: encode_base64url.induct) (simp_all add: div_mod_bounds b64_char_ascii)

lemma b64_groups_encode:
  "list_all (\<lambda>b. b < 256) bs \<Longrightarrow> b64_groups (map (the \<circ> b64_value) (encode_base64url bs)) = Some bs"
  by (induction bs rule: encode_base64url.induct) (simp_all add: div_mod_bounds regroup)

lemma length_encode: "length (encode_base64url bs) = (4 * length bs + 2) div 3"
  by (induction bs rule: encode_base64url.induct) simp_all

lemma encode_not_Nil: "bs \<noteq> [] \<Longrightarrow> encode_base64url bs \<noteq> []"
  by (cases bs rule: encode_base64url.cases) simp_all

lemma hash_secret_ascii: "list_all (\<lambda>c. c < 128) s \<Longrightarrow> hash_secret sha256 s = Inr (sha256 s)"
  by (simp add: hash_secret_def encode_ascii_def)

lemma hash_secret_Inr: "hash_secret sha256 s = Inr h \<longleftrightarrow> list_all (\<lambda>c. c < 128) s \<and> h = sha256 s"
  by (auto simp: hash_secret_def encode_ascii_def)

text \<open>
  C40.  Base64url round trip.  Every byte string that is not empty and within the size limit is
  decoded from its own encoding, so keys, nonces and signatures survive transport; the encoding is
  ASCII and of the expected length.
\<close>

theorem base64url_roundtrip:
  assumes "list_all (\<lambda>b. b < 256) bs" and "bs \<noteq> []" and "length bs \<le> n"
  shows "decode_base64url n (encode_base64url bs) = Inr bs \<and>
         list_all (\<lambda>c. c < 128) (encode_base64url bs) \<and>
         length (encode_base64url bs) = (4 * length bs + 2) div 3"
proof -
  have "\<not> list_ex (\<lambda>c. b64_value c = None) (encode_base64url bs)"
    and "list_all (\<lambda>c. c < 128) (encode_base64url bs)"
    using b64_values_encode [OF assms(1)] by (auto simp: list_all_iff list_ex_iff)
  moreover have "length (encode_base64url bs) \<le> n * 2"
    using assms(3) by (simp add: length_encode)
  ultimately show ?thesis
    using assms encode_not_Nil [OF assms(2)]
    by (simp add: decode_base64url_def b64_groups_encode length_encode)
qed

theorem base64url_roundtrip_witness:
  "decode_base64url 4096 (encode_base64url [255, 0, 62, 63]) = Inr [255, 0, 62, 63]"
  using base64url_roundtrip [of "[255, 0, 62, 63]" 4096] by simp

text \<open>
  The decoder is not injective, although it is described as strict: every single byte has,
  beside its encoding, another text that decodes to it, because the unused low bits of the last
  character are ignored.
\<close>

lemma base64url_malleable:
  assumes "b < 256" and "2 \<le> n"
  shows "\<exists>s. s \<noteq> encode_base64url [b] \<and> decode_base64url n s = decode_base64url n (encode_base64url [b])"
proof -
  let ?s = "[b64_char (b div 4), b64_char (b mod 4 * 16 + 1)]"
  have lt: "b div 4 < 64" "b mod 4 * 16 + 1 < 64" "b mod 4 * 16 < 64" using assms(1) by linarith+
  have low: "Suc (b mod 4 * 16) div 16 = b mod 4" by presburger
  have "decode_base64url n ?s = decode_base64url n (encode_base64url [b])"
    using lt assms(2) low by (simp add: decode_base64url_def)
  moreover have "?s \<noteq> encode_base64url [b]"
    using b64_value_char [OF lt(2)] b64_value_char [OF lt(3)] by (metis encode_base64url.simps(2) list.inject
        n_not_Suc_n option.inject Suc_eq_plus1)
  ultimately show ?thesis by blast
qed

end
