(* ===== verification/SessionApi.thy ===== *)
theory SessionApi
  imports SessionPort Encoding
begin

text \<open>
  \<open>SessionService\<close> of \<open>app/sessions.py\<close>, the browser-origin checks of \<open>app/security.py\<close> and the
  authentication dependencies and routes of \<open>app/session_api.py\<close>, over any session repository.
  \<open>sha256\<close> is \<open>hashlib.sha256(..).digest()\<close>, and \<open>random i n\<close> the result of the \<open>i\<close>-th call
  of \<open>secrets.token_bytes(n)\<close>.
\<close>

section \<open>Values of responses\<close>

datatype pyval =
    PyNone | PyStr pystr | PyInt int | PyBool bool | PyTime instant
  | PyList "pyval list" | PyDict "(pystr \<times> pyval) list"

definition py_option :: "('a \<Rightarrow> pyval) \<Rightarrow> 'a option \<Rightarrow> pyval" where
  "py_option f x = (case x of None \<Rightarrow> PyNone | Some v \<Rightarrow> f v)"

section \<open>Sessions\<close>

record session_secrets =
  sx_token :: pystr
  sx_csrf_secret :: pystr
  sx_token_hash :: bytes
  sx_csrf_hash :: bytes

record created_session =
  cs_record :: session
  cs_secrets :: session_secrets

definition generate_session_token :: "(nat \<Rightarrow> bytes) \<Rightarrow> pystr res" where
  "generate_session_token random = new_opaque_token random SESSION_TOKEN_BYTES"

definition generate_csrf_secret :: "(nat \<Rightarrow> bytes) \<Rightarrow> pystr res" where
  "generate_csrf_secret random = new_opaque_token random CSRF_SECRET_BYTES"

definition make_secrets :: "(bytes \<Rightarrow> bytes) \<Rightarrow> (nat \<Rightarrow> nat \<Rightarrow> bytes) \<Rightarrow> session_secrets res" where
  "make_secrets sha256 random =
     bind_res (generate_session_token (random 0)) (\<lambda>token.
     bind_res (generate_csrf_secret (random 1)) (\<lambda>csrf_secret.
     bind_res (hash_secret sha256 token) (\<lambda>token_hash.
     bind_res (hash_secret sha256 csrf_secret) (\<lambda>csrf_hash.
       Inr \<lparr>sx_token = token, sx_csrf_secret = csrf_secret, sx_token_hash = token_hash,
            sx_csrf_hash = csrf_hash\<rparr>))))"

definition session_expiry :: "instant \<Rightarrow> instant \<times> instant" where
  "session_expiry issued_at = (issued_at + SESSION_IDLE_LIFETIME, issued_at + SESSION_ABSOLUTE_LIFETIME)"

definition prepare ::
    "(bytes \<Rightarrow> bytes) \<Rightarrow> (nat \<Rightarrow> nat \<Rightarrow> bytes) \<Rightarrow> instant \<Rightarrow> instant option \<Rightarrow>
     (session_secrets \<times> instant \<times> instant) res" where
  "prepare sha256 random issued_at absolute_expires_at =
     (case session_expiry issued_at of (idle, default_absolute) \<Rightarrow>
        let absolute_expiry = (case absolute_expires_at of None \<Rightarrow> default_absolute | Some e \<Rightarrow> e)
        in if absolute_expiry \<le> issued_at then Inl ValueError
           else let idle_expires_at = min idle absolute_expiry
                in if idle_expires_at \<le> issued_at then Inl ValueError
                   else bind_res (make_secrets sha256 random)
                          (\<lambda>sx. Inr (sx, idle_expires_at, absolute_expiry)))"

text \<open>
  The methods of \<open>SessionService\<close>.  \<open>issued_at\<close> is \<open>created_at\<close> or the service's clock, \<open>now\<close> the
  repository's; \<open>fresh\<close> the identifier of the new row.
\<close>

definition service_create ::
    "'s session_port \<Rightarrow> (bytes \<Rightarrow> bytes) \<Rightarrow> (nat \<Rightarrow> nat \<Rightarrow> bytes) \<Rightarrow> instant \<Rightarrow> uuid \<Rightarrow> uuid \<Rightarrow> uuid \<Rightarrow> int \<Rightarrow>
     instant \<Rightarrow> instant option \<Rightarrow> 's \<Rightarrow> created_session res \<times> 's" where
  "service_create port sha256 random now fresh a v epoch issued_at absolute_expires_at s =
     (case prepare sha256 random issued_at absolute_expires_at of
        Inl e \<Rightarrow> (Inl e, s)
      | Inr (sx, idle_expires_at, absolute_expiry) \<Rightarrow>
          (case sp_create port now fresh a v (sx_token_hash sx) (sx_csrf_hash sx) epoch idle_expires_at
                  absolute_expiry s of
             (Inl e, s') \<Rightarrow> (Inl e, s')
           | (Inr record, s') \<Rightarrow> (Inr \<lparr>cs_record = record, cs_secrets = sx\<rparr>, s')))"

definition rotate_session ::
    "'s session_port \<Rightarrow> (bytes \<Rightarrow> bytes) \<Rightarrow> (nat \<Rightarrow> nat \<Rightarrow> bytes) \<Rightarrow> clock \<Rightarrow> uuid \<Rightarrow> uuid \<Rightarrow> session \<Rightarrow>
     instant \<Rightarrow> 's \<Rightarrow> created_session res \<times> 's" where
  "rotate_session port sha256 random clk fresh a previous issued_at s =
     (if se_absolute_expires_at previous \<le> issued_at then (Inl ValueError, s)
      else case sp_revoke port (clk 0) a (se_id previous) (lit ''rotation'') s of
             (Inl e, s1) \<Rightarrow> (Inl e, s1)
           | (Inr None, s1) \<Rightarrow> (Inl ValueError, s1)
           | (Inr (Some _), s1) \<Rightarrow>
               service_create port sha256 random (clk 1) fresh a (se_device_id previous)
                 (se_epoch previous) issued_at (Some (se_absolute_expires_at previous)) s1)"

definition service_revoke ::
    "'s session_port \<Rightarrow> instant \<Rightarrow> uuid \<Rightarrow> uuid \<Rightarrow> pystr \<Rightarrow> 's \<Rightarrow> session option res \<times> 's" where
  "service_revoke port now a i reason s = sp_revoke port now a i reason s"

definition reissue_csrf ::
    "'s session_port \<Rightarrow> (bytes \<Rightarrow> bytes) \<Rightarrow> (nat \<Rightarrow> bytes) \<Rightarrow> instant \<Rightarrow> uuid \<Rightarrow> uuid \<Rightarrow> 's \<Rightarrow>
     (pystr \<times> session) res \<times> 's" where
  "reissue_csrf port sha256 random now a i s =
     (case bind_res (generate_csrf_secret random)
             (\<lambda>csrf_secret. bind_res (hash_secret sha256 csrf_secret) (\<lambda>h. Inr (csrf_secret, h))) of
        Inl e \<Rightarrow> (Inl e, s)
      | Inr (csrf_secret, csrf_hash) \<Rightarrow>
          (case sp_replace_csrf_hash port now a i csrf_hash s of
             (Inl e, s') \<Rightarrow> (Inl e, s')
           | (Inr None, s') \<Rightarrow> (Inl ValueError, s')
           | (Inr (Some updated), s') \<Rightarrow> (Inr (csrf_secret, updated), s')))"

section \<open>Requests\<close>

text \<open>
  What the dependencies read of a request: the headers, the cookie, the session cached in
  \<open>request.state\<close>, the configured origin (\<open>None\<close> when the application has no settings), and the
  repositories and services of the application state.
\<close>

record 's request =
  rq_origin :: "pystr option"
  rq_csrf_token :: "pystr option"
  rq_cookie :: "pystr option"
  rq_session :: "session option"
  rq_app_origin :: "pystr option"
  rq_session_repository :: "'s session_port option"
  rq_has_session_service :: bool

definition configured_settings :: "'s request \<Rightarrow> pystr res" where
  "configured_settings rq = (case rq_app_origin rq of None \<Rightarrow> Inl RuntimeError | Some origin \<Rightarrow> Inr origin)"

definition request_origin_is_allowed :: "'s request \<Rightarrow> bool \<Rightarrow> bool res" where
  "request_origin_is_allowed rq require =
     bind_res (configured_settings rq) (\<lambda>app_origin.
       let allowed = (rq_origin rq = Some app_origin)
       in if require \<and> \<not> allowed then Inl (HTTPException 403) else Inr allowed)"

definition require_exact_origin :: "'s request \<Rightarrow> unit res" where
  "require_exact_origin rq = bind_res (request_origin_is_allowed rq True) (\<lambda>_. Inr ())"

definition check_optional_origin :: "'s request \<Rightarrow> unit res" where
  "check_optional_origin rq =
     (if rq_origin rq \<noteq> None then require_exact_origin rq else Inr ())"

definition csrf_header :: "'s request \<Rightarrow> pystr option" where
  "csrf_header rq =
     (case rq_csrf_token rq of None \<Rightarrow> None | Some value \<Rightarrow> if value = [] then None else Some value)"

section \<open>Authentication\<close>

definition digest_of_cookie :: "(bytes \<Rightarrow> bytes) \<Rightarrow> pystr option \<Rightarrow> bytes option" where
  "digest_of_cookie sha256 token =
     (case token of
        None \<Rightarrow> None
      | Some t \<Rightarrow>
          if \<not> (1 \<le> length t \<and> length t \<le> 512) then None
          else case hash_secret sha256 t of Inl _ \<Rightarrow> None | Inr h \<Rightarrow> Some h)"

definition is_current :: "session \<Rightarrow> instant \<Rightarrow> bool" where
  "is_current record now \<longleftrightarrow>
     se_revoked_at record = None \<and> se_idle_expires_at record > now \<and> se_absolute_expires_at record > now"

text \<open>\<open>SessionAuthenticator.authenticate\<close>: the readings of the lookup, of the check and of the refresh.\<close>

definition authenticate ::
    "'s session_port \<Rightarrow> (bytes \<Rightarrow> bytes) \<Rightarrow> clock \<Rightarrow> pystr option \<Rightarrow> 's \<Rightarrow> session option res \<times> 's" where
  "authenticate port sha256 clk token s =
     (case digest_of_cookie sha256 token of
        None \<Rightarrow> (Inr None, s)
      | Some token_hash \<Rightarrow>
          (case sp_find_by_token_hash port (clk 0) token_hash s of
             None \<Rightarrow> (Inr None, s)
           | Some record \<Rightarrow>
               if \<not> is_current record (clk 1) then (Inr None, s)
               else case sp_touch_last_seen port (clk 2) (se_user_id record) (se_id record) s of
                      (Inl e, s') \<Rightarrow> (Inl e, s')
                    | (Inr None, s') \<Rightarrow> (Inr (Some record), s')
                    | (Inr (Some refreshed), s') \<Rightarrow> (Inr (Some refreshed), s')))"

definition get_authenticated_session ::
    "'s request \<Rightarrow> (bytes \<Rightarrow> bytes) \<Rightarrow> clock \<Rightarrow> 's \<Rightarrow> session res \<times> 's" where
  "get_authenticated_session rq sha256 clk s =
     (case rq_session rq of
        Some existing \<Rightarrow> (Inr existing, s)
      | None \<Rightarrow>
          (case rq_session_repository rq of
             None \<Rightarrow> (Inl RuntimeError, s)
           | Some port \<Rightarrow>
               (case authenticate port sha256 clk (rq_cookie rq) s of
                  (Inl e, s') \<Rightarrow> (Inl e, s')
                | (Inr None, s') \<Rightarrow> (Inl (HTTPException 401), s')
                | (Inr (Some record), s') \<Rightarrow> (Inr record, s'))))"

definition valid_csrf_value :: "(bytes \<Rightarrow> bytes) \<Rightarrow> pystr \<Rightarrow> bytes \<Rightarrow> bool" where
  "valid_csrf_value sha256 value expected_hash =
     (if \<not> (1 \<le> length value \<and> length value \<le> 512) then False
      else case hash_secret sha256 value of Inl _ \<Rightarrow> False | Inr actual_hash \<Rightarrow> actual_hash = expected_hash)"

text \<open>\<open>require_session_csrf\<close>: the session dependency is resolved before the origin dependency.\<close>

definition require_session_csrf ::
    "'s request \<Rightarrow> (bytes \<Rightarrow> bytes) \<Rightarrow> clock \<Rightarrow> 's \<Rightarrow> session res \<times> 's" where
  "require_session_csrf rq sha256 clk s =
     (case get_authenticated_session rq sha256 clk s of
        (Inl e, s') \<Rightarrow> (Inl e, s')
      | (Inr session, s') \<Rightarrow>
          (case require_exact_origin rq of
             Inl e \<Rightarrow> (Inl e, s')
           | Inr _ \<Rightarrow>
               (case csrf_header rq of
                  None \<Rightarrow> (Inl (HTTPException 403), s')
                | Some supplied \<Rightarrow>
                    if \<not> valid_csrf_value sha256 supplied (se_csrf_hash session)
                    then (Inl (HTTPException 403), s') else (Inr session, s'))))"

section \<open>Routes\<close>

definition public_session :: "session \<Rightarrow> (pystr \<times> pyval) list" where
  "public_session record =
     [(lit ''session_id'', PyStr (uuid_str (se_id record))),
      (lit ''device_id'', PyStr (uuid_str (se_device_id record))),
      (lit ''created_at'', PyTime (se_created_at record)),
      (lit ''last_seen_at'', PyTime (se_last_seen_at record)),
      (lit ''idle_expires_at'', PyTime (se_idle_expires_at record)),
      (lit ''absolute_expires_at'', PyTime (se_absolute_expires_at record)),
      (lit ''revoked_at'', py_option PyTime (se_revoked_at record)),
      (lit ''revocation_reason'', py_option PyStr (se_revocation_reason record))]"

definition current_session ::
    "'s request \<Rightarrow> (bytes \<Rightarrow> bytes) \<Rightarrow> (nat \<Rightarrow> bytes) \<Rightarrow> clock \<Rightarrow> 's \<Rightarrow> pyval res \<times> 's" where
  "current_session rq sha256 random clk s =
     (case get_authenticated_session rq sha256 clk s of
        (Inl e, s1) \<Rightarrow> (Inl e, s1)
      | (Inr session, s1) \<Rightarrow>
          (case check_optional_origin rq of
             Inl e \<Rightarrow> (Inl e, s1)
           | Inr _ \<Rightarrow>
               (case rq_session_repository rq of
                  None \<Rightarrow> (Inl RuntimeError, s1)
                | Some port \<Rightarrow>
                    if \<not> rq_has_session_service rq then (Inl RuntimeError, s1)
                    else case reissue_csrf port sha256 random (clk 3) (se_user_id session) (se_id session) s1 of
                           (Inl e, s2) \<Rightarrow> (Inl e, s2)
                         | (Inr (csrf_secret, updated), s2) \<Rightarrow>
                             (Inr (PyDict (public_session updated @
                                [(lit ''authenticated'', PyBool True),
                                 (lit ''account_id'', PyStr (uuid_str (se_user_id updated))),
                                 (lit ''account_device_epoch'', PyInt (se_epoch updated)),
                                 (lit ''csrf_token'', PyStr csrf_secret),
                                 (lit ''session'', PyDict (public_session updated))])), s2))))"

definition list_sessions :: "'s request \<Rightarrow> (bytes \<Rightarrow> bytes) \<Rightarrow> clock \<Rightarrow> 's \<Rightarrow> pyval res \<times> 's" where
  "list_sessions rq sha256 clk s =
     (case get_authenticated_session rq sha256 clk s of
        (Inl e, s1) \<Rightarrow> (Inl e, s1)
      | (Inr session, s1) \<Rightarrow>
          (case check_optional_origin rq of
             Inl e \<Rightarrow> (Inl e, s1)
           | Inr _ \<Rightarrow>
               (case rq_session_repository rq of
                  None \<Rightarrow> (Inl RuntimeError, s1)
                | Some port \<Rightarrow>
                    (Inr (PyDict [(lit ''sessions'',
                       PyList (map (PyDict \<circ> public_session)
                         (sp_list_for_account port (se_user_id session) s1)))]), s1))))"

text \<open>The cookie attributes of \<open>set_session_cookie\<close> and \<open>clear_session_cookie\<close>.\<close>

record cookie =
  ck_key :: pystr
  ck_value :: pystr
  ck_max_age :: int
  ck_path :: pystr
  ck_secure :: bool
  ck_httponly :: bool
  ck_samesite :: pystr

definition SESSION_COOKIE_NAME :: pystr where "SESSION_COOKIE_NAME = lit ''__Host-session''"

definition SESSION_ABSOLUTE_SECONDS :: int where
  "SESSION_ABSOLUTE_SECONDS = SESSION_ABSOLUTE_LIFETIME div 1000000"

definition set_session_cookie :: "pystr \<Rightarrow> cookie" where
  "set_session_cookie token =
     \<lparr>ck_key = SESSION_COOKIE_NAME, ck_value = token, ck_max_age = SESSION_ABSOLUTE_SECONDS,
      ck_path = lit ''/'', ck_secure = True, ck_httponly = True, ck_samesite = lit ''lax''\<rparr>"

definition issue_for_device ::
    "'s session_port \<Rightarrow> (bytes \<Rightarrow> bytes) \<Rightarrow> (nat \<Rightarrow> nat \<Rightarrow> bytes) \<Rightarrow> instant \<Rightarrow> uuid \<Rightarrow> uuid \<Rightarrow> uuid \<Rightarrow> int \<Rightarrow>
     instant \<Rightarrow> 's \<Rightarrow> (created_session \<times> cookie) res \<times> 's" where
  "issue_for_device port sha256 random now fresh a v epoch issued_at s =
     (case service_create port sha256 random now fresh a v epoch issued_at None s of
        (Inl e, s') \<Rightarrow> (Inl e, s')
      | (Inr created, s') \<Rightarrow> (Inr (created, set_session_cookie (sx_token (cs_secrets created))), s'))"

section \<open>What an accepted request implies\<close>

lemma digest_of_cookie_Some:
  "digest_of_cookie sha256 token = Some h \<longleftrightarrow>
     (\<exists>t. token = Some t \<and> 1 \<le> length t \<and> length t \<le> 512 \<and> list_all (\<lambda>c. c < 128) t \<and> h = sha256 t)"
  by (auto simp: digest_of_cookie_def hash_secret_def encode_ascii_def split: option.splits)

lemma valid_csrf_iff:
  "valid_csrf_value sha256 v h \<longleftrightarrow> 1 \<le> length v \<and> length v \<le> 512 \<and> list_all (\<lambda>c. c < 128) v \<and> sha256 v = h"
  by (auto simp: valid_csrf_value_def hash_secret_def encode_ascii_def)

lemma require_exact_origin_Inr:
  "require_exact_origin rq = Inr u \<longleftrightarrow> (\<exists>origin. rq_app_origin rq = Some origin \<and> rq_origin rq = Some origin)"
  by (auto simp: require_exact_origin_def request_origin_is_allowed_def configured_settings_def Let_def
      split: option.splits)

lemma csrf_header_Some: "csrf_header rq = Some v \<longleftrightarrow> rq_csrf_token rq = Some v \<and> v \<noteq> []"
  by (auto simp: csrf_header_def split: option.splits)

lemma is_current_usable: "is_current x now = session_usable now x"
  by (simp add: is_current_def session_usable_def)

lemma require_session_csrf_Inr:
  "require_session_csrf rq sha256 clk s = (Inr x, s') \<longleftrightarrow>
     get_authenticated_session rq sha256 clk s = (Inr x, s') \<and>
     (\<exists>origin. rq_app_origin rq = Some origin \<and> rq_origin rq = Some origin) \<and>
     (\<exists>v. rq_csrf_token rq = Some v \<and> valid_csrf_value sha256 v (se_csrf_hash x))"
proof -
  have "\<not> valid_csrf_value sha256 [] h" for h by (simp add: valid_csrf_iff)
  then show ?thesis
    using require_exact_origin_Inr [of rq "()"]
    by (auto simp: require_session_csrf_def csrf_header_def split: prod.splits sum.splits option.splits if_splits)
qed

lemma make_secrets_Inr:
  assumes "make_secrets sha256 random = Inr sx"
  shows "sx_token sx = encode_base64url (random 0 32)" and "sx_csrf_secret sx = encode_base64url (random 1 32)"
    and "sx_token_hash sx = sha256 (sx_token sx)" and "sx_csrf_hash sx = sha256 (sx_csrf_secret sx)"
  using assms
  by (auto simp: make_secrets_def generate_session_token_def generate_csrf_secret_def new_opaque_token_def
      SESSION_TOKEN_BYTES_def CSRF_SECRET_BYTES_def bind_res_Inr hash_secret_Inr)

lemma prepare_Inr:
  assumes "prepare sha256 random issued hard = Inr (sx, idle, hard')"
  shows "make_secrets sha256 random = Inr sx" and "issued < idle" and "idle \<le> hard'"
    and "idle \<le> issued + SESSION_IDLE_LIFETIME"
    and "hard' = (case hard of None \<Rightarrow> issued + SESSION_ABSOLUTE_LIFETIME | Some e \<Rightarrow> e)"
  using assms
  by (auto simp: prepare_def session_expiry_def Let_def bind_res_Inr split: if_splits)

lemma service_create_Inr:
  assumes "service_create port sha256 random now fresh a v ep issued hard s = (Inr c, s')"
  obtains idle hard' where "prepare sha256 random issued hard = Inr (cs_secrets c, idle, hard')"
    "sp_create port now fresh a v (sx_token_hash (cs_secrets c)) (sx_csrf_hash (cs_secrets c)) ep idle hard' s =
       (Inr (cs_record c), s')"
  using assms by (auto simp: service_create_def split: sum.splits prod.splits)

lemma evolves_images:
  assumes "list_all2 session_evolves xs ys"
  shows "se_id ` set ys = se_id ` set xs \<and> se_token_hash ` set ys = se_token_hash ` set xs"
  using assms by (induction rule: list_all2_induct) (auto simp: session_evolves_def)

context session_repository
begin

text \<open>What authentication by a cookie returns: the stored session of that token, refreshed or not.\<close>

lemma authenticate_sound:
  assumes "inv s" and "authenticate port sha256 clk token s = (Inr (Some x), s')"
  shows "\<exists>t y. token = Some t \<and> 1 \<le> length t \<and> length t \<le> 512 \<and>
           y \<in> set (rows s) \<and> se_token_hash y = sha256 t \<and>
           session_usable (clk 0) y \<and> session_usable (clk 1) y \<and> bound s y \<and>
           session_evolves y x \<and> (x = y \<or> x = touched (clk 2) y)"
proof -
  obtain h y where h: "digest_of_cookie sha256 token = Some h"
    and y: "sp_find_by_token_hash port (clk 0) h s = Some y" "is_current y (clk 1)"
    and t: "sp_touch_last_seen port (clk 2) (se_user_id y) (se_id y) s = (Inr None, s') \<and> x = y \<or>
      sp_touch_last_seen port (clk 2) (se_user_id y) (se_id y) s = (Inr (Some x), s')"
    using assms(2) by (auto simp: authenticate_def split: option.splits if_splits prod.splits sum.splits)
  have law: "y \<in> set (rows s)" "se_token_hash y = h" "session_usable (clk 0) y" "bound s y"
    using find_law [OF assms(1)] y(1) by blast+
  have "x = y \<or> x = touched (clk 2) y"
  proof (cases "x = y")
    case False
    then have "sp_touch_last_seen port (clk 2) (se_user_id y) (se_id y) s = (Inr (Some x), s')" using t by blast
    from touch_law [OF assms(1) this] obtain z where
      z: "z \<in> set (rows s)" "x = touched (clk 2) z" "se_id z = se_id y" by blast
    then have "z = y" using distinct_key_eq [of se_id "rows s" z y] unique_law [OF assms(1)] law(1) by blast
    then show ?thesis using z(2) by blast
  qed blast
  moreover have "session_evolves y x"
    using calculation law(3) by auto
  ultimately show ?thesis
    using h law y(2) unfolding digest_of_cookie_Some is_current_usable by blast
qed

lemma created_authenticates:
  assumes "inv s" and "fresh \<notin> se_id ` set (rows s)" and "sha256 (encode_base64url (random 0 32)) \<notin> se_token_hash ` set (rows s)"
    and "list_all (\<lambda>b. b < 256) (random 0 32)" and "length (random 0 32) = 32"
    and "service_create port sha256 random now fresh a v ep issued hard s = (Inr c, s')"
    and "\<forall>i. now \<le> clk i \<and> clk i < se_idle_expires_at (cs_record c)"
  shows "\<exists>s''. authenticate port sha256 clk (Some (sx_token (cs_secrets c))) s' =
           (Inr (Some (touched (clk 2) (cs_record c))), s'')"
proof -
  let ?sx = "cs_secrets c" and ?x = "cs_record c"
  obtain idle hard' where p: "prepare sha256 random issued hard = Inr (?sx, idle, hard')"
    and k: "sp_create port now fresh a v (sx_token_hash ?sx) (sx_csrf_hash ?sx) ep idle hard' s = (Inr ?x, s')"
    using service_create_Inr [OF assms(6)] .
  note sx = make_secrets_Inr [OF prepare_Inr(1) [OF p]]
  have law: "inv s'" "?x = new_session now fresh a v (sx_token_hash ?sx) (sx_csrf_hash ?sx) ep idle hard'"
    "?x \<in> set (rows s')" "bound s' ?x"
    using create_law [OF assms(1,2) _ k] assms(3) by (auto simp: sx)
  have f: "se_idle_expires_at ?x = idle" "se_absolute_expires_at ?x = hard'" "se_created_at ?x = now"
    "se_revoked_at ?x = None" "se_token_hash ?x = sha256 (sx_token ?sx)"
    unfolding law(2) by (simp_all add: new_session_def sx(3))
  have live: "session_usable (clk i) ?x" "se_created_at ?x \<le> clk i" for i
    using assms(7) [rule_format, of i] prepare_Inr(3) [OF p] f by (auto simp: session_usable_def)
  have d: "digest_of_cookie sha256 (Some (sx_token ?sx)) = Some (sha256 (sx_token ?sx))"
    using b64_values_encode [OF assms(4)] assms(5)
    by (simp add: digest_of_cookie_Some sx(1) length_encode list_all_iff)
  have "sp_find_by_token_hash port (clk 0) (sha256 (sx_token ?sx)) s' = Some ?x"
    using find_law [OF law(1)] law(3,4) live(1) f(5) by blast
  then show ?thesis
    using d touch_live [OF law(1,3) live(1) law(4) live(2), of 2] live(1) [of 1]
    by (auto simp: authenticate_def is_current_usable)
qed

lemma rotate_result:
  assumes "inv s" and "fresh \<notin> se_id ` set (rows s)"
    and "sha256 (encode_base64url (random 0 32)) \<notin> se_token_hash ` set (rows s)"
    and "rotate_session port sha256 random clk fresh a prev issued s = (Inr c, s')"
  shows "inv s' \<and> (\<exists>x\<in>set (rows s'). se_id x = se_id prev \<and> se_revoked_at x \<noteq> None) \<and>
    cs_record c \<in> set (rows s') \<and> se_id (cs_record c) = fresh \<and> fresh \<noteq> se_id prev \<and>
    se_user_id (cs_record c) = a \<and> se_device_id (cs_record c) = se_device_id prev \<and>
    se_epoch (cs_record c) = se_epoch prev \<and>
    se_absolute_expires_at (cs_record c) = se_absolute_expires_at prev \<and>
    se_idle_expires_at (cs_record c) \<le> se_absolute_expires_at prev"
proof -
  obtain x s1 where r: "sp_revoke port (clk 0) a (se_id prev) (lit ''rotation'') s = (Inr (Some x), s1)"
    and k: "service_create port sha256 random (clk 1) fresh a (se_device_id prev) (se_epoch prev) issued
      (Some (se_absolute_expires_at prev)) s1 = (Inr c, s')"
    using assms(4) by (auto simp: rotate_session_def split: if_splits prod.splits sum.splits option.splits)
  note rl = revoke_law [OF assms(1) r]
  have same: "se_id ` set (rows s1) = se_id ` set (rows s)" "se_token_hash ` set (rows s1) = se_token_hash ` set (rows s)"
    using evolves_images [OF rl [THEN conjunct2, THEN conjunct1]] by auto
  obtain idle hard' where p: "prepare sha256 random issued (Some (se_absolute_expires_at prev)) = Inr (cs_secrets c, idle, hard')"
    and m: "sp_create port (clk 1) fresh a (se_device_id prev) (sx_token_hash (cs_secrets c)) (sx_csrf_hash (cs_secrets c))
       (se_epoch prev) idle hard' s1 = (Inr (cs_record c), s')"
    using service_create_Inr [OF k] .
  note sx = make_secrets_Inr [OF prepare_Inr(1) [OF p]]
  have law: "inv s'" "cs_record c = new_session (clk 1) fresh a (se_device_id prev) (sx_token_hash (cs_secrets c))
      (sx_csrf_hash (cs_secrets c)) (se_epoch prev) idle hard'" "rows s' = rows s1 @ [cs_record c]"
    using create_law [OF rl [THEN conjunct1] _ _ m] assms(2,3) unfolding same sx by auto
  have f: "se_id (cs_record c) = fresh" "se_user_id (cs_record c) = a" "se_epoch (cs_record c) = se_epoch prev"
    "se_device_id (cs_record c) = se_device_id prev" "se_absolute_expires_at (cs_record c) = hard'"
    "se_idle_expires_at (cs_record c) = idle"
    unfolding law(2) by (simp_all add: new_session_def)
  have x: "x \<in> set (rows s1)" "se_id x = se_id prev" "se_revoked_at x \<noteq> None" using rl by auto
  then have "fresh \<noteq> se_id prev" using assms(2) same(1) by (metis image_eqI)
  then show ?thesis
    using law(1) x f prepare_Inr(3,5) [OF p] unfolding law(3) by auto
qed

end

section \<open>Properties\<close>

definition sample_request :: "db request" where
  "sample_request =
     \<lparr>rq_origin = Some (lit ''https://app''), rq_csrf_token = Some (replicate 32 2),
      rq_cookie = Some (replicate 32 1), rq_session = None, rq_app_origin = Some (lit ''https://app''),
      rq_session_repository = Some sql_sessions, rq_has_session_service = True\<rparr>"

lemma write_request_session:
  assumes "session_inv d" and "rq_session rq = None" and "rq_session_repository rq = Some sql_sessions"
    and "require_session_csrf rq sha256 clk d = (Inr x, d')"
  shows "\<exists>origin cookie csrf y.
           rq_app_origin rq = Some origin \<and> rq_origin rq = Some origin \<and>
           rq_cookie rq = Some cookie \<and> y \<in> set (app_sessions d) \<and> se_token_hash y = sha256 cookie \<and>
           session_usable (clk 0) y \<and> session_usable (clk 1) y \<and> session_bound d y \<and>
           session_evolves y x \<and> (x = y \<or> x = touched (clk 2) y) \<and>
           rq_csrf_token rq = Some csrf \<and> sha256 csrf = se_csrf_hash y"
proof -
  from assms(4) [unfolded require_session_csrf_Inr] obtain origin csrf where
    g: "get_authenticated_session rq sha256 clk d = (Inr x, d')"
      "rq_app_origin rq = Some origin" "rq_origin rq = Some origin"
      "rq_csrf_token rq = Some csrf" "valid_csrf_value sha256 csrf (se_csrf_hash x)" by blast
  have "authenticate sql_sessions sha256 clk (rq_cookie rq) d = (Inr (Some x), d')"
    using g(1) assms(2,3)
    by (auto simp: get_authenticated_session_def split: prod.splits sum.splits option.splits)
  from sqls.authenticate_sound [OF assms(1) this] obtain t y where
    y: "rq_cookie rq = Some t" "y \<in> set (app_sessions d)" "se_token_hash y = sha256 t"
      "session_usable (clk 0) y" "session_usable (clk 1) y" "session_bound d y" "session_evolves y x"
      "x = y \<or> x = touched (clk 2) y" by blast
  have "se_csrf_hash x = se_csrf_hash y" using y(8) by (auto simp: touched_def)
  then show ?thesis
    using g y by (auto simp: valid_csrf_iff)
qed

text \<open>
  C6.  What a state-changing request has to carry.  When \<open>require_session_csrf\<close> lets a request
  through, on the SQL repository, its \<open>Origin\<close> is exactly the configured one, its cookie hashes to
  the token digest of a stored session that was neither revoked nor expired and whose account and
  device are in good standing at its epoch, the session handed to the route is that session, and
  the header's value hashes to that session's CSRF digest.
\<close>

theorem write_request_authentic:
  assumes "session_inv d" and "rq_session rq = None" and "rq_session_repository rq = Some sql_sessions"
    and "require_session_csrf rq sha256 clk d = (Inr x, d')"
  shows "\<exists>origin cookie csrf y.
           rq_app_origin rq = Some origin \<and> rq_origin rq = Some origin \<and>
           rq_cookie rq = Some cookie \<and> y \<in> set (app_sessions d) \<and> se_token_hash y = sha256 cookie \<and>
           session_usable (clk 0) y \<and> session_usable (clk 1) y \<and> session_bound d y \<and>
           session_evolves y x \<and> (x = y \<or> x = touched (clk 2) y) \<and>
           rq_csrf_token rq = Some csrf \<and> sha256 csrf = se_csrf_hash y"
  by (rule write_request_session [OF assms])

theorem write_request_authentic_witness:
  "\<exists>x d'. require_session_csrf sample_request id (\<lambda>_. 9) (session_db [sample_session]) = (Inr x, d') \<and>
     se_token_hash x = replicate 32 1"
proof -
  let ?r = "require_session_csrf sample_request id (\<lambda>_. 9) (session_db [sample_session])"
  have "\<not> isl (fst ?r)" by code_simp
  then obtain x d' where r: "?r = (Inr x, d')" by (metis prod.collapse sum.collapse(2))
  then have "se_token_hash x = replicate 32 1"
    using write_request_authentic [OF sample_session_inv _ _ r]
    by (auto simp: sample_request_def session_evolves_def)
  then show ?thesis using r by blast
qed

text \<open>
  A session that was issued can be used.  When \<open>SessionService.create\<close> returns, the cookie value
  it returned authenticates, at any times from the creation up to the idle deadline, and yields
  the created session, refreshed: the token that is hashed into the row is the one handed out, and
  the token is one the cookie check admits.
\<close>

theorem issued_session_authenticates:
  assumes "session_inv d" and "fresh \<notin> se_id ` set (app_sessions d)"
    and "sha256 (encode_base64url (random 0 32)) \<notin> se_token_hash ` set (app_sessions d)"
    and "list_all (\<lambda>b. b < 256) (random 0 32)" and "length (random 0 32) = 32"
    and "service_create sql_sessions sha256 random now fresh a v ep issued hard d = (Inr c, d')"
    and "\<forall>i. now \<le> clk i \<and> clk i < se_idle_expires_at (cs_record c)"
  shows "\<exists>d''. authenticate sql_sessions sha256 clk (Some (sx_token (cs_secrets c))) d' =
           (Inr (Some (touched (clk 2) (cs_record c))), d'')"
  by (rule sqls.created_authenticates [OF assms])

definition sample_random :: "nat \<Rightarrow> nat \<Rightarrow> bytes" where
  "sample_random i n = replicate n (i + 7)"

definition sample_sha :: "bytes \<Rightarrow> bytes" where
  "sample_sha bs = take 32 (bs @ replicate 32 0)"

theorem issued_session_authenticates_witness:
  "\<exists>c d' d''. service_create sql_sessions sample_sha sample_random 3 6 1 10 0 3 None (session_db [sample_session]) =
       (Inr c, d') \<and>
     authenticate sql_sessions sample_sha (\<lambda>_. 4) (Some (sx_token (cs_secrets c))) d' =
       (Inr (Some (touched 4 (cs_record c))), d'')"
proof -
  let ?r = "service_create sql_sessions sample_sha sample_random 3 6 1 10 0 3 None (session_db [sample_session])"
  have 1: "\<not> isl (fst ?r) \<and> 4 < se_idle_expires_at (cs_record (projr (fst ?r)))" by code_simp
  then obtain c d' where r: "?r = (Inr c, d')" by (metis prod.collapse sum.collapse(2))
  have 2: "sample_sha (encode_base64url (sample_random 0 32)) \<noteq> replicate 32 1" by code_simp
  have "\<exists>d''. authenticate sql_sessions sample_sha (\<lambda>_. 4) (Some (sx_token (cs_secrets c))) d' =
      (Inr (Some (touched 4 (cs_record c))), d'')"
    using issued_session_authenticates [OF sample_session_inv _ _ _ _ r, of "\<lambda>_. 4"] 1 2 r
    by (simp add: session_db_def sample_session_def new_session_def sample_random_def list_all_iff)
  then show ?thesis using r by blast
qed

text \<open>
  Rotation neither extends nor duplicates a session.  When \<open>rotate\<close> returns, the previous
  session is revoked in the table, and the new one belongs to the same account, device and epoch
  and keeps the previous absolute deadline, its idle deadline not exceeding it.
\<close>

theorem rotation_keeps_deadline:
  assumes "session_inv d" and "fresh \<notin> se_id ` set (app_sessions d)"
    and "sha256 (encode_base64url (random 0 32)) \<notin> se_token_hash ` set (app_sessions d)"
    and "rotate_session sql_sessions sha256 random clk fresh a prev issued d = (Inr c, d')"
  shows "session_inv d' \<and>
    (\<exists>x\<in>set (app_sessions d'). se_id x = se_id prev \<and> se_revoked_at x \<noteq> None) \<and>
    cs_record c \<in> set (app_sessions d') \<and> se_id (cs_record c) = fresh \<and> fresh \<noteq> se_id prev \<and>
    se_user_id (cs_record c) = a \<and> se_device_id (cs_record c) = se_device_id prev \<and>
    se_epoch (cs_record c) = se_epoch prev \<and>
    se_absolute_expires_at (cs_record c) = se_absolute_expires_at prev \<and>
    se_idle_expires_at (cs_record c) \<le> se_absolute_expires_at prev"
  by (rule sqls.rotate_result [OF assms])

theorem rotation_keeps_deadline_witness:
  "\<exists>c d'. rotate_session sql_sessions sample_sha sample_random (\<lambda>_. 3) 6 1 sample_session 3
       (session_db [sample_session]) = (Inr c, d') \<and>
     se_absolute_expires_at (cs_record c) = se_absolute_expires_at sample_session"
proof -
  let ?r = "rotate_session sql_sessions sample_sha sample_random (\<lambda>_. 3) 6 1 sample_session 3
       (session_db [sample_session])"
  have "\<not> isl (fst ?r)" by code_simp
  then obtain c d' where r: "?r = (Inr c, d')" by (metis prod.collapse sum.collapse(2))
  have 2: "sample_sha (encode_base64url (sample_random 0 32)) \<noteq> replicate 32 1" by code_simp
  have "se_absolute_expires_at (cs_record c) = se_absolute_expires_at sample_session"
    using rotation_keeps_deadline [OF sample_session_inv _ _ r] 2
    by (simp add: session_db_def sample_session_def new_session_def)
  then show ?thesis using r by blast
qed

end
