(* ===== verification/TransferRepo.thy ===== *)
theory TransferRepo
  imports Models
begin

text \<open>
  \<open>TransferRequestRepository\<close> of \<open>repositories/transfers.py\<close>: each method is one SQL
  statement, modelled on the database record with \<open>now\<close> the statement's
  \<open>CURRENT_TIMESTAMP\<close>.  The result is paired with the database afterwards; a failed
  statement leaves the database as it was.  The second half proves that the methods move a
  transfer only along \<open>_VALID_TRANSITIONS\<close>, that terminal rows never change, that no method
  touches another account's rows and that the table constraints never make a method fail.
\<close>

section \<open>Status constants\<close>

definition ACTIVE_STATUSES :: "transfer_status list" where
  "ACTIVE_STATUSES = [Offered, Accepted, Negotiating, Connected, Transferring]"

definition FAILABLE_STATUSES :: "transfer_status list" where
  "FAILABLE_STATUSES = [Accepted, Negotiating, Connected, Transferring]"

definition VALID_TRANSITIONS :: "(transfer_status, transfer_status list) dict" where
  "VALID_TRANSITIONS =
     [(Offered, [Accepted, Rejected, Expired, Cancelled]),
      (Accepted, [Negotiating, Cancelled, Failed, Expired]),
      (Negotiating, [Connected, Cancelled, Failed, Expired]),
      (Connected, [Transferring, Cancelled, Failed, Expired]),
      (Transferring, [Completed, Cancelled, Failed, Expired])]"

section \<open>Queries\<close>

definition sql_get_by_id :: "uuid \<Rightarrow> uuid \<Rightarrow> db \<Rightarrow> transfer_request option" where
  "sql_get_by_id account_id transfer_id d =
     first_row
       (sql_select
          (\<lambda>r. tr_user_id r = account_id \<and> tr_id r = transfer_id \<and> live_account d (tr_user_id r))
          (transfer_requests d))"

text \<open>\<open>ORDER BY created_at DESC\<close>: PostgreSQL leaves the order of equal keys open; the model
  keeps the order of the table.\<close>

definition newest_first :: "transfer_request list \<Rightarrow> transfer_request list" where
  "newest_first rs = sort_key (\<lambda>r. - tr_created_at r) rs"

definition sql_list_for_account :: "uuid \<Rightarrow> db \<Rightarrow> transfer_request list" where
  "sql_list_for_account account_id d =
     newest_first
       (sql_select (\<lambda>r. tr_user_id r = account_id \<and> live_account d (tr_user_id r))
          (transfer_requests d))"

definition sql_list_for_device :: "uuid \<Rightarrow> uuid \<Rightarrow> db \<Rightarrow> transfer_request list" where
  "sql_list_for_device account_id device_id d =
     newest_first
       (sql_select
          (\<lambda>r. tr_user_id r = account_id \<and>
               (tr_sender_device_id r = device_id \<or> tr_recipient_device_id r = device_id) \<and>
               live_account d (tr_user_id r))
          (transfer_requests d))"

section \<open>Creation\<close>

text \<open>The rows the \<open>SELECT\<close> of \<open>create\<close> yields.\<close>

definition offer_rows ::
    "instant \<Rightarrow> uuid \<Rightarrow> uuid \<Rightarrow> uuid \<Rightarrow> uuid \<Rightarrow> int \<Rightarrow> instant \<Rightarrow> db \<Rightarrow> transfer_request list" where
  "offer_rows now fresh account_id sender_device_id recipient_device_id protocol_version expires_at d =
     [\<lparr>tr_id = fresh, tr_user_id = ac_id a, tr_sender_device_id = dv_id s,
       tr_recipient_device_id = dv_id r, tr_protocol_version = protocol_version,
       tr_status = Offered, tr_created_at = now, tr_expires_at = expires_at,
       tr_accepted_at = None, tr_completed_at = None, tr_failure_code = None,
       tr_relay_used = False\<rparr>.
       a \<leftarrow> app_users d, s \<leftarrow> devices d, r \<leftarrow> devices d,
       dv_user_id s = ac_id a \<and> dv_user_id r = ac_id a \<and>
       ac_id a = account_id \<and> ac_deleted_at a = None \<and>
       dv_id s = sender_device_id \<and> dv_status s = Active \<and>
       dv_epoch s = ac_device_epoch a \<and>
       dv_id r = recipient_device_id \<and> dv_status r = Active \<and>
       dv_epoch r = ac_device_epoch a \<and> dv_id s \<noteq> dv_id r]"

text \<open>
  \<open>INSERT ... SELECT ... RETURNING\<close>; \<open>fresh\<close> is the row's \<open>gen_random_uuid()\<close>, and the
  columns the statement leaves out take their defaults.
\<close>

definition sql_create ::
    "instant \<Rightarrow> uuid \<Rightarrow> uuid \<Rightarrow> uuid \<Rightarrow> uuid \<Rightarrow> int \<Rightarrow> instant \<Rightarrow> db \<Rightarrow> transfer_request res \<times> db" where
  "sql_create now fresh account_id sender_device_id recipient_device_id protocol_version expires_at d =
     (let rows = offer_rows now fresh account_id sender_device_id recipient_device_id
                   protocol_version expires_at d
      in case sql_insert transfer_check (\<lambda>q r. tr_id q = tr_id r) rows (transfer_requests d) of
           (Inl e, _) \<Rightarrow> (Inl e, d)
         | (Inr out, t) \<Rightarrow> (required_row out, d\<lparr>transfer_requests := t\<rparr>))"

section \<open>State updates\<close>

datatype actor_role = RecipientRole | ParticipantRole

text \<open>The \<open>EXISTS\<close> predicate on the acting device that \<open>_transition\<close> appends.\<close>

definition actor_ok :: "db \<Rightarrow> uuid \<Rightarrow> actor_role option \<Rightarrow> transfer_request \<Rightarrow> bool" where
  "actor_ok d actor role r \<longleftrightarrow>
     active_device d (tr_user_id r) actor \<and>
     (case role of
        None \<Rightarrow> True
      | Some RecipientRole \<Rightarrow> actor = tr_recipient_device_id r
      | Some ParticipantRole \<Rightarrow> actor = tr_sender_device_id r \<or> actor = tr_recipient_device_id r)"

text \<open>The \<open>SET\<close> clauses.\<close>

definition set_status ::
    "instant \<Rightarrow> transfer_status \<Rightarrow> pystr option \<Rightarrow> transfer_request \<Rightarrow> transfer_request" where
  "set_status now to_status failure_code r =
     r\<lparr>tr_status := to_status,
       tr_failure_code := (if to_status = Failed then failure_code else None),
       tr_accepted_at :=
         (if to_status = Accepted \<or> to_status = Cancelled
          then coalesce (tr_accepted_at r) now else tr_accepted_at r),
       tr_completed_at := (if to_status = Completed then Some now else tr_completed_at r)\<rparr>"

definition run_update ::
    "(transfer_request \<Rightarrow> bool) \<Rightarrow> (transfer_request \<Rightarrow> transfer_request) \<Rightarrow> db \<Rightarrow>
     transfer_request option res \<times> db" where
  "run_update p f d =
     (case sql_update transfer_check p f (transfer_requests d) of
        (Inl e, _) \<Rightarrow> (Inl e, d)
      | (Inr rows, t) \<Rightarrow> (Inr (first_row rows), d\<lparr>transfer_requests := t\<rparr>))"

definition transition_guard ::
    "instant \<Rightarrow> uuid \<Rightarrow> uuid \<Rightarrow> transfer_status list \<Rightarrow> bool \<Rightarrow> uuid option \<Rightarrow> actor_role option \<Rightarrow>
     db \<Rightarrow> transfer_request \<Rightarrow> bool" where
  "transition_guard now account_id transfer_id from_statuses require_unexpired actor role d r \<longleftrightarrow>
     tr_user_id r = account_id \<and> tr_id r = transfer_id \<and>
     tr_status r \<in> set from_statuses \<and>
     (if require_unexpired then now < tr_expires_at r else tr_expires_at r \<le> now) \<and>
     live_account d (tr_user_id r) \<and>
     (case actor of None \<Rightarrow> True | Some a \<Rightarrow> actor_ok d a role r)"

definition sql_do_transition ::
    "instant \<Rightarrow> uuid \<Rightarrow> uuid \<Rightarrow> transfer_status list \<Rightarrow> transfer_status \<Rightarrow> bool \<Rightarrow> uuid option \<Rightarrow>
     actor_role option \<Rightarrow> pystr option \<Rightarrow> db \<Rightarrow> transfer_request option res \<times> db" where
  "sql_do_transition now account_id transfer_id from_statuses to_status require_unexpired
     actor role failure_code d =
     run_update
       (transition_guard now account_id transfer_id from_statuses require_unexpired actor role d)
       (set_status now to_status failure_code) d"

definition sql_transition ::
    "instant \<Rightarrow> uuid \<Rightarrow> uuid \<Rightarrow> transfer_status \<Rightarrow> transfer_status \<Rightarrow> db \<Rightarrow>
     transfer_request option res \<times> db" where
  "sql_transition now account_id transfer_id from_status to_status d =
     (case dict_get VALID_TRANSITIONS from_status of
        None \<Rightarrow> (Inr None, d)
      | Some allowed_targets \<Rightarrow>
          if to_status \<notin> set allowed_targets then (Inr None, d)
          else sql_do_transition now account_id transfer_id [from_status] to_status
                 (to_status \<noteq> Expired) None None None d)"

definition sql_accept :: "instant \<Rightarrow> uuid \<Rightarrow> uuid \<Rightarrow> uuid \<Rightarrow> db \<Rightarrow> transfer_request option res \<times> db" where
  "sql_accept now account_id transfer_id recipient_device_id =
     sql_do_transition now account_id transfer_id [Offered] Accepted True
       (Some recipient_device_id) (Some RecipientRole) None"

definition sql_reject :: "instant \<Rightarrow> uuid \<Rightarrow> uuid \<Rightarrow> uuid \<Rightarrow> db \<Rightarrow> transfer_request option res \<times> db" where
  "sql_reject now account_id transfer_id recipient_device_id =
     sql_do_transition now account_id transfer_id [Offered] Rejected True
       (Some recipient_device_id) (Some RecipientRole) None"

definition sql_cancel :: "instant \<Rightarrow> uuid \<Rightarrow> uuid \<Rightarrow> uuid \<Rightarrow> db \<Rightarrow> transfer_request option res \<times> db" where
  "sql_cancel now account_id transfer_id actor_device_id =
     sql_do_transition now account_id transfer_id ACTIVE_STATUSES Cancelled True
       (Some actor_device_id) (Some ParticipantRole) None"

definition sql_mark_negotiating :: "instant \<Rightarrow> uuid \<Rightarrow> uuid \<Rightarrow> db \<Rightarrow> transfer_request option res \<times> db" where
  "sql_mark_negotiating now account_id transfer_id =
     sql_transition now account_id transfer_id Accepted Negotiating"

definition sql_mark_connected :: "instant \<Rightarrow> uuid \<Rightarrow> uuid \<Rightarrow> db \<Rightarrow> transfer_request option res \<times> db" where
  "sql_mark_connected now account_id transfer_id =
     sql_transition now account_id transfer_id Negotiating Connected"

definition sql_mark_transferring :: "instant \<Rightarrow> uuid \<Rightarrow> uuid \<Rightarrow> db \<Rightarrow> transfer_request option res \<times> db" where
  "sql_mark_transferring now account_id transfer_id =
     sql_transition now account_id transfer_id Connected Transferring"

definition sql_complete :: "instant \<Rightarrow> uuid \<Rightarrow> uuid \<Rightarrow> db \<Rightarrow> transfer_request option res \<times> db" where
  "sql_complete now account_id transfer_id =
     sql_transition now account_id transfer_id Transferring Completed"

definition sql_fail ::
    "instant \<Rightarrow> uuid \<Rightarrow> uuid \<Rightarrow> pystr \<Rightarrow> uuid option \<Rightarrow> db \<Rightarrow> transfer_request option res \<times> db" where
  "sql_fail now account_id transfer_id failure_code actor_device_id =
     sql_do_transition now account_id transfer_id FAILABLE_STATUSES Failed True
       actor_device_id (Some ParticipantRole) (Some failure_code)"

definition sql_expire :: "instant \<Rightarrow> uuid \<Rightarrow> uuid \<Rightarrow> db \<Rightarrow> transfer_request option res \<times> db" where
  "sql_expire now account_id transfer_id =
     sql_do_transition now account_id transfer_id ACTIVE_STATUSES Expired False None None None"

definition sql_mark_relay_used :: "instant \<Rightarrow> uuid \<Rightarrow> uuid \<Rightarrow> db \<Rightarrow> transfer_request option res \<times> db" where
  "sql_mark_relay_used now account_id transfer_id d =
     run_update
       (\<lambda>r. tr_user_id r = account_id \<and> tr_id r = transfer_id \<and>
            tr_status r \<in> set ACTIVE_STATUSES \<and> now < tr_expires_at r \<and>
            live_account d (tr_user_id r))
       (\<lambda>r. r\<lparr>tr_relay_used := True\<rparr>) d"

text \<open>The compatibility names.\<close>

definition sql_mark_expired :: "instant \<Rightarrow> uuid \<Rightarrow> uuid \<Rightarrow> db \<Rightarrow> transfer_request option res \<times> db" where
  "sql_mark_expired now account_id transfer_id = sql_expire now account_id transfer_id"

definition sql_mark_complete :: "instant \<Rightarrow> uuid \<Rightarrow> uuid \<Rightarrow> db \<Rightarrow> transfer_request option res \<times> db" where
  "sql_mark_complete now account_id transfer_id = sql_complete now account_id transfer_id"

definition sql_mark_failed ::
    "instant \<Rightarrow> uuid \<Rightarrow> uuid \<Rightarrow> pystr \<Rightarrow> uuid option \<Rightarrow> db \<Rightarrow> transfer_request option res \<times> db" where
  "sql_mark_failed now account_id transfer_id failure_code actor_device_id =
     sql_fail now account_id transfer_id failure_code actor_device_id"

definition sql_set_relay_used :: "instant \<Rightarrow> uuid \<Rightarrow> uuid \<Rightarrow> db \<Rightarrow> transfer_request option res \<times> db" where
  "sql_set_relay_used now account_id transfer_id = sql_mark_relay_used now account_id transfer_id"

definition sql_update_status ::
    "instant \<Rightarrow> uuid \<Rightarrow> uuid \<Rightarrow> transfer_status \<Rightarrow> transfer_status \<Rightarrow> db \<Rightarrow>
     transfer_request option res \<times> db" where
  "sql_update_status now account_id transfer_id from_status to_status =
     sql_transition now account_id transfer_id from_status to_status"

definition sql_list_by_account :: "uuid \<Rightarrow> db \<Rightarrow> transfer_request list" where
  "sql_list_by_account account_id d = sql_list_for_account account_id d"

text \<open>The updating methods, named, with the arguments that follow the account and the transfer.\<close>

datatype transfer_op =
    OpTransition transfer_status transfer_status
  | OpAccept uuid
  | OpReject uuid
  | OpCancel uuid
  | OpFail pystr "uuid option"
  | OpExpire
  | OpMarkRelayUsed

fun sql_run ::
    "instant \<Rightarrow> uuid \<Rightarrow> uuid \<Rightarrow> transfer_op \<Rightarrow> db \<Rightarrow> transfer_request option res \<times> db" where
  "sql_run now a t (OpTransition s s') d = sql_transition now a t s s' d"
| "sql_run now a t (OpAccept v) d = sql_accept now a t v d"
| "sql_run now a t (OpReject v) d = sql_reject now a t v d"
| "sql_run now a t (OpCancel v) d = sql_cancel now a t v d"
| "sql_run now a t (OpFail c v) d = sql_fail now a t c v d"
| "sql_run now a t OpExpire d = sql_expire now a t d"
| "sql_run now a t OpMarkRelayUsed d = sql_mark_relay_used now a t d"

text \<open>
  One step of the system as the transfer table sees it: a creation, an update by any account on
  any transfer at any time, or a statement of another repository, which may change every other
  table.
\<close>

inductive transfer_step :: "db \<Rightarrow> db \<Rightarrow> bool" where
  created: "transfer_step d (snd (sql_create now fresh a s r v e d))"
| updated: "transfer_step d (snd (sql_run now a t op d))"
| other: "transfer_requests d' = transfer_requests d \<Longrightarrow> transfer_step d d'"

definition next_status :: "transfer_status \<Rightarrow> transfer_status \<Rightarrow> bool" where
  "next_status s s' \<longleftrightarrow>
     (case dict_get VALID_TRANSITIONS s of None \<Rightarrow> False | Some ts \<Rightarrow> s' \<in> set ts)"

definition terminal :: "transfer_status \<Rightarrow> bool" where
  "terminal s \<longleftrightarrow> s \<notin> set ACTIVE_STATUSES"

definition same_offer :: "transfer_request \<Rightarrow> transfer_request \<Rightarrow> bool" where
  "same_offer r r' \<longleftrightarrow>
     tr_id r' = tr_id r \<and> tr_user_id r' = tr_user_id r \<and>
     tr_sender_device_id r' = tr_sender_device_id r \<and>
     tr_recipient_device_id r' = tr_recipient_device_id r \<and>
     tr_protocol_version r' = tr_protocol_version r \<and>
     tr_created_at r' = tr_created_at r \<and> tr_expires_at r' = tr_expires_at r"

definition evolves :: "transfer_request \<Rightarrow> transfer_request \<Rightarrow> bool" where
  "evolves r r' \<longleftrightarrow>
     r' = r \<or>
     (same_offer r r' \<and> tr_status r \<in> set ACTIVE_STATUSES \<and>
      (tr_status r' = tr_status r \<or> next_status (tr_status r) (tr_status r')))"

section \<open>Shared facts about the updates\<close>

lemmas transfer_op_defs =
  sql_accept_def sql_reject_def sql_cancel_def sql_fail_def sql_expire_def sql_transition_def

lemma next_status_iff:
  "next_status s s' \<longleftrightarrow>
     (s = Offered \<and> s' \<in> {Accepted, Rejected, Expired, Cancelled}) \<or>
     (s \<in> set FAILABLE_STATUSES \<and> s' \<in> {Cancelled, Failed, Expired}) \<or>
     (s, s') \<in> {(Accepted, Negotiating), (Negotiating, Connected),
                 (Connected, Transferring), (Transferring, Completed)}"
  by (cases s; cases s')
     (simp_all add: next_status_def VALID_TRANSITIONS_def dict_get_def FAILABLE_STATUSES_def)

lemma next_status_active: "next_status s s' \<Longrightarrow> s \<in> set ACTIVE_STATUSES"
  by (auto simp: next_status_iff ACTIVE_STATUSES_def FAILABLE_STATUSES_def)

lemma same_offer_refl [simp]: "same_offer r r"
  by (simp add: same_offer_def)

lemma same_offer_trans [trans]: "same_offer r q \<Longrightarrow> same_offer q u \<Longrightarrow> same_offer r u"
  by (simp add: same_offer_def)

lemma same_offer_set_status [simp]: "same_offer r (set_status now s c r)"
  by (simp add: same_offer_def set_status_def)

lemma status_set_status [simp]: "tr_status (set_status now s c r) = s"
  by (simp add: set_status_def)

lemma set_status_fields [simp]:
  "tr_id (set_status now s c r) = tr_id r" "tr_user_id (set_status now s c r) = tr_user_id r"
  "tr_sender_device_id (set_status now s c r) = tr_sender_device_id r"
  "tr_recipient_device_id (set_status now s c r) = tr_recipient_device_id r"
  "tr_expires_at (set_status now s c r) = tr_expires_at r"
  by (simp_all add: set_status_def)

lemma evolves_refl [simp]: "evolves r r"
  by (simp add: evolves_def)

lemma evolves_same_offer: "evolves r r' \<Longrightarrow> same_offer r r'"
  by (auto simp: evolves_def)

lemma run_update_cases:
  obtains (written) "list_all (\<lambda>r. p r \<longrightarrow> transfer_check (f r)) (transfer_requests d)"
      "run_update p f d =
         (Inr (first_row (map f (filter p (transfer_requests d)))),
          d\<lparr>transfer_requests := map (\<lambda>r. if p r then f r else r) (transfer_requests d)\<rparr>)"
  | (failed) "\<not> list_all (\<lambda>r. p r \<longrightarrow> transfer_check (f r)) (transfer_requests d)"
      "run_update p f d = (Inl BackendUnavailableError, d)"
  by (cases "list_all (\<lambda>r. p r \<longrightarrow> transfer_check (f r)) (transfer_requests d)")
     (auto simp: run_update_def sql_update_def)

text \<open>
  Every updating method either leaves the database alone or is \<open>run_update\<close> with a guard that
  implies ownership and an update that keeps the row on the state machine: one case
  analysis for all the methods.
\<close>

definition good_update ::
    "instant \<Rightarrow> uuid \<Rightarrow> uuid \<Rightarrow> db \<Rightarrow> (transfer_request \<Rightarrow> bool) \<Rightarrow>
     (transfer_request \<Rightarrow> transfer_request) \<Rightarrow> bool" where
  "good_update now a t d p f \<longleftrightarrow>
     (\<forall>r. p r \<longrightarrow> tr_user_id r = a \<and> tr_id r = t \<and> live_account d a \<and> evolves r (f r) \<and>
                 tr_status r \<in> set ACTIVE_STATUSES \<and>
                 (tr_status (f r) \<noteq> Expired \<longrightarrow> now < tr_expires_at r))"

lemma good_update_transition:
  assumes "\<And>s. s \<in> set froms \<Longrightarrow> next_status s s'" and "u \<or> s' = Expired"
  shows "good_update now a t d (transition_guard now a t froms u actor role d) (set_status now s' c)"
  using assms by (auto simp: good_update_def transition_guard_def evolves_def next_status_active [OF assms(1)])

lemma guards_ignore_transfers [simp]:
  "live_account (d\<lparr>transfer_requests := ts\<rparr>) = live_account d"
  "transition_guard now a t froms u actor role (d\<lparr>transfer_requests := ts\<rparr>) = transition_guard now a t froms u actor role d"
  by (auto simp: fun_eq_iff transition_guard_def actor_ok_def live_account_def active_device_def split: option.splits)

text \<open>The statement an update sends does not depend on the transfers.\<close>

lemma sql_run_statement:
  obtains (skip) "\<And>ts. sql_run now a t op (d\<lparr>transfer_requests := ts\<rparr>) = (Inr None, d\<lparr>transfer_requests := ts\<rparr>)"
  | (update) p f where "\<And>ts. sql_run now a t op (d\<lparr>transfer_requests := ts\<rparr>) = run_update p f (d\<lparr>transfer_requests := ts\<rparr>)"
      "good_update now a t d p f"
proof (cases op)
  case (OpTransition s s')
  show ?thesis
  proof (cases "next_status s s'")
    case True
    then have "sql_run now a t op d' = sql_do_transition now a t [s] s' (s' \<noteq> Expired) None None None d'" for d'
      by (auto simp: OpTransition sql_transition_def next_status_def split: option.splits)
    with True show ?thesis
      by (auto simp: sql_do_transition_def intro!: update good_update_transition)
  next
    case False
    then show ?thesis
      by (auto simp: OpTransition sql_transition_def next_status_def split: option.splits intro: skip)
  qed
next
  case OpMarkRelayUsed
  show ?thesis
    by (rule update, simp add: OpMarkRelayUsed sql_mark_relay_used_def)
       (auto simp: good_update_def evolves_def same_offer_def)
qed (auto simp: transfer_op_defs sql_do_transition_def next_status_iff ACTIVE_STATUSES_def
       FAILABLE_STATUSES_def intro!: update good_update_transition)

lemma sql_run_shape:
  obtains (skip) "sql_run now a t op d = (Inr None, d)"
  | (update) p f where "sql_run now a t op d = run_update p f d" "good_update now a t d p f"
proof -
  have d: "d\<lparr>transfer_requests := transfer_requests d\<rparr> = d" by simp
  show thesis
    by (cases rule: sql_run_statement [of now a t op d]) (metis d skip, metis d update)
qed

lemma good_update_evolves:
  "good_update now a t d p f \<Longrightarrow> evolves r (if p r then f r else r)"
  by (simp add: good_update_def)

lemma good_update_owner:
  "good_update now a t d p f \<Longrightarrow> p r \<Longrightarrow>
     tr_user_id r = a \<and> tr_id r = t \<and> tr_user_id (f r) = a \<and> tr_id (f r) = t"
  using evolves_same_offer [of r "f r"] by (auto simp: good_update_def same_offer_def)

lemma sql_run_evolves [keep]:
  "list_all2 evolves (transfer_requests d) (transfer_requests (snd (sql_run now a t op d)))"
proof (cases rule: sql_run_shape [of now a t op d])
  case skip
  then show ?thesis by (simp add: list.rel_refl)
next
  case (update p f)
  then show ?thesis
    by (cases rule: run_update_cases [of p f d])
       (simp_all add: list.rel_refl list.rel_map good_update_evolves list_all2_same)
qed

definition new_offer ::
    "instant \<Rightarrow> uuid \<Rightarrow> uuid \<Rightarrow> uuid \<Rightarrow> uuid \<Rightarrow> int \<Rightarrow> instant \<Rightarrow> transfer_request" where
  "new_offer now fresh a s r v e =
     \<lparr>tr_id = fresh, tr_user_id = a, tr_sender_device_id = s, tr_recipient_device_id = r,
      tr_protocol_version = v, tr_status = Offered, tr_created_at = now, tr_expires_at = e,
      tr_accepted_at = None, tr_completed_at = None, tr_failure_code = None,
      tr_relay_used = False\<rparr>"

lemma new_offer_simps [simp]:
  "tr_id (new_offer now fresh a s r v e) = fresh"
  "tr_user_id (new_offer now fresh a s r v e) = a"
  "tr_sender_device_id (new_offer now fresh a s r v e) = s"
  "tr_recipient_device_id (new_offer now fresh a s r v e) = r"
  "tr_status (new_offer now fresh a s r v e) = Offered"
  "tr_created_at (new_offer now fresh a s r v e) = now"
  "tr_expires_at (new_offer now fresh a s r v e) = e"
  by (simp_all add: new_offer_def)

lemma offer_rowsD:
  assumes "x \<in> set (offer_rows now fresh a s r v e d)"
  shows "x = new_offer now fresh a s r v e"
    and "active_device d a s" and "active_device d a r" and "s \<noteq> r"
proof -
  obtain ac sv rv where *: "ac \<in> set (app_users d)" "sv \<in> set (devices d)" "rv \<in> set (devices d)"
    "ac_id ac = a" "ac_deleted_at ac = None" "dv_id sv = s" "dv_id rv = r" "s \<noteq> r"
    "dv_user_id sv = a" "dv_user_id rv = a" "dv_status sv = Active" "dv_status rv = Active"
    "dv_epoch sv = ac_device_epoch ac" "dv_epoch rv = ac_device_epoch ac"
    "x = new_offer now fresh a s r v e"
    using assms by (auto simp: offer_rows_def new_offer_def split: if_splits)
  then show "x = new_offer now fresh a s r v e" and "s \<noteq> r" by simp_all
  show "active_device d a s" "active_device d a r"
    using * unfolding active_device_iff by blast+
qed

lemma offer_rows_le_1:
  assumes "distinct (map ac_id (app_users d))" and "distinct (map dv_id (devices d))"
  shows "length (offer_rows now fresh a s r v e d) \<le> 1"
  unfolding offer_rows_def
  by (rule length_concat_key [OF assms(1), of a], force,
      rule length_concat_key [OF assms(2), of s], force,
      rule length_concat_key [OF assms(2), of r]) auto

lemma offer_rows_nonempty:
  assumes "distinct (map ac_id (app_users d))" and "active_device d a s" and "active_device d a r"
    and "s \<noteq> r"
  shows "offer_rows now fresh a s r v e d \<noteq> []"
proof -
  obtain ac sv rv ac' where *: "ac \<in> set (app_users d)" "ac' \<in> set (app_users d)"
    "sv \<in> set (devices d)" "rv \<in> set (devices d)" "ac_id ac = a" "ac_id ac' = a"
    "ac_deleted_at ac = None" "dv_id sv = s" "dv_id rv = r" "dv_user_id sv = a" "dv_user_id rv = a"
    "dv_status sv = Active" "dv_status rv = Active"
    "dv_epoch sv = ac_device_epoch ac" "dv_epoch rv = ac_device_epoch ac'"
    using assms(2,3) unfolding active_device_iff by blast
  have "ac' = ac" using * by (intro distinct_key_eq [OF assms(1)]) simp_all
  with * assms(4) have "new_offer now fresh a s r v e \<in> set (offer_rows now fresh a s r v e d)"
    by (force simp: offer_rows_def new_offer_def)
  then show ?thesis by auto
qed

lemma sql_create_cases:
  obtains (stored)
      "sql_create now fresh a s r v e d =
         (Inr (new_offer now fresh a s r v e),
          d\<lparr>transfer_requests := transfer_requests d @ [new_offer now fresh a s r v e]\<rparr>)"
      "transfer_check (new_offer now fresh a s r v e)"
      "fresh \<notin> tr_id ` set (transfer_requests d)"
      "active_device d a s" "active_device d a r" "s \<noteq> r"
  | (none) "sql_create now fresh a s r v e d = (Inl RuntimeError, d)"
      "offer_rows now fresh a s r v e d = []"
  | (refused) "sql_create now fresh a s r v e d = (Inl BackendUnavailableError, d)"
      "length (offer_rows now fresh a s r v e d) = 1 \<Longrightarrow>
         \<not> transfer_check (new_offer now fresh a s r v e) \<or> fresh \<in> tr_id ` set (transfer_requests d)"
proof (cases "offer_rows now fresh a s r v e d")
  case Nil
  then show ?thesis
    by (auto simp: sql_create_def sql_insert_def intro: none)
next
  case (Cons x xs)
  note rows = this and dx = offer_rowsD [of x now fresh a s r v e d]
  show ?thesis
  proof (cases xs)
    case Nil
    have mem: "x \<in> set (offer_rows now fresh a s r v e d)"
      using rows by simp
    have 1: "offer_rows now fresh a s r v e d = [new_offer now fresh a s r v e]"
      using rows Nil dx(1) [OF mem] by simp
    show ?thesis
    proof (cases "transfer_check (new_offer now fresh a s r v e) \<and>
                  fresh \<notin> tr_id ` set (transfer_requests d)")
      case True
      then show ?thesis
        by (intro stored)
           (use dx(2-4) [OF mem] in \<open>auto simp: 1 sql_create_def sql_insert_def list_all_iff Let_def\<close>)
    next
      case False
      then show ?thesis
        by (intro refused) (auto simp: 1 sql_create_def sql_insert_def list_all_iff Let_def)
    qed
  next
    case (Cons y ys)
    then have "x = new_offer now fresh a s r v e" "y = new_offer now fresh a s r v e"
      using rows dx offer_rowsD [of y now fresh a s r v e d] by auto
    then show ?thesis
      using rows Cons by (intro refused) (auto simp: sql_create_def sql_insert_def)
  qed
qed

lemma sql_create_extends [keep]:
  "\<exists>new. transfer_requests (snd (sql_create now fresh a s r v e d)) = transfer_requests d @ new \<and>
         (\<forall>x\<in>set new. tr_status x = Offered \<and> tr_user_id x = a)"
  by (cases rule: sql_create_cases [of now fresh a s r v e d]) auto

section \<open>The life cycle over any sequence of statements\<close>

definition table_evolves :: "transfer_request list \<Rightarrow> transfer_request list \<Rightarrow> bool" where
  "table_evolves t t' \<longleftrightarrow>
     (\<exists>old new. t' = old @ new \<and> list_all2 evolves\<^sup>*\<^sup>* t old \<and>
                (\<forall>x\<in>set new. \<exists>q. tr_status q = Offered \<and> evolves\<^sup>*\<^sup>* q x))"

lemma transfer_step_table:
  assumes "transfer_step d d'"
  obtains old new where "transfer_requests d' = old @ new"
    "list_all2 evolves (transfer_requests d) old" "\<And>x. x \<in> set new \<Longrightarrow> tr_status x = Offered"
  using assms
proof cases
  case (created now fresh a s r v e)
  then show ?thesis
    using sql_create_extends [of now fresh a s r v e d] that list.rel_refl [of evolves]
    by (metis evolves_refl)
next
  case (updated now a t op)
  then show ?thesis
    using sql_run_evolves [of d now a t op] by (auto intro: that [of _ "[]"])
next
  case other
  then show ?thesis
    by (intro that [of "transfer_requests d" "[]"]) (simp_all add: list.rel_refl)
qed

lemma table_evolves_refl: "table_evolves t t"
  unfolding table_evolves_def by (rule exI [of _ t], rule exI [of _ "[]"]) (simp add: list.rel_refl)

lemma list_all2_rtranclp_into:
  assumes "list_all2 R\<^sup>*\<^sup>* xs ys" and "list_all2 R ys zs"
  shows "list_all2 R\<^sup>*\<^sup>* xs zs"
  using assms by (rule list_all2_trans [rotated]) (rule rtranclp.rtrancl_into_rtrancl)

lemma table_evolves_step:
  assumes "table_evolves t (transfer_requests d)" and "transfer_step d d'"
  shows "table_evolves t (transfer_requests d')"
proof -
  obtain old new where 1: "transfer_requests d = old @ new" "list_all2 evolves\<^sup>*\<^sup>* t old"
    "\<And>x. x \<in> set new \<Longrightarrow> \<exists>q. tr_status q = Offered \<and> evolves\<^sup>*\<^sup>* q x"
    using assms(1) unfolding table_evolves_def by blast
  obtain old' new' where 2: "transfer_requests d' = old' @ new'"
    "list_all2 evolves (old @ new) old'" "\<And>x. x \<in> set new' \<Longrightarrow> tr_status x = Offered"
    using transfer_step_table [OF assms(2)] 1(1) by metis
  obtain o1 o2 where 3: "old' = o1 @ o2" "list_all2 evolves old o1" "list_all2 evolves new o2"
    using 2(2) by (auto simp: list_all2_append1)
  have "\<exists>q. tr_status q = Offered \<and> evolves\<^sup>*\<^sup>* q x" if x: "x \<in> set (o2 @ new')" for x
  proof (cases "x \<in> set o2")
    case True
    then obtain y where "y \<in> set new" "evolves y x"
      using 3(3) by (metis in_set_conv_nth list_all2_conv_all_nth)
    then show ?thesis using 1(3) by (meson rtranclp.rtrancl_into_rtrancl)
  next
    case False
    then show ?thesis using x 2(3) by auto
  qed
  moreover have "list_all2 evolves\<^sup>*\<^sup>* t o1"
    using 1(2) 3(2) by (rule list_all2_rtranclp_into)
  moreover have "transfer_requests d' = o1 @ (o2 @ new')"
    using 2(1) 3(1) by simp
  ultimately show ?thesis
    unfolding table_evolves_def by blast
qed

lemma transfer_steps_evolve:
  "transfer_step\<^sup>*\<^sup>* d d' \<Longrightarrow> table_evolves (transfer_requests d) (transfer_requests d')"
  by (induction rule: rtranclp_induct) (auto intro: table_evolves_refl table_evolves_step)

lemma evolves_star:
  assumes "evolves\<^sup>*\<^sup>* r r'"
  shows "same_offer r r' \<and> next_status\<^sup>*\<^sup>* (tr_status r) (tr_status r') \<and>
         (terminal (tr_status r) \<longrightarrow> r' = r)"
  using assms
proof (induction rule: rtranclp_induct)
  case (step y z)
  then show ?case
    by (auto simp: evolves_def terminal_def intro: same_offer_trans rtranclp.rtrancl_into_rtrancl)
qed simp

text \<open>
  C1.  Transfers follow the documented state machine.  Over any sequence of statements, by any
  accounts at any times and interleaved with arbitrary changes to the other tables, the
  transfer table only grows: every row keeps its identity, parties, version and times, its
  status moves along \<open>_VALID_TRANSITIONS\<close>, and every row that was added has come from
  \<open>offered\<close> along them.
\<close>

theorem transfer_lifecycle:
  assumes "transfer_step\<^sup>*\<^sup>* d d'"
  shows "\<exists>old new. transfer_requests d' = old @ new \<and>
           list_all2 (\<lambda>r r'. same_offer r r' \<and> next_status\<^sup>*\<^sup>* (tr_status r) (tr_status r'))
             (transfer_requests d) old \<and>
           (\<forall>x\<in>set new. next_status\<^sup>*\<^sup>* Offered (tr_status x))"
proof -
  obtain old new where "transfer_requests d' = old @ new"
    "list_all2 evolves\<^sup>*\<^sup>* (transfer_requests d) old"
    "\<forall>x\<in>set new. \<exists>q. tr_status q = Offered \<and> evolves\<^sup>*\<^sup>* q x"
    using transfer_steps_evolve [OF assms] unfolding table_evolves_def by blast
  then show ?thesis
    by (metis (mono_tags, lifting) evolves_star list_all2_mono)
qed

theorem transfer_lifecycle_witness:
  "\<exists>old new. transfer_requests (snd (sql_accept 5 1 7 11 (sample_db Offered))) = old @ new \<and>
     list_all2 (\<lambda>r r'. same_offer r r' \<and> next_status\<^sup>*\<^sup>* (tr_status r) (tr_status r'))
       (transfer_requests (sample_db Offered)) old \<and>
     (\<forall>x\<in>set new. next_status\<^sup>*\<^sup>* Offered (tr_status x))"
  by (rule transfer_lifecycle)
     (use transfer_step.updated [of "sample_db Offered" 5 1 7 "OpAccept 11"] in auto)

text \<open>
  C9.  A terminal transfer (completed, rejected, expired, cancelled or failed) is final: no
  later sequence of statements changes any column of its row, the relay flag included.
\<close>

theorem terminal_transfer_final:
  assumes "transfer_step\<^sup>*\<^sup>* d d'" and "i < length (transfer_requests d)"
    and "terminal (tr_status (transfer_requests d ! i))"
  shows "i < length (transfer_requests d') \<and> transfer_requests d' ! i = transfer_requests d ! i"
proof -
  obtain old new where "transfer_requests d' = old @ new"
    "list_all2 evolves\<^sup>*\<^sup>* (transfer_requests d) old"
    using transfer_steps_evolve [OF assms(1)] unfolding table_evolves_def by blast
  then show ?thesis
    using assms(2,3) evolves_star [of "transfer_requests d ! i" "old ! i"]
    by (auto simp: list_all2_conv_all_nth nth_append)
qed

theorem terminal_transfer_final_witness:
  "transfer_requests (snd (sql_cancel 5 1 7 11 (sample_db Rejected))) ! 0 = sample_transfer Rejected"
  using terminal_transfer_final
    [OF r_into_rtranclp [of transfer_step, OF transfer_step.updated [of "sample_db Rejected" 5 1 7 "OpCancel 11"]],
     of 0]
  by (simp add: terminal_def ACTIVE_STATUSES_def sample_db_def sample_transfer_def)

section \<open>The table constraints\<close>

text \<open>A row the database clock has caught up with.\<close>

definition timely :: "instant \<Rightarrow> transfer_request \<Rightarrow> bool" where
  "timely now r \<longleftrightarrow>
     tr_created_at r \<le> now \<and> (case tr_accepted_at r of None \<Rightarrow> True | Some a \<Rightarrow> a \<le> now)"

text \<open>
  Arguments that fit the schema: a failure code of 1 to 64 characters, and no use of the generic
  \<open>transition\<close> to reach \<open>failed\<close>, which has no code to store.
\<close>

fun fits_schema :: "transfer_op \<Rightarrow> bool" where
  "fits_schema (OpTransition s s') = (s' \<noteq> Failed)"
| "fits_schema (OpFail c v) = (1 \<le> length c \<and> length c \<le> 64)"
| "fits_schema _ = True"

lemma transfer_check_set_status:
  assumes "transfer_check r" and "timely now r" and "next_status (tr_status r) s"
    and "s = Failed \<longrightarrow> (\<exists>code. c = Some code \<and> 1 \<le> length code \<and> length code \<le> 64)"
  shows "transfer_check (set_status now s c r)"
  using assms
  by (cases "tr_status r"; cases s)
     (auto simp: transfer_check_def set_status_def timely_def next_status_iff
        FAILABLE_STATUSES_def split: option.splits)

lemma transfer_check_relay [simp]: "transfer_check (r\<lparr>tr_relay_used := b\<rparr>) = transfer_check r"
  by (simp add: transfer_check_def split: option.split)

definition checked_update ::
    "instant \<Rightarrow> (transfer_request \<Rightarrow> bool) \<Rightarrow> (transfer_request \<Rightarrow> transfer_request) \<Rightarrow> bool" where
  "checked_update now p f \<longleftrightarrow>
     (\<forall>r. p r \<longrightarrow> transfer_check r \<longrightarrow> timely now r \<longrightarrow> transfer_check (f r))"

lemma checked_update_transition:
  assumes "\<And>s. s \<in> set froms \<Longrightarrow> next_status s s'"
    and "s' = Failed \<longrightarrow> (\<exists>code. c = Some code \<and> 1 \<le> length code \<and> length code \<le> 64)"
  shows "checked_update now (transition_guard now a t froms u actor role d) (set_status now s' c)"
  using assms by (auto simp: checked_update_def transition_guard_def transfer_check_set_status)

lemma sql_run_checked:
  assumes "fits_schema op"
  obtains (skip) "sql_run now a t op d = (Inr None, d)"
  | (update) p f where "sql_run now a t op d = run_update p f d" "checked_update now p f"
      "good_update now a t d p f"
  using assms
proof (cases op)
  case (OpTransition s s')
  show ?thesis
  proof (cases "next_status s s'")
    case True
    then have "sql_run now a t op d = sql_do_transition now a t [s] s' (s' \<noteq> Expired) None None None d"
      by (auto simp: OpTransition sql_transition_def next_status_def split: option.splits)
    with True assms OpTransition show ?thesis
      by (auto simp: sql_do_transition_def
           intro!: update good_update_transition checked_update_transition)
  next
    case False
    then show ?thesis
      by (auto simp: OpTransition sql_transition_def next_status_def split: option.splits intro: skip)
  qed
next
  case OpMarkRelayUsed
  show ?thesis
    by (rule update, simp add: OpMarkRelayUsed sql_mark_relay_used_def)
       (auto simp: good_update_def checked_update_def evolves_def same_offer_def)
qed (auto simp: transfer_op_defs sql_do_transition_def next_status_iff ACTIVE_STATUSES_def
       FAILABLE_STATUSES_def intro!: update good_update_transition checked_update_transition)

text \<open>
  C39.  Updates respect the schema.  On rows that satisfy the constraints of \<open>transfer_requests\<close> and are
  no younger than the call, every updating method, but for a plain transition to \<open>failed\<close> and a failure
  code that is empty or longer than 64 characters, is not refused by the database: it returns normally,
  every row satisfies all the constraints again, and a row it returns is the stored one, of the
  account and transfer asked for.  The excluded calls are refused, see \<open>transition_to_failed_raises\<close>.
\<close>

theorem updates_respect_schema:
  assumes "\<forall>r\<in>set (transfer_requests d). transfer_check r \<and> timely now r"
    and "fits_schema op"
  shows "\<exists>out d'. sql_run now a t op d = (Inr out, d') \<and>
           (\<forall>r\<in>set (transfer_requests d'). transfer_check r) \<and>
           (\<forall>r. out = Some r \<longrightarrow>
              r \<in> set (transfer_requests d') \<and> tr_user_id r = a \<and> tr_id r = t)"
  using assms(2)
proof (cases rule: sql_run_checked [of op now a t d])
  case skip
  then show ?thesis using assms(1) by simp
next
  case (update p f)
  have ok: "list_all (\<lambda>r. p r \<longrightarrow> transfer_check (f r)) (transfer_requests d)"
    using assms(1) update(2) by (auto simp: list_all_iff checked_update_def)
  note own = good_update_owner [OF update(3)]
  show ?thesis
  proof (cases rule: run_update_cases [of p f d])
    case written
    then show ?thesis
      using assms(1) update(1) ok own
      by (fastforce simp: list_all_iff dest: first_row_SomeD)
  next
    case failed
    then show ?thesis using ok by simp
  qed
qed

theorem updates_respect_schema_witness:
  "\<exists>out d'. sql_run 5 1 7 (OpFail (lit ''lost'') None) (sample_db Transferring) = (Inr out, d') \<and>
     (\<forall>r\<in>set (transfer_requests d'). transfer_check r) \<and>
     (\<forall>r. out = Some r \<longrightarrow> r \<in> set (transfer_requests d') \<and> tr_user_id r = 1 \<and> tr_id r = 7)"
  by (rule updates_respect_schema) (simp_all add: sample_defs transfer_check_def timely_def lit_def)

section \<open>What each update returns\<close>

lemma run_update_unique:
  assumes "distinct (map tr_id (transfer_requests d))" and "r \<in> set (transfer_requests d)"
    and "\<And>q. p q \<Longrightarrow> tr_id q = tr_id r" and "p r \<Longrightarrow> transfer_check (f r)"
  shows "run_update p f d =
           (if p r
            then (Inr (Some (f r)),
                  d\<lparr>transfer_requests :=
                     map (\<lambda>q. if tr_id q = tr_id r then f r else q) (transfer_requests d)\<rparr>)
            else (Inr None, d))"
proof -
  have only: "q = r" if "q \<in> set (transfer_requests d)" "p q" for q
    using that assms(3) by (intro distinct_key_eq [OF assms(1)]) (auto intro: assms(2))
  have id_eq: "q = r" if "q \<in> set (transfer_requests d)" "tr_id q = tr_id r" for q
    using that by (intro distinct_key_eq [OF assms(1)]) (auto intro: assms(2))
  have ok: "list_all (\<lambda>r. p r \<longrightarrow> transfer_check (f r)) (transfer_requests d)"
    using only assms(4) by (auto simp: list_all_iff)
  show ?thesis
  proof (cases "p r")
    case True
    have "filter p (transfer_requests d) = filter (\<lambda>q. q = r) (transfer_requests d)"
      using only True by (intro filter_cong) auto
    moreover have "filter (\<lambda>q. q = r) (transfer_requests d) = [r]"
      using assms(1,2) by (simp add: distinct_filter_eq distinct_map)
    moreover have "map (\<lambda>r. if p r then f r else r) (transfer_requests d) =
                   map (\<lambda>q. if tr_id q = tr_id r then f r else q) (transfer_requests d)"
      using True only id_eq by (intro map_cong) auto
    ultimately show ?thesis
      using ok True by (simp add: run_update_def sql_update_def)
  next
    case False
    then have "filter p (transfer_requests d) = []"
      "map (\<lambda>r. if p r then f r else r) (transfer_requests d) = transfer_requests d"
      using only False by (auto simp: filter_empty_conv intro!: map_idI)
    then show ?thesis
      using ok False by (simp add: run_update_def sql_update_def)
  qed
qed

lemma guard_ids:
  "transition_guard now a t froms u actor role d q \<Longrightarrow> tr_id q = t"
  by (simp add: transition_guard_def)

text \<open>
  C27.  \<open>accept\<close> on an existing transfer succeeds exactly when the caller's account owns the
  transfer, it is an offer that has not expired, and the acting device is the offer's recipient,
  active and on the account's current epoch.  Then it returns the row with the status
  \<open>accepted\<close> and an acceptance time, and no other row changes; otherwise it returns no row
  and the database is unchanged.
\<close>

theorem accept_exact:
  assumes "distinct (map tr_id (transfer_requests d))"
    and "r \<in> set (transfer_requests d)" and "transfer_check r" and "timely now r"
  shows "sql_accept now a (tr_id r) v d =
    (if tr_user_id r = a \<and> tr_status r = Offered \<and> now < tr_expires_at r \<and>
        active_device d a v \<and> v = tr_recipient_device_id r
     then let r' = r\<lparr>tr_status := Accepted, tr_failure_code := None,
                     tr_accepted_at := coalesce (tr_accepted_at r) now\<rparr>
          in (Inr (Some r'),
              d\<lparr>transfer_requests :=
                 map (\<lambda>q. if tr_id q = tr_id r then r' else q) (transfer_requests d)\<rparr>)
     else (Inr None, d))"
proof -
  let ?p = "transition_guard now a (tr_id r) [Offered] True (Some v) (Some RecipientRole) d"
  have g: "?p r \<longleftrightarrow> tr_user_id r = a \<and> tr_status r = Offered \<and> now < tr_expires_at r \<and>
              active_device d a v \<and> v = tr_recipient_device_id r"
    by (auto simp: transition_guard_def actor_ok_def)
  have f: "set_status now Accepted None r =
             r\<lparr>tr_status := Accepted, tr_failure_code := None,
               tr_accepted_at := coalesce (tr_accepted_at r) now\<rparr>"
    by (simp add: set_status_def)
  have "transfer_check (set_status now Accepted None r)" if "?p r"
    using that assms(3,4) by (auto intro!: transfer_check_set_status simp: g next_status_iff)
  then show ?thesis
    unfolding sql_accept_def sql_do_transition_def
    by (subst run_update_unique [OF assms(1,2)]) (auto simp: g f Let_def dest: guard_ids)
qed

theorem accept_exact_witness:
  "fst (sql_accept 5 1 7 11 (sample_db Offered)) =
     Inr (Some ((sample_transfer Offered)\<lparr>tr_status := Accepted, tr_accepted_at := Some 5\<rparr>))"
  using accept_exact [of "sample_db Offered" "sample_transfer Offered" 5 1 11]
  by (simp add: sample_defs transfer_check_def timely_def active_device_def Let_def)

definition own_transfers :: "uuid \<Rightarrow> transfer_request list \<Rightarrow> transfer_request list" where
  "own_transfers a ts = filter (\<lambda>r. tr_user_id r = a) ts"

lemma filter_own: "(\<And>r. p r \<Longrightarrow> tr_user_id r = a) \<Longrightarrow> filter p ts = filter p (own_transfers a ts)"
  unfolding own_transfers_def by (induction ts) auto

lemma run_update_own:
  assumes "own_transfers a ts = own_transfers a us" and "good_update now a t d p f"
  shows "fst (run_update p f (d\<lparr>transfer_requests := ts\<rparr>)) = fst (run_update p f (d\<lparr>transfer_requests := us\<rparr>))"
    and "own_transfers a (transfer_requests (snd (run_update p f (d\<lparr>transfer_requests := ts\<rparr>)))) =
      own_transfers a (transfer_requests (snd (run_update p f (d\<lparr>transfer_requests := us\<rparr>))))"
proof -
  note own = good_update_owner [OF assms(2)]
  have rows: "filter p ts = filter p us"
    using filter_own [of p a ts] filter_own [of p a us] own assms(1) by simp
  have check: "list_all (\<lambda>r. p r \<longrightarrow> Q r) xs = list_all Q (filter p xs)" for Q xs
    by (induction xs) auto
  have stored: "own_transfers a (map (\<lambda>r. if p r then f r else r) xs) = map (\<lambda>r. if p r then f r else r) (own_transfers a xs)" for xs
    unfolding own_transfers_def using own by (induction xs) auto
  show "fst (run_update p f (d\<lparr>transfer_requests := ts\<rparr>)) = fst (run_update p f (d\<lparr>transfer_requests := us\<rparr>))"
    by (simp add: run_update_def sql_update_def check rows)
  show "own_transfers a (transfer_requests (snd (run_update p f (d\<lparr>transfer_requests := ts\<rparr>)))) =
      own_transfers a (transfer_requests (snd (run_update p f (d\<lparr>transfer_requests := us\<rparr>))))"
    using assms(1) by (simp add: run_update_def sql_update_def check rows stored)
qed

lemma sql_run_own:
  assumes "own_transfers a ts = own_transfers a us"
  shows "fst (sql_run now a t op (d\<lparr>transfer_requests := ts\<rparr>)) = fst (sql_run now a t op (d\<lparr>transfer_requests := us\<rparr>))"
    and "own_transfers a (transfer_requests (snd (sql_run now a t op (d\<lparr>transfer_requests := ts\<rparr>)))) =
      own_transfers a (transfer_requests (snd (sql_run now a t op (d\<lparr>transfer_requests := us\<rparr>))))"
  by (cases rule: sql_run_statement [of now a t op d]; use assms in \<open>simp add: run_update_own [OF assms]\<close>)+

lemma sql_reads_own:
  assumes "own_transfers a ts = own_transfers a us"
  shows "sql_get_by_id a t (d\<lparr>transfer_requests := ts\<rparr>) = sql_get_by_id a t (d\<lparr>transfer_requests := us\<rparr>)"
    and "sql_list_for_account a (d\<lparr>transfer_requests := ts\<rparr>) = sql_list_for_account a (d\<lparr>transfer_requests := us\<rparr>)"
    and "sql_list_for_device a v (d\<lparr>transfer_requests := ts\<rparr>) = sql_list_for_device a v (d\<lparr>transfer_requests := us\<rparr>)"
proof -
  have rows: "filter (\<lambda>r. tr_user_id r = a \<and> q r) ts = filter (\<lambda>r. tr_user_id r = a \<and> q r) us" for q
    using filter_own [of "\<lambda>r. tr_user_id r = a \<and> q r" a ts] filter_own [of "\<lambda>r. tr_user_id r = a \<and> q r" a us] assms by simp
  show "sql_get_by_id a t (d\<lparr>transfer_requests := ts\<rparr>) = sql_get_by_id a t (d\<lparr>transfer_requests := us\<rparr>)"
    "sql_list_for_account a (d\<lparr>transfer_requests := ts\<rparr>) = sql_list_for_account a (d\<lparr>transfer_requests := us\<rparr>)"
    "sql_list_for_device a v (d\<lparr>transfer_requests := ts\<rparr>) = sql_list_for_device a v (d\<lparr>transfer_requests := us\<rparr>)"
    by (simp_all add: sql_get_by_id_def sql_list_for_account_def sql_list_for_device_def sql_select_def rows)
qed

lemma sql_run_others:
  "filter (\<lambda>r. tr_user_id r \<noteq> a) (transfer_requests (snd (sql_run now a t op d))) =
     filter (\<lambda>r. tr_user_id r \<noteq> a) (transfer_requests d)"
proof (cases rule: sql_run_shape [of now a t op d])
  case (update p f)
  have "filter (\<lambda>r. tr_user_id r \<noteq> a) (map (\<lambda>r. if p r then f r else r) xs) = filter (\<lambda>r. tr_user_id r \<noteq> a) xs" for xs
    by (induction xs) (auto dest: good_update_owner [OF update(2)])
  then show ?thesis using update by (cases rule: run_update_cases [of p f d]) simp_all
qed simp

lemma sql_create_others:
  "filter (\<lambda>r. tr_user_id r \<noteq> a) (transfer_requests (snd (sql_create now fresh a s r v e d))) =
     filter (\<lambda>r. tr_user_id r \<noteq> a) (transfer_requests d)"
  using sql_create_extends [of now fresh a s r v e d] by (auto simp: filter_empty_conv)

text \<open>
  C26.  Accounts are isolated from each other.  What the statements made for account \<open>a\<close> return, its
  reads and its updates, and what they leave of its transfers does not depend on the transfers of
  other accounts: the answers are the same in any two databases that differ only in those.  And an
  update or a creation for \<open>a\<close> leaves the transfers of every other account as they were.
\<close>

theorem transfer_account_isolation:
  assumes "own_transfers a ts = own_transfers a us"
  shows "sql_get_by_id a t (d\<lparr>transfer_requests := ts\<rparr>) = sql_get_by_id a t (d\<lparr>transfer_requests := us\<rparr>) \<and>
    sql_list_for_account a (d\<lparr>transfer_requests := ts\<rparr>) = sql_list_for_account a (d\<lparr>transfer_requests := us\<rparr>) \<and>
    sql_list_for_device a v (d\<lparr>transfer_requests := ts\<rparr>) = sql_list_for_device a v (d\<lparr>transfer_requests := us\<rparr>) \<and>
    fst (sql_run now a t op (d\<lparr>transfer_requests := ts\<rparr>)) = fst (sql_run now a t op (d\<lparr>transfer_requests := us\<rparr>)) \<and>
    own_transfers a (transfer_requests (snd (sql_run now a t op (d\<lparr>transfer_requests := ts\<rparr>)))) =
      own_transfers a (transfer_requests (snd (sql_run now a t op (d\<lparr>transfer_requests := us\<rparr>)))) \<and>
    filter (\<lambda>r. tr_user_id r \<noteq> a) (transfer_requests (snd (sql_run now a t op d))) =
      filter (\<lambda>r. tr_user_id r \<noteq> a) (transfer_requests d) \<and>
    filter (\<lambda>r. tr_user_id r \<noteq> a) (transfer_requests (snd (sql_create now fresh a s r v' e d))) =
      filter (\<lambda>r. tr_user_id r \<noteq> a) (transfer_requests d)"
  by (intro conjI sql_reads_own [OF assms] sql_run_own [OF assms] sql_run_others sql_create_others)

theorem transfer_account_isolation_witness:
  "sql_list_for_account 1 ((sample_db Offered)\<lparr>transfer_requests := [(sample_transfer Offered)\<lparr>tr_user_id := 2\<rparr>, sample_transfer Offered]\<rparr>) =
     [sample_transfer Offered] \<and>
   fst (sql_run 5 1 7 (OpAccept 11) ((sample_db Offered)\<lparr>transfer_requests := [(sample_transfer Offered)\<lparr>tr_user_id := 2\<rparr>, sample_transfer Offered]\<rparr>)) =
     fst (sql_run 5 1 7 (OpAccept 11) (sample_db Offered))"
proof -
  let ?own = "[sample_transfer Offered]" and ?all = "[(sample_transfer Offered)\<lparr>tr_user_id := 2\<rparr>, sample_transfer Offered]"
  have "own_transfers 1 ?all = own_transfers 1 ?own" by (simp add: own_transfers_def sample_defs)
  note iso = transfer_account_isolation [OF this, of 7 "sample_db Offered" 11 5 "OpAccept 11" 8 10 11 1 9]
  have "(sample_db Offered)\<lparr>transfer_requests := ?own\<rparr> = sample_db Offered" "sql_list_for_account 1 (sample_db Offered) = ?own"
    by code_simp+
  then show ?thesis using iso by simp
qed

text \<open>
  \<open>_VALID_TRANSITIONS\<close> lists \<open>failed\<close> as a target, but the generic \<open>transition\<close>
  passes no failure code, and a failed row without one breaks the table's constraint: on every
  transfer it applies to, \<open>transition(..., "failed")\<close> raises instead of returning a row.
\<close>

theorem transition_to_failed_raises:
  assumes "r \<in> set (transfer_requests d)" and "tr_user_id r = a" and "tr_id r = t"
    and "tr_status r \<in> set FAILABLE_STATUSES" and "now < tr_expires_at r" and "live_account d a"
  shows "next_status (tr_status r) Failed \<and>
         sql_transition now a t (tr_status r) Failed d = (Inl BackendUnavailableError, d)"
proof -
  have n: "next_status (tr_status r) Failed"
    using assms(4) by (simp add: next_status_iff)
  let ?p = "transition_guard now a t [tr_status r] True None None d"
  have "?p r" using assms by (simp add: transition_guard_def)
  moreover have "\<not> transfer_check (set_status now Failed None r)"
    by (simp add: transfer_check_def set_status_def)
  ultimately have "\<not> list_all (\<lambda>q. ?p q \<longrightarrow> transfer_check (set_status now Failed None q))
                         (transfer_requests d)"
    using assms(1) by (auto simp: list_all_iff)
  then have "run_update ?p (set_status now Failed None) d = (Inl BackendUnavailableError, d)"
    by (simp add: run_update_def sql_update_def)
  then show ?thesis
    using n by (auto simp: sql_transition_def sql_do_transition_def next_status_def split: option.splits)
qed

theorem transition_to_failed_raises_witness:
  "sql_transition 5 1 7 Negotiating Failed (sample_db Negotiating) =
     (Inl BackendUnavailableError, sample_db Negotiating)"
  using transition_to_failed_raises [of "sample_transfer Negotiating" "sample_db Negotiating" 1 7 5]
  by (simp add: sample_defs FAILABLE_STATUSES_def live_account_def)

end
