(* ===== verification/TransferMem.thy ===== *)
theory TransferMem
  imports TransferRepo
begin

text \<open>
  \<open>InMemoryTransferRequestRepository\<close> of \<open>repositories/transfers.py\<close>: the same contract on
  a dictionary from transfer identifiers to records.  The device repository is optional; where
  there is one, \<open>lookup\<close> is its \<open>get_by_id\<close>.  \<open>clk\<close> gives the successive readings of
  \<open>self._clock\<close> and \<open>wall\<close> the reading of \<open>datetime.now\<close> that \<open>_updated_record\<close> takes
  on its own.  The theory ends with the refinement: on corresponding states the dictionary and the
  SQL statements return the same records and stay in correspondence.
\<close>

type_synonym transfer_store = "(uuid, transfer_request) dict"
type_synonym device_lookup = "uuid \<Rightarrow> uuid \<Rightarrow> device option"

section \<open>Operations\<close>

definition mem_get_by_id :: "uuid \<Rightarrow> uuid \<Rightarrow> transfer_store \<Rightarrow> transfer_request option" where
  "mem_get_by_id account_id transfer_id st =
     (case dict_get st transfer_id of
        None \<Rightarrow> None
      | Some r \<Rightarrow> if tr_user_id r = account_id then Some r else None)"

definition mem_list_for_account :: "uuid \<Rightarrow> transfer_store \<Rightarrow> transfer_request list" where
  "mem_list_for_account account_id st =
     newest_first (filter (\<lambda>r. tr_user_id r = account_id) (dict_values st))"

definition mem_list_for_device :: "uuid \<Rightarrow> uuid \<Rightarrow> transfer_store \<Rightarrow> transfer_request list" where
  "mem_list_for_device account_id device_id st =
     filter (\<lambda>r. tr_sender_device_id r = device_id \<or> tr_recipient_device_id r = device_id)
       (mem_list_for_account account_id st)"

definition mem_create ::
    "device_lookup option \<Rightarrow> instant \<Rightarrow> uuid \<Rightarrow> uuid \<Rightarrow> uuid \<Rightarrow> uuid \<Rightarrow> int \<Rightarrow> instant \<Rightarrow>
     transfer_store \<Rightarrow> transfer_request res \<times> transfer_store" where
  "mem_create lookup now fresh account_id sender_device_id recipient_device_id protocol_version
     expires_at st =
     (if sender_device_id = recipient_device_id then (Inl ValueError, st)
      else if (case lookup of
                 None \<Rightarrow> False
               | Some get \<Rightarrow>
                   (case (get account_id sender_device_id, get account_id recipient_device_id) of
                      (Some sender, Some recipient) \<Rightarrow>
                        dv_status sender \<noteq> Active \<or> dv_status recipient \<noteq> Active \<or>
                        dv_epoch sender \<noteq> dv_epoch recipient
                    | _ \<Rightarrow> True))
      then (Inl ValueError, st)
      else let record =
             \<lparr>tr_id = fresh, tr_user_id = account_id, tr_sender_device_id = sender_device_id,
              tr_recipient_device_id = recipient_device_id,
              tr_protocol_version = protocol_version, tr_status = Offered, tr_created_at = now,
              tr_expires_at = expires_at, tr_accepted_at = None, tr_completed_at = None,
              tr_failure_code = None, tr_relay_used = False\<rparr>
           in (Inr record, dict_set fresh record st))"

definition updated_record ::
    "instant \<Rightarrow> transfer_request \<Rightarrow> transfer_status \<Rightarrow> pystr option \<Rightarrow> transfer_request" where
  "updated_record wall record status failure_code =
     record\<lparr>tr_status := status,
            tr_accepted_at :=
              (case tr_accepted_at record of
                 Some x \<Rightarrow> Some x
               | None \<Rightarrow> if status = Accepted \<or> status = Cancelled then Some wall else None),
            tr_completed_at := (if status = Completed then Some wall else tr_completed_at record),
            tr_failure_code := failure_code\<rparr>"

definition mem_transition ::
    "instant \<Rightarrow> instant \<Rightarrow> uuid \<Rightarrow> uuid \<Rightarrow> transfer_status \<Rightarrow> transfer_status \<Rightarrow> transfer_store \<Rightarrow>
     transfer_request option \<times> transfer_store" where
  "mem_transition now wall account_id transfer_id from_status to_status st =
     (case dict_get VALID_TRANSITIONS from_status of
        None \<Rightarrow> (None, st)
      | Some allowed_targets \<Rightarrow>
          if to_status \<notin> set allowed_targets then (None, st)
          else case dict_get st transfer_id of
                 None \<Rightarrow> (None, st)
               | Some record \<Rightarrow>
                   if tr_user_id record \<noteq> account_id \<or> tr_status record \<noteq> from_status then (None, st)
                   else if to_status = Expired \<and> now < tr_expires_at record then (None, st)
                   else if to_status \<noteq> Expired \<and> tr_expires_at record \<le> now then (None, st)
                   else let updated = updated_record wall record to_status None
                        in (Some updated, dict_set transfer_id updated st))"

definition mem_actor_transition ::
    "device_lookup option \<Rightarrow> instant \<Rightarrow> instant \<Rightarrow> uuid \<Rightarrow> uuid \<Rightarrow> transfer_status list \<Rightarrow>
     transfer_status \<Rightarrow> uuid \<Rightarrow> bool \<Rightarrow> pystr option \<Rightarrow> transfer_store \<Rightarrow>
     transfer_request option \<times> transfer_store" where
  "mem_actor_transition lookup now wall account_id transfer_id from_statuses to_status
     actor_device_id recipient_only failure_code st =
     (if (case lookup of
            None \<Rightarrow> False
          | Some get \<Rightarrow>
              (case get account_id actor_device_id of
                 None \<Rightarrow> True
               | Some actor \<Rightarrow> dv_status actor \<noteq> Active))
      then (None, st)
      else case dict_get st transfer_id of
             None \<Rightarrow> (None, st)
           | Some record \<Rightarrow>
               if tr_user_id record \<noteq> account_id \<or> tr_status record \<notin> set from_statuses \<or>
                  tr_expires_at record \<le> now \<or>
                  (recipient_only \<and> tr_recipient_device_id record \<noteq> actor_device_id) \<or>
                  (\<not> recipient_only \<and>
                   actor_device_id \<notin> {tr_sender_device_id record, tr_recipient_device_id record})
               then (None, st)
               else let updated = updated_record wall record to_status failure_code
                    in (Some updated, dict_set transfer_id updated st))"

definition mem_accept ::
    "device_lookup option \<Rightarrow> instant \<Rightarrow> instant \<Rightarrow> uuid \<Rightarrow> uuid \<Rightarrow> uuid \<Rightarrow> transfer_store \<Rightarrow>
     transfer_request option \<times> transfer_store" where
  "mem_accept lookup now wall account_id transfer_id recipient_device_id =
     mem_actor_transition lookup now wall account_id transfer_id [Offered] Accepted
       recipient_device_id True None"

definition mem_reject ::
    "device_lookup option \<Rightarrow> instant \<Rightarrow> instant \<Rightarrow> uuid \<Rightarrow> uuid \<Rightarrow> uuid \<Rightarrow> transfer_store \<Rightarrow>
     transfer_request option \<times> transfer_store" where
  "mem_reject lookup now wall account_id transfer_id recipient_device_id =
     mem_actor_transition lookup now wall account_id transfer_id [Offered] Rejected
       recipient_device_id True None"

definition mem_cancel ::
    "device_lookup option \<Rightarrow> instant \<Rightarrow> instant \<Rightarrow> uuid \<Rightarrow> uuid \<Rightarrow> uuid \<Rightarrow> transfer_store \<Rightarrow>
     transfer_request option \<times> transfer_store" where
  "mem_cancel lookup now wall account_id transfer_id actor_device_id =
     mem_actor_transition lookup now wall account_id transfer_id ACTIVE_STATUSES Cancelled
       actor_device_id False None"

definition mem_expire_active ::
    "instant \<Rightarrow> instant \<Rightarrow> uuid \<Rightarrow> uuid \<Rightarrow> transfer_store \<Rightarrow>
     transfer_request option \<times> transfer_store" where
  "mem_expire_active now wall account_id transfer_id st =
     (case dict_get st transfer_id of
        None \<Rightarrow> (None, st)
      | Some record \<Rightarrow>
          if tr_user_id record \<noteq> account_id \<or> tr_status record \<notin> set ACTIVE_STATUSES \<or>
             now < tr_expires_at record
          then (None, st)
          else let updated = updated_record wall record Expired None
               in (Some updated, dict_set transfer_id updated st))"

definition mem_expire ::
    "clock \<Rightarrow> instant \<Rightarrow> uuid \<Rightarrow> uuid \<Rightarrow> transfer_store \<Rightarrow> transfer_request option \<times> transfer_store" where
  "mem_expire clk wall account_id transfer_id st =
     (case mem_transition (clk 0) wall account_id transfer_id Offered Expired st of
        (Some r, st') \<Rightarrow> (Some r, st')
      | (None, st') \<Rightarrow> mem_expire_active (clk 1) wall account_id transfer_id st')"

text \<open>
  \<open>fail\<close> without an actor tries each failable status in turn, the \<open>i\<close>-th attempt with the
  \<open>i\<close>-th clock reading, and adds the failure code to the record the transition stored.
\<close>

fun mem_fail_loop ::
    "clock \<Rightarrow> instant \<Rightarrow> uuid \<Rightarrow> uuid \<Rightarrow> pystr \<Rightarrow> nat \<Rightarrow> transfer_status list \<Rightarrow> transfer_store \<Rightarrow>
     transfer_request option \<times> transfer_store" where
  "mem_fail_loop clk wall account_id transfer_id failure_code i [] st = (None, st)"
| "mem_fail_loop clk wall account_id transfer_id failure_code i (status_value # rest) st =
     (case mem_transition (clk i) wall account_id transfer_id status_value Failed st of
        (Some result, st') \<Rightarrow>
          let updated = result\<lparr>tr_failure_code := Some failure_code\<rparr>
          in (Some updated, dict_set (tr_id updated) updated st')
      | (None, st') \<Rightarrow>
          mem_fail_loop clk wall account_id transfer_id failure_code (Suc i) rest st')"

definition mem_fail ::
    "device_lookup option \<Rightarrow> clock \<Rightarrow> instant \<Rightarrow> uuid \<Rightarrow> uuid \<Rightarrow> pystr \<Rightarrow> uuid option \<Rightarrow>
     transfer_store \<Rightarrow> transfer_request option \<times> transfer_store" where
  "mem_fail lookup clk wall account_id transfer_id failure_code actor_device_id st =
     (case actor_device_id of
        None \<Rightarrow> mem_fail_loop clk wall account_id transfer_id failure_code 0 FAILABLE_STATUSES st
      | Some actor \<Rightarrow>
          mem_actor_transition lookup (clk 0) wall account_id transfer_id FAILABLE_STATUSES Failed
            actor False (Some failure_code) st)"

definition mem_mark_relay_used ::
    "instant \<Rightarrow> uuid \<Rightarrow> uuid \<Rightarrow> transfer_store \<Rightarrow> transfer_request option \<times> transfer_store" where
  "mem_mark_relay_used now account_id transfer_id st =
     (case dict_get st transfer_id of
        None \<Rightarrow> (None, st)
      | Some record \<Rightarrow>
          if tr_user_id record \<noteq> account_id \<or> tr_status record \<notin> set ACTIVE_STATUSES \<or>
             tr_expires_at record \<le> now
          then (None, st)
          else let updated = record\<lparr>tr_relay_used := True\<rparr>
               in (Some updated, dict_set transfer_id updated st))"

text \<open>The named transitions.\<close>

definition mem_mark_negotiating ::
    "instant \<Rightarrow> instant \<Rightarrow> uuid \<Rightarrow> uuid \<Rightarrow> transfer_store \<Rightarrow> transfer_request option \<times> transfer_store" where
  "mem_mark_negotiating now wall account_id transfer_id =
     mem_transition now wall account_id transfer_id Accepted Negotiating"

definition mem_mark_connected ::
    "instant \<Rightarrow> instant \<Rightarrow> uuid \<Rightarrow> uuid \<Rightarrow> transfer_store \<Rightarrow> transfer_request option \<times> transfer_store" where
  "mem_mark_connected now wall account_id transfer_id =
     mem_transition now wall account_id transfer_id Negotiating Connected"

definition mem_mark_transferring ::
    "instant \<Rightarrow> instant \<Rightarrow> uuid \<Rightarrow> uuid \<Rightarrow> transfer_store \<Rightarrow> transfer_request option \<times> transfer_store" where
  "mem_mark_transferring now wall account_id transfer_id =
     mem_transition now wall account_id transfer_id Connected Transferring"

definition mem_complete ::
    "instant \<Rightarrow> instant \<Rightarrow> uuid \<Rightarrow> uuid \<Rightarrow> transfer_store \<Rightarrow> transfer_request option \<times> transfer_store" where
  "mem_complete now wall account_id transfer_id =
     mem_transition now wall account_id transfer_id Transferring Completed"

text \<open>The updating methods under the names of \<^typ>\<open>transfer_op\<close>.\<close>

fun mem_run ::
    "device_lookup option \<Rightarrow> clock \<Rightarrow> instant \<Rightarrow> uuid \<Rightarrow> uuid \<Rightarrow> transfer_op \<Rightarrow> transfer_store \<Rightarrow>
     transfer_request option \<times> transfer_store" where
  "mem_run lk clk wall a t (OpTransition s s') st = mem_transition (clk 0) wall a t s s' st"
| "mem_run lk clk wall a t (OpAccept v) st = mem_accept lk (clk 0) wall a t v st"
| "mem_run lk clk wall a t (OpReject v) st = mem_reject lk (clk 0) wall a t v st"
| "mem_run lk clk wall a t (OpCancel v) st = mem_cancel lk (clk 0) wall a t v st"
| "mem_run lk clk wall a t (OpFail c v) st = mem_fail lk clk wall a t c v st"
| "mem_run lk clk wall a t OpExpire st = mem_expire clk wall a t st"
| "mem_run lk clk wall a t OpMarkRelayUsed st = mem_mark_relay_used (clk 0) a t st"

section \<open>Refinement\<close>

text \<open>
  The dictionary corresponds to the table when it holds the rows, in order, under their
  identifiers.  The device repository corresponds to the database for account \<open>a\<close> when it
  reports as active exactly the devices the statements join with, those of the live account's
  current epoch; the dictionary repository itself knows neither deleted accounts nor the
  account's epoch.
\<close>

definition sim :: "db \<Rightarrow> transfer_store \<Rightarrow> bool" where
  "sim d st \<longleftrightarrow>
     st = map (\<lambda>r. (tr_id r, r)) (transfer_requests d) \<and> distinct (map tr_id (transfer_requests d))"

definition lookup_agrees :: "db \<Rightarrow> uuid \<Rightarrow> device_lookup \<Rightarrow> bool" where
  "lookup_agrees d a get \<longleftrightarrow>
     (\<exists>ac\<in>set (app_users d). ac_id ac = a \<and> ac_deleted_at ac = None \<and>
        (\<forall>v. (active_device d a v \<longleftrightarrow>
                (case get a v of None \<Rightarrow> False | Some x \<Rightarrow> dv_status x = Active)) \<and>
             (\<forall>x. get a v = Some x \<and> dv_status x = Active \<longrightarrow> dv_epoch x = ac_device_epoch ac)))"

lemma lookup_agreesD:
  assumes "lookup_agrees d a get"
  shows "live_account d a"
    and "active_device d a v \<longleftrightarrow> (case get a v of None \<Rightarrow> False | Some x \<Rightarrow> dv_status x = Active)"
    and "get a v = Some x \<Longrightarrow> get a w = Some y \<Longrightarrow> dv_status x = Active \<Longrightarrow> dv_status y = Active \<Longrightarrow>
           dv_epoch x = dv_epoch y"
  using assms by (auto simp: lookup_agrees_def live_account_def list_ex_iff)

text \<open>The common shape of the dictionary updates.\<close>

definition mem_update ::
    "(transfer_request \<Rightarrow> bool) \<Rightarrow> (transfer_request \<Rightarrow> transfer_request) \<Rightarrow> uuid \<Rightarrow>
     transfer_store \<Rightarrow> transfer_request option \<times> transfer_store" where
  "mem_update p f t st =
     (case dict_get st t of
        None \<Rightarrow> (None, st)
      | Some r \<Rightarrow> if p r then (Some (f r), dict_set t (f r) st) else (None, st))"

lemma sim_get: "sim d st \<Longrightarrow> dict_get st t = Some r \<longleftrightarrow> r \<in> set (transfer_requests d) \<and> tr_id r = t"
  by (simp add: sim_def dict_get_keyed)

lemma sim_get_None: "sim d st \<Longrightarrow> dict_get st t = None \<longleftrightarrow> t \<notin> tr_id ` set (transfer_requests d)"
  by (simp add: sim_def dict_get_def map_of_eq_None_iff image_image)

lemma sim_update:
  assumes "sim d st" and "r \<in> set (transfer_requests d)" and "tr_id r' = tr_id r"
  shows "sim (d\<lparr>transfer_requests :=
                map (\<lambda>q. if tr_id q = tr_id r then r' else q) (transfer_requests d)\<rparr>)
             (dict_set (tr_id r) r' st)"
proof -
  have "map tr_id (map (\<lambda>q. if tr_id q = tr_id r then r' else q) (transfer_requests d)) =
          map tr_id (transfer_requests d)"
    using assms(3) by simp
  with assms show ?thesis
    unfolding sim_def by (simp add: dict_set_keyed del: map_map)
qed

lemma run_update_sim:
  assumes "sim d st" and "good_update now a t d p f" and "checked_update now p f"
    and "\<forall>r\<in>set (transfer_requests d). transfer_check r \<and> timely now r"
  shows "\<exists>out d' st'. run_update p f d = (Inr out, d') \<and> mem_update p f t st = (out, st') \<and> sim d' st'"
proof (cases "dict_get st t")
  case None
  then have "\<not> p r" if "r \<in> set (transfer_requests d)" for r
    using that good_update_owner [OF assms(2)] sim_get_None [OF assms(1)] by force
  then have "filter p (transfer_requests d) = []"
    "map (\<lambda>r. if p r then f r else r) (transfer_requests d) = transfer_requests d"
    "list_all (\<lambda>r. p r \<longrightarrow> transfer_check (f r)) (transfer_requests d)"
    by (auto simp: filter_empty_conv list_all_iff intro!: map_idI)
  then show ?thesis
    using assms(1) None by (simp add: run_update_def sql_update_def mem_update_def)
next
  case (Some r)
  then have r: "r \<in> set (transfer_requests d)" "tr_id r = t"
    using sim_get [OF assms(1)] by simp_all
  have "run_update p f d =
          (if p r then (Inr (Some (f r)),
             d\<lparr>transfer_requests := map (\<lambda>q. if tr_id q = tr_id r then f r else q) (transfer_requests d)\<rparr>)
           else (Inr None, d))"
    using assms r good_update_owner [OF assms(2)]
    by (intro run_update_unique) (auto simp: sim_def checked_update_def)
  then show ?thesis
    using Some r assms(1) sim_update [OF assms(1) r(1), of "f r"] good_update_owner [OF assms(2)]
    by (auto simp: mem_update_def)
qed

lemma sim_get_id: "sim d st \<Longrightarrow> dict_get st t = Some r \<Longrightarrow> tr_id r = t"
  by (simp add: sim_get)

lemma updated_record_eq:
  "c = None \<or> s = Failed \<Longrightarrow> updated_record now r s c = set_status now s c r"
  by (cases r, cases "tr_accepted_at r"; cases c)
     (simp_all add: updated_record_def set_status_def coalesce_def split: option.split)

lemma mem_update_None [simp]: "dict_get st t = None \<Longrightarrow> mem_update p f t st = (None, st)"
  by (simp add: mem_update_def)

lemma mem_update_Some [simp]:
  "dict_get st t = Some r \<Longrightarrow>
     mem_update p f t st = (if p r then (Some (f r), dict_set t (f r) st) else (None, st))"
  by (simp add: mem_update_def)

lemma mem_actor_transition_eq:
  assumes "sim d st" and "lookup_agrees d a get" and "c = None \<or> s = Failed"
  shows "mem_actor_transition (Some get) now now a t froms s v ro c st =
           mem_update
             (transition_guard now a t froms True (Some v)
                (Some (if ro then RecipientRole else ParticipantRole)) d)
             (set_status now s c) t st"
proof -
  note live = lookup_agreesD(1) [OF assms(2)] and act = lookup_agreesD(2) [OF assms(2), of v]
  show ?thesis
  proof (cases "dict_get st t")
    case None
    then show ?thesis by (simp add: mem_actor_transition_def)
  next
    case (Some r)
    have "tr_id r = t" using sim_get_id [OF assms(1) Some] .
    then have "transition_guard now a t froms True (Some v)
                 (Some (if ro then RecipientRole else ParticipantRole)) d r \<longleftrightarrow>
               active_device d a v \<and> tr_user_id r = a \<and> tr_status r \<in> set froms \<and>
               \<not> tr_expires_at r \<le> now \<and> (ro \<longrightarrow> tr_recipient_device_id r = v) \<and>
               (\<not> ro \<longrightarrow> v \<in> {tr_sender_device_id r, tr_recipient_device_id r})"
      using live by (cases ro) (auto simp: transition_guard_def actor_ok_def)
    with Some act show ?thesis
      by (cases "get a v")
         (simp_all add: mem_actor_transition_def Let_def updated_record_eq [OF assms(3)])
  qed
qed

lemma mem_transition_eq:
  assumes "sim d st" and "live_account d a" and "next_status s s'"
  shows "mem_transition now now a t s s' st =
           mem_update (transition_guard now a t [s] (s' \<noteq> Expired) None None d)
             (set_status now s' None) t st"
proof (cases "dict_get st t")
  case None
  then show ?thesis by (simp add: mem_transition_def split: option.split)
next
  case (Some r)
  have "tr_id r = t" using sim_get_id [OF assms(1) Some] .
  moreover obtain ts where "dict_get VALID_TRANSITIONS s = Some ts" "s' \<in> set ts"
    using assms(3) by (auto simp: next_status_def split: option.splits)
  ultimately show ?thesis
    using Some assms(2) by (auto simp: mem_transition_def transition_guard_def Let_def updated_record_eq)
qed

lemma mem_transition_stop:
  "\<not> next_status s s' \<Longrightarrow> mem_transition now wall a t s s' st = (None, st)"
  by (auto simp: mem_transition_def next_status_def split: option.splits)

lemma mem_expire_eq:
  assumes "sim d st" and "live_account d a"
  shows "mem_expire (\<lambda>_. now) now a t st =
           mem_update (transition_guard now a t ACTIVE_STATUSES False None None d)
             (set_status now Expired None) t st"
proof -
  have n: "next_status Offered Expired" by (simp add: next_status_iff)
  show ?thesis
  proof (cases "dict_get st t")
    case None
    then show ?thesis
      by (simp add: mem_expire_def mem_transition_eq [OF assms n] mem_expire_active_def)
  next
    case (Some r)
    have "tr_id r = t" using sim_get_id [OF assms(1) Some] .
    with Some show ?thesis
      using assms(2)
      by (auto simp: mem_expire_def mem_transition_eq [OF assms n] mem_expire_active_def
            transition_guard_def ACTIVE_STATUSES_def updated_record_eq Let_def)
  qed
qed

lemma mem_fail_loop_eq:
  assumes "sim d st" and "live_account d a" and "set ss \<subseteq> set FAILABLE_STATUSES"
  shows "mem_fail_loop (\<lambda>_. now) now a t c i ss st =
           mem_update (transition_guard now a t ss True None role d) (set_status now Failed (Some c)) t st"
  using assms(3)
proof (induction ss arbitrary: i)
  case Nil
  then show ?case
    by (cases "dict_get st t") (simp_all add: transition_guard_def)
next
  case (Cons s ss)
  have n: "next_status s Failed"
    using Cons.prems by (simp add: next_status_iff)
  have code: "tr_id (set_status now Failed (Some c) r) = tr_id r"
    "(set_status now Failed None r)\<lparr>tr_failure_code := Some c\<rparr> = set_status now Failed (Some c) r" for r
    by (simp_all add: set_status_def)
  show ?case
  proof (cases "dict_get st t")
    case None
    then show ?thesis using Cons by (simp add: mem_transition_eq [OF assms(1,2) n])
  next
    case (Some r)
    have "tr_id r = t" using sim_get_id [OF assms(1) Some] .
    with Some Cons show ?thesis
      using assms(2)
      by (auto simp: mem_transition_eq [OF assms(1,2) n] transition_guard_def Let_def code)
  qed
qed

lemma transition_sim:
  assumes "sim d st" and "\<forall>r\<in>set (transfer_requests d). transfer_check r \<and> timely now r"
    and "\<And>s. s \<in> set froms \<Longrightarrow> next_status s s'" and "u \<or> s' = Expired"
    and "s' = Failed \<longrightarrow> (\<exists>code. c = Some code \<and> 1 \<le> length code \<and> length code \<le> 64)"
  shows "\<exists>out d' st'. sql_do_transition now a t froms s' u actor role c d = (Inr out, d') \<and>
           mem_update (transition_guard now a t froms u actor role d) (set_status now s' c) t st =
             (out, st') \<and> sim d' st'"
  unfolding sql_do_transition_def
  using run_update_sim [OF assms(1) good_update_transition [of froms s', OF assms(3,4)]
      checked_update_transition [OF assms(3,5)] assms(2)] .

lemma relay_sim:
  assumes "sim d st" and "\<forall>r\<in>set (transfer_requests d). transfer_check r \<and> timely now r"
    and "live_account d a"
  shows "\<exists>out d' st'. sql_mark_relay_used now a t d = (Inr out, d') \<and>
           mem_mark_relay_used now a t st = (out, st') \<and> sim d' st'"
proof -
  let ?p = "\<lambda>r. tr_user_id r = a \<and> tr_id r = t \<and> tr_status r \<in> set ACTIVE_STATUSES \<and>
               now < tr_expires_at r \<and> live_account d (tr_user_id r)"
  let ?f = "\<lambda>r. r\<lparr>tr_relay_used := True\<rparr>"
  have eq: "mem_mark_relay_used now a t st = mem_update ?p ?f t st"
  proof (cases "dict_get st t")
    case (Some r)
    then show ?thesis
      using assms(3) sim_get_id [OF assms(1) Some] by (auto simp: mem_mark_relay_used_def Let_def)
  qed (simp add: mem_mark_relay_used_def)
  have "good_update now a t d ?p ?f" "checked_update now ?p ?f"
    by (auto simp: good_update_def checked_update_def evolves_def same_offer_def)
  from run_update_sim [OF assms(1) this assms(2)] show ?thesis
    by (simp only: sql_mark_relay_used_def eq)
qed

text \<open>
  C10.  The in-memory repository refines the SQL one.  Let the states correspond, the rows satisfy the
  schema and be no younger than the call, the device repository agree with the database about the
  caller's account, and all readings of the clock within the call give the time of the statement.  Then
  every updating method, but for a plain transition to \<open>failed\<close> and a failure code that is empty or
  longer than 64 characters, returns the same record (or none) from the dictionary as from the
  database, and the states correspond again.  The excluded calls do differ: the dictionary stores a row
  that the database refuses.
\<close>

theorem memory_refines_sql:
  assumes "sim d st" and "lookup_agrees d a get" and "fits_schema op"
    and "\<forall>r\<in>set (transfer_requests d). transfer_check r \<and> timely now r"
  shows "\<exists>out d' st'. sql_run now a t op d = (Inr out, d') \<and>
           mem_run (Some get) (\<lambda>_. now) now a t op st = (out, st') \<and> sim d' st'"
proof -
  note actor = mem_actor_transition_eq [OF assms(1,2)]
  note tsim = transition_sim [OF assms(1,4)]
  note live = lookup_agreesD(1) [OF assms(2)]
  have stat: "\<And>s. s \<in> set ACTIVE_STATUSES \<Longrightarrow> next_status s Cancelled \<and> next_status s Expired"
    by (auto simp: next_status_iff ACTIVE_STATUSES_def FAILABLE_STATUSES_def)
  have off: "next_status Offered Accepted" "next_status Offered Rejected"
    by (simp_all add: next_status_iff)
  have fail: "\<And>s. s \<in> set FAILABLE_STATUSES \<Longrightarrow> next_status s Failed"
    by (simp add: next_status_iff)
  show ?thesis
  proof (cases op)
    case (OpTransition s s')
    show ?thesis
    proof (cases "next_status s s'")
      case True
      then have "sql_run now a t op d = sql_do_transition now a t [s] s' (s' \<noteq> Expired) None None None d"
        by (auto simp: OpTransition sql_transition_def next_status_def split: option.splits)
      then show ?thesis
        using tsim [of "[s]" s' "s' \<noteq> Expired" None] True assms(3)
        by (simp add: OpTransition mem_transition_eq [OF assms(1) live True])
    next
      case False
      then show ?thesis
        using assms(1) mem_transition_stop [OF False]
        by (auto simp: OpTransition sql_transition_def next_status_def split: option.splits)
    qed
  next
    case (OpFail c v)
    then show ?thesis
      using tsim [of FAILABLE_STATUSES Failed True "Some c"] fail assms(3)
      by (cases v) (simp_all add: sql_fail_def mem_fail_def actor mem_fail_loop_eq [OF assms(1) live, where role = "Some ParticipantRole"])
  next
    case OpMarkRelayUsed
    then show ?thesis using relay_sim [OF assms(1,4) live, of t] by simp
  qed (use tsim [of "[Offered]" Accepted True None] tsim [of "[Offered]" Rejected True None]
        tsim [of ACTIVE_STATUSES Cancelled True None] tsim [of ACTIVE_STATUSES Expired False None]
        off stat in \<open>simp_all add: transfer_op_defs mem_accept_def mem_reject_def
      mem_cancel_def actor mem_expire_eq [OF assms(1) live]\<close>)
qed


theorem memory_refines_sql_witness:
  "\<exists>out d' st'. sql_run 5 1 7 (OpCancel 10) (sample_db Connected) = (Inr out, d') \<and>
     mem_run (Some (\<lambda>a v. if a = 1 \<and> v \<in> {10, 11} then Some (sample_device v) else None))
       (\<lambda>_. 5) 5 1 7 (OpCancel 10) [(7, sample_transfer Connected)] = (out, st') \<and> sim d' st'"
  by (rule memory_refines_sql)
     (auto simp: sim_def lookup_agrees_def live_account_def active_device_def sample_defs
        transfer_check_def timely_def)

text \<open>
  Creation corresponds as well: with a fresh identifier, a positive lifetime and a protocol
  version the schema admits, an offer the database stores is the offer the dictionary stores, and
  when the database refuses the devices the dictionary raises too and keeps its records.
\<close>

theorem memory_create_refines_sql:
  assumes "sim d st" and "lookup_agrees d a get" and "sql_create now fresh a s r v e d = (res, d')"
    and "fresh \<notin> tr_id ` set (transfer_requests d)" and "now < e" and "1 \<le> v" and "v \<le> 32767"
    and "distinct (map ac_id (app_users d))" and "distinct (map dv_id (devices d))"
  shows "\<exists>res' st'. mem_create (Some get) now fresh a s r v e st = (res', st') \<and> sim d' st' \<and>
           (case res of Inr x \<Rightarrow> res' = Inr x | Inl _ \<Rightarrow> res' = Inl ValueError)"
proof -
  note act = lookup_agreesD(2) [OF assms(2), of s] lookup_agreesD(2) [OF assms(2), of r]
  show ?thesis
  proof (cases rule: sql_create_cases [of now fresh a s r v e d])
    case stored
    have "sim (d\<lparr>transfer_requests := transfer_requests d @ [new_offer now fresh a s r v e]\<rparr>)
            (dict_set fresh (new_offer now fresh a s r v e) st)"
      using assms(1,4) dict_set_keyed_new [of tr_id "new_offer now fresh a s r v e" "transfer_requests d"]
      by (auto simp: sim_def)
    moreover have "mem_create (Some get) now fresh a s r v e st =
        (Inr (new_offer now fresh a s r v e), dict_set fresh (new_offer now fresh a s r v e) st)"
      using stored(4-6) act lookup_agreesD(3) [OF assms(2), of s _ r]
      by (auto simp: mem_create_def new_offer_def Let_def split: option.splits)
    ultimately show ?thesis
      using stored(1) assms(3) by auto
  next
    case none
    have "\<not> (active_device d a s \<and> active_device d a r \<and> s \<noteq> r)"
      using none(2) offer_rows_nonempty [OF assms(8), of a s r now fresh v e] by auto
    then have "mem_create (Some get) now fresh a s r v e st = (Inl ValueError, st)"
      using act by (auto simp: mem_create_def split: option.splits)
    then show ?thesis
      using none(1) assms(1,3) by auto
  next
    case refused
    have "mem_create (Some get) now fresh a s r v e st = (Inl ValueError, st)" if "s = r"
      using that by (simp add: mem_create_def)
    moreover have "s = r"
    proof (rule ccontr)
      assume ne: "s \<noteq> r"
      then have "transfer_check (new_offer now fresh a s r v e)"
        using assms(5-7) by (simp add: transfer_check_def new_offer_def)
      then have "length (offer_rows now fresh a s r v e d) \<noteq> 1"
        using refused(2) assms(4) by auto
      then have "offer_rows now fresh a s r v e d = []"
        using offer_rows_le_1 [OF assms(8,9), of now fresh a s r v e]
        by (cases "offer_rows now fresh a s r v e d") auto
      then show False
        using refused(1) by (simp add: sql_create_def sql_insert_def)
    qed
    ultimately show ?thesis
      using refused(1) assms(1,3) by auto
  qed
qed

theorem memory_create_refines_sql_witness:
  "\<exists>res' st'. mem_create (Some (\<lambda>a v. if a = 1 \<and> v \<in> {10, 11} then Some (sample_device v) else None))
       5 8 1 11 10 1 50 [(7, sample_transfer Offered)] = (res', st') \<and>
     sim (snd (sql_create 5 8 1 11 10 1 50 (sample_db Offered))) st' \<and>
     (case fst (sql_create 5 8 1 11 10 1 50 (sample_db Offered)) of
        Inr x \<Rightarrow> res' = Inr x | Inl _ \<Rightarrow> res' = Inl ValueError)"
  by (rule memory_create_refines_sql)
     (auto simp: sim_def lookup_agrees_def active_device_def sample_defs)

end
