(* ===== verification/TransferPort.thy ===== *)
theory TransferPort
  imports TransferMem "HOL-Library.Multiset"
begin

text \<open>
  The transfer repository as its clients see it: the protocols \<open>TransferRepositoryPort\<close> of
  \<open>app/transfers.py\<close> and \<open>app/presence.py\<close>.  A port is a record of operations on some
  repository state; a call may take several clock readings.  The locale \<open>transfer_repository\<close>
  states the laws the clients rely on, and both repositories are shown to satisfy them.
\<close>

record 's transfer_port =
  tp_get_by_id :: "uuid \<Rightarrow> uuid \<Rightarrow> 's \<Rightarrow> transfer_request option"
  tp_list_for_account :: "uuid \<Rightarrow> 's \<Rightarrow> transfer_request list"
  tp_create ::
    "clock \<Rightarrow> uuid \<Rightarrow> uuid \<Rightarrow> uuid \<Rightarrow> uuid \<Rightarrow> int \<Rightarrow> instant \<Rightarrow> 's \<Rightarrow> transfer_request res \<times> 's"
  tp_accept :: "clock \<Rightarrow> uuid \<Rightarrow> uuid \<Rightarrow> uuid \<Rightarrow> 's \<Rightarrow> transfer_request option res \<times> 's"
  tp_reject :: "clock \<Rightarrow> uuid \<Rightarrow> uuid \<Rightarrow> uuid \<Rightarrow> 's \<Rightarrow> transfer_request option res \<times> 's"
  tp_cancel :: "clock \<Rightarrow> uuid \<Rightarrow> uuid \<Rightarrow> uuid \<Rightarrow> 's \<Rightarrow> transfer_request option res \<times> 's"
  tp_expire :: "clock \<Rightarrow> uuid \<Rightarrow> uuid \<Rightarrow> 's \<Rightarrow> transfer_request option res \<times> 's"
  tp_mark_negotiating :: "clock \<Rightarrow> uuid \<Rightarrow> uuid \<Rightarrow> 's \<Rightarrow> transfer_request option res \<times> 's"
  tp_mark_relay_used :: "clock \<Rightarrow> uuid \<Rightarrow> uuid \<Rightarrow> 's \<Rightarrow> transfer_request option res \<times> 's"

definition sql_port :: "db transfer_port" where
  "sql_port =
     \<lparr>tp_get_by_id = sql_get_by_id,
      tp_list_for_account = sql_list_for_account,
      tp_create = (\<lambda>clk. sql_create (clk 0)),
      tp_accept = (\<lambda>clk. sql_accept (clk 0)),
      tp_reject = (\<lambda>clk. sql_reject (clk 0)),
      tp_cancel = (\<lambda>clk. sql_cancel (clk 0)),
      tp_expire = (\<lambda>clk. sql_expire (clk 0)),
      tp_mark_negotiating = (\<lambda>clk. sql_mark_negotiating (clk 0)),
      tp_mark_relay_used = (\<lambda>clk. sql_mark_relay_used (clk 0))\<rparr>"

text \<open>The dictionary methods never raise, apart from \<open>create\<close>; \<open>clk 1\<close> onwards also serves the
  extra reading of \<open>_updated_record\<close>.\<close>

definition lift_mem ::
    "(transfer_store \<Rightarrow> transfer_request option \<times> transfer_store) \<Rightarrow>
     transfer_store \<Rightarrow> transfer_request option res \<times> transfer_store" where
  "lift_mem f st = (case f st of (out, st') \<Rightarrow> (Inr out, st'))"

definition mem_port :: "device_lookup option \<Rightarrow> transfer_store transfer_port" where
  "mem_port lookup =
     \<lparr>tp_get_by_id = mem_get_by_id,
      tp_list_for_account = mem_list_for_account,
      tp_create = (\<lambda>clk. mem_create lookup (clk 0)),
      tp_accept = (\<lambda>clk a t v. lift_mem (mem_accept lookup (clk 0) (clk 1) a t v)),
      tp_reject = (\<lambda>clk a t v. lift_mem (mem_reject lookup (clk 0) (clk 1) a t v)),
      tp_cancel = (\<lambda>clk a t v. lift_mem (mem_cancel lookup (clk 0) (clk 1) a t v)),
      tp_expire = (\<lambda>clk a t. lift_mem (mem_expire clk (clk 2) a t)),
      tp_mark_negotiating = (\<lambda>clk a t. lift_mem (mem_mark_negotiating (clk 0) (clk 1) a t)),
      tp_mark_relay_used = (\<lambda>clk a t. lift_mem (mem_mark_relay_used (clk 0) a t))\<rparr>"

section \<open>The contract\<close>

text \<open>
  \<open>rows s\<close> are the transfers of a repository state and \<open>inv\<close> its invariant.  The laws: a
  lookup returns the caller's own row, and always does when the account is visible to the repository
  (\<open>visible\<close>: not deleted); identifiers are unique; the list of an account holds only its rows, and
  all of them when the account is visible; an update keeps
  the invariant and moves rows only along the state machine, whatever it returns, and what it
  returns is a row of the caller in the status asked for, acted on by a party of the transfer; a
  creation adds the offer it returns, or raises and changes nothing; and a stale active transfer
  can always be expired.
\<close>

locale transfer_repository =
  fixes port :: "'s transfer_port" and rows :: "'s \<Rightarrow> transfer_request list" and inv :: "'s \<Rightarrow> bool"
    and visible :: "uuid \<Rightarrow> 's \<Rightarrow> bool"
  assumes get_law: "inv s \<Longrightarrow> tp_get_by_id port a t s = Some r \<Longrightarrow>
      r \<in> set (rows s) \<and> tr_user_id r = a \<and> tr_id r = t"
    and list_law: "inv s \<Longrightarrow> r \<in> set (tp_list_for_account port a s) \<Longrightarrow>
      r \<in> set (rows s) \<and> tr_user_id r = a \<and> visible a s"
    and distinct_law: "inv s \<Longrightarrow> distinct (map tr_id (rows s))"
    and get_complete: "inv s \<Longrightarrow> visible a s \<Longrightarrow> r \<in> set (rows s) \<Longrightarrow> tr_user_id r = a \<Longrightarrow>
      tp_get_by_id port a (tr_id r) s = Some r"
    and list_complete: "inv s \<Longrightarrow> visible a s \<Longrightarrow>
      mset (tp_list_for_account port a s) = mset (filter (\<lambda>r. tr_user_id r = a) (rows s))"
    and update_law: "inv s \<Longrightarrow>
      f \<in> {tp_accept port clk a t v, tp_reject port clk a t v, tp_cancel port clk a t v,
            tp_expire port clk a t, tp_mark_negotiating port clk a t, tp_mark_relay_used port clk a t} \<Longrightarrow>
      f s = (res, s') \<Longrightarrow>
      inv s' \<and> list_all2 evolves (rows s) (rows s') \<and> (\<forall>b. visible b s' = visible b s) \<and>
      (\<forall>r. res = Inr (Some r) \<longrightarrow> r \<in> set (rows s') \<and> tr_user_id r = a \<and> tr_id r = t)"
    and accept_law: "inv s \<Longrightarrow> tp_accept port clk a t v s = (Inr (Some r), s') \<Longrightarrow>
      tr_status r = Accepted \<and> tr_recipient_device_id r = v"
    and reject_law: "inv s \<Longrightarrow> tp_reject port clk a t v s = (Inr (Some r), s') \<Longrightarrow>
      tr_status r = Rejected \<and> tr_recipient_device_id r = v"
    and cancel_law: "inv s \<Longrightarrow> tp_cancel port clk a t v s = (Inr (Some r), s') \<Longrightarrow>
      tr_status r = Cancelled \<and> v \<in> {tr_sender_device_id r, tr_recipient_device_id r}"
    and expire_law: "inv s \<Longrightarrow> tp_expire port clk a t s = (Inr (Some r), s') \<Longrightarrow> tr_status r = Expired"
    and expire_live: "inv s \<Longrightarrow> tp_get_by_id port a t s = Some r \<Longrightarrow>
      tr_status r \<in> set ACTIVE_STATUSES \<Longrightarrow> \<forall>i. tr_expires_at r \<le> clk i \<Longrightarrow>
      \<exists>r' s'. tp_expire port clk a t s = (Inr (Some r'), s')"
    and create_law: "inv s \<Longrightarrow> fresh \<notin> tr_id ` set (rows s) \<Longrightarrow>
      tp_create port clk fresh a sd rd ver e s = (out, s') \<Longrightarrow>
      inv s' \<and>
      (case out of
         Inl _ \<Rightarrow> s' = s
       | Inr r \<Rightarrow> rows s' = rows s @ [r] \<and> r = new_offer (clk 0) fresh a sd rd ver e \<and> visible a s \<and>
                 (\<forall>b. visible b s' = visible b s))"

section \<open>The SQL repository satisfies it\<close>

definition sql_inv :: "db \<Rightarrow> bool" where
  "sql_inv d \<longleftrightarrow>
     distinct (map tr_id (transfer_requests d)) \<and> list_all transfer_check (transfer_requests d)"

lemma sql_get_law:
  "sql_get_by_id a t d = Some r \<Longrightarrow>
     r \<in> set (transfer_requests d) \<and> tr_user_id r = a \<and> tr_id r = t \<and> live_account d a"
  by (auto simp: sql_get_by_id_def sql_select_def dest!: first_row_SomeD)

lemma run_update_law:
  assumes "sql_inv d" and "good_update now a t d p f" and "run_update p f d = (res, d')"
  shows "sql_inv d' \<and> list_all2 evolves (transfer_requests d) (transfer_requests d') \<and>
         live_account d' = live_account d \<and>
         (\<forall>r. res = Inr (Some r) \<longrightarrow>
            r \<in> set (transfer_requests d') \<and> tr_user_id r = a \<and> tr_id r = t \<and>
            (\<exists>q. p q \<and> r = f q))"
proof (cases rule: run_update_cases [of p f d])
  case written
  have "tr_id (if p r then f r else r) = tr_id r" for r
    using good_update_owner [OF assms(2)] by simp
  then have "map tr_id (transfer_requests d') = map tr_id (transfer_requests d)"
    using written(2) assms(3) by auto
  moreover have "list_all transfer_check (transfer_requests d')"
    using written assms(1,3) by (auto simp: sql_inv_def list_all_iff)
  moreover have "list_all2 evolves (transfer_requests d) (transfer_requests d')"
    using written(2) assms(2,3) by (auto simp: list.rel_map list_all2_same good_update_evolves)
  moreover have "r \<in> set (transfer_requests d') \<and> tr_user_id r = a \<and> tr_id r = t \<and> (\<exists>q. p q \<and> r = f q)"
    if "res = Inr (Some r)" for r
  proof -
    have "first_row (map f (filter p (transfer_requests d))) = Some r"
      and d': "transfer_requests d' = map (\<lambda>r. if p r then f r else r) (transfer_requests d)"
      using that written(2) assms(3) by auto
    then obtain q where "q \<in> set (transfer_requests d)" "p q" "r = f q"
      by (auto dest!: first_row_SomeD)
    then show ?thesis
      using good_update_owner [OF assms(2), of q] by (auto simp: d' image_iff)
  qed
  moreover have "live_account d' = live_account d"
    using written(2) assms(3) by auto
  ultimately show ?thesis
    using assms(1) by (simp add: sql_inv_def)
next
  case failed
  then show ?thesis
    using assms(1,3) by (auto intro: list.rel_refl)
qed

lemma sql_run_law:
  assumes "sql_inv d" and "sql_run now a t op d = (res, d')"
  shows "sql_inv d' \<and> list_all2 evolves (transfer_requests d) (transfer_requests d') \<and>
         live_account d' = live_account d \<and>
         (\<forall>r. res = Inr (Some r) \<longrightarrow> r \<in> set (transfer_requests d') \<and> tr_user_id r = a \<and> tr_id r = t)"
proof (cases rule: sql_run_shape [of now a t op d])
  case skip
  then show ?thesis using assms by (auto intro: list.rel_refl)
next
  case (update p f)
  have "run_update p f d = (res, d')" using assms(2) update(1) by simp
  from run_update_law [OF assms(1) update(2) this] show ?thesis by blast
qed

lemma do_transition_result:
  assumes "sql_do_transition now a t froms s' u actor role c d = (Inr (Some r), d')"
  shows "\<exists>q. transition_guard now a t froms u actor role d q \<and> r = set_status now s' c q"
  using assms unfolding sql_do_transition_def
  by (cases rule: run_update_cases [of "transition_guard now a t froms u actor role d"
        "set_status now s' c" d]) (auto dest!: first_row_SomeD)

lemma sql_expire_live:
  assumes "sql_inv d" and "sql_get_by_id a t d = Some r" and "tr_status r \<in> set ACTIVE_STATUSES"
    and "tr_expires_at r \<le> now"
  shows "\<exists>r' d'. sql_expire now a t d = (Inr (Some r'), d')"
proof -
  note g = sql_get_law [OF assms(2)]
  let ?p = "transition_guard now a t ACTIVE_STATUSES False None None d"
  have p: "?p r" using g assms(3,4) by (simp add: transition_guard_def)
  have ok: "transfer_check (set_status now Expired None q)" if "transfer_check q" "?p q" for q
    using that
    by (auto simp: transfer_check_def set_status_def transition_guard_def ACTIVE_STATUSES_def
        split: option.splits)
  have "run_update ?p (set_status now Expired None) d =
          (Inr (Some (set_status now Expired None r)),
           d\<lparr>transfer_requests := map (\<lambda>q. if tr_id q = tr_id r then set_status now Expired None r else q)
               (transfer_requests d)\<rparr>)"
    using g p assms(1) ok
    by (subst run_update_unique [of d r])
       (auto simp: sql_inv_def list_all_iff dest: guard_ids)
  then show ?thesis
    by (simp add: sql_expire_def sql_do_transition_def)
qed

lemma mset_newest_first [simp]: "mset (newest_first rs) = mset rs"
  by (simp add: newest_first_def)

lemma sql_create_law:
  assumes "sql_inv d" and "sql_create now fresh a sd rd v e d = (res, d')"
  shows "sql_inv d' \<and>
    (case res of
       Inl _ \<Rightarrow> d' = d
     | Inr r \<Rightarrow> transfer_requests d' = transfer_requests d @ [r] \<and> r = new_offer now fresh a sd rd v e \<and>
        live_account d a \<and> live_account d' = live_account d)"
proof (cases rule: sql_create_cases [of now fresh a sd rd v e d])
  case stored
  have "live_account d a" using stored(4) by auto
  then show ?thesis
    using assms stored by (auto simp: sql_inv_def)
qed (use assms in auto)

lemma sql_list_complete:
  "live_account d a \<Longrightarrow>
     mset (sql_list_for_account a d) = mset (filter (\<lambda>r. tr_user_id r = a) (transfer_requests d))"
  by (auto simp: sql_list_for_account_def sql_select_def intro!: filter_mset_cong)

lemma sql_get_complete:
  assumes "sql_inv d" and "live_account d a" and "r \<in> set (transfer_requests d)" and "tr_user_id r = a"
  shows "sql_get_by_id a (tr_id r) d = Some r"
proof -
  have "filter (\<lambda>q. tr_id q = tr_id r \<and> tr_user_id q = a \<and> live_account d (tr_user_id q))
          (transfer_requests d) = filter (\<lambda>q. q = r) (transfer_requests d)"
    using assms by (intro filter_cong) (auto simp: sql_inv_def dest: distinct_key_eq)
  then show ?thesis
    using assms
    by (simp add: sql_get_by_id_def sql_select_def sql_inv_def distinct_filter_eq distinct_map conj_ac)
qed

interpretation sqlr: transfer_repository sql_port transfer_requests sql_inv "\<lambda>a d. live_account d a"
proof unfold_locales
  fix s and f :: "db \<Rightarrow> transfer_request option res \<times> db" and clk a t v res s'
  assume "sql_inv s" "f s = (res, s')"
    and "f \<in> {tp_accept sql_port clk a t v, tp_reject sql_port clk a t v, tp_cancel sql_port clk a t v,
      tp_expire sql_port clk a t, tp_mark_negotiating sql_port clk a t, tp_mark_relay_used sql_port clk a t}"
  then show "sql_inv s' \<and> list_all2 evolves (transfer_requests s) (transfer_requests s') \<and>
      (\<forall>b. live_account s' b = live_account s b) \<and>
      (\<forall>r. res = Inr (Some r) \<longrightarrow> r \<in> set (transfer_requests s') \<and> tr_user_id r = a \<and> tr_id r = t)"
    using sql_run_law [of s "clk 0" a t "OpAccept v" res s'] sql_run_law [of s "clk 0" a t "OpReject v" res s']
      sql_run_law [of s "clk 0" a t "OpCancel v" res s'] sql_run_law [of s "clk 0" a t OpExpire res s']
      sql_run_law [of s "clk 0" a t "OpTransition Accepted Negotiating" res s']
      sql_run_law [of s "clk 0" a t OpMarkRelayUsed res s']
    by (auto simp: sql_port_def sql_mark_negotiating_def)
next
  fix s a t r and clk :: clock
  assume "sql_inv s" "tp_get_by_id sql_port a t s = Some r" "tr_status r \<in> set ACTIVE_STATUSES"
    "\<forall>i. tr_expires_at r \<le> clk i"
  then show "\<exists>r' s'. tp_expire sql_port clk a t s = (Inr (Some r'), s')"
    using sql_expire_live [of s a t r "clk 0"] by (simp add: sql_port_def)
next
  fix s a
  assume "live_account s a"
  then show "mset (tp_list_for_account sql_port a s) =
      mset (filter (\<lambda>r. tr_user_id r = a) (transfer_requests s))"
    by (simp add: sql_port_def sql_list_complete del: mset_filter)
next
  fix s a r
  assume "sql_inv s" "live_account s a" "r \<in> set (transfer_requests s)" "tr_user_id r = a"
  then show "tp_get_by_id sql_port a (tr_id r) s = Some r"
    by (simp add: sql_port_def sql_get_complete)
next
  fix s fresh and clk :: clock and a sd rd ver e out s'
  assume "sql_inv s" "tp_create sql_port clk fresh a sd rd ver e s = (out, s')"
  then show "sql_inv s' \<and> (case out of Inl _ \<Rightarrow> s' = s
      | Inr r \<Rightarrow> transfer_requests s' = transfer_requests s @ [r] \<and>
          r = new_offer (clk 0) fresh a sd rd ver e \<and> live_account s a \<and>
          (\<forall>b. live_account s' b = live_account s b))"
    using sql_create_law [of s "clk 0" fresh a sd rd ver e out s']
    by (cases out) (simp_all add: sql_port_def)
qed (auto simp: sql_port_def sql_inv_def sql_list_for_account_def sql_select_def newest_first_def
      sql_accept_def sql_reject_def sql_cancel_def sql_expire_def transition_guard_def actor_ok_def
      dest!: do_transition_result dest: sql_get_law)

section \<open>The in-memory repository satisfies it\<close>

definition mem_inv :: "transfer_store \<Rightarrow> bool" where
  "mem_inv st \<longleftrightarrow> dict_ok st \<and> dict_all (\<lambda>t r. tr_id r = t) st"

text \<open>The dictionary updates: nothing, or one evolved record of the caller stored back.\<close>

definition mem_move ::
    "uuid \<Rightarrow> uuid \<Rightarrow> transfer_store \<Rightarrow> transfer_request option \<times> transfer_store \<Rightarrow> bool" where
  "mem_move a t st out \<longleftrightarrow>
     out = (None, st) \<or>
     (\<exists>r r'. dict_get st t = Some r \<and> tr_user_id r = a \<and> evolves r r' \<and>
             out = (Some r', dict_set t r' st))"

lemma evolves_updated:
  "next_status (tr_status r) s \<Longrightarrow> evolves r (updated_record wall r s c)"
  by (simp add: evolves_def next_status_active same_offer_def updated_record_def)

lemma mem_move_transition: "mem_move a t st (mem_transition now wall a t s s' st)"
  unfolding mem_transition_def mem_move_def
  by (auto simp: Let_def next_status_def intro!: evolves_updated split: option.split)

lemma mem_move_actor:
  assumes "\<And>s. s \<in> set froms \<Longrightarrow> next_status s s'"
  shows "mem_move a t st (mem_actor_transition lk now wall a t froms s' v ro c st)"
  using assms unfolding mem_actor_transition_def mem_move_def
  by (auto simp: Let_def intro!: evolves_updated split: option.split)

lemma active_next: "s \<in> set ACTIVE_STATUSES \<Longrightarrow> next_status s Cancelled \<and> next_status s Expired"
  by (auto simp: next_status_iff ACTIVE_STATUSES_def FAILABLE_STATUSES_def)

lemma mem_move_expire: "mem_move a t st (mem_expire clk wall a t st)"
proof -
  have "mem_move a t st (mem_expire_active now wall a t st)" for now
    using active_next unfolding mem_expire_active_def mem_move_def
    by (auto simp: Let_def intro!: evolves_updated split: option.split)
  moreover have "fst (mem_transition (clk 0) wall a t Offered Expired st) = None \<Longrightarrow>
      snd (mem_transition (clk 0) wall a t Offered Expired st) = st"
    using mem_move_transition [of a t st "clk 0" wall Offered Expired] by (auto simp: mem_move_def)
  ultimately show ?thesis
    using mem_move_transition [of a t st "clk 0" wall Offered Expired]
    by (auto simp: mem_expire_def split: prod.split option.split)
qed

lemma mem_move_relay: "mem_move a t st (mem_mark_relay_used now a t st)"
  unfolding mem_mark_relay_used_def mem_move_def
  by (auto simp: Let_def evolves_def same_offer_def split: option.split)

lemma values_set_evolves:
  "dict_get st t = Some r \<Longrightarrow> evolves r r' \<Longrightarrow>
     list_all2 evolves (dict_values st) (dict_values (dict_set t r' st))"
  by (induction st) (auto simp: dict_get_def dict_values_def dict_set_def list.rel_refl split: if_splits)

lemma dict_get_values: "dict_get d k = Some v \<Longrightarrow> v \<in> set (dict_values d)"
  by (force simp: dict_values_def dest: dict_get_SomeD)

lemma mem_move_law:
  assumes "mem_inv st" and "mem_move a t st (out, st')"
  shows "mem_inv st' \<and> list_all2 evolves (dict_values st) (dict_values st') \<and>
         (\<forall>r. out = Some r \<longrightarrow> r \<in> set (dict_values st') \<and> tr_user_id r = a \<and> tr_id r = t)"
proof (cases "out = None \<and> st' = st")
  case True
  then show ?thesis using assms(1) by (simp add: list.rel_refl)
next
  case False
  then obtain r r' where r: "dict_get st t = Some r" "tr_user_id r = a" "evolves r r'"
    "out = Some r'" "st' = dict_set t r' st"
    using assms(2) by (auto simp: mem_move_def)
  have "tr_id r = t" using assms(1) r(1) dict_all_get [of "\<lambda>t r. tr_id r = t"] by (auto simp: mem_inv_def)
  then have r': "tr_id r' = t" "tr_user_id r' = a"
    using evolves_same_offer [OF r(3)] r(2) by (simp_all add: same_offer_def)
  then have "mem_inv st'" using assms(1) r(5) by (simp add: mem_inv_def dict_all_set)
  moreover have "r' \<in> set (dict_values st')"
    by (rule dict_get_values [of _ t]) (simp add: r(5))
  ultimately show ?thesis
    using r r' values_set_evolves [OF r(1,3)] by simp
qed

lemma mem_actor_result:
  assumes "mem_actor_transition lk now wall a t froms s' v ro c st = (Some r, st')"
  shows "tr_status r = s'" and "ro \<Longrightarrow> tr_recipient_device_id r = v"
    and "\<not> ro \<Longrightarrow> v \<in> {tr_sender_device_id r, tr_recipient_device_id r}"
  using assms
  by (auto simp: mem_actor_transition_def updated_record_def Let_def split: option.splits if_splits)

lemma mem_get_law:
  "mem_inv st \<Longrightarrow> mem_get_by_id a t st = Some r \<Longrightarrow>
     dict_get st t = Some r \<and> tr_user_id r = a \<and> tr_id r = t"
  using dict_all_get [of "\<lambda>t r. tr_id r = t" st t]
  by (auto simp: mem_inv_def mem_get_by_id_def split: option.splits if_splits)

lemma mem_expire_result: "mem_expire clk wall a t st = (Some r, st') \<Longrightarrow> tr_status r = Expired"
  by (auto simp: mem_expire_def mem_expire_active_def mem_transition_def updated_record_def Let_def
      split: option.splits if_splits prod.splits)

lemma mem_expire_live:
  assumes "dict_get st t = Some r" and "tr_user_id r = a" and "tr_status r \<in> set ACTIVE_STATUSES"
    and "\<forall>i. tr_expires_at r \<le> clk i"
  shows "\<exists>r' st'. mem_expire clk wall a t st = (Some r', st')"
proof (cases "mem_transition (clk 0) wall a t Offered Expired st")
  case (Pair out st1)
  have "st1 = st" if "out = None"
    using mem_move_transition [of a t st "clk 0" wall Offered Expired] that Pair
    by (auto simp: mem_move_def)
  then show ?thesis
    using Pair assms by (cases out) (auto simp: mem_expire_def mem_expire_active_def Let_def not_less)
qed

lemma values_set_new: "t \<notin> fst ` set st \<Longrightarrow> dict_values (dict_set t r st) = dict_values st @ [r]"
  by (induction st) (auto simp: dict_values_def dict_set_def)

lemma mem_inv_keys: "mem_inv st \<Longrightarrow> fst ` set st = tr_id ` set (dict_values st)"
  by (auto simp: mem_inv_def dict_all_def list_all_iff dict_values_def image_iff) force+

lemma mem_get_complete:
  assumes "mem_inv st" and "r \<in> set (dict_values st)"
  shows "mem_get_by_id (tr_user_id r) (tr_id r) st = Some r"
proof -
  obtain t where t: "(t, r) \<in> set st" using assms(2) by (auto simp: dict_values_def)
  then have "tr_id r = t" using assms(1) by (auto simp: mem_inv_def dict_all_def list_all_iff)
  then have "dict_get st (tr_id r) = Some r" using t assms(1) by (simp add: mem_inv_def dict_get_iff)
  then show ?thesis by (simp add: mem_get_by_id_def)
qed

lemma mem_inv_distinct: "mem_inv st \<Longrightarrow> distinct (map tr_id (dict_values st))"
proof -
  assume i: "mem_inv st"
  then have "map tr_id (dict_values st) = map fst st"
    by (auto simp: mem_inv_def dict_values_def dict_all_def list_all_iff)
  then show ?thesis using i by (simp add: mem_inv_def dict_ok_def)
qed

lemma mem_create_law:
  assumes "mem_inv st" and "fresh \<notin> tr_id ` set (dict_values st)"
    and "mem_create lk now fresh a sd rd v e st = (res, st')"
  shows "mem_inv st' \<and>
    (case res of
       Inl _ \<Rightarrow> st' = st
     | Inr r \<Rightarrow> dict_values st' = dict_values st @ [r] \<and> r = new_offer now fresh a sd rd v e)"
proof (cases res)
  case (Inl x)
  then have "st' = st" using assms(3) by (auto simp: mem_create_def Let_def split: if_splits)
  then show ?thesis using assms(1) Inl by simp
next
  case (Inr r)
  then have r: "r = new_offer now fresh a sd rd v e" "st' = dict_set fresh r st"
    using assms(3) by (auto simp: mem_create_def new_offer_def Let_def split: if_splits)
  have "dict_values st' = dict_values st @ [r]"
    using assms(2) mem_inv_keys [OF assms(1)] r(2) by (simp add: values_set_new)
  moreover have "mem_inv st'"
    using assms(1) r by (simp add: mem_inv_def dict_all_set)
  ultimately show ?thesis
    using Inr r(1) by simp
qed

lemma lift_mem_Inr: "lift_mem f st = (res, st') \<longleftrightarrow> (\<exists>out. res = Inr out \<and> f st = (out, st'))"
  by (auto simp: lift_mem_def split: prod.split)

lemmas mem_named_defs = mem_accept_def mem_reject_def mem_cancel_def mem_mark_negotiating_def

lemma mem_port_move:
  assumes "f \<in> {tp_accept (mem_port lk) clk a t v, tp_reject (mem_port lk) clk a t v,
      tp_cancel (mem_port lk) clk a t v, tp_expire (mem_port lk) clk a t,
      tp_mark_negotiating (mem_port lk) clk a t, tp_mark_relay_used (mem_port lk) clk a t}"
    and "f st = (res, st')"
  shows "\<exists>out. res = Inr out \<and> mem_move a t st (out, st')"
proof -
  have "mem_move a t st (mem_accept lk n w a t v st)" "mem_move a t st (mem_reject lk n w a t v st)"
    "mem_move a t st (mem_cancel lk n w a t v st)" for n w
    unfolding mem_named_defs
    by (rule mem_move_actor; auto simp: next_status_iff ACTIVE_STATUSES_def FAILABLE_STATUSES_def)+
  moreover have "mem_move a t st (mem_mark_negotiating n w a t st)" for n w
    by (simp add: mem_named_defs mem_move_transition)
  ultimately show ?thesis
    using assms mem_move_expire [of a t st clk "clk 2"] mem_move_relay [of a t st "clk 0"]
    by (auto simp: mem_port_def lift_mem_Inr) metis+
qed

interpretation memr: transfer_repository "mem_port lk" dict_values mem_inv "\<lambda>_ _. True" for lk
proof unfold_locales
  fix s and f :: "transfer_store \<Rightarrow> transfer_request option res \<times> transfer_store" and clk a t v res s'
  assume "mem_inv s" "f s = (res, s')"
    and "f \<in> {tp_accept (mem_port lk) clk a t v, tp_reject (mem_port lk) clk a t v,
      tp_cancel (mem_port lk) clk a t v, tp_expire (mem_port lk) clk a t,
      tp_mark_negotiating (mem_port lk) clk a t, tp_mark_relay_used (mem_port lk) clk a t}"
  then obtain out where "res = Inr out" "mem_move a t s (out, s')"
    using mem_port_move by blast
  then show "mem_inv s' \<and> list_all2 evolves (dict_values s) (dict_values s') \<and> (\<forall>b::uuid. True = True) \<and>
      (\<forall>r. res = Inr (Some r) \<longrightarrow> r \<in> set (dict_values s') \<and> tr_user_id r = a \<and> tr_id r = t)"
    using mem_move_law [OF \<open>mem_inv s\<close>] by blast
next
  fix s a t r and clk :: clock
  assume "mem_inv s" "tp_get_by_id (mem_port lk) a t s = Some r" "tr_status r \<in> set ACTIVE_STATUSES"
    "\<forall>i. tr_expires_at r \<le> clk i"
  then show "\<exists>r' s'. tp_expire (mem_port lk) clk a t s = (Inr (Some r'), s')"
    using mem_get_law [of s a t r] mem_expire_live [of s t r a clk "clk 2"]
    by (auto simp: mem_port_def lift_mem_def)
next
  fix s fresh and clk :: clock and a sd rd ver e out s'
  assume "mem_inv s" "fresh \<notin> tr_id ` set (dict_values s)"
    "tp_create (mem_port lk) clk fresh a sd rd ver e s = (out, s')"
  then show "mem_inv s' \<and> (case out of Inl _ \<Rightarrow> s' = s
      | Inr r \<Rightarrow> dict_values s' = dict_values s @ [r] \<and>
          r = new_offer (clk 0) fresh a sd rd ver e \<and> True \<and> (\<forall>b::uuid. True = True))"
    using mem_create_law [of s fresh lk "clk 0" a sd rd ver e out s']
    by (cases out) (simp_all add: mem_port_def)
qed (auto simp: mem_port_def mem_list_for_account_def newest_first_def lift_mem_Inr mem_named_defs
      mem_inv_distinct mem_get_complete
      dest: mem_get_law mem_actor_result mem_expire_result dict_get_values)

end
