(* ===== verification/Signaling.thy ===== *)
theory Signaling
  imports PyText Models
begin

text \<open>
  The message validators of \<open>app/presence.py\<close>: canonical identifiers, message expiry, payload
  sizes, and \<open>_parse_signaling_message\<close>, translated check by check in the order of the code, with
  the exceptions the Python operations can raise.  A message is the dictionary \<open>json.loads\<close>
  produced for one socket frame.
\<close>

type_synonym message = "(pystr, json) dict"

section \<open>Limits and message types\<close>

definition MAX_WEBSOCKET_MESSAGE_BYTES :: nat where "MAX_WEBSOCKET_MESSAGE_BYTES = 16 * 1024"
definition MAX_SIGNALING_SDP_BYTES :: nat where "MAX_SIGNALING_SDP_BYTES = 12 * 1024"
definition MAX_SIGNALING_ICE_CANDIDATE_BYTES :: nat where "MAX_SIGNALING_ICE_CANDIDATE_BYTES = 2048"
definition MAX_SIGNALING_HANDSHAKE_BYTES :: nat where "MAX_SIGNALING_HANDSHAKE_BYTES = 8 * 1024"
definition MAX_WEBSOCKET_QUEUE_BYTES :: nat where "MAX_WEBSOCKET_QUEUE_BYTES = 256 * 1024"

definition SINGLE_USE_MESSAGE_TYPES :: "pystr list" where
  "SINGLE_USE_MESSAGE_TYPES =
     [lit ''sdp_offer'', lit ''sdp_answer'', lit ''handshake_offer'', lit ''handshake_answer'']"

definition SIGNALING_MESSAGE_TYPES :: "pystr list" where
  "SIGNALING_MESSAGE_TYPES =
     [lit ''sdp_offer'', lit ''sdp_answer'', lit ''ice_candidate'',
      lit ''handshake_offer'', lit ''handshake_answer'']"

definition SIGNALING_ACTIVE_STATUSES :: "transfer_status list" where
  "SIGNALING_ACTIVE_STATUSES = [Offered, Accepted, Negotiating, Connected, Transferring]"

section \<open>Helpers\<close>

text \<open>\<open>message.get(key)\<close>: a missing member and an explicit null are both \<open>None\<close>.\<close>

definition mget :: "message \<Rightarrow> string \<Rightarrow> json" where
  "mget m k = (case dict_get m (lit k) of None \<Rightarrow> JNull | Some v \<Rightarrow> v)"

definition keys_are :: "message \<Rightarrow> string list \<Rightarrow> bool" where
  "keys_are m ks \<longleftrightarrow> set (map fst m) = set (map lit ks)"

definition canonical_uuid :: "json \<Rightarrow> uuid option" where
  "canonical_uuid value =
     (case value of
        JStr s \<Rightarrow>
          (case uuid_parse s of
             None \<Rightarrow> None
           | Some parsed \<Rightarrow> if uuid_str parsed = s then Some parsed else None)
      | _ \<Rightarrow> None)"

definition message_expiry :: "json \<Rightarrow> instant \<Rightarrow> instant option" where
  "message_expiry value now =
     (case value of
        JInt v \<Rightarrow>
          if v < 0 then None
          else (case fromtimestamp_ms v of
                  None \<Rightarrow> None
                | Some expires_at \<Rightarrow> if now < expires_at then Some expires_at else None)
      | _ \<Rightarrow> None)"

definition active_transfer :: "transfer_request \<Rightarrow> instant \<Rightarrow> bool" where
  "active_transfer r now \<longleftrightarrow> tr_status r \<in> set SIGNALING_ACTIVE_STATUSES \<and> now < tr_expires_at r"

text \<open>\<open>_payload_bytes\<close>: the text is ASCII, so its UTF-8 size is its length.\<close>

definition payload_bytes :: "message \<Rightarrow> nat" where
  "payload_bytes payload =
     (case utf8_len (json_dumps True (JObj payload)) of
        Inl _ \<Rightarrow> MAX_WEBSOCKET_QUEUE_BYTES + 1 | Inr n \<Rightarrow> n)"

definition json_object_no_duplicates :: "(pystr \<times> json) list \<Rightarrow> (pystr, json) dict res" where
  "json_object_no_duplicates pairs =
     foldl (\<lambda>acc (k, v). bind_res acc (\<lambda>result.
              if k \<in> fst ` set result then Inl ValueError else Inr (dict_set k v result)))
       (Inr []) pairs"

section \<open>The envelope\<close>

definition ENVELOPE :: "string list" where
  "ENVELOPE =
     [''type'', ''v'', ''transfer_id'', ''sender_device_id'', ''recipient_device_id'', ''expires_at'']"

text \<open>\<open>isinstance(value, str) and value and len(value.encode("utf-8")) <= limit\<close>, raising where
  the code would.\<close>

definition bounded_text :: "json \<Rightarrow> nat \<Rightarrow> bool res" where
  "bounded_text v limit =
     (case v of
        JStr s \<Rightarrow> if s = [] then Inr False else bind_res (utf8_len s) (\<lambda>n. Inr (n \<le> limit))
      | _ \<Rightarrow> Inr False)"

text \<open>The optional text members of an ICE candidate.\<close>

definition optional_text :: "json \<Rightarrow> nat \<Rightarrow> bool res" where
  "optional_text v limit =
     (case v of
        JNull \<Rightarrow> Inr True
      | JStr s \<Rightarrow> bind_res (utf8_len s) (\<lambda>n. Inr (n \<le> limit))
      | _ \<Rightarrow> Inr False)"

definition parse_sdp :: "message \<Rightarrow> bool res" where
  "parse_sdp m =
     (if \<not> keys_are m (ENVELOPE @ [''sdp'']) then Inr False
      else bounded_text (mget m ''sdp'') MAX_SIGNALING_SDP_BYTES)"

definition parse_handshake :: "message \<Rightarrow> pystr \<Rightarrow> uuid \<Rightarrow> uuid \<Rightarrow> uuid \<Rightarrow> bool res" where
  "parse_handshake m message_type transfer_id sender_device_id recipient_device_id =
     (if \<not> keys_are m (ENVELOPE @ [''handshake'']) then Inr False
      else case mget m ''handshake'' of
             JObj handshake \<Rightarrow>
               if \<not> keys_are handshake [''core'', ''signature''] then Inr False
               else bind_res (bounded_text (mget handshake ''signature'') 256) (\<lambda>ok.
                 if \<not> ok then Inr False
                 else case mget handshake ''core'' of
                        JObj core \<Rightarrow>
                          if core = [] then Inr False
                          else bind_res (utf8_len (json_dumps False (JObj handshake))) (\<lambda>size.
                            if size > MAX_SIGNALING_HANDSHAKE_BYTES then Inr False
                            else Inr (eq_str (mget core ''type'') message_type \<and>
                                      eq_int (mget core ''v'') 1 \<and>
                                      eq_str (mget core ''transfer_id'') (uuid_str transfer_id) \<and>
                                      eq_str (mget core ''sender_device_id'') (uuid_str sender_device_id) \<and>
                                      eq_str (mget core ''recipient_device_id'')
                                        (uuid_str recipient_device_id)))
                      | _ \<Rightarrow> Inr False)
           | _ \<Rightarrow> Inr False)"

definition parse_ice :: "message \<Rightarrow> bool res" where
  "parse_ice m =
     (if \<not> set (map fst m) \<subseteq>
           set (map lit (ENVELOPE @ [''candidate'', ''sdp_mid'', ''sdp_mline_index'', ''username_fragment'']))
         \<or> lit ''candidate'' \<notin> set (map fst m)
      then Inr False
      else bind_res (bounded_text (mget m ''candidate'') MAX_SIGNALING_ICE_CANDIDATE_BYTES) (\<lambda>ok.
        if \<not> ok then Inr False
        else bind_res (optional_text (mget m ''sdp_mid'') 128) (\<lambda>ok.
          if \<not> ok then Inr False
          else bind_res (optional_text (mget m ''username_fragment'') 128) (\<lambda>ok.
            if \<not> ok then Inr False
            else case mget m ''sdp_mline_index'' of
                   JNull \<Rightarrow> Inr True
                 | JInt n \<Rightarrow> Inr (0 \<le> n \<and> n \<le> 65535)
                 | _ \<Rightarrow> Inr False))))"

text \<open>The three branches on the message type.\<close>

definition payload_ok :: "message \<Rightarrow> pystr \<Rightarrow> uuid \<Rightarrow> uuid \<Rightarrow> uuid \<Rightarrow> bool res" where
  "payload_ok m ty t s r =
     (if ty \<in> {lit ''sdp_offer'', lit ''sdp_answer''} then parse_sdp m
      else if ty \<in> {lit ''handshake_offer'', lit ''handshake_answer''} then parse_handshake m ty t s r
      else parse_ice m)"

definition parse_signaling_message ::
    "message \<Rightarrow> instant \<Rightarrow> (uuid \<times> uuid \<times> uuid \<times> pystr) option res" where
  "parse_signaling_message m now =
     bind_res (in_frozenset (mget m ''type'') SIGNALING_MESSAGE_TYPES) (\<lambda>known.
     if \<not> known then Inr None
     else if (case mget m ''v'' of JBool _ \<Rightarrow> True | v \<Rightarrow> \<not> eq_int v 1) then Inr None
     else case (mget m ''type'', canonical_uuid (mget m ''transfer_id''),
                canonical_uuid (mget m ''sender_device_id''),
                canonical_uuid (mget m ''recipient_device_id'')) of
            (JStr message_type, Some transfer_id, Some sender_device_id, Some recipient_device_id) \<Rightarrow>
              if sender_device_id = recipient_device_id then Inr None
              else if message_expiry (mget m ''expires_at'') now = None then Inr None
              else bind_res
                     (payload_ok m message_type transfer_id sender_device_id recipient_device_id)
                     (\<lambda>ok. Inr (if ok
                                 then Some (transfer_id, sender_device_id, recipient_device_id, message_type)
                                 else None))
          | _ \<Rightarrow> Inr None)"

section \<open>What the validators accept\<close>

lemma canonical_uuid_iff:
  "canonical_uuid (JStr s) = Some u \<longleftrightarrow> u < 2 ^ 128 \<and> s = uuid_str u"
  using uuid_parse_str [of u] uuid_parse_bound [of s u]
  by (auto simp: canonical_uuid_def split: option.splits if_splits)

text \<open>
  \<open>_canonical_uuid\<close> accepts exactly the texts \<open>str\<close> prints: parsing is the inverse of
  printing on all 128-bit identifiers, so two different texts never name the same transfer or
  device.
\<close>

theorem canonical_uuid_roundtrip:
  "canonical_uuid (JStr s) = Some u \<longleftrightarrow> u < 2 ^ 128 \<and> s = uuid_str u"
  by (rule canonical_uuid_iff)

lemma json_object_no_duplicates_aux:
  "foldl (\<lambda>acc (k, v). bind_res acc (\<lambda>result.
            if k \<in> fst ` set result then Inl ValueError else Inr (dict_set k v result)))
     (Inr (d :: (pystr \<times> json) list)) ps =
   (if distinct (map fst ps) \<and> fst ` set d \<inter> fst ` set ps = {} then Inr (d @ ps) else Inl ValueError)"
proof (induction ps arbitrary: d)
  case (Cons p ps)
  obtain k v where p: "p = (k, v)" by fastforce
  have err: "foldl (\<lambda>acc (k, v). bind_res acc (\<lambda>result.
       if k \<in> fst ` set result then Inl ValueError else Inr (dict_set k v result)))
     (Inl ValueError) ps = Inl ValueError" for ps :: "(pystr \<times> json) list"
    by (induction ps) auto
  have new: "dict_set k v d = d @ [(k, v)]" if "k \<notin> fst ` set d"
    using that by (induction d) (auto simp: dict_set_def)
  show ?case
    by (auto simp: p Cons.IH err new)
qed simp

text \<open>
  The hook for JSON objects accepts an object exactly when no member name is repeated, and
  then keeps the members as they came, in order; otherwise it raises \<open>ValueError\<close>.
\<close>

theorem json_object_no_duplicates_exact:
  "json_object_no_duplicates ps =
     (if distinct (map fst ps) then Inr ps else Inl ValueError)"
  by (simp add: json_object_no_duplicates_def json_object_no_duplicates_aux)

lemma canonical_uuid_json:
  "canonical_uuid v = Some u \<longleftrightarrow> u < 2 ^ 128 \<and> v = JStr (uuid_str u)"
  by (cases v) (use canonical_uuid_iff in \<open>auto simp: canonical_uuid_def\<close>)

text \<open>What the validation demands of the payload of each type of message.\<close>

definition short_text :: "json \<Rightarrow> nat \<Rightarrow> bool" where
  "short_text v limit \<longleftrightarrow> (\<exists>x n. v = JStr x \<and> utf8_len x = Inr n \<and> n \<le> limit)"

definition filled_text :: "json \<Rightarrow> nat \<Rightarrow> bool" where
  "filled_text v limit \<longleftrightarrow> short_text v limit \<and> v \<noteq> JStr []"

lemma filled_text_iff: "bounded_text v limit = Inr True \<longleftrightarrow> filled_text v limit"
  by (auto simp: bounded_text_def filled_text_def short_text_def bind_res_Inr split: json.splits)

lemma optional_text_iff: "optional_text v limit = Inr True \<longleftrightarrow> v = JNull \<or> short_text v limit"
  by (auto simp: optional_text_def short_text_def bind_res_Inr split: json.splits)

lemma parse_handshake_iff:
  "parse_handshake m ty t s r = Inr True \<longleftrightarrow>
     keys_are m (ENVELOPE @ [''handshake'']) \<and>
     (\<exists>h core n. mget m ''handshake'' = JObj h \<and> keys_are h [''core'', ''signature''] \<and>
        filled_text (mget h ''signature'') 256 \<and> mget h ''core'' = JObj core \<and>
        utf8_len (json_dumps False (JObj h)) = Inr n \<and> n \<le> MAX_SIGNALING_HANDSHAKE_BYTES \<and>
        mget core ''type'' = JStr ty \<and> eq_int (mget core ''v'') 1 \<and> mget core ''transfer_id'' = JStr (uuid_str t) \<and>
        mget core ''sender_device_id'' = JStr (uuid_str s) \<and> mget core ''recipient_device_id'' = JStr (uuid_str r))"
proof -
  have "mget [] k = JNull" for k by (simp add: mget_def dict_get_def)
  then show ?thesis
    unfolding parse_handshake_def eq_str_def
    by (auto simp: bind_res_Inr not_less filled_text_iff [symmetric] split: if_splits json.splits)
qed

lemma parse_ice_iff:
  "parse_ice m = Inr True \<longleftrightarrow>
     set (map fst m) \<subseteq> set (map lit (ENVELOPE @ [''candidate'', ''sdp_mid'', ''sdp_mline_index'', ''username_fragment''])) \<and>
     filled_text (mget m ''candidate'') MAX_SIGNALING_ICE_CANDIDATE_BYTES \<and>
     (mget m ''sdp_mid'' = JNull \<or> short_text (mget m ''sdp_mid'') 128) \<and>
     (mget m ''username_fragment'' = JNull \<or> short_text (mget m ''username_fragment'') 128) \<and>
     (mget m ''sdp_mline_index'' = JNull \<or> (\<exists>n. mget m ''sdp_mline_index'' = JInt n \<and> 0 \<le> n \<and> n \<le> 65535))"
proof -
  have "lit ''candidate'' \<in> set (map fst m)" if "filled_text (mget m ''candidate'') n" for n
    using that by (auto simp: filled_text_def short_text_def mget_def dict_get_def split: option.splits dest!: map_of_SomeD intro: rev_image_eqI)
  then show ?thesis
    unfolding parse_ice_def
    by (auto simp: bind_res_Inr filled_text_iff optional_text_iff [symmetric] split: if_splits json.splits)
qed

lemma parse_sdp_iff:
  "parse_sdp m = Inr True \<longleftrightarrow> keys_are m (ENVELOPE @ [''sdp'']) \<and> filled_text (mget m ''sdp'') MAX_SIGNALING_SDP_BYTES"
  by (simp add: parse_sdp_def filled_text_iff)

lemma parse_signaling_iff:
  "parse_signaling_message m now = Inr (Some (t, s, r, ty)) \<longleftrightarrow>
     mget m ''type'' = JStr ty \<and> ty \<in> set SIGNALING_MESSAGE_TYPES \<and>
     (\<forall>b. mget m ''v'' \<noteq> JBool b) \<and> eq_int (mget m ''v'') 1 \<and>
     canonical_uuid (mget m ''transfer_id'') = Some t \<and> canonical_uuid (mget m ''sender_device_id'') = Some s \<and>
     canonical_uuid (mget m ''recipient_device_id'') = Some r \<and>
     s \<noteq> r \<and> message_expiry (mget m ''expires_at'') now \<noteq> None \<and> payload_ok m ty t s r = Inr True"
  unfolding parse_signaling_message_def
  by (auto simp: bind_res_Inr split: if_splits json.splits option.splits)

lemma message_expiry_iff: "message_expiry v now \<noteq> None \<longleftrightarrow> (\<exists>n e. v = JInt n \<and> 0 \<le> n \<and> fromtimestamp_ms n = Some e \<and> now < e)"
  by (auto simp: message_expiry_def split: json.splits option.splits if_splits)

lemma parse_signaling_Some:
  "parse_signaling_message m now = Inr (Some (t, s, r, ty)) \<Longrightarrow> s \<noteq> r"
  by (simp add: parse_signaling_iff)

text \<open>
  C19.  Validation accepts exactly the well-formed signaling messages.  A message is accepted as one of
  type \<open>ty\<close> about transfer \<open>t\<close> from device \<open>s\<close> to device \<open>r\<close> if and only if it has that type and
  version 1, its identifiers are the canonical texts of \<open>t\<close> and of two different devices, it
  has an expiry in the future, it has no member outside its type's list, and its payload is right: 1 to
  12288 bytes of SDP; a handshake of at most 8192 bytes with exactly a core and a signature of 1 to 256
  bytes, whose core repeats the type, the version and the three identifiers; or an ICE candidate of 1 to 2048
  bytes, with a media identifier and a user fragment of at most 128 bytes and a line index of at
  most 65535, where they are given.
\<close>

theorem signaling_message_sound:
  "parse_signaling_message m now = Inr (Some (t, s, r, ty)) \<longleftrightarrow>
    mget m ''type'' = JStr ty \<and> (\<forall>b. mget m ''v'' \<noteq> JBool b) \<and> eq_int (mget m ''v'') 1 \<and>
    mget m ''transfer_id'' = JStr (uuid_str t) \<and> mget m ''sender_device_id'' = JStr (uuid_str s) \<and>
    mget m ''recipient_device_id'' = JStr (uuid_str r) \<and> t < 2 ^ 128 \<and> s < 2 ^ 128 \<and> r < 2 ^ 128 \<and> s \<noteq> r \<and>
    (\<exists>n e. mget m ''expires_at'' = JInt n \<and> 0 \<le> n \<and> fromtimestamp_ms n = Some e \<and> now < e) \<and>
    (ty \<in> {lit ''sdp_offer'', lit ''sdp_answer''} \<and> keys_are m (ENVELOPE @ [''sdp'']) \<and>
       filled_text (mget m ''sdp'') 12288 \<or>
     ty \<in> {lit ''handshake_offer'', lit ''handshake_answer''} \<and>
       keys_are m (ENVELOPE @ [''handshake'']) \<and>
       (\<exists>h core n. mget m ''handshake'' = JObj h \<and> keys_are h [''core'', ''signature''] \<and>
          filled_text (mget h ''signature'') 256 \<and> mget h ''core'' = JObj core \<and>
          utf8_len (json_dumps False (JObj h)) = Inr n \<and> n \<le> 8192 \<and>
          mget core ''type'' = JStr ty \<and> eq_int (mget core ''v'') 1 \<and> mget core ''transfer_id'' = JStr (uuid_str t) \<and>
          mget core ''sender_device_id'' = JStr (uuid_str s) \<and>
          mget core ''recipient_device_id'' = JStr (uuid_str r)) \<or>
     ty = lit ''ice_candidate'' \<and>
       set (map fst m) \<subseteq> set (map lit (ENVELOPE @
         [''candidate'', ''sdp_mid'', ''sdp_mline_index'', ''username_fragment''])) \<and>
       filled_text (mget m ''candidate'') 2048 \<and>
       (mget m ''sdp_mid'' = JNull \<or> short_text (mget m ''sdp_mid'') 128) \<and>
       (mget m ''username_fragment'' = JNull \<or> short_text (mget m ''username_fragment'') 128) \<and>
       (mget m ''sdp_mline_index'' = JNull \<or> (\<exists>n. mget m ''sdp_mline_index'' = JInt n \<and> 0 \<le> n \<and> n \<le> 65535)))"
proof -
  have types: "lit ''ice_candidate'' \<notin> {lit ''sdp_offer'', lit ''sdp_answer'', lit ''handshake_offer'', lit ''handshake_answer''}"
    "lit ''handshake_offer'' \<notin> {lit ''sdp_offer'', lit ''sdp_answer''}" "lit ''handshake_answer'' \<notin> {lit ''sdp_offer'', lit ''sdp_answer''}"
    by code_simp+
  have payload: "ty \<in> set SIGNALING_MESSAGE_TYPES \<and> payload_ok m ty t s r = Inr True \<longleftrightarrow>
      ty \<in> {lit ''sdp_offer'', lit ''sdp_answer''} \<and> parse_sdp m = Inr True \<or>
      ty \<in> {lit ''handshake_offer'', lit ''handshake_answer''} \<and> parse_handshake m ty t s r = Inr True \<or>
      ty = lit ''ice_candidate'' \<and> parse_ice m = Inr True"
    using types by (auto simp: payload_ok_def SIGNALING_MESSAGE_TYPES_def)
  have "parse_signaling_message m now = Inr (Some (t, s, r, ty)) \<longleftrightarrow>
     mget m ''type'' = JStr ty \<and> (\<forall>b. mget m ''v'' \<noteq> JBool b) \<and> eq_int (mget m ''v'') 1 \<and>
     mget m ''transfer_id'' = JStr (uuid_str t) \<and> mget m ''sender_device_id'' = JStr (uuid_str s) \<and>
     mget m ''recipient_device_id'' = JStr (uuid_str r) \<and> t < 2 ^ 128 \<and> s < 2 ^ 128 \<and> r < 2 ^ 128 \<and> s \<noteq> r \<and>
     message_expiry (mget m ''expires_at'') now \<noteq> None \<and>
     (ty \<in> set SIGNALING_MESSAGE_TYPES \<and> payload_ok m ty t s r = Inr True)"
    unfolding parse_signaling_iff canonical_uuid_json by blast
  moreover have "MAX_SIGNALING_SDP_BYTES = 12288" "MAX_SIGNALING_HANDSHAKE_BYTES = 8192" "MAX_SIGNALING_ICE_CANDIDATE_BYTES = 2048"
    by (simp_all add: MAX_SIGNALING_SDP_BYTES_def MAX_SIGNALING_HANDSHAKE_BYTES_def MAX_SIGNALING_ICE_CANDIDATE_BYTES_def)
  ultimately show ?thesis
    unfolding payload parse_sdp_iff parse_handshake_iff parse_ice_iff message_expiry_iff by simp
qed

text \<open>A sample candidate message, from device 10 to device 11 about transfer 7.\<close>

definition sample_ice :: message where
  "sample_ice =
     [(lit ''type'', JStr (lit ''ice_candidate'')), (lit ''v'', JInt 1),
      (lit ''transfer_id'', JStr (uuid_str 7)), (lit ''sender_device_id'', JStr (uuid_str 10)),
      (lit ''recipient_device_id'', JStr (uuid_str 11)), (lit ''expires_at'', JInt 1000),
      (lit ''candidate'', JStr (lit ''c''))]"

lemma fromtimestamp_1000: "fromtimestamp_ms 1000 = Some 1000000"
  by code_simp

lemma parse_sample_ice:
  "parse_signaling_message sample_ice 0 = Inr (Some (7, 10, 11, lit ''ice_candidate''))"
proof -
  have "canonical_uuid (JStr (uuid_str 7)) = Some 7" "canonical_uuid (JStr (uuid_str 10)) = Some 10"
    "canonical_uuid (JStr (uuid_str 11)) = Some 11"
    by (simp_all add: canonical_uuid_iff)
  then show ?thesis
    by (simp add: parse_signaling_message_def sample_ice_def mget_def dict_get_def lit_def
        SIGNALING_MESSAGE_TYPES_def message_expiry_def fromtimestamp_1000 payload_ok_def parse_ice_def ENVELOPE_def
        bounded_text_def utf8_len_def surrogate_def utf8_width_def
        MAX_SIGNALING_ICE_CANDIDATE_BYTES_def optional_text_def)
qed

theorem signaling_message_sound_witness:
  "parse_signaling_message sample_ice 0 = Inr (Some (7, 10, 11, lit ''ice_candidate'')) \<and>
   mget sample_ice ''transfer_id'' = JStr (uuid_str 7) \<and> filled_text (mget sample_ice ''candidate'') 2048"
proof -
  have "lit ''ice_candidate'' \<notin> {lit ''sdp_offer'', lit ''sdp_answer'', lit ''handshake_offer'', lit ''handshake_answer''}" by code_simp
  then show ?thesis
    using signaling_message_sound [of sample_ice 0 7 10 11 "lit ''ice_candidate''"] parse_sample_ice by blast
qed

section \<open>What the validators raise\<close>

lemma clean_members_get: "clean_members m \<Longrightarrow> clean_json (mget m k)"
  by (induction m) (auto simp: mget_def dict_get_def split: option.splits)

lemma clean_utf8: "clean_json (JStr s) \<Longrightarrow> \<exists>n. utf8_len s = Inr n"
  by (simp add: utf8_len_def)

lemma bounded_text_total: "clean_json v \<Longrightarrow> \<exists>b. bounded_text v n = Inr b"
  using clean_utf8 by (cases v) (fastforce simp: bounded_text_def)+

lemma optional_text_total: "clean_json v \<Longrightarrow> \<exists>b. optional_text v n = Inr b"
  using clean_utf8 by (cases v) (fastforce simp: optional_text_def)+

lemma bind_res_total:
  "\<exists>x. a = Inr x \<Longrightarrow> (\<And>x. \<exists>y. k x = Inr y) \<Longrightarrow> \<exists>y. bind_res a k = Inr y"
  by auto

lemma Inr_total: "\<exists>y. Inr x = Inr y"
  by simp

lemma if_total: "\<exists>y. a = Inr y \<Longrightarrow> \<exists>y. b = Inr y \<Longrightarrow> \<exists>y. (if c then a else b) = Inr y"
  by simp

lemma object_total:
  "(\<And>x. \<exists>y. f x = Inr y) \<Longrightarrow> \<exists>y. (case v of JObj x \<Rightarrow> f x | _ \<Rightarrow> Inr z) = Inr y"
  by (cases v) simp_all

lemma parse_sdp_total: "clean_members m \<Longrightarrow> \<exists>b. parse_sdp m = Inr b"
  using bounded_text_total [OF clean_members_get, of m "''sdp''" MAX_SIGNALING_SDP_BYTES]
  by (simp only: parse_sdp_def) (intro if_total Inr_total; simp)

lemma parse_ice_total:
  assumes "clean_members m"
  shows "\<exists>b. parse_ice m = Inr b"
proof -
  note get = clean_members_get [OF assms]
  have line: "\<exists>b. (case mget m ''sdp_mline_index'' of JNull \<Rightarrow> Inr True
                 | JInt n \<Rightarrow> Inr (0 \<le> n \<and> n \<le> 65535) | _ \<Rightarrow> Inr False) = (Inr b :: bool res)"
    by (cases "mget m ''sdp_mline_index''") auto
  show ?thesis
    unfolding parse_ice_def
    by (intro if_total bind_res_total bounded_text_total optional_text_total get line Inr_total)
qed

lemma parse_handshake_total:
  assumes "clean_members m"
  shows "\<exists>b. parse_handshake m ty t s r = Inr b"
proof (cases "mget m ''handshake''")
  case (JObj h)
  then have c: "clean_members h" using clean_members_get [OF assms, of "''handshake''"] by simp
  then have n: "\<exists>n. utf8_len (json_dumps False (JObj h)) = Inr n"
    using surrogate_free_dumps(1) [of "JObj h"] by (simp add: utf8_len_def)
  show ?thesis
    unfolding parse_handshake_def JObj json.case
    by (intro if_total bind_res_total bounded_text_total clean_members_get c n Inr_total object_total)
qed (auto simp: parse_handshake_def)

lemma payload_ok_total: "clean_members m \<Longrightarrow> \<exists>b. payload_ok m ty t s r = Inr b"
  by (simp add: payload_ok_def parse_sdp_total parse_ice_total parse_handshake_total)

text \<open>
  Validation of a message whose texts hold no lone surrogate and whose \<open>type\<close> member is not an
  array or an object always returns a verdict; only those two kinds of message make it raise, an
  array or object \<open>type\<close> with certainty.
\<close>

theorem signaling_validation_total:
  "(clean_members m \<and> (\<forall>xs. mget m ''type'' \<noteq> JArr xs) \<and> (\<forall>ms. mget m ''type'' \<noteq> JObj ms) \<longrightarrow>
      (\<exists>verdict. parse_signaling_message m now = Inr verdict)) \<and>
   ((\<exists>xs. mget m ''type'' = JArr xs) \<or> (\<exists>ms. mget m ''type'' = JObj ms) \<longrightarrow>
      parse_signaling_message m now = Inl TypeError)"
proof (cases "mget m ''type''")
  case (JStr ty)
  then show ?thesis
    using payload_ok_total [of m ty]
    by (auto simp: parse_signaling_message_def intro!: bind_res_total
        split: json.split option.split)
qed (simp_all add: parse_signaling_message_def)

theorem signaling_validation_total_witness:
  "\<exists>verdict. parse_signaling_message [(lit ''type'', JStr (lit ''sdp_offer''))] 0 = Inr verdict"
  using signaling_validation_total [of "[(lit ''type'', JStr (lit ''sdp_offer''))]" 0]
  by (simp add: mget_def dict_get_def lit_def surrogate_def)

end
