(* ===== verification/Metrics.thy ===== *)
theory Metrics
  imports Prelude
begin

text \<open>
  \<open>RuntimeMetrics\<close> of \<open>app/metrics.py\<close>: process-local counters under a lock.  Each method holds
  the lock for its whole body, so it is one atomic function on the dictionary.
\<close>

type_synonym metrics = "(pystr, int) dict"

definition metrics_value :: "pystr \<Rightarrow> metrics \<Rightarrow> int" where
  "metrics_value name m = (case dict_get m name of None \<Rightarrow> 0 | Some v \<Rightarrow> v)"

definition metrics_increment :: "pystr \<Rightarrow> int \<Rightarrow> metrics \<Rightarrow> unit res \<times> metrics" where
  "metrics_increment name amount m =
     (if name = [] \<or> amount < 0 then (Inl ValueError, m)
      else (Inr (), dict_set name (metrics_value name m + amount) m))"

definition metrics_snapshot :: "metrics \<Rightarrow> metrics" where
  "metrics_snapshot m = m"

text \<open>\<open>increment(name)\<close> with a literal name, as every caller writes it.\<close>

definition count :: "string \<Rightarrow> metrics \<Rightarrow> metrics" where
  "count name m = snd (metrics_increment (lit name) 1 m)"

text \<open>Counters never decrease, and one increment changes one counter by its amount.\<close>

lemma metrics_value_increment:
  "n \<noteq> [] \<Longrightarrow> 0 \<le> k \<Longrightarrow>
     metrics_value x (snd (metrics_increment n k m)) =
       metrics_value x m + (if x = n then k else 0)"
  by (simp add: metrics_increment_def metrics_value_def)

lemma metrics_value_count:
  "name \<noteq> '''' \<Longrightarrow>
     metrics_value x (count name m) = metrics_value x m + (if x = lit name then 1 else 0)"
  by (simp add: count_def metrics_value_increment lit_def)

lemma metrics_ok_increment: "dict_ok m \<Longrightarrow> dict_ok (snd (metrics_increment n k m))"
  by (simp add: metrics_increment_def)

end
