(* ===== verification/Presence.thy ===== *)
theory Presence
  imports TransferPort Signaling Metrics "HOL-Library.List_Lexorder"
begin

text \<open>
  \<open>PresenceManager\<close> and the socket loop of \<open>app/presence.py\<close>.  Every \<open>async with self._lock\<close>
  block of the class is free of suspension points, so the lock is never held across one and each
  block is an atomic function on the manager's state; the methods are compositions of those
  functions, with the repository calls between them.  What leaves the process is recorded in
  \<open>pm_wire\<close>.  A queue that is popped from \<open>_outbound\<close> is stopped at once: it is emptied and its
  writer task cancelled, so it is not part of the state any more.
\<close>

section \<open>State\<close>

record active_connection =
  co_id :: uuid
  co_account_id :: uuid
  co_device_id :: uuid
  co_session_id :: uuid
  co_websocket :: nat
  co_connected_at :: instant
  co_last_heartbeat_at :: instant

record outbound_queue =
  oq_queue :: "message list"
  oq_running :: bool
  oq_failed :: bool
  oq_queued_bytes :: int
  oq_in_flight :: int

record signaling_usage =
  su_account_id :: uuid
  su_updated_at :: instant
  su_total :: int
  su_counts :: "(uuid \<times> pystr, int) dict"

datatype wire_event = WsClose nat nat | WsSend nat message

record manager =
  pm_heartbeat_timeout :: int
  pm_connections :: "(uuid, (uuid, active_connection) dict) dict"
  pm_outbound :: "(uuid, outbound_queue) dict"
  pm_signaling :: "(uuid, signaling_usage) dict"
  pm_signaling_account_totals :: "(uuid, int) dict"
  pm_metrics :: metrics
  pm_wire :: "wire_event list"

definition PRESENCE_HEARTBEAT_TIMEOUT :: int where "PRESENCE_HEARTBEAT_TIMEOUT = seconds 45"
definition MAX_CONNECTIONS_PER_ACCOUNT :: nat where "MAX_CONNECTIONS_PER_ACCOUNT = 8"
definition MAX_TOTAL_CONNECTIONS :: nat where "MAX_TOTAL_CONNECTIONS = 512"
definition MAX_WEBSOCKET_QUEUE_MESSAGES :: nat where "MAX_WEBSOCKET_QUEUE_MESSAGES = 32"
definition MAX_SIGNALING_ICE_CANDIDATES :: int where "MAX_SIGNALING_ICE_CANDIDATES = 64"
definition MAX_SIGNALING_MESSAGES :: int where "MAX_SIGNALING_MESSAGES = 128"
definition MAX_SIGNALING_MESSAGES_PER_ACCOUNT :: int where "MAX_SIGNALING_MESSAGES_PER_ACCOUNT = 512"
definition MAX_SOCKET_MESSAGES :: nat where "MAX_SOCKET_MESSAGES = 4096"
definition SIGNALING_STATE_RETENTION :: int where "SIGNALING_STATE_RETENTION = minutes 11"

text \<open>\<open>__init__\<close>.\<close>

definition new_manager :: "int \<Rightarrow> manager res" where
  "new_manager heartbeat_timeout =
     (if heartbeat_timeout \<le> 0 then Inl ValueError
      else Inr \<lparr>pm_heartbeat_timeout = heartbeat_timeout, pm_connections = [], pm_outbound = [],
                pm_signaling = [], pm_signaling_account_totals = [], pm_metrics = [], pm_wire = []\<rparr>)"

definition pm_count :: "string \<Rightarrow> manager \<Rightarrow> manager" where
  "pm_count name m = m\<lparr>pm_metrics := count name (pm_metrics m)\<rparr>"

definition ws_close :: "nat \<Rightarrow> nat \<Rightarrow> manager \<Rightarrow> manager" where
  "ws_close websocket code m = m\<lparr>pm_wire := pm_wire m @ [WsClose websocket code]\<rparr>"

text \<open>\<open>self._connections.get(account_id, {})\<close>.\<close>

definition conns :: "manager \<Rightarrow> uuid \<Rightarrow> (uuid, active_connection) dict" where
  "conns m a = (case dict_get (pm_connections m) a of None \<Rightarrow> [] | Some d \<Rightarrow> d)"

text \<open>Store an account's sockets; an empty dictionary is deleted.\<close>

definition put_conns ::
    "uuid \<Rightarrow> (uuid, active_connection) dict \<Rightarrow> (uuid, (uuid, active_connection) dict) dict \<Rightarrow>
     (uuid, (uuid, active_connection) dict) dict" where
  "put_conns a rest C = (if rest = [] then dict_del a C else dict_set a rest C)"

definition drop_device :: "uuid \<Rightarrow> uuid \<Rightarrow> manager \<Rightarrow> manager" where
  "drop_device a v m =
     m\<lparr>pm_connections := put_conns a (dict_del v (conns m a)) (pm_connections m)\<rparr>"

definition pop_outbound :: "uuid \<Rightarrow> manager \<Rightarrow> manager" where
  "pop_outbound i m = m\<lparr>pm_outbound := dict_del i (pm_outbound m)\<rparr>"

section \<open>Sockets\<close>

definition active_socket_count :: "manager \<Rightarrow> nat" where
  "active_socket_count m = sum_list (map length (dict_values (pm_connections m)))"

definition has_connection_capacity :: "manager \<Rightarrow> (uuid, active_connection) dict \<Rightarrow> bool" where
  "has_connection_capacity m account_connections \<longleftrightarrow>
     length account_connections < MAX_CONNECTIONS_PER_ACCOUNT \<and>
     active_socket_count m < MAX_TOTAL_CONNECTIONS"

definition new_queue :: outbound_queue where
  "new_queue = \<lparr>oq_queue = [], oq_running = True, oq_failed = False, oq_queued_bytes = 0,
                oq_in_flight = 0\<rparr>"

definition register ::
    "active_connection \<Rightarrow> manager \<Rightarrow> active_connection option res \<times> manager" where
  "register c m =
     (let a = co_account_id c;
          account_connections = conns m a;
          m1 = m\<lparr>pm_connections := dict_set a account_connections (pm_connections m)\<rparr>;
          previous = dict_get account_connections (co_device_id c)
      in if previous = None \<and> \<not> has_connection_capacity m1 account_connections
         then (Inl ConnectionLimitError,
               pm_count ''socket_connection_rejected''
                 (if account_connections = []
                  then m1\<lparr>pm_connections := dict_del a (pm_connections m1)\<rparr> else m1))
         else let m2 = m1\<lparr>pm_connections :=
                        dict_set a (dict_set (co_device_id c) c account_connections)
                          (pm_connections m1)\<rparr>;
                  m3 = (case previous of None \<Rightarrow> m2 | Some p \<Rightarrow> pop_outbound (co_id p) m2);
                  m4 = m3\<lparr>pm_outbound := dict_set (co_id c) new_queue (pm_outbound m3)\<rparr>
              in (Inr previous, pm_count ''socket_registered'' m4))"

definition pm_remove :: "active_connection \<Rightarrow> manager \<Rightarrow> bool \<times> manager" where
  "pm_remove c m =
     (case dict_get (pm_connections m) (co_account_id c) of
        None \<Rightarrow> (False, m)
      | Some account_connections \<Rightarrow>
          (case dict_get account_connections (co_device_id c) of
             None \<Rightarrow> (False, m)
           | Some current \<Rightarrow>
               if co_id current \<noteq> co_id c then (False, m)
               else (True, pop_outbound (co_id c) (drop_device (co_account_id c) (co_device_id c) m))))"

text \<open>The heartbeat's refresh, under the lock.\<close>

definition touch_heartbeat ::
    "instant \<Rightarrow> active_connection \<Rightarrow> manager \<Rightarrow> active_connection option \<times> manager" where
  "touch_heartbeat now c m =
     (case dict_get (pm_connections m) (co_account_id c) of
        None \<Rightarrow> (None, m)
      | Some account_connections \<Rightarrow>
          (case dict_get account_connections (co_device_id c) of
             None \<Rightarrow> (None, m)
           | Some current \<Rightarrow>
               if co_id current \<noteq> co_id c then (None, m)
               else let updated = current\<lparr>co_last_heartbeat_at := now\<rparr>
                    in (Some updated,
                        m\<lparr>pm_connections :=
                           dict_set (co_account_id c)
                             (dict_set (co_device_id c) updated account_connections)
                             (pm_connections m)\<rparr>)))"

text \<open>\<open>find_current\<close> is the session repository's lookup, where one is configured.\<close>

definition heartbeat ::
    "(uuid \<Rightarrow> session option) option \<Rightarrow> instant \<Rightarrow> active_connection \<Rightarrow> manager \<Rightarrow>
     active_connection option \<times> manager" where
  "heartbeat find_current now c m =
     (if (case find_current of
            None \<Rightarrow> False
          | Some get \<Rightarrow>
              (case get (co_session_id c) of
                 None \<Rightarrow> True
               | Some current_session \<Rightarrow> se_user_id current_session \<noteq> co_account_id c))
      then (None, snd (pm_remove c m))
      else touch_heartbeat now c m)"

definition drop_socket :: "active_connection \<Rightarrow> manager \<Rightarrow> manager" where
  "drop_socket c m = ws_close (co_websocket c) 1013 (snd (pm_remove c m))"

section \<open>Outbound queues\<close>

text \<open>
  \<open>_enqueue_outbound\<close>, the locked part: \<open>None\<close> means that the queue overflowed and the socket
  has to be dropped.
\<close>

definition enqueue_section ::
    "active_connection \<Rightarrow> message \<Rightarrow> manager \<Rightarrow> bool option \<times> manager" where
  "enqueue_section c payload m =
     (let size = int (payload_bytes payload)
      in case (dict_get (conns m (co_account_id c)) (co_device_id c),
               dict_get (pm_outbound m) (co_id c)) of
           (Some current, Some outbound) \<Rightarrow>
             if co_id current \<noteq> co_id c \<or> oq_failed outbound then (Some False, m)
             else if length (oq_queue outbound) \<ge> MAX_WEBSOCKET_QUEUE_MESSAGES \<or>
                     oq_queued_bytes outbound + size > int MAX_WEBSOCKET_QUEUE_BYTES
             then (None,
                   pm_count ''socket_queue_rejected''
                     (m\<lparr>pm_outbound :=
                        dict_set (co_id c) (outbound\<lparr>oq_failed := True\<rparr>) (pm_outbound m)\<rparr>))
             else (Some True,
                   m\<lparr>pm_outbound :=
                      dict_set (co_id c)
                        (outbound\<lparr>oq_queue := oq_queue outbound @ [payload],
                                  oq_queued_bytes := oq_queued_bytes outbound + size\<rparr>)
                        (pm_outbound m)\<rparr>)
         | _ \<Rightarrow> (Some False, m))"

definition enqueue_outbound :: "active_connection \<Rightarrow> message \<Rightarrow> manager \<Rightarrow> bool \<times> manager" where
  "enqueue_outbound c payload m =
     (case enqueue_section c payload m of
        (Some b, m') \<Rightarrow> (b, m')
      | (None, m') \<Rightarrow> (False, drop_socket c m'))"

text \<open>
  \<open>_drain_outbound\<close>, one turn of the writer task: it takes the next payload and starts to send
  it; the send then ends in one of four ways.
\<close>

definition drain_take :: "active_connection \<Rightarrow> manager \<Rightarrow> manager" where
  "drain_take c m =
     (case dict_get (pm_outbound m) (co_id c) of
        None \<Rightarrow> m
      | Some outbound \<Rightarrow>
          (case oq_queue outbound of
             [] \<Rightarrow> m
           | payload # rest \<Rightarrow>
               if \<not> oq_running outbound \<or> oq_in_flight outbound \<noteq> 0 then m
               else m\<lparr>pm_outbound :=
                       dict_set (co_id c)
                         (outbound\<lparr>oq_queue := rest,
                                   oq_queued_bytes :=
                                     max 0 (oq_queued_bytes outbound - int (payload_bytes payload)),
                                   oq_in_flight := oq_in_flight outbound + 1\<rparr>)
                         (pm_outbound m),
                     pm_wire := pm_wire m @ [WsSend (co_websocket c) payload]\<rparr>))"

datatype send_outcome = Sent | SendTimeout | SendFailed | SendCancelled

definition update_outbound :: "uuid \<Rightarrow> (outbound_queue \<Rightarrow> outbound_queue) \<Rightarrow> manager \<Rightarrow> manager" where
  "update_outbound i f m =
     (case dict_get (pm_outbound m) i of
        None \<Rightarrow> m
      | Some outbound \<Rightarrow> m\<lparr>pm_outbound := dict_set i (f outbound) (pm_outbound m)\<rparr>)"

definition fail_outbound :: "active_connection \<Rightarrow> manager \<Rightarrow> manager" where
  "fail_outbound c m =
     drop_socket c
       (update_outbound (co_id c)
          (\<lambda>q. q\<lparr>oq_failed := True, oq_running := False, oq_in_flight := oq_in_flight q - 1\<rparr>) m)"

fun drain_finish :: "send_outcome \<Rightarrow> active_connection \<Rightarrow> manager \<Rightarrow> manager" where
  "drain_finish Sent c m =
     update_outbound (co_id c) (\<lambda>q. q\<lparr>oq_in_flight := oq_in_flight q - 1\<rparr>) m"
| "drain_finish SendTimeout c m = fail_outbound c (pm_count ''socket_send_timeout'' m)"
| "drain_finish SendFailed c m = fail_outbound c (pm_count ''socket_send_failed'' m)"
| "drain_finish SendCancelled c m =
     update_outbound (co_id c) (\<lambda>q. q\<lparr>oq_failed := True, oq_running := False\<rparr>) m"

definition outbound_pending :: "manager \<Rightarrow> bool" where
  "outbound_pending m =
     list_ex (\<lambda>q. oq_queue q \<noteq> [] \<or> oq_in_flight q > 0) (dict_values (pm_outbound m))"

definition resource_snapshot :: "manager \<Rightarrow> (pystr, int) dict" where
  "resource_snapshot m =
     [(lit ''active_sockets'', int (active_socket_count m)),
      (lit ''active_signaling_transfers'', int (length (pm_signaling m))),
      (lit ''queued_messages'', int (sum_list (map (\<lambda>q. length (oq_queue q)) (dict_values (pm_outbound m))))),
      (lit ''queued_bytes'', sum_list (map oq_queued_bytes (dict_values (pm_outbound m))))]"

section \<open>Signaling budgets\<close>

definition account_total :: "manager \<Rightarrow> uuid \<Rightarrow> int" where
  "account_total m a =
     (case dict_get (pm_signaling_account_totals m) a of None \<Rightarrow> 0 | Some n \<Rightarrow> n)"

definition count_of :: "signaling_usage \<Rightarrow> uuid \<times> pystr \<Rightarrow> int" where
  "count_of u k = (case dict_get (su_counts u) k of None \<Rightarrow> 0 | Some n \<Rightarrow> n)"

definition release_signaling :: "uuid \<Rightarrow> manager \<Rightarrow> bool \<times> manager" where
  "release_signaling t m =
     (case dict_get (pm_signaling m) t of
        None \<Rightarrow> (False, m)
      | Some usage \<Rightarrow>
          let remaining = account_total m (su_account_id usage) - su_total usage
          in (True,
              m\<lparr>pm_signaling := dict_del t (pm_signaling m),
                pm_signaling_account_totals :=
                  (if remaining > 0
                   then dict_set (su_account_id usage) remaining (pm_signaling_account_totals m)
                   else dict_del (su_account_id usage) (pm_signaling_account_totals m))\<rparr>))"

definition clear_signaling_state :: "uuid \<Rightarrow> manager \<Rightarrow> manager" where
  "clear_signaling_state t m =
     (case release_signaling t m of
        (cleared, m') \<Rightarrow> if cleared then pm_count ''signaling_state_cleaned'' m' else m')"

definition release_transfer :: "uuid \<Rightarrow> manager \<Rightarrow> manager" where
  "release_transfer t m = clear_signaling_state t m"

definition prune_signaling_state :: "instant \<Rightarrow> manager \<Rightarrow> manager" where
  "prune_signaling_state now m =
     (let cutoff = now - SIGNALING_STATE_RETENTION;
          stale = map fst (filter (\<lambda>(t, u). su_updated_at u \<le> cutoff) (pm_signaling m));
          m' = fold (\<lambda>t m. snd (release_signaling t m)) stale m
      in if stale = [] then m'
         else m'\<lparr>pm_metrics :=
                  snd (metrics_increment (lit ''signaling_state_cleaned'') (int (length stale))
                         (pm_metrics m'))\<rparr>)"

text \<open>\<open>t1\<close> and \<open>t2\<close> are the two clock readings.\<close>

definition record_signaling_use ::
    "instant \<Rightarrow> instant \<Rightarrow> uuid \<Rightarrow> active_connection \<Rightarrow> pystr \<Rightarrow> manager \<Rightarrow> bool \<times> manager" where
  "record_signaling_use t1 t2 transfer_id c message_type m =
     (let maximum = (if message_type \<in> set SINGLE_USE_MESSAGE_TYPES then 1
                     else MAX_SIGNALING_ICE_CANDIDATES);
          count_key = (co_device_id c, message_type);
          usage = (case dict_get (pm_signaling m) transfer_id of
                     Some u \<Rightarrow> u
                   | None \<Rightarrow> \<lparr>su_account_id = co_account_id c, su_updated_at = t1, su_total = 0,
                              su_counts = []\<rparr>);
          m1 = m\<lparr>pm_signaling := dict_set transfer_id usage (pm_signaling m)\<rparr>;
          total = account_total m1 (co_account_id c)
      in if count_of usage count_key \<ge> maximum \<or> su_total usage \<ge> MAX_SIGNALING_MESSAGES \<or>
            total \<ge> MAX_SIGNALING_MESSAGES_PER_ACCOUNT
         then (False, m1)
         else (True,
               m1\<lparr>pm_signaling :=
                    dict_set transfer_id
                      (usage\<lparr>su_counts :=
                               dict_set count_key (count_of usage count_key + 1) (su_counts usage),
                             su_total := su_total usage + 1, su_updated_at := t2\<rparr>)
                      (pm_signaling m1),
                  pm_signaling_account_totals :=
                    dict_set (co_account_id c) (total + 1) (pm_signaling_account_totals m1)\<rparr>))"

section \<open>Pruning and lookups\<close>

definition socket_expired :: "instant \<Rightarrow> manager \<Rightarrow> active_connection \<Rightarrow> bool" where
  "socket_expired now m c \<longleftrightarrow> co_last_heartbeat_at c + pm_heartbeat_timeout m \<le> now"

definition prune_account ::
    "instant \<Rightarrow> uuid \<Rightarrow> active_connection list \<times> manager \<Rightarrow> active_connection list \<times> manager" where
  "prune_account now a = (\<lambda>(expired, m).
     case dict_get (pm_connections m) a of
       None \<Rightarrow> (expired, m)
     | Some account_connections \<Rightarrow>
         let rest = filter (\<lambda>(v, c). \<not> socket_expired now m c) account_connections
         in (expired @ map snd (filter (\<lambda>(v, c). socket_expired now m c) account_connections),
             m\<lparr>pm_connections := put_conns a rest (pm_connections m)\<rparr>))"

text \<open>The first locked section of \<open>prune_expired\<close>, over one account or all of them.\<close>

definition prune_sockets ::
    "instant \<Rightarrow> uuid option \<Rightarrow> manager \<Rightarrow> active_connection list \<times> manager" where
  "prune_sockets now account_id m =
     fold (prune_account now)
       (case account_id of Some a \<Rightarrow> [a] | None \<Rightarrow> map fst (pm_connections m)) ([], m)"

text \<open>What the loop then does for each expired socket.\<close>

definition expire_socket :: "active_connection \<Rightarrow> manager \<Rightarrow> manager" where
  "expire_socket c m =
     ws_close (co_websocket c) 4008 (pm_count ''socket_heartbeat_timeout'' (pop_outbound (co_id c) m))"

definition prune_expired :: "instant \<Rightarrow> uuid option \<Rightarrow> manager \<Rightarrow> manager" where
  "prune_expired now account_id m =
     (case prune_sockets now account_id m of
        (expired, m1) \<Rightarrow> prune_signaling_state now (fold expire_socket expired m1))"

definition presence_cleanup :: "instant \<Rightarrow> manager \<Rightarrow> int \<times> manager" where
  "presence_cleanup now m =
     (let m' = prune_expired now None m
      in (metrics_value (lit ''signaling_state_cleaned'') (pm_metrics m') -
          metrics_value (lit ''signaling_state_cleaned'') (pm_metrics m), m'))"

definition online_connections ::
    "instant \<Rightarrow> uuid \<Rightarrow> manager \<Rightarrow> active_connection list \<times> manager" where
  "online_connections now a m =
     (let m' = prune_expired now (Some a) m in (dict_values (conns m' a), m'))"

definition connection_for ::
    "instant \<Rightarrow> uuid \<Rightarrow> uuid \<Rightarrow> manager \<Rightarrow> active_connection option \<times> manager" where
  "connection_for now a v m =
     (let m' = prune_expired now (Some a) m in (dict_get (conns m' a) v, m'))"

definition send_to_device ::
    "instant \<Rightarrow> uuid \<Rightarrow> uuid \<Rightarrow> message \<Rightarrow> manager \<Rightarrow> bool \<times> manager" where
  "send_to_device now a v payload m =
     (case connection_for now a v m of
        (None, m') \<Rightarrow> (False, m')
      | (Some c, m') \<Rightarrow> enqueue_outbound c payload m')"

text \<open>\<open>device_get\<close> is the device repository's \<open>get_by_id\<close>, where one is configured.\<close>

definition online_devices ::
    "device_lookup option \<Rightarrow> instant \<Rightarrow> uuid \<Rightarrow> manager \<Rightarrow> json list \<times> manager" where
  "online_devices device_get now a m =
     (case online_connections now a m of
        (cs, m') \<Rightarrow>
          (concat (map (\<lambda>c.
             case (case device_get of None \<Rightarrow> None | Some get \<Rightarrow> get (co_account_id c) (co_device_id c)) of
               None \<Rightarrow> []
             | Some device \<Rightarrow>
                 if dv_status device \<noteq> Active then []
                 else [JObj [(lit ''device_id'', JStr (uuid_str (dv_id device))),
                             (lit ''label'', JStr (dv_label device))]])
             (sort_key (\<lambda>c. uuid_str (co_device_id c)) cs)),
           m'))"

definition broadcast_presence ::
    "device_lookup option \<Rightarrow> instant \<Rightarrow> instant \<Rightarrow> uuid \<Rightarrow> manager \<Rightarrow> manager" where
  "broadcast_presence device_get t1 t2 a m =
     (case online_devices device_get t1 a m of
        (ds, m1) \<Rightarrow>
          (case online_connections t2 a m1 of
             (cs, m2) \<Rightarrow>
               fold (\<lambda>c m. snd (enqueue_outbound c
                        [(lit ''type'', JStr (lit ''presence'')), (lit ''devices'', JArr ds)] m))
                 cs m2))"

definition disconnect_device ::
    "device_lookup option \<Rightarrow> instant \<Rightarrow> instant \<Rightarrow> uuid \<Rightarrow> uuid \<Rightarrow> manager \<Rightarrow> manager" where
  "disconnect_device device_get t1 t2 a v m =
     (case dict_get (conns m a) v of
        None \<Rightarrow> m
      | Some c \<Rightarrow>
          broadcast_presence device_get t1 t2 a
            (ws_close (co_websocket c) 1008 (pop_outbound (co_id c) (drop_device a v m))))"

text \<open>The connections are popped, their queues are not.\<close>

definition disconnect_account :: "uuid \<Rightarrow> manager \<Rightarrow> manager" where
  "disconnect_account a m =
     fold (\<lambda>c. ws_close (co_websocket c) 1008) (dict_values (conns m a))
       (m\<lparr>pm_connections := dict_del a (pm_connections m)\<rparr>)"

definition close_all :: "manager \<Rightarrow> manager" where
  "close_all m =
     fold (\<lambda>c. ws_close (co_websocket c) 1001)
       (concat (map dict_values (dict_values (pm_connections m))))
       (m\<lparr>pm_connections := [], pm_outbound := [], pm_signaling := [],
          pm_signaling_account_totals := []\<rparr>)"

section \<open>Messages from a socket\<close>

text \<open>
  \<open>record_connection_mode\<close>.  The repository is optional; \<open>rclk\<close> are its clock readings.  The
  disjuncts are evaluated in order, so an unhashable \<open>mode\<close> raises only when the earlier ones
  did not already reject the message.
\<close>

definition record_connection_mode ::
    "'s transfer_port option \<Rightarrow> clock \<Rightarrow> active_connection \<Rightarrow> message \<Rightarrow> manager \<times> 's \<Rightarrow>
     bool res \<times> manager \<times> 's" where
  "record_connection_mode repository rclk c message ms =
     (case ms of (m, s) \<Rightarrow>
      let mode = mget message ''mode''; transfer_id = canonical_uuid (mget message ''transfer_id'')
      in case repository of
           None \<Rightarrow> (Inr False, m, s)
         | Some repo \<Rightarrow>
             if \<not> keys_are message [''type'', ''v'', ''transfer_id'', ''mode''] \<or>
                \<not> eq_int (mget message ''v'') 1
             then (Inr False, m, s)
             else case in_frozenset mode [lit ''direct'', lit ''relay''] of
                    Inl e \<Rightarrow> (Inl e, m, s)
                  | Inr known \<Rightarrow>
                      (case (known, transfer_id) of
                         (True, Some t) \<Rightarrow>
                           (case tp_get_by_id repo (co_account_id c) t s of
                              None \<Rightarrow> (Inr False, m, s)
                            | Some transfer \<Rightarrow>
                                if co_device_id c \<notin>
                                   {tr_sender_device_id transfer, tr_recipient_device_id transfer}
                                then (Inr False, m, s)
                                else if eq_str mode (lit ''relay'')
                                then (case tp_mark_relay_used repo rclk (co_account_id c) t s of
                                        (Inl e, s') \<Rightarrow> (Inl e, m, s')
                                      | (Inr _, s') \<Rightarrow> (Inr True, pm_count ''webrtc_relay'' m, s'))
                                else (Inr True, pm_count ''webrtc_direct'' m, s))
                       | _ \<Rightarrow> (Inr False, m, s)))"

text \<open>
  \<open>forward_signaling\<close>, the branch on the message type: who may send it, in which statuses, and
  the step into \<open>negotiating\<close> that the first offer of an accepted transfer makes.
\<close>

definition signaling_phase ::
    "'s transfer_port \<Rightarrow> clock \<Rightarrow> active_connection \<Rightarrow> transfer_request \<Rightarrow> uuid \<Rightarrow> uuid \<Rightarrow> pystr \<Rightarrow>
     's \<Rightarrow> bool res \<times> 's" where
  "signaling_phase repo rclk c transfer sender recipient message_type s =
     (let open_status = tr_status transfer \<in> {Offered, Accepted, Negotiating}
      in if message_type \<in> {lit ''sdp_offer'', lit ''handshake_offer''} then
           (if co_device_id c \<noteq> sender \<or> \<not> open_status then (Inr False, s)
            else if tr_status transfer = Accepted then
              (case tp_mark_negotiating repo rclk (co_account_id c) (tr_id transfer) s of
                 (Inl e, s') \<Rightarrow> (Inl e, s')
               | (Inr negotiating, s') \<Rightarrow> (Inr (negotiating \<noteq> None), s'))
            else (Inr True, s))
         else if message_type \<in> {lit ''sdp_answer'', lit ''handshake_answer''} then
           (Inr (co_device_id c = recipient \<and> open_status), s)
         else (Inr open_status, s))"

definition signaling_rejected :: "manager \<Rightarrow> 's \<Rightarrow> bool res \<times> manager \<times> 's" where
  "signaling_rejected m s = (Inr False, pm_count ''signaling_rejected'' m, s)"

text \<open>The part after validation: charge the budgets, then queue the message for the peer.\<close>

definition signaling_deliver ::
    "clock \<Rightarrow> active_connection \<Rightarrow> transfer_request \<Rightarrow> uuid \<Rightarrow> uuid \<Rightarrow> pystr \<Rightarrow> message \<Rightarrow>
     manager \<times> 's \<Rightarrow> bool res \<times> manager \<times> 's" where
  "signaling_deliver clk c transfer sender recipient message_type message ms =
     (case ms of (m, s) \<Rightarrow>
      case record_signaling_use (clk 4) (clk 5) (tr_id transfer) c message_type m of
        (False, m1) \<Rightarrow> signaling_rejected m1 s
      | (True, m1) \<Rightarrow>
          (case send_to_device (clk 6) (co_account_id c)
                  (if co_device_id c = sender then recipient else sender) message m1 of
             (False, m2) \<Rightarrow> signaling_rejected m2 s
           | (True, m2) \<Rightarrow> (Inr True, pm_count ''signaling_forwarded'' m2, s)))"

definition forward_signaling ::
    "'s transfer_port option \<Rightarrow> clock \<Rightarrow> clock \<Rightarrow> active_connection \<Rightarrow> message \<Rightarrow> manager \<times> 's \<Rightarrow>
     bool res \<times> manager \<times> 's" where
  "forward_signaling repository clk rclk c message ms =
     (case ms of (m, s) \<Rightarrow>
      case repository of
        None \<Rightarrow> signaling_rejected m s
      | Some repo \<Rightarrow>
          let m1 = prune_signaling_state (clk 0) m
          in case parse_signaling_message message (clk 1) of
               Inl e \<Rightarrow> (Inl e, m1, s)
             | Inr None \<Rightarrow> signaling_rejected m1 s
             | Inr (Some (transfer_id, sender, recipient, message_type)) \<Rightarrow>
                 (case tp_get_by_id repo (co_account_id c) transfer_id s of
                    None \<Rightarrow> signaling_rejected m1 s
                  | Some transfer \<Rightarrow>
                      if \<not> active_transfer transfer (clk 2)
                      then signaling_rejected (clear_signaling_state (tr_id transfer) m1) s
                      else case message_expiry (mget message ''expires_at'') (clk 3) of
                             None \<Rightarrow> signaling_rejected m1 s
                           | Some expiry \<Rightarrow>
                               if expiry > tr_expires_at transfer \<or>
                                  \<not> eq_int (mget message ''v'') (tr_protocol_version transfer) \<or>
                                  tr_sender_device_id transfer \<noteq> sender \<or>
                                  tr_recipient_device_id transfer \<noteq> recipient \<or>
                                  co_device_id c \<notin> {sender, recipient}
                               then signaling_rejected m1 s
                               else case signaling_phase repo rclk c transfer sender recipient
                                           message_type s of
                                      (Inl e, s1) \<Rightarrow> (Inl e, m1, s1)
                                    | (Inr False, s1) \<Rightarrow> signaling_rejected m1 s1
                                    | (Inr True, s1) \<Rightarrow>
                                        signaling_deliver clk c transfer sender recipient
                                          message_type message (m1, s1)))"

section \<open>The socket loop\<close>

text \<open>
  What one \<open>receive_text\<close> yields, and one turn of \<open>_serve_connection\<close> on it.  \<open>loads\<close> is
  \<open>json.loads\<close> with the duplicate-member hook.  A turn either continues with the current
  connection, or ends the loop, or lets an exception escape.
\<close>

datatype received = RxText pystr | RxTimeout | RxDisconnect | RxRuntimeError

datatype turn = Continue active_connection | Stop | Escape exc

record 's socket_env =
  ev_find_current :: "(uuid \<Rightarrow> session option) option"
  ev_repository :: "'s transfer_port option"
  ev_loads :: "pystr \<Rightarrow> json res"

definition stop_with :: "nat \<Rightarrow> active_connection \<Rightarrow> manager \<times> 's \<Rightarrow> turn \<times> manager \<times> 's" where
  "stop_with code c ms = (case ms of (m, s) \<Rightarrow> (Stop, ws_close (co_websocket c) code m, s))"

text \<open>The branch on the message type, for a frame that is a JSON object.\<close>

definition serve_message ::
    "'s socket_env \<Rightarrow> clock \<Rightarrow> clock \<Rightarrow> active_connection \<Rightarrow> message \<Rightarrow> manager \<times> 's \<Rightarrow>
     turn \<times> manager \<times> 's" where
  "serve_message env clk rclk c message ms =
     (case ms of (m, s) \<Rightarrow>
      let message_type = mget message ''type''
      in if eq_str message_type (lit ''heartbeat'') \<and> keys_are message [''type''] then
           (case heartbeat (ev_find_current env) (clk 0) c m of
              (None, m1) \<Rightarrow> stop_with 1008 c (m1, s)
            | (Some updated, m1) \<Rightarrow>
                (Continue updated,
                 m1\<lparr>pm_wire := pm_wire m1 @
                      [WsSend (co_websocket c) [(lit ''type'', JStr (lit ''heartbeat''))]]\<rparr>, s))
         else if eq_str message_type (lit ''ping'') \<and> keys_are message [''type''] then
           (Continue c,
            m\<lparr>pm_wire := pm_wire m @
                [WsSend (co_websocket c) [(lit ''type'', JStr (lit ''pong''))]]\<rparr>, s)
         else case in_frozenset message_type SIGNALING_MESSAGE_TYPES of
                Inl e \<Rightarrow> (Escape e, m, s)
              | Inr True \<Rightarrow>
                  (case forward_signaling (ev_repository env) clk rclk c message (m, s) of
                     (Inl e, m1, s1) \<Rightarrow> (Escape e, m1, s1)
                   | (Inr True, m1, s1) \<Rightarrow> (Continue c, m1, s1)
                   | (Inr False, m1, s1) \<Rightarrow> stop_with 1008 c (m1, s1))
              | Inr False \<Rightarrow>
                  if eq_str message_type (lit ''connection_mode'') then
                    (case record_connection_mode (ev_repository env) rclk c message (m, s) of
                       (Inl e, m1, s1) \<Rightarrow> (Escape e, m1, s1)
                     | (Inr True, m1, s1) \<Rightarrow> (Continue c, m1, s1)
                     | (Inr False, m1, s1) \<Rightarrow> stop_with 1008 c (m1, s1))
                  else stop_with 1003 c (m, s))"

fun serve_turn ::
    "'s socket_env \<Rightarrow> clock \<Rightarrow> clock \<Rightarrow> nat \<Rightarrow> active_connection \<Rightarrow> received \<Rightarrow> manager \<times> 's \<Rightarrow>
     turn \<times> manager \<times> 's" where
  "serve_turn env clk rclk received_count c rx (m, s) =
     (if received_count \<ge> MAX_SOCKET_MESSAGES
      then stop_with 1008 c (pm_count ''socket_message_budget_exhausted'' m, s)
      else case rx of
             RxTimeout \<Rightarrow> stop_with 4008 c (m, s)
           | RxDisconnect \<Rightarrow> (Stop, m, s)
           | RxRuntimeError \<Rightarrow> stop_with 1003 c (m, s)
           | RxText raw \<Rightarrow>
               (case utf8_len raw of
                  Inl e \<Rightarrow> (Escape e, m, s)
                | Inr encoded \<Rightarrow>
                    if encoded > MAX_WEBSOCKET_MESSAGE_BYTES then stop_with 1009 c (m, s)
                    else case ev_loads env raw of
                           Inl e \<Rightarrow>
                             if e = TypeError \<or> is_ValueError e then stop_with 1003 c (m, s)
                             else (Escape e, m, s)
                         | Inr (JObj message) \<Rightarrow> serve_message env clk rclk c message (m, s)
                         | Inr _ \<Rightarrow> stop_with 1003 c (m, s)))"

text \<open>
  \<open>_serve_connection\<close> on a sequence of frames, the \<open>i\<close>-th turn with its own clock readings;
  when the frames run out the loop is waiting for the next one.
\<close>

fun serve_connection ::
    "'s socket_env \<Rightarrow> (nat \<Rightarrow> clock \<times> clock) \<Rightarrow> nat \<Rightarrow> active_connection \<Rightarrow> received list \<Rightarrow>
     manager \<times> 's \<Rightarrow> turn \<times> manager \<times> 's" where
  "serve_connection env clks n c [] ms = (Continue c, ms)"
| "serve_connection env clks n c (rx # rxs) ms =
     (case serve_turn env (fst (clks n)) (snd (clks n)) n c rx ms of
        (Continue c', ms') \<Rightarrow> serve_connection env clks (Suc n) c' rxs ms'
      | (Stop, ms') \<Rightarrow> (Stop, ms')
      | (Escape e, ms') \<Rightarrow> (Escape e, ms'))"

end
