(* ===== verification/PresenceSafety.thy ===== *)
theory PresenceSafety
  imports Presence
begin

text \<open>
  Safety of the presence manager under every interleaving.  The atomic sections of
  \<open>app/presence.py\<close> are the steps of a transition system; the invariants below hold in every
  reachable state: the limits on sockets, on queued messages and bytes and on signaling
  messages are never exceeded, and the byte and message counters are exact.
\<close>

section \<open>Steps\<close>

text \<open>The socket registered for a device.\<close>

definition conn_at :: "manager \<Rightarrow> uuid \<Rightarrow> uuid \<Rightarrow> active_connection option" where
  "conn_at m a v = dict_get (conns m a) v"

definition fresh_id :: "manager \<Rightarrow> uuid \<Rightarrow> bool" where
  "fresh_id m i \<longleftrightarrow>
     dict_get (pm_outbound m) i = None \<and> (\<forall>a v c. conn_at m a v = Some c \<longrightarrow> co_id c \<noteq> i)"

text \<open>
  A socket's identifier is a new UUID when it is registered; the queue of a socket that expired is
  popped when the socket is no longer registered; and a signaling message is charged for a transfer
  of the sender's account, \<open>own t\<close> being the account that owns transfer \<open>t\<close>.
\<close>

inductive presence_step :: "(uuid \<Rightarrow> uuid) \<Rightarrow> manager \<Rightarrow> manager \<Rightarrow> bool" for own where
  registered: "fresh_id m (co_id c) \<Longrightarrow> presence_step own m (snd (register c m))"
| removed: "presence_step own m (snd (pm_remove c m))"
| dropped: "presence_step own m (drop_socket c m)"
| touched: "presence_step own m (snd (touch_heartbeat now c m))"
| enqueued: "presence_step own m (snd (enqueue_outbound c payload m))"
| taken: "presence_step own m (drain_take c m)"
| finished: "presence_step own m (drain_finish outcome c m)"
| pruned: "presence_step own m (snd (prune_sockets now account_id m))"
| expired: "(\<forall>a v k. conn_at m a v = Some k \<longrightarrow> co_id k \<noteq> co_id c) \<Longrightarrow>
     presence_step own m (expire_socket c m)"
| cut: "conn_at m a v = Some c \<Longrightarrow>
     presence_step own m (ws_close (co_websocket c) 1008 (pop_outbound (co_id c) (drop_device a v m)))"
| account_cut: "presence_step own m (disconnect_account a m)"
| closed: "presence_step own m (close_all m)"
| released: "presence_step own m (clear_signaling_state t m)"
| signaling_pruned: "presence_step own m (prune_signaling_state now m)"
| charged: "own t = co_account_id c \<Longrightarrow>
     presence_step own m (snd (record_signaling_use t1 t2 t c ty m))"
| noted: "m' = m\<lparr>pm_metrics := x, pm_wire := w\<rparr> \<Longrightarrow> presence_step own m m'"

section \<open>Invariants\<close>

definition conns_ok :: "(uuid, (uuid, active_connection) dict) dict \<Rightarrow> bool" where
  "conns_ok C \<longleftrightarrow>
     dict_ok C \<and>
     dict_all (\<lambda>a d. d \<noteq> [] \<and> dict_ok d \<and> length d \<le> MAX_CONNECTIONS_PER_ACCOUNT \<and>
                  dict_all (\<lambda>v c. co_account_id c = a \<and> co_device_id c = v) d) C \<and>
     dict_sum (\<lambda>d. int (length d)) C \<le> int MAX_TOTAL_CONNECTIONS"

definition queue_ok :: "outbound_queue \<Rightarrow> bool" where
  "queue_ok q \<longleftrightarrow>
     length (oq_queue q) \<le> MAX_WEBSOCKET_QUEUE_MESSAGES \<and>
     oq_queued_bytes q = int (sum_list (map payload_bytes (oq_queue q))) \<and>
     oq_queued_bytes q \<le> int MAX_WEBSOCKET_QUEUE_BYTES"

definition queues_ok :: "(uuid, outbound_queue) dict \<Rightarrow> bool" where
  "queues_ok Q \<longleftrightarrow> dict_ok Q \<and> dict_all (\<lambda>i q. queue_ok q) Q"

definition usage_ok :: "uuid \<Rightarrow> signaling_usage \<Rightarrow> bool" where
  "usage_ok a u \<longleftrightarrow>
     su_account_id u = a \<and> dict_ok (su_counts u) \<and>
     dict_all (\<lambda>k n. 0 \<le> n \<and> n \<le> (if snd k \<in> set SINGLE_USE_MESSAGE_TYPES then 1
                                     else MAX_SIGNALING_ICE_CANDIDATES)) (su_counts u) \<and>
     su_total u = dict_sum (\<lambda>n. n) (su_counts u) \<and> su_total u \<le> MAX_SIGNALING_MESSAGES"

definition spent :: "uuid \<Rightarrow> (uuid, signaling_usage) dict \<Rightarrow> int" where
  "spent a S = dict_sum (\<lambda>u. if su_account_id u = a then su_total u else 0) S"

definition signaling_ok :: "(uuid \<Rightarrow> uuid) \<Rightarrow> manager \<Rightarrow> bool" where
  "signaling_ok own m \<longleftrightarrow>
     dict_ok (pm_signaling m) \<and> dict_all (\<lambda>t u. usage_ok (own t) u) (pm_signaling m) \<and>
     (\<forall>a. account_total m a = spent a (pm_signaling m) \<and>
          account_total m a \<le> MAX_SIGNALING_MESSAGES_PER_ACCOUNT)"

definition linked_ok :: "manager \<Rightarrow> bool" where
  "linked_ok m \<longleftrightarrow>
     (\<forall>a v c. conn_at m a v = Some c \<longrightarrow> dict_get (pm_outbound m) (co_id c) \<noteq> None) \<and>
     (\<forall>a v c a' v' c'. conn_at m a v = Some c \<longrightarrow> conn_at m a' v' = Some c' \<longrightarrow>
        co_id c = co_id c' \<longrightarrow> a = a' \<and> v = v')"

definition presence_ok :: "(uuid \<Rightarrow> uuid) \<Rightarrow> manager \<Rightarrow> bool" where
  "presence_ok own m \<longleftrightarrow>
     conns_ok (pm_connections m) \<and> queues_ok (pm_outbound m) \<and> signaling_ok own m \<and> linked_ok m"

section \<open>What each section touches\<close>

lemma pm_count_simps [simp]:
  "pm_connections (pm_count n m) = pm_connections m" "pm_outbound (pm_count n m) = pm_outbound m"
  "pm_signaling (pm_count n m) = pm_signaling m" "pm_wire (pm_count n m) = pm_wire m"
  "pm_signaling_account_totals (pm_count n m) = pm_signaling_account_totals m"
  "pm_heartbeat_timeout (pm_count n m) = pm_heartbeat_timeout m"
  by (simp_all add: pm_count_def)

lemma ws_close_simps [simp]:
  "pm_connections (ws_close w k m) = pm_connections m" "pm_outbound (ws_close w k m) = pm_outbound m"
  "pm_signaling (ws_close w k m) = pm_signaling m" "pm_metrics (ws_close w k m) = pm_metrics m"
  "pm_signaling_account_totals (ws_close w k m) = pm_signaling_account_totals m"
  by (simp_all add: ws_close_def)

lemma pop_outbound_simps [simp]:
  "pm_connections (pop_outbound i m) = pm_connections m"
  "pm_outbound (pop_outbound i m) = dict_del i (pm_outbound m)"
  "pm_signaling (pop_outbound i m) = pm_signaling m"
  "pm_signaling_account_totals (pop_outbound i m) = pm_signaling_account_totals m"
  by (simp_all add: pop_outbound_def)

lemma drop_device_simps [simp]:
  "pm_connections (drop_device a v m) = put_conns a (dict_del v (conns m a)) (pm_connections m)"
  "pm_outbound (drop_device a v m) = pm_outbound m" "pm_signaling (drop_device a v m) = pm_signaling m"
  "pm_signaling_account_totals (drop_device a v m) = pm_signaling_account_totals m"
  by (simp_all add: drop_device_def)

lemma update_outbound_simps [simp]:
  "pm_connections (update_outbound i f m) = pm_connections m"
  "pm_signaling (update_outbound i f m) = pm_signaling m"
  "pm_signaling_account_totals (update_outbound i f m) = pm_signaling_account_totals m"
  by (simp_all add: update_outbound_def split: option.split)

lemma fold_ws_close_simps [simp]:
  "pm_connections (fold (\<lambda>c. ws_close (co_websocket c) k) cs m) = pm_connections m"
  "pm_outbound (fold (\<lambda>c. ws_close (co_websocket c) k) cs m) = pm_outbound m"
  "pm_signaling (fold (\<lambda>c. ws_close (co_websocket c) k) cs m) = pm_signaling m"
  "pm_signaling_account_totals (fold (\<lambda>c. ws_close (co_websocket c) k) cs m) =
     pm_signaling_account_totals m"
  by (induction cs arbitrary: m) simp_all

lemma conns_cong: "pm_connections m' = pm_connections m \<Longrightarrow> conns m' = conns m"
  by (simp add: conns_def fun_eq_iff)

lemma conn_at_cong: "pm_connections m' = pm_connections m \<Longrightarrow> conn_at m' = conn_at m"
  by (simp add: conn_at_def conns_def fun_eq_iff)

lemma signaling_ok_cong:
  "pm_signaling m' = pm_signaling m \<Longrightarrow>
   pm_signaling_account_totals m' = pm_signaling_account_totals m \<Longrightarrow>
     signaling_ok own m' = signaling_ok own m"
  by (simp add: signaling_ok_def account_total_def)

section \<open>Sockets\<close>

lemma dict_get_put_conns:
  "dict_get (put_conns a rest C) = (dict_get C)(a := (if rest = [] then None else Some rest))"
  by (simp add: put_conns_def fun_eq_iff)

lemma conns_put [simp]:
  "conns (m\<lparr>pm_connections := put_conns a rest C\<rparr>) b =
     (if b = a then rest else conns (m\<lparr>pm_connections := C\<rparr>) b)"
  by (simp add: conns_def dict_get_put_conns)

lemma conns_okD:
  assumes "conns_ok C"
  shows "dict_ok C" and "dict_sum (\<lambda>d. int (length d)) C \<le> int MAX_TOTAL_CONNECTIONS"
    and "dict_get C a = Some d \<Longrightarrow>
           d \<noteq> [] \<and> dict_ok d \<and> length d \<le> MAX_CONNECTIONS_PER_ACCOUNT \<and>
           dict_all (\<lambda>v c. co_account_id c = a \<and> co_device_id c = v) d"
  using assms dict_all_get [of _ C a d] unfolding conns_ok_def by blast+

text \<open>An account's sockets in a good state, present or not.\<close>

lemma conns_ok_conns:
  assumes "conns_ok (pm_connections m)"
  shows "dict_ok (conns m a)" and "length (conns m a) \<le> MAX_CONNECTIONS_PER_ACCOUNT"
    and "dict_all (\<lambda>v c. co_account_id c = a \<and> co_device_id c = v) (conns m a)"
    and "dict_val (\<lambda>d. int (length d)) (dict_get (pm_connections m) a) = int (length (conns m a))"
  using conns_okD(3) [OF assms, of a] by (auto simp: conns_def split: option.split)

lemma conns_ok_put:
  assumes "conns_ok C" and "dict_ok rest" and "length rest \<le> MAX_CONNECTIONS_PER_ACCOUNT"
    and "dict_all (\<lambda>v c. co_account_id c = a \<and> co_device_id c = v) rest"
    and "dict_sum (\<lambda>d. int (length d)) C - dict_val (\<lambda>d. int (length d)) (dict_get C a) +
           int (length rest) \<le> int MAX_TOTAL_CONNECTIONS"
  shows "conns_ok (put_conns a rest C)"
  using assms
  by (auto simp: conns_ok_def put_conns_def dict_sum_set dict_sum_del intro: dict_all_set dict_all_del)

text \<open>Fewer sockets for an account keep every bound.\<close>

lemma conns_ok_shrink:
  assumes "conns_ok (pm_connections m)" and "dict_ok rest" and "length rest \<le> length (conns m a)"
    and "dict_all (\<lambda>v c. co_account_id c = a \<and> co_device_id c = v) rest"
  shows "conns_ok (put_conns a rest (pm_connections m))"
  using assms conns_ok_conns(2,4) [OF assms(1), of a] conns_okD(2) [OF assms(1)]
  by (intro conns_ok_put) simp_all

lemma length_dict_del: "length (dict_del k d) \<le> length d"
  by (simp add: dict_del_def length_delete_le)

lemma conns_ok_drop_device:
  "conns_ok (pm_connections m) \<Longrightarrow> conns_ok (pm_connections (drop_device a v m))"
  using conns_ok_conns [of m a]
  by (auto intro!: conns_ok_shrink dict_all_del simp: length_dict_del)

lemma conns_ok_remove [keep]:
  "conns_ok (pm_connections m) \<Longrightarrow> conns_ok (pm_connections (snd (pm_remove c m)))"
  using conns_ok_drop_device by (auto simp: pm_remove_def split: option.split)

lemma conns_ok_drop_socket [keep]:
  "conns_ok (pm_connections m) \<Longrightarrow> conns_ok (pm_connections (drop_socket c m))"
  by (simp add: drop_socket_def conns_ok_remove)

lemma active_socket_count_sum:
  "int (active_socket_count m) = dict_sum (\<lambda>d. int (length d)) (pm_connections m)"
  by (simp add: active_socket_count_def dict_values_def dict_sum_def comp_def flip: sum_list_of_nat)

lemma length_dict_set:
  "length (dict_set k v d) = (if dict_get d k = None then Suc (length d) else length d)"
  by (induction d) (auto simp: dict_set_def dict_get_def)

lemma dict_del_set_same [simp]: "dict_del k (dict_set k v d) = dict_del k d"
  by (simp add: dict_del_def dict_set_def delete_update_same)

lemma register_cases:
  obtains (full) "fst (register c m) = Inl ConnectionLimitError"
      "pm_connections (snd (register c m)) =
         put_conns (co_account_id c) (conns m (co_account_id c)) (pm_connections m)"
      "pm_outbound (snd (register c m)) = pm_outbound m"
  | (admitted) previous where "fst (register c m) = Inr previous"
      "previous = conn_at m (co_account_id c) (co_device_id c)"
      "pm_connections (snd (register c m)) =
         put_conns (co_account_id c) (dict_set (co_device_id c) c (conns m (co_account_id c)))
           (pm_connections m)"
      "pm_outbound (snd (register c m)) =
         dict_set (co_id c) new_queue
           (case previous of None \<Rightarrow> pm_outbound m | Some p \<Rightarrow> dict_del (co_id p) (pm_outbound m))"
      "previous = None \<Longrightarrow> length (conns m (co_account_id c)) < MAX_CONNECTIONS_PER_ACCOUNT \<and>
         dict_sum (\<lambda>d. int (length d))
           (dict_set (co_account_id c) (conns m (co_account_id c)) (pm_connections m))
         < int MAX_TOTAL_CONNECTIONS"
proof (cases "fst (register c m)")
  case (Inl e)
  then show ?thesis
    by (intro full) (auto simp: register_def Let_def put_conns_def split: if_splits)
next
  case (Inr previous)
  then show ?thesis
    using active_socket_count_sum [of "m\<lparr>pm_connections :=
        dict_set (co_account_id c) (conns m (co_account_id c)) (pm_connections m)\<rparr>", symmetric]
    by (intro admitted [of previous])
       (auto simp: register_def Let_def put_conns_def conn_at_def has_connection_capacity_def
          split: if_splits option.split)
qed

lemma register_signaling [simp]:
  "pm_signaling (snd (register c m)) = pm_signaling m"
  "pm_signaling_account_totals (snd (register c m)) = pm_signaling_account_totals m"
  by (auto simp: register_def Let_def split: option.split)

lemma conns_ok_register [keep]:
  assumes ok: "conns_ok (pm_connections m)"
  shows "conns_ok (pm_connections (snd (register c m)))"
proof (cases rule: register_cases [of c m])
  case full
  then show ?thesis
    using ok conns_ok_conns [OF ok, of "co_account_id c"]
    by (auto intro!: conns_ok_shrink)
next
  case (admitted previous)
  let ?a = "co_account_id c"
  note cs = conns_ok_conns [OF ok, of ?a]
  have "conns_ok (put_conns ?a (dict_set (co_device_id c) c (conns m ?a)) (pm_connections m))"
  proof (cases previous)
    case None
    then show ?thesis
      using admitted(2,5) cs
      by (intro conns_ok_put [OF ok])
         (auto simp: length_dict_set conn_at_def dict_sum_set intro: dict_all_set)
  next
    case (Some p)
    then show ?thesis
      using admitted(2) cs
      by (intro conns_ok_shrink [OF ok])
         (auto simp: length_dict_set conn_at_def intro: dict_all_set)
  qed
  then show ?thesis using admitted(3) by simp
qed

lemma touch_connections:
  "pm_connections (snd (touch_heartbeat now c m)) =
     (case conn_at m (co_account_id c) (co_device_id c) of
        None \<Rightarrow> pm_connections m
      | Some k \<Rightarrow>
          if co_id k = co_id c
          then put_conns (co_account_id c)
                 (dict_set (co_device_id c) (k\<lparr>co_last_heartbeat_at := now\<rparr>) (conns m (co_account_id c)))
                 (pm_connections m)
          else pm_connections m)"
  by (auto simp: touch_heartbeat_def conn_at_def conns_def put_conns_def Let_def split: option.split)

lemma touch_rest [simp]:
  "pm_outbound (snd (touch_heartbeat now c m)) = pm_outbound m"
  "pm_signaling (snd (touch_heartbeat now c m)) = pm_signaling m"
  "pm_signaling_account_totals (snd (touch_heartbeat now c m)) = pm_signaling_account_totals m"
  by (auto simp: touch_heartbeat_def Let_def split: option.split)

lemma conns_ok_touch [keep]:
  assumes ok: "conns_ok (pm_connections m)"
  shows "conns_ok (pm_connections (snd (touch_heartbeat now c m)))"
proof (cases "conn_at m (co_account_id c) (co_device_id c)")
  case None
  then show ?thesis using ok by (simp add: touch_connections)
next
  case (Some k)
  note cs = conns_ok_conns [OF ok, of "co_account_id c"]
  have "co_account_id k = co_account_id c \<and> co_device_id k = co_device_id c"
    using dict_all_get [OF cs(3)] Some by (simp add: conn_at_def)
  then show ?thesis
    using ok cs Some
    by (auto simp: touch_connections conn_at_def length_dict_set intro!: conns_ok_shrink dict_all_set)
qed

text \<open>Sections that only take sockets away.\<close>

definition subconns :: "manager \<Rightarrow> manager \<Rightarrow> bool" where
  "subconns m' m \<longleftrightarrow> (\<forall>a v c. conn_at m' a v = Some c \<longrightarrow> conn_at m a v = Some c)"

lemma subconns_refl [simp]: "subconns m m"
  by (simp add: subconns_def)

lemma subconns_trans: "subconns m'' m' \<Longrightarrow> subconns m' m \<Longrightarrow> subconns m'' m"
  by (simp add: subconns_def)

lemma subconns_same: "pm_connections m' = pm_connections m \<Longrightarrow> subconns m' m"
  by (simp add: subconns_def conn_at_cong [of m' m])

lemma subconns_put:
  assumes "\<And>v c. dict_get rest v = Some c \<Longrightarrow> dict_get (conns m a) v = Some c"
    and "pm_connections m' = put_conns a rest (pm_connections m)"
  shows "subconns m' m"
proof -
  have "conns m' b = (if b = a then rest else conns m b)" for b
    using assms(2) by (simp add: conns_def dict_get_put_conns)
  then show ?thesis
    using assms(1) by (auto simp: subconns_def conn_at_def)
qed

lemma subconns_drop_device: "subconns (drop_device a v m) m"
  by (rule subconns_put [of "dict_del v (conns m a)" m a]) (auto split: if_splits)

lemma dict_get_filter:
  "dict_ok d \<Longrightarrow> dict_get (filter (\<lambda>(v, c). P c) d) v = Some c \<longleftrightarrow> dict_get d v = Some c \<and> P c"
  using dict_ok_filter [of d "\<lambda>(v, c). P c"] by (auto simp: dict_get_iff)

lemma prune_account_keeps:
  assumes ok: "conns_ok (pm_connections m)" and pr: "prune_account now a (ex, m) = (ex', m')"
  shows "conns_ok (pm_connections m')" "subconns m' m" "pm_outbound m' = pm_outbound m"
    "pm_signaling m' = pm_signaling m"
    "pm_signaling_account_totals m' = pm_signaling_account_totals m"
proof -
  consider "m' = m" | d where "dict_get (pm_connections m) a = Some d"
      "m' = m\<lparr>pm_connections :=
              put_conns a (filter (\<lambda>(v, c). \<not> socket_expired now m c) d) (pm_connections m)\<rparr>"
    using pr by (auto simp: prune_account_def Let_def split: option.splits)
  then have "conns_ok (pm_connections m') \<and> subconns m' m \<and> pm_outbound m' = pm_outbound m \<and>
      pm_signaling m' = pm_signaling m \<and> pm_signaling_account_totals m' = pm_signaling_account_totals m"
  proof cases
    case (2 d)
    then have d: "conns m a = d" by (simp add: conns_def)
    note cs = conns_ok_conns [OF ok, of a, unfolded d]
    let ?rest = "filter (\<lambda>(v, c). \<not> socket_expired now m c) d"
    have "conns_ok (put_conns a ?rest (pm_connections m))"
      using cs by (intro conns_ok_shrink [OF ok]) (simp_all add: dict_ok_filter dict_all_filter d)
    moreover have "subconns m' m"
      using 2(2) cs(1) by (intro subconns_put [of ?rest m a]) (auto simp: dict_get_filter d)
    ultimately show ?thesis using 2(2) by simp
  qed (use ok in simp)
  then show "conns_ok (pm_connections m')" "subconns m' m" "pm_outbound m' = pm_outbound m"
    "pm_signaling m' = pm_signaling m"
    "pm_signaling_account_totals m' = pm_signaling_account_totals m"
    by blast+
qed

lemma prune_fold_keeps:
  assumes "conns_ok (pm_connections m)"
  shows "conns_ok (pm_connections (snd (fold (prune_account now) as (ex, m)))) \<and>
         subconns (snd (fold (prune_account now) as (ex, m))) m \<and>
         pm_outbound (snd (fold (prune_account now) as (ex, m))) = pm_outbound m \<and>
         pm_signaling (snd (fold (prune_account now) as (ex, m))) = pm_signaling m \<and>
         pm_signaling_account_totals (snd (fold (prune_account now) as (ex, m))) =
           pm_signaling_account_totals m"
  using assms
proof (induction as arbitrary: ex m)
  case (Cons a as)
  obtain ex' m' where pr: "prune_account now a (ex, m) = (ex', m')" by fastforce
  note k = prune_account_keeps [OF Cons.prems pr]
  from Cons.IH [OF k(1), of ex'] k show ?case
    by (auto simp: pr intro: subconns_trans)
qed simp

lemma prune_sockets_keeps:
  assumes "conns_ok (pm_connections m)"
  shows "conns_ok (pm_connections (snd (prune_sockets now account_id m)))"
    "subconns (snd (prune_sockets now account_id m)) m"
    "pm_outbound (snd (prune_sockets now account_id m)) = pm_outbound m"
    "pm_signaling (snd (prune_sockets now account_id m)) = pm_signaling m"
    "pm_signaling_account_totals (snd (prune_sockets now account_id m)) = pm_signaling_account_totals m"
  using prune_fold_keeps [OF assms] unfolding prune_sockets_def by blast+

lemma conns_ok_del: "conns_ok C \<Longrightarrow> conns_ok (dict_del a C)"
proof -
  assume ok: "conns_ok C"
  have "0 \<le> dict_val (\<lambda>d. int (length d)) (dict_get C a)"
    by (cases "dict_get C a") simp_all
  then show ?thesis
    using ok by (auto simp: conns_ok_def dict_sum_del intro: dict_all_del)
qed

lemma conns_ok_disconnect [keep]:
  "conns_ok (pm_connections m) \<Longrightarrow> conns_ok (pm_connections (disconnect_account a m))"
  by (simp add: disconnect_account_def conns_ok_del)

lemma conns_ok_Nil [simp]: "conns_ok []"
  by (simp add: conns_ok_def)

lemma conns_ok_close_all [keep]: "conns_ok (pm_connections (close_all m))"
  by (simp add: close_all_def)

section \<open>Queues\<close>

lemma queues_ok_set: "queues_ok Q \<Longrightarrow> queue_ok q \<Longrightarrow> queues_ok (dict_set i q Q)"
  by (auto simp: queues_ok_def intro: dict_all_set)

lemma queues_ok_del: "queues_ok Q \<Longrightarrow> queues_ok (dict_del i Q)"
  by (auto simp: queues_ok_def intro: dict_all_del)

lemma queues_ok_get: "queues_ok Q \<Longrightarrow> dict_get Q i = Some q \<Longrightarrow> queue_ok q"
  using dict_all_get [of "\<lambda>i. queue_ok" Q i q] by (simp add: queues_ok_def)

lemma queue_ok_new [simp]: "queue_ok new_queue"
  by (simp add: queue_ok_def new_queue_def)

lemma queue_ok_flags [simp]:
  "queue_ok (q\<lparr>oq_failed := b\<rparr>) = queue_ok q"
  "queue_ok (q\<lparr>oq_running := b\<rparr>) = queue_ok q"
  "queue_ok (q\<lparr>oq_in_flight := n\<rparr>) = queue_ok q"
  by (simp_all add: queue_ok_def)

lemma remove_outbound:
  "pm_outbound (snd (pm_remove c m)) = pm_outbound m \<or>
   pm_outbound (snd (pm_remove c m)) = dict_del (co_id c) (pm_outbound m)"
  by (auto simp: pm_remove_def split: option.split)

lemma queues_ok_remove [keep]:
  "queues_ok (pm_outbound m) \<Longrightarrow> queues_ok (pm_outbound (snd (pm_remove c m)))"
  using remove_outbound [of c m] queues_ok_del by metis

lemma queues_ok_drop_socket [keep]:
  "queues_ok (pm_outbound m) \<Longrightarrow> queues_ok (pm_outbound (drop_socket c m))"
  by (simp add: drop_socket_def queues_ok_remove)

lemma queues_ok_register [keep]:
  "queues_ok (pm_outbound m) \<Longrightarrow> queues_ok (pm_outbound (snd (register c m)))"
  by (cases rule: register_cases [of c m])
     (auto intro!: queues_ok_set queues_ok_del split: option.split)

lemma enqueue_section_cases:
  obtains (same) "enqueue_section c p m = (Some False, m)"
  | (overflow) q k where "dict_get (pm_outbound m) (co_id c) = Some q"
      "conn_at m (co_account_id c) (co_device_id c) = Some k" "co_id k = co_id c"
      "enqueue_section c p m =
         (None, pm_count ''socket_queue_rejected''
           (m\<lparr>pm_outbound := dict_set (co_id c) (q\<lparr>oq_failed := True\<rparr>) (pm_outbound m)\<rparr>))"
  | (stored) q k where "dict_get (pm_outbound m) (co_id c) = Some q" "\<not> oq_failed q"
      "conn_at m (co_account_id c) (co_device_id c) = Some k" "co_id k = co_id c"
      "length (oq_queue q) < MAX_WEBSOCKET_QUEUE_MESSAGES"
      "oq_queued_bytes q + int (payload_bytes p) \<le> int MAX_WEBSOCKET_QUEUE_BYTES"
      "enqueue_section c p m =
         (Some True,
          m\<lparr>pm_outbound :=
             dict_set (co_id c)
               (q\<lparr>oq_queue := oq_queue q @ [p],
                  oq_queued_bytes := oq_queued_bytes q + int (payload_bytes p)\<rparr>)
               (pm_outbound m)\<rparr>)"
proof (cases "conn_at m (co_account_id c) (co_device_id c)")
  case None
  then show ?thesis by (intro same) (simp add: enqueue_section_def conn_at_def)
next
  case (Some k)
  note k = this
  show ?thesis
  proof (cases "dict_get (pm_outbound m) (co_id c)")
    case None
    then show ?thesis using k by (intro same) (simp add: enqueue_section_def conn_at_def)
  next
    case (Some q)
    let ?full = "length (oq_queue q) \<ge> MAX_WEBSOCKET_QUEUE_MESSAGES \<or>
                 oq_queued_bytes q + int (payload_bytes p) > int MAX_WEBSOCKET_QUEUE_BYTES"
    consider "co_id k \<noteq> co_id c \<or> oq_failed q" | "co_id k = co_id c" "\<not> oq_failed q" "?full"
      | "co_id k = co_id c" "\<not> oq_failed q" "\<not> ?full"
      by blast
    then show ?thesis
    proof cases
      case 1
      then show ?thesis using k Some by (intro same) (simp add: enqueue_section_def conn_at_def)
    next
      case 2
      then show ?thesis
        using k Some by (intro overflow [of q k]) (simp_all add: enqueue_section_def conn_at_def Let_def)
    next
      case 3
      then show ?thesis
        using k Some by (intro stored [of q k]) (simp_all add: enqueue_section_def conn_at_def Let_def)
    qed
  qed
qed

lemma queues_ok_enqueue [keep]:
  assumes "queues_ok (pm_outbound m)"
  shows "queues_ok (pm_outbound (snd (enqueue_outbound c p m)))"
proof (cases rule: enqueue_section_cases [of c p m])
  case same
  then show ?thesis using assms by (simp add: enqueue_outbound_def)
next
  case (overflow q k)
  then show ?thesis
    using assms queues_ok_get [OF assms overflow(1)]
    by (simp add: enqueue_outbound_def queues_ok_drop_socket queues_ok_set)
next
  case (stored q k)
  have "queue_ok (q\<lparr>oq_queue := oq_queue q @ [p],
                    oq_queued_bytes := oq_queued_bytes q + int (payload_bytes p)\<rparr>)"
    using queues_ok_get [OF assms stored(1)] stored(5,6) by (simp add: queue_ok_def)
  then show ?thesis
    using assms stored(7) by (simp add: enqueue_outbound_def queues_ok_set)
qed

lemma queues_ok_take [keep]:
  assumes "queues_ok (pm_outbound m)"
  shows "queues_ok (pm_outbound (drain_take c m))"
proof (cases "dict_get (pm_outbound m) (co_id c)")
  case (Some q)
  then have "queue_ok q" using assms queues_ok_get by blast
  then show ?thesis
    using assms Some
    by (auto simp: drain_take_def queue_ok_def split: list.split intro!: queues_ok_set)
qed (use assms in \<open>simp add: drain_take_def\<close>)

lemma queues_ok_update:
  assumes "queues_ok (pm_outbound m)" and "\<And>q. queue_ok q \<Longrightarrow> queue_ok (f q)"
  shows "queues_ok (pm_outbound (update_outbound i f m))"
  using assms queues_ok_get [OF assms(1)]
  by (auto simp: update_outbound_def split: option.split intro!: queues_ok_set)

lemma queues_ok_finish [keep]:
  "queues_ok (pm_outbound m) \<Longrightarrow> queues_ok (pm_outbound (drain_finish outcome c m))"
  by (cases outcome) (auto simp: fail_outbound_def intro!: queues_ok_update queues_ok_drop_socket)

lemma enqueue_connections:
  obtains "pm_connections (snd (enqueue_outbound c p m)) = pm_connections m"
  | m1 where "pm_connections m1 = pm_connections m"
      "pm_connections (snd (enqueue_outbound c p m)) = pm_connections (drop_socket c m1)"
proof (cases rule: enqueue_section_cases [of c p m])
  case (overflow q k)
  then show ?thesis
    by (intro that(2) [of "pm_count ''socket_queue_rejected''
          (m\<lparr>pm_outbound := dict_set (co_id c) (q\<lparr>oq_failed := True\<rparr>) (pm_outbound m)\<rparr>)"])
       (simp_all add: enqueue_outbound_def)
qed (simp_all add: enqueue_outbound_def that(1))

lemma remove_connections_cong:
  "pm_connections m1 = pm_connections m \<Longrightarrow>
     pm_connections (drop_socket c m1) = pm_connections (drop_socket c m)"
  by (auto simp: drop_socket_def pm_remove_def conns_def split: option.split)

lemma conns_ok_enqueue [keep]:
  "conns_ok (pm_connections m) \<Longrightarrow> conns_ok (pm_connections (snd (enqueue_outbound c p m)))"
  by (cases rule: enqueue_connections [of c p m]) (simp_all add: conns_ok_drop_socket)

lemma conns_ok_finish [keep]:
  "conns_ok (pm_connections m) \<Longrightarrow> conns_ok (pm_connections (drain_finish outcome c m))"
  by (cases outcome) (simp_all add: fail_outbound_def conns_ok_drop_socket)

lemma take_rest [simp]:
  "pm_connections (drain_take c m) = pm_connections m"
  "pm_signaling (drain_take c m) = pm_signaling m"
  "pm_signaling_account_totals (drain_take c m) = pm_signaling_account_totals m"
  by (auto simp: drain_take_def split: option.split list.split)

lemma remove_signaling [simp]:
  "pm_signaling (snd (pm_remove c m)) = pm_signaling m"
  "pm_signaling_account_totals (snd (pm_remove c m)) = pm_signaling_account_totals m"
  by (auto simp: pm_remove_def split: option.split)

lemma drop_socket_signaling [simp]:
  "pm_signaling (drop_socket c m) = pm_signaling m"
  "pm_signaling_account_totals (drop_socket c m) = pm_signaling_account_totals m"
  by (simp_all add: drop_socket_def)

lemma enqueue_signaling [simp]:
  "pm_signaling (snd (enqueue_outbound c p m)) = pm_signaling m"
  "pm_signaling_account_totals (snd (enqueue_outbound c p m)) = pm_signaling_account_totals m"
  by (cases rule: enqueue_section_cases [of c p m]; simp add: enqueue_outbound_def)+

lemma finish_signaling [simp]:
  "pm_signaling (drain_finish outcome c m) = pm_signaling m"
  "pm_signaling_account_totals (drain_finish outcome c m) = pm_signaling_account_totals m"
  by (cases outcome; simp add: fail_outbound_def)+

section \<open>Signaling budgets\<close>

lemma signaling_okD:
  assumes "signaling_ok own m"
  shows "dict_ok (pm_signaling m)" and "dict_all (\<lambda>t u. usage_ok (own t) u) (pm_signaling m)"
    and "account_total m a = spent a (pm_signaling m)"
    and "account_total m a \<le> MAX_SIGNALING_MESSAGES_PER_ACCOUNT"
    and "dict_get (pm_signaling m) t = Some u \<Longrightarrow> usage_ok (own t) u"
  using assms dict_all_get [of "\<lambda>t. usage_ok (own t)" "pm_signaling m" t u]
  unfolding signaling_ok_def by blast+

lemma usage_ok_nonneg: "usage_ok a u \<Longrightarrow> 0 \<le> su_total u"
  by (auto simp: usage_ok_def intro: dict_sum_nonneg dict_all_mono)

lemma spent_nonneg:
  assumes "signaling_ok own m"
  shows "0 \<le> spent a (pm_signaling m)"
proof -
  have "dict_all (\<lambda>t u. 0 \<le> (if su_account_id u = a then su_total u else 0)) (pm_signaling m)"
    using signaling_okD(2) [OF assms] by (rule dict_all_mono) (auto dest: usage_ok_nonneg)
  then show ?thesis unfolding spent_def by (rule dict_sum_nonneg)
qed

lemma release_cases:
  obtains (absent) "release_signaling t m = (False, m)" "dict_get (pm_signaling m) t = None"
  | (gone) u where "dict_get (pm_signaling m) t = Some u" "fst (release_signaling t m)"
      "pm_signaling (snd (release_signaling t m)) = dict_del t (pm_signaling m)"
      "\<And>a. account_total (snd (release_signaling t m)) a =
         (if a = su_account_id u then max 0 (account_total m a - su_total u) else account_total m a)"
proof (cases "dict_get (pm_signaling m) t")
  case None
  then show ?thesis by (intro absent) (simp_all add: release_signaling_def)
next
  case (Some u)
  then show ?thesis
    by (intro gone [of u]) (auto simp: release_signaling_def Let_def account_total_def)
qed

lemma release_rest [simp]:
  "pm_connections (snd (release_signaling t m)) = pm_connections m"
  "pm_outbound (snd (release_signaling t m)) = pm_outbound m"
  "pm_metrics (snd (release_signaling t m)) = pm_metrics m"
  by (simp_all add: release_signaling_def Let_def split: option.split)

lemma signaling_ok_release [keep]:
  assumes ok: "signaling_ok own m"
  shows "signaling_ok own (snd (release_signaling t m))"
proof (cases rule: release_cases [of t m])
  case absent
  then show ?thesis using ok by simp
next
  case (gone u)
  let ?S = "pm_signaling m" and ?m = "snd (release_signaling t m)"
  have u: "usage_ok (own t) u" using signaling_okD(5) [OF ok gone(1)] .
  have sp: "spent a (dict_del t ?S) = spent a ?S - (if su_account_id u = a then su_total u else 0)" for a
    using gone(1) signaling_okD(1) [OF ok] by (simp add: spent_def dict_sum_del)
  have nn: "0 \<le> spent a (dict_del t ?S)" for a
    unfolding spent_def
    by (rule dict_sum_nonneg, rule dict_all_mono [OF dict_all_del [OF signaling_okD(2) [OF ok]]])
       (auto dest: usage_ok_nonneg)
  have "account_total ?m a = spent a (dict_del t ?S) \<and>
        account_total ?m a \<le> MAX_SIGNALING_MESSAGES_PER_ACCOUNT" for a
    using gone(4) [of a] sp [of a] nn [of a] signaling_okD(3,4) [OF ok, of a] usage_ok_nonneg [OF u]
    by (auto simp: max_def)
  then show ?thesis
    using signaling_okD(1,2) [OF ok] unfolding signaling_ok_def gone(3)
    by (blast intro: dict_all_del dict_ok_del)
qed

lemma signaling_ok_noted [simp]:
  "signaling_ok own (pm_count n m) = signaling_ok own m"
  "signaling_ok own (m\<lparr>pm_metrics := x\<rparr>) = signaling_ok own m"
  "signaling_ok own (m\<lparr>pm_metrics := x, pm_wire := w\<rparr>) = signaling_ok own m"
  by (simp_all add: signaling_ok_def account_total_def)

lemma signaling_ok_clear [keep]:
  "signaling_ok own m \<Longrightarrow> signaling_ok own (clear_signaling_state t m)"
  using signaling_ok_release [of own m t]
  by (cases "release_signaling t m") (simp add: clear_signaling_state_def)

lemma fold_release:
  "signaling_ok own m \<Longrightarrow> signaling_ok own (fold (\<lambda>t m. snd (release_signaling t m)) ts m)"
  by (induction ts arbitrary: m) (simp_all add: signaling_ok_release)

lemma fold_release_rest [simp]:
  "pm_connections (fold (\<lambda>t m. snd (release_signaling t m)) ts m) = pm_connections m"
  "pm_outbound (fold (\<lambda>t m. snd (release_signaling t m)) ts m) = pm_outbound m"
  by (induction ts arbitrary: m) simp_all

lemma signaling_ok_prune [keep]:
  "signaling_ok own m \<Longrightarrow> signaling_ok own (prune_signaling_state now m)"
  by (simp add: prune_signaling_state_def Let_def fold_release)

lemma prune_signaling_rest [simp]:
  "pm_connections (prune_signaling_state now m) = pm_connections m"
  "pm_outbound (prune_signaling_state now m) = pm_outbound m"
  by (simp_all add: prune_signaling_state_def Let_def)

lemma clear_signaling_rest [simp]:
  "pm_connections (clear_signaling_state t m) = pm_connections m"
  "pm_outbound (clear_signaling_state t m) = pm_outbound m"
  using release_rest [of t m]
  by (cases "release_signaling t m"; simp add: clear_signaling_state_def)+

lemma count_of_val: "count_of u k = dict_val (\<lambda>n. n) (dict_get (su_counts u) k)"
  by (simp add: count_of_def dict_val_def)

text \<open>Charging one message to an account's usage that is within all three budgets.\<close>

lemma usage_ok_charge:
  assumes "usage_ok a u"
    and "count_of u k < (if snd k \<in> set SINGLE_USE_MESSAGE_TYPES then 1 else MAX_SIGNALING_ICE_CANDIDATES)"
    and "su_total u < MAX_SIGNALING_MESSAGES"
  shows "usage_ok a (u\<lparr>su_counts := dict_set k (count_of u k + 1) (su_counts u),
                       su_total := su_total u + 1, su_updated_at := t\<rparr>)"
proof -
  have "0 \<le> count_of u k"
    using assms(1) dict_all_get [of _ "su_counts u" k]
    by (cases "dict_get (su_counts u) k") (fastforce simp: usage_ok_def count_of_def)+
  then show ?thesis
    using assms
    by (auto simp: usage_ok_def dict_sum_set count_of_val [symmetric] intro!: dict_all_set)
qed

lemma usage_ok_fresh: "usage_ok a \<lparr>su_account_id = a, su_updated_at = t, su_total = 0, su_counts = []\<rparr>"
  by (simp add: usage_ok_def MAX_SIGNALING_MESSAGES_def)

lemma signaling_ok_store:
  assumes ok: "signaling_ok own m" and u: "usage_ok (own t) u"
    and grow: "su_total u = dict_val su_total (dict_get (pm_signaling m) t) + k" "0 \<le> k"
    and tot: "\<And>a. account_total m' a = (if a = own t then account_total m a + k else account_total m a)"
    and lim: "account_total m (own t) + k \<le> MAX_SIGNALING_MESSAGES_PER_ACCOUNT"
    and sig: "pm_signaling m' = dict_set t u (pm_signaling m)"
  shows "signaling_ok own m'"
proof -
  have own: "dict_val (\<lambda>u. if su_account_id u = a then su_total u else 0) (dict_get (pm_signaling m) t) =
               (if own t = a then dict_val su_total (dict_get (pm_signaling m) t) else 0)" for a
    using signaling_okD(5) [OF ok, of t]
    by (cases "dict_get (pm_signaling m) t") (auto simp: usage_ok_def)
  have "spent a (dict_set t u (pm_signaling m)) =
          spent a (pm_signaling m) + (if own t = a then k else 0)" for a
    using u grow own [of a] by (simp add: spent_def dict_sum_set usage_ok_def)
  then have "account_total m' a = spent a (pm_signaling m') \<and>
             account_total m' a \<le> MAX_SIGNALING_MESSAGES_PER_ACCOUNT" for a
    using tot [of a] lim signaling_okD(3,4) [OF ok, of a] by (auto simp: sig)
  then show ?thesis
    using signaling_okD(1,2) [OF ok] u unfolding signaling_ok_def sig
    by (blast intro: dict_all_set dict_ok_set)
qed

lemma signaling_ok_record [keep]:
  assumes ok: "signaling_ok own m" and own: "own t = co_account_id c"
  shows "signaling_ok own (snd (record_signaling_use t1 t2 t c ty m))"
proof -
  define u where "u = (case dict_get (pm_signaling m) t of Some u \<Rightarrow> u
    | None \<Rightarrow> \<lparr>su_account_id = co_account_id c, su_updated_at = t1, su_total = 0, su_counts = []\<rparr>)"
  have u: "usage_ok (own t) u" "su_total u = dict_val su_total (dict_get (pm_signaling m) t)"
    using signaling_okD(5) [OF ok, of t] usage_ok_fresh [of "own t" t1]
    by (auto simp: u_def own split: option.split)
  let ?k = "(co_device_id c, ty)"
  let ?stop = "count_of u ?k \<ge> (if ty \<in> set SINGLE_USE_MESSAGE_TYPES then 1 else MAX_SIGNALING_ICE_CANDIDATES)
     \<or> su_total u \<ge> MAX_SIGNALING_MESSAGES
     \<or> account_total m (co_account_id c) \<ge> MAX_SIGNALING_MESSAGES_PER_ACCOUNT"
  let ?m = "snd (record_signaling_use t1 t2 t c ty m)"
  have tot: "account_total (m\<lparr>pm_signaling := S\<rparr>) a = account_total m a" for S a
    by (simp add: account_total_def)
  show ?thesis
  proof (cases ?stop)
    case True
    then have "?m = m\<lparr>pm_signaling := dict_set t u (pm_signaling m)\<rparr>"
      by (simp add: record_signaling_use_def Let_def tot flip: u_def)
    then show ?thesis
      using u ok signaling_okD(4) [OF ok] tot by (intro signaling_ok_store [OF ok u(1), of 0]) simp_all
  next
    case False
    let ?u = "u\<lparr>su_counts := dict_set ?k (count_of u ?k + 1) (su_counts u),
                su_total := su_total u + 1, su_updated_at := t2\<rparr>"
    have m: "?m = m\<lparr>pm_signaling := dict_set t ?u (pm_signaling m),
                 pm_signaling_account_totals :=
                   dict_set (co_account_id c) (account_total m (co_account_id c) + 1)
                     (pm_signaling_account_totals m)\<rparr>"
      using False by (simp add: record_signaling_use_def Let_def tot flip: u_def)
    have "usage_ok (own t) ?u"
      using False by (intro usage_ok_charge [OF u(1)]) auto
    then show ?thesis
      by (rule signaling_ok_store [OF ok, of t ?u 1])
         (use False u(2) in \<open>auto simp: m own account_total_def\<close>)
  qed
qed

lemma record_rest [simp]:
  "pm_connections (snd (record_signaling_use t1 t2 t c ty m)) = pm_connections m"
  "pm_outbound (snd (record_signaling_use t1 t2 t c ty m)) = pm_outbound m"
  by (simp_all add: record_signaling_use_def Let_def)

section \<open>Sockets and their queues\<close>

lemma linked_okI:
  assumes "\<And>a v c. conn_at m a v = Some c \<Longrightarrow> dict_get (pm_outbound m) (co_id c) \<noteq> None"
    and "\<And>a v c a' v' c'. conn_at m a v = Some c \<Longrightarrow> conn_at m a' v' = Some c' \<Longrightarrow>
           co_id c = co_id c' \<Longrightarrow> a = a' \<and> v = v'"
  shows "linked_ok m"
  using assms unfolding linked_ok_def by blast

lemma linked_ok_shrink:
  assumes "linked_ok m" and "subconns m' m"
    and "\<And>a v c. conn_at m' a v = Some c \<Longrightarrow> dict_get (pm_outbound m) (co_id c) \<noteq> None \<Longrightarrow>
           dict_get (pm_outbound m') (co_id c) \<noteq> None"
  shows "linked_ok m'"
  using assms unfolding linked_ok_def subconns_def by blast

lemma linked_ok_outbound:
  assumes "linked_ok m" and "pm_connections m' = pm_connections m"
    and "\<And>i. dict_get (pm_outbound m) i \<noteq> None \<Longrightarrow> dict_get (pm_outbound m') i \<noteq> None"
  shows "linked_ok m'"
  using assms(1) subconns_same [OF assms(2)] assms(3) by (rule linked_ok_shrink)

lemma conn_at_drop:
  "conn_at (drop_device a v m) b w = (if b = a \<and> w = v then None else conn_at m b w)"
proof -
  have "conns (drop_device a v m) b = (if b = a then dict_del v (conns m a) else conns m b)"
    by (simp add: drop_device_def)
  then show ?thesis by (simp add: conn_at_def)
qed

text \<open>Taking the registered socket of a device away together with its queue.\<close>

lemma linked_ok_cut:
  assumes "linked_ok m" and "conn_at m a v = Some k" and "co_id k = i"
  shows "linked_ok (pop_outbound i (drop_device a v m))"
proof (rule linked_ok_shrink [OF assms(1)])
  have conn: "conn_at (pop_outbound i (drop_device a v m)) = conn_at (drop_device a v m)"
    by (rule conn_at_cong) simp
  show "subconns (pop_outbound i (drop_device a v m)) m"
    using subconns_drop_device [of a v m] by (simp add: subconns_def conn)
  show "dict_get (pm_outbound (pop_outbound i (drop_device a v m))) (co_id c) \<noteq> None"
    if "conn_at (pop_outbound i (drop_device a v m)) b w = Some c"
      "dict_get (pm_outbound m) (co_id c) \<noteq> None" for b w c
  proof -
    have "conn_at m b w = Some c" "\<not> (b = a \<and> w = v)"
      using that(1) by (simp_all add: conn conn_at_drop split: if_splits)
    then have "co_id c \<noteq> i"
      using assms unfolding linked_ok_def by blast
    then show ?thesis using that(2) by simp
  qed
qed

lemma linked_ok_noted:
  "linked_ok m \<Longrightarrow> pm_connections m' = pm_connections m \<Longrightarrow> pm_outbound m' = pm_outbound m \<Longrightarrow>
     linked_ok m'"
  by (rule linked_ok_outbound) simp_all

lemma linked_ok_remove [keep]: "linked_ok m \<Longrightarrow> linked_ok (snd (pm_remove c m))"
  by (auto simp: pm_remove_def conn_at_def conns_def intro: linked_ok_cut split: option.split)

lemma linked_ok_drop_socket [keep]: "linked_ok m \<Longrightarrow> linked_ok (drop_socket c m)"
  using linked_ok_remove [of m c] by (rule linked_ok_noted) (simp_all add: drop_socket_def)

lemma linked_ok_update: "linked_ok m \<Longrightarrow> linked_ok (update_outbound i f m)"
  by (rule linked_ok_outbound [of m]) (auto simp: update_outbound_def split: option.split)

lemma linked_ok_enqueue [keep]:
  assumes "linked_ok m"
  shows "linked_ok (snd (enqueue_outbound c p m))"
proof (cases rule: enqueue_section_cases [of c p m])
  case same
  then show ?thesis using assms by (simp add: enqueue_outbound_def)
next
  case (overflow q k)
  let ?m = "pm_count ''socket_queue_rejected''
     (m\<lparr>pm_outbound := dict_set (co_id c) (q\<lparr>oq_failed := True\<rparr>) (pm_outbound m)\<rparr>)"
  have "linked_ok ?m"
    using assms by (rule linked_ok_outbound) auto
  then show ?thesis
    using overflow(4) by (simp add: enqueue_outbound_def linked_ok_drop_socket)
next
  case (stored q k)
  show ?thesis
    using assms by (rule linked_ok_outbound) (auto simp: enqueue_outbound_def stored(7))
qed

lemma linked_ok_take [keep]: "linked_ok m \<Longrightarrow> linked_ok (drain_take c m)"
  by (rule linked_ok_outbound [of m]) (auto simp: drain_take_def split: option.split list.split)

lemma linked_ok_finish [keep]: "linked_ok m \<Longrightarrow> linked_ok (drain_finish outcome c m)"
  by (cases outcome)
     (auto simp: fail_outbound_def intro!: linked_ok_update linked_ok_drop_socket elim: linked_ok_noted)

lemma conn_at_put:
  assumes "pm_connections m' = put_conns a d (pm_connections m)"
  shows "conn_at m' b w = (if b = a then dict_get d w else conn_at m b w)"
  using assms by (auto simp: conn_at_def conns_def dict_get_put_conns)

lemma linked_ok_register [keep]:
  assumes ok: "linked_ok m" and fresh: "fresh_id m (co_id c)"
  shows "linked_ok (snd (register c m))"
proof (cases rule: register_cases [of c m])
  case full
  have "conn_at (snd (register c m)) b w = conn_at m b w" for b w
    using conn_at_put [OF full(2), of b w] by (simp add: conn_at_def)
  then show ?thesis
    using ok full(3) by (simp add: linked_ok_def)
next
  case (admitted previous)
  let ?m = "snd (register c m)" and ?a = "co_account_id c" and ?v = "co_device_id c"
  have conn: "conn_at ?m b w = (if b = ?a \<and> w = ?v then Some c else conn_at m b w)" for b w
    using conn_at_put [OF admitted(3), of b w] by (simp add: conn_at_def)
  have uniq: "co_id k = co_id k' \<Longrightarrow> b = b' \<and> w = w'"
    if "conn_at m b w = Some k" "conn_at m b' w' = Some k'" for b w k b' w' k'
    using ok that unfolding linked_ok_def by blast
  have new: "co_id k \<noteq> co_id c" if "conn_at m b w = Some k" for b w k
    using fresh that by (auto simp: fresh_id_def)
  have out: "dict_get (pm_outbound ?m) (co_id k) \<noteq> None" if k: "conn_at ?m b w = Some k" for b w k
  proof (cases "b = ?a \<and> w = ?v")
    case True
    then show ?thesis using k conn [of b w] admitted(4) by auto
  next
    case False
    then have old: "conn_at m b w = Some k" using k conn [of b w] by (simp split: if_splits)
    have "co_id k \<noteq> co_id p" if p: "previous = Some p" for p
      using uniq [OF old, of ?a ?v p] p admitted(2) False by auto
    moreover have "dict_get (pm_outbound m) (co_id k) \<noteq> None"
      using ok old unfolding linked_ok_def by blast
    ultimately show ?thesis
      using admitted(4) by (auto split: option.split)
  qed
  show ?thesis
  proof (rule linked_okI)
    show "b = b' \<and> w = w'"
      if "conn_at ?m b w = Some k" "conn_at ?m b' w' = Some k'" "co_id k = co_id k'" for b w k b' w' k'
    proof -
      have "b = ?a \<and> w = ?v \<and> k = c \<or> conn_at m b w = Some k"
        "b' = ?a \<and> w' = ?v \<and> k' = c \<or> conn_at m b' w' = Some k'"
        using that(1,2) by (simp_all only: conn split: if_splits) auto
      then show ?thesis
        using that(3) new [of b w k] new [of b' w' k'] uniq [of b w k b' w' k'] by auto
    qed
  qed (rule out)
qed

lemma linked_ok_touch [keep]:
  assumes ok: "linked_ok m"
  shows "linked_ok (snd (touch_heartbeat now c m))"
proof -
  let ?m = "snd (touch_heartbeat now c m)"
  have same: "map_option co_id (conn_at ?m b w) = map_option co_id (conn_at m b w)" for b w
  proof (cases "\<exists>k. conn_at m (co_account_id c) (co_device_id c) = Some k \<and> co_id k = co_id c")
    case True
    then obtain k where "conn_at m (co_account_id c) (co_device_id c) = Some k" "co_id k = co_id c"
      by blast
    then have "pm_connections ?m =
        put_conns (co_account_id c)
          (dict_set (co_device_id c) (k\<lparr>co_last_heartbeat_at := now\<rparr>) (conns m (co_account_id c)))
          (pm_connections m)"
      by (simp add: touch_connections)
    from conn_at_put [OF this, of b w] \<open>conn_at m _ _ = Some k\<close> show ?thesis
      by (auto simp: conn_at_def)
  next
    case False
    then have "pm_connections ?m = pm_connections m"
      by (auto simp: touch_connections split: option.split)
    then show ?thesis by (simp add: conn_at_cong [of ?m m])
  qed
  show ?thesis
    unfolding linked_ok_def touch_rest
  proof (intro conjI allI impI)
    fix a v k
    assume "conn_at ?m a v = Some k"
    then obtain k0 where "conn_at m a v = Some k0" "co_id k0 = co_id k"
      using same [of a v] by (cases "conn_at m a v") auto
    then show "dict_get (pm_outbound m) (co_id k) \<noteq> None"
      using ok unfolding linked_ok_def by metis
  next
    fix a v k a' v' k'
    assume "conn_at ?m a v = Some k" "conn_at ?m a' v' = Some k'" "co_id k = co_id k'"
    then obtain k0 k1 where "conn_at m a v = Some k0" "conn_at m a' v' = Some k1" "co_id k0 = co_id k1"
      using same [of a v] same [of a' v'] by (cases "conn_at m a v"; cases "conn_at m a' v'") auto
    then show "a = a'" "v = v'"
      using ok unfolding linked_ok_def by blast+
  qed
qed

lemma linked_ok_prune [keep]:
  assumes "linked_ok m" and "conns_ok (pm_connections m)"
  shows "linked_ok (snd (prune_sockets now account_id m))"
  using assms(1) prune_sockets_keeps(2) [OF assms(2)]
  by (rule linked_ok_shrink) (simp add: prune_sockets_keeps(3) [OF assms(2)])

lemma linked_ok_expire [keep]:
  assumes "linked_ok m" and "\<forall>a v k. conn_at m a v = Some k \<longrightarrow> co_id k \<noteq> co_id c"
  shows "linked_ok (expire_socket c m)"
proof -
  have "conn_at (expire_socket c m) = conn_at m"
    by (rule conn_at_cong) (simp add: expire_socket_def)
  then show ?thesis
    using assms by (auto simp: linked_ok_def expire_socket_def)
qed

lemma linked_ok_disconnect [keep]:
  assumes "linked_ok m"
  shows "linked_ok (disconnect_account a m)"
proof (rule linked_ok_shrink [OF assms])
  have "dict_del a (pm_connections m) = put_conns a [] (pm_connections m)"
    by (simp add: put_conns_def)
  then show "subconns (disconnect_account a m) m"
    by (intro subconns_put [of "[]" m a]) (simp_all add: disconnect_account_def)
qed (simp add: disconnect_account_def)

lemma linked_ok_close_all [keep]: "linked_ok (close_all m)"
proof -
  have "conn_at (close_all m) a v = None" for a v
    by (simp add: conn_at_def conns_def close_all_def)
  then show ?thesis by (simp add: linked_ok_def)
qed

section \<open>The invariant holds in every reachable state\<close>

lemma presence_ok_init: "new_manager h = Inr m \<Longrightarrow> presence_ok own m"
  by (auto simp: new_manager_def presence_ok_def queues_ok_def signaling_ok_def linked_ok_def
      conn_at_def conns_def account_total_def spent_def MAX_SIGNALING_MESSAGES_PER_ACCOUNT_def
      split: if_splits)

lemma close_all_signaling: "signaling_ok own (close_all m)"
  by (simp add: signaling_ok_def close_all_def account_total_def spent_def
      MAX_SIGNALING_MESSAGES_PER_ACCOUNT_def)

lemma signaling_ok_step:
  assumes "presence_step own m m'" and "signaling_ok own m" and "conns_ok (pm_connections m)"
  shows "signaling_ok own m'"
  using assms(1)
proof cases
  case (charged t c t1 t2 ty)
  then show ?thesis using assms(2) by (simp add: signaling_ok_record)
next
  case (pruned now account_id)
  then show ?thesis
    using assms(2) prune_sockets_keeps(4,5) [OF assms(3)] signaling_ok_cong [of m' m own] by simp
qed (use assms(2) signaling_ok_cong [of m' m own] in \<open>auto simp: signaling_ok_clear signaling_ok_prune close_all_signaling
      expire_socket_def disconnect_account_def\<close>)

lemma presence_ok_step:
  assumes "presence_step own m m'" and "presence_ok own m"
  shows "presence_ok own m'"
proof -
  have ok: "conns_ok (pm_connections m)" "queues_ok (pm_outbound m)" "signaling_ok own m" "linked_ok m"
    using assms(2) by (simp_all add: presence_ok_def)
  have sig: "signaling_ok own m'"
    using assms(1) ok(3,1) by (rule signaling_ok_step)
  have "conns_ok (pm_connections m') \<and> queues_ok (pm_outbound m') \<and> linked_ok m'"
    using assms(1)
  proof cases
    case (pruned now account_id)
    then show ?thesis
      using ok prune_sockets_keeps [OF ok(1)] by (simp add: linked_ok_prune)
  next
    case (cut a v c)
    have "linked_ok (pop_outbound (co_id c) (drop_device a v m))"
      using ok(4) cut(2) by (rule linked_ok_cut) simp
    then have "linked_ok m'"
      by (rule linked_ok_noted) (simp_all add: cut(1))
    then show ?thesis
      using ok cut conns_ok_drop_device [OF ok(1), of a v] by (simp add: queues_ok_del)
  next
    case (expired c)
    then show ?thesis
      using ok linked_ok_expire by (auto simp: expire_socket_def queues_ok_del)
  next
    case (account_cut a)
    then show ?thesis
      using ok linked_ok_disconnect [OF ok(4)] conns_ok_disconnect [OF ok(1)]
      by (simp add: disconnect_account_def)
  next
    case closed
    then show ?thesis
      using linked_ok_close_all [of m] by (simp add: close_all_def queues_ok_def)
  next
    case (noted x w)
    then show ?thesis
      using ok by (auto elim: linked_ok_noted)
  qed (use ok in \<open>auto simp: keep intro: linked_ok_noted\<close>)
  with sig show ?thesis by (simp add: presence_ok_def)
qed

lemma presence_ok_steps: "(presence_step own)\<^sup>*\<^sup>* m m' \<Longrightarrow> presence_ok own m \<Longrightarrow> presence_ok own m'"
  by (induction rule: rtranclp_induct) (auto intro: presence_ok_step)

section \<open>The methods are sequences of steps\<close>

abbreviation steps :: "(uuid \<Rightarrow> uuid) \<Rightarrow> manager \<Rightarrow> manager \<Rightarrow> bool" where
  "steps own \<equiv> (presence_step own)\<^sup>*\<^sup>*"

lemma steps_noted: "m' = m\<lparr>pm_metrics := x, pm_wire := w\<rparr> \<Longrightarrow> steps own m m'"
  by (rule r_into_rtranclp, erule presence_step.noted)

lemma steps_count: "steps own m (pm_count n m)"
  by (rule steps_noted [where w = "pm_wire m"]) (simp add: pm_count_def)

lemma steps_close: "steps own m (ws_close w k m)"
  by (rule steps_noted [where x = "pm_metrics m"]) (simp add: ws_close_def)

lemma steps_wire: "steps own m (m\<lparr>pm_wire := w\<rparr>)"
  by (rule steps_noted [where x = "pm_metrics m"]) simp

text \<open>A socket that pruning took out is not registered any more under any device.\<close>

lemma prune_account_expired:
  assumes ok: "conns_ok (pm_connections m)" and pr: "prune_account now a (ex, m) = (ex', m')"
    and c: "c \<in> set ex'" "c \<notin> set ex"
  shows "conn_at m a (co_device_id c) = Some c \<and> conn_at m' a (co_device_id c) = None"
proof -
  obtain d where d: "dict_get (pm_connections m) a = Some d"
    and m': "pm_connections m' =
      put_conns a (filter (\<lambda>(v, c). \<not> socket_expired now m c) d) (pm_connections m)"
    and ex': "ex' = ex @ map snd (filter (\<lambda>(v, c). socket_expired now m c) d)"
    using pr c by (auto simp: prune_account_def Let_def split: option.splits)
  have cs: "dict_ok d" "dict_all (\<lambda>v c. co_account_id c = a \<and> co_device_id c = v) d" "conns m a = d"
    using conns_okD(3) [OF ok d] d by (simp_all add: conns_def)
  obtain v where v: "(v, c) \<in> set d" "socket_expired now m c"
    using c ex' by auto
  then have get: "dict_get d v = Some c" using cs(1) by (simp add: dict_get_iff)
  have "co_device_id c = v" using dict_all_get [OF cs(2) get] by simp
  moreover have "dict_get (filter (\<lambda>(v, c). \<not> socket_expired now m c) d) v = None"
  proof (cases "dict_get (filter (\<lambda>(v, c). \<not> socket_expired now m c) d) v")
    case (Some k)
    then show ?thesis using get v(2) by (simp add: dict_get_filter [OF cs(1)])
  qed
  ultimately show ?thesis
    using get conn_at_put [OF m', of a v] cs(3) by (simp add: conn_at_def)
qed

lemma prune_fold_expired:
  assumes "conns_ok (pm_connections m)" and "fold (prune_account now) as (ex, m) = (ex', m')"
    and "c \<in> set ex'" "c \<notin> set ex"
  shows "\<exists>a v. conn_at m a v = Some c \<and> conn_at m' a v = None"
  using assms
proof (induction as arbitrary: ex m)
  case (Cons a as)
  obtain ex1 m1 where pr: "prune_account now a (ex, m) = (ex1, m1)" by fastforce
  have fold: "fold (prune_account now) as (ex1, m1) = (ex', m')"
    using Cons.prems(2) pr by simp
  note k = prune_account_keeps [OF Cons.prems(1) pr]
  have sub: "subconns m' m1"
    using prune_fold_keeps [OF k(1), of now as ex1] fold by simp
  show ?case
  proof (cases "c \<in> set ex1")
    case True
    then have "conn_at m a (co_device_id c) = Some c" "conn_at m1 a (co_device_id c) = None"
      using prune_account_expired [OF Cons.prems(1) pr] Cons.prems(4) by blast+
    moreover have "conn_at m' a (co_device_id c) = None"
      using sub calculation(2) unfolding subconns_def by (cases "conn_at m' a (co_device_id c)") auto
    ultimately show ?thesis by blast
  next
    case False
    then show ?thesis
      using Cons.IH [OF k(1) fold Cons.prems(3)] k(2) unfolding subconns_def by blast
  qed
qed simp

lemma steps_expire_all:
  assumes "\<forall>c\<in>set cs. \<forall>a v k. conn_at m a v = Some k \<longrightarrow> co_id k \<noteq> co_id c"
  shows "steps own m (fold expire_socket cs m)"
  using assms
proof (induction cs arbitrary: m)
  case (Cons c cs)
  have conn: "conn_at (expire_socket c m) = conn_at m"
    by (rule conn_at_cong) (simp add: expire_socket_def)
  have "presence_step own m (expire_socket c m)"
    using Cons.prems by (intro presence_step.expired) simp
  moreover have "steps own (expire_socket c m) (fold expire_socket cs (expire_socket c m))"
    using Cons.prems by (intro Cons.IH) (simp add: conn)
  ultimately show ?case by (simp add: converse_rtranclp_into_rtranclp)
qed simp

lemma steps_prune_expired:
  assumes ok: "presence_ok own m"
  shows "steps own m (prune_expired now account_id m)"
proof -
  obtain ex m1 where pr: "prune_sockets now account_id m = (ex, m1)" by fastforce
  have c: "conns_ok (pm_connections m)" and l: "linked_ok m"
    using ok by (simp_all add: presence_ok_def)
  have sub: "subconns m1 m" using prune_sockets_keeps(2) [OF c, of now account_id] pr by simp
  have "co_id k \<noteq> co_id e" if e_in: "e \<in> set ex" and k_at: "conn_at m1 a v = Some k" for e a v k
  proof -
    obtain b w where e: "conn_at m b w = Some e" "conn_at m1 b w = None"
      using prune_fold_expired [OF c pr [unfolded prune_sockets_def], of e] e_in by auto
    have "conn_at m a v = Some k" using sub k_at by (simp add: subconns_def)
    then show ?thesis using e l k_at unfolding linked_ok_def by (metis option.distinct(1))
  qed
  then have "steps own m1 (fold expire_socket ex m1)"
    by (intro steps_expire_all) blast
  moreover have "presence_step own m m1"
    using presence_step.pruned [of own m now account_id] pr by simp
  moreover have "presence_step own (fold expire_socket ex m1)
      (prune_signaling_state now (fold expire_socket ex m1))"
    by (rule presence_step.signaling_pruned)
  ultimately show ?thesis
    by (simp add: prune_expired_def pr)
qed

text \<open>Composition of steps, with the invariant carried along.\<close>

definition safe :: "(uuid \<Rightarrow> uuid) \<Rightarrow> manager \<Rightarrow> manager \<Rightarrow> bool" where
  "safe own m m' \<longleftrightarrow> steps own m m' \<and> presence_ok own m'"

lemma safeI: "presence_ok own m \<Longrightarrow> steps own m m' \<Longrightarrow> safe own m m'"
  by (simp add: safe_def presence_ok_steps)

lemma safe_step: "presence_ok own m \<Longrightarrow> presence_step own m m' \<Longrightarrow> safe own m m'"
  by (rule safeI) auto

lemma safe_refl: "presence_ok own m \<Longrightarrow> safe own m m"
  by (simp add: safe_def)

lemma safe_trans: "safe own m m' \<Longrightarrow> (presence_ok own m' \<Longrightarrow> safe own m' m'') \<Longrightarrow> safe own m m''"
  by (auto simp: safe_def)

lemma safe_prune: "presence_ok own m \<Longrightarrow> safe own m (prune_expired now account_id m)"
  by (rule safeI) (auto intro: steps_prune_expired)

lemma safe_enqueue: "presence_ok own m \<Longrightarrow> safe own m (snd (enqueue_outbound c p m))"
  by (rule safe_step) (auto intro: presence_step.enqueued)

lemma safe_count: "safe own m m' \<Longrightarrow> safe own m (pm_count n m')"
  by (erule safe_trans) (auto intro: safeI steps_count)

lemma safe_close: "safe own m m' \<Longrightarrow> safe own m (ws_close w k m')"
  by (erule safe_trans) (auto intro: safeI steps_close)

lemma safe_wire: "safe own m m' \<Longrightarrow> safe own m (m'\<lparr>pm_wire := w\<rparr>)"
  by (erule safe_trans) (auto intro: safeI steps_wire)

lemma safe_send:
  assumes "presence_ok own m"
  shows "safe own m (snd (send_to_device now a v p m))"
proof -
  let ?m = "prune_expired now (Some a) m"
  have "safe own m ?m" using assms by (rule safe_prune)
  then have "safe own m (snd (enqueue_outbound c p ?m))" for c
    by (rule safe_trans) (rule safe_enqueue)
  then show ?thesis
    using \<open>safe own m ?m\<close>
    by (auto simp: send_to_device_def connection_for_def Let_def split: option.split)
qed

lemma safe_heartbeat:
  assumes "presence_ok own m"
  shows "safe own m (snd (heartbeat find_current now c m))"
  using safe_step [OF assms presence_step.removed [of own m c]]
    safe_step [OF assms presence_step.touched [of own m now c]]
  by (simp add: heartbeat_def)

lemma safe_fold:
  assumes "\<And>x m. presence_ok own m \<Longrightarrow> safe own m (f x m)" and "presence_ok own m"
  shows "safe own m (fold f xs m)"
  using assms(2)
proof (induction xs arbitrary: m)
  case (Cons x xs)
  have "safe own m (f x m)" using assms(1) Cons.prems .
  then show ?case by (auto intro: safe_trans Cons.IH)
qed (simp add: safe_refl)

lemma safe_broadcast:
  assumes "presence_ok own m"
  shows "safe own m (broadcast_presence get t1 t2 a m)"
proof -
  let ?m1 = "prune_expired t1 (Some a) m" and ?m2 = "prune_expired t2 (Some a) (prune_expired t1 (Some a) m)"
  have "safe own m ?m2"
    using safe_prune [OF assms] by (rule safe_trans) (rule safe_prune)
  then have "safe own m (fold (\<lambda>c m. snd (enqueue_outbound c p m)) cs ?m2)" for p cs
    by (rule safe_trans) (rule safe_fold, rule safe_enqueue)
  then show ?thesis
    by (simp add: broadcast_presence_def online_devices_def online_connections_def Let_def)
qed

lemma safe_disconnect_device:
  assumes "presence_ok own m"
  shows "safe own m (disconnect_device get t1 t2 a v m)"
proof (cases "dict_get (conns m a) v")
  case None
  then show ?thesis using assms by (simp add: disconnect_device_def safe_refl)
next
  case (Some c)
  have "safe own m (ws_close (co_websocket c) 1008 (pop_outbound (co_id c) (drop_device a v m)))"
    using Some by (intro safe_step [OF assms] presence_step.cut) (simp add: conn_at_def)
  then show ?thesis
    unfolding disconnect_device_def Some option.case by (rule safe_trans) (rule safe_broadcast)
qed

text \<open>The repository state gives each transfer to the account \<open>own\<close> says.\<close>

definition owned :: "(uuid \<Rightarrow> uuid) \<Rightarrow> 's transfer_port option \<Rightarrow> 's \<Rightarrow> bool" where
  "owned own repository s \<longleftrightarrow>
     (\<forall>repo a t r. repository = Some repo \<longrightarrow> tp_get_by_id repo a t s = Some r \<longrightarrow> own (tr_id r) = a)"

lemma safe_rejected: "safe own m m1 \<Longrightarrow> safe own m (fst (snd (signaling_rejected m1 s)))"
  by (simp add: signaling_rejected_def safe_count)

lemma safe_record:
  "presence_ok own m \<Longrightarrow> own t = co_account_id c \<Longrightarrow>
     safe own m (snd (record_signaling_use t1 t2 t c ty m))"
  by (rule safe_step) (auto intro: presence_step.charged)

lemma safe_deliver:
  assumes ok: "presence_ok own m" and own: "own (tr_id r) = co_account_id c"
  shows "safe own m (fst (snd (signaling_deliver clk c r sv rv ty p (m, s))))"
proof -
  obtain b1 m1 where 1: "record_signaling_use (clk 4) (clk 5) (tr_id r) c ty m = (b1, m1)" by fastforce
  obtain b2 m2 where 2: "send_to_device (clk 6) (co_account_id c)
      (if co_device_id c = sv then rv else sv) p m1 = (b2, m2)" by fastforce
  have s1: "safe own m m1" using safe_record [OF ok own] 1 by (metis snd_conv)
  have "safe own m1 m2" if "presence_ok own m1" using safe_send [OF that] 2 by (metis snd_conv)
  then have s2: "safe own m m2" using s1 by (blast intro: safe_trans)
  show ?thesis
    using s1 s2 safe_rejected [OF s1, of s] safe_rejected [OF s2, of s]
    by (cases b1; cases b2) (simp_all add: signaling_deliver_def 1 2 safe_count)
qed

lemma safe_forward:
  assumes ok: "presence_ok own m" and own: "owned own repository s"
  shows "safe own m (fst (snd (forward_signaling repository clk rclk c message (m, s))))"
proof (cases repository)
  case None
  then show ?thesis
    using safe_rejected [OF safe_refl [OF ok]] by (simp add: forward_signaling_def)
next
  case (Some repo)
  let ?m1 = "prune_signaling_state (clk 0) m"
  have 1: "safe own m ?m1" using ok by (rule safe_step) (rule presence_step.signaling_pruned)
  note rej = safe_rejected [OF 1]
  have 2: "safe own m (clear_signaling_state t ?m1)" for t
    using 1 by (rule safe_trans) (auto intro: safe_step presence_step.released)
  have 3: "safe own m (fst (snd (signaling_deliver clk c r sv rv ty message (?m1, s1))))"
    if "own (tr_id r) = co_account_id c" for r sv rv ty s1
    using 1 by (rule safe_trans) (rule safe_deliver, use that in auto)
  have "own (tr_id r) = co_account_id c" if "tp_get_by_id repo (co_account_id c) t s = Some r" for t r
    using own that Some by (simp add: owned_def)
  then show ?thesis
    using 1
    by (auto simp: forward_signaling_def Some Let_def rej safe_rejected [OF 2]
        split: sum.split option.split prod.split bool.split intro: 3)
qed

lemma safe_mode:
  assumes "presence_ok own m"
  shows "safe own m (fst (snd (record_connection_mode repository rclk c message (m, s))))"
  using safe_refl [OF assms] safe_count [OF safe_refl [OF assms]]
  by (simp add: record_connection_mode_def Let_def split: sum.split option.split prod.split bool.split)

section \<open>A sample state\<close>

text \<open>A manager with the sockets of devices 10 and 11 of account 1.\<close>

definition sample_conn :: "uuid \<Rightarrow> active_connection" where
  "sample_conn v =
     \<lparr>co_id = 100 + v, co_account_id = 1, co_device_id = v, co_session_id = 200 + v,
      co_websocket = v, co_connected_at = 0, co_last_heartbeat_at = 0\<rparr>"

definition empty_manager :: manager where
  "empty_manager =
     \<lparr>pm_heartbeat_timeout = PRESENCE_HEARTBEAT_TIMEOUT, pm_connections = [], pm_outbound = [],
      pm_signaling = [], pm_signaling_account_totals = [], pm_metrics = [], pm_wire = []\<rparr>"

definition sample_manager :: manager where
  "sample_manager = snd (register (sample_conn 11) (snd (register (sample_conn 10) empty_manager)))"

lemma empty_manager: "new_manager PRESENCE_HEARTBEAT_TIMEOUT = Inr empty_manager"
  by (simp add: new_manager_def empty_manager_def PRESENCE_HEARTBEAT_TIMEOUT_def time_defs)

lemmas sample_manager_defs =
  sample_manager_def sample_conn_def empty_manager_def register_def conns_def conn_at_def Let_def
  dict_get_def dict_set_def pm_count_def has_connection_capacity_def active_socket_count_def
  dict_values_def MAX_CONNECTIONS_PER_ACCOUNT_def MAX_TOTAL_CONNECTIONS_def new_queue_def

lemma sample_steps: "(presence_step own)\<^sup>*\<^sup>* empty_manager sample_manager"
proof -
  let ?m = "snd (register (sample_conn 10) empty_manager)"
  have 1: "fresh_id empty_manager (co_id (sample_conn 10))"
    by (simp add: fresh_id_def empty_manager_def conn_at_def conns_def)
  have 2: "fresh_id ?m (co_id (sample_conn 11))"
    by (auto simp: fresh_id_def sample_manager_defs split: if_splits)
  show ?thesis
    unfolding sample_manager_def
    using presence_step.registered [OF 1, of own] presence_step.registered [OF 2, of own]
    by (meson converse_rtranclp_into_rtranclp r_into_rtranclp)
qed

section \<open>Properties\<close>

lemma reachable_ok:
  assumes "new_manager h = Inr m0" and "steps own m0 m"
  shows "conns_ok (pm_connections m)" "queues_ok (pm_outbound m)" "signaling_ok own m" "linked_ok m"
  using presence_ok_steps [OF assms(2) presence_ok_init [OF assms(1)]]
  by (simp_all add: presence_ok_def)

text \<open>
  C20.  Resource limits of the socket layer.  In every state reachable from a new manager, by any
  interleaving of the atomic sections, an account has at most 8 sockets and the process at most
  512; every writer queue holds at most 32 messages, its byte counter is exactly the encoded size
  of the messages it holds, and that is at most 256 KiB.
\<close>

theorem presence_limits:
  assumes "new_manager h = Inr m0" and "(presence_step own)\<^sup>*\<^sup>* m0 m"
  shows "length (conns m a) \<le> 8 \<and> active_socket_count m \<le> 512 \<and>
         (dict_get (pm_outbound m) i = Some q \<longrightarrow>
            length (oq_queue q) \<le> 32 \<and>
            oq_queued_bytes q = int (sum_list (map payload_bytes (oq_queue q))) \<and>
            oq_queued_bytes q \<le> 262144)"
proof -
  note ok = reachable_ok [OF assms]
  have "int (active_socket_count m) \<le> 512"
    using conns_okD(2) [OF ok(1)] active_socket_count_sum [of m] by (simp add: MAX_TOTAL_CONNECTIONS_def)
  moreover have "queue_ok q" if "dict_get (pm_outbound m) i = Some q"
    using queues_ok_get [OF ok(2) that] .
  ultimately show ?thesis
    using conns_ok_conns(2) [OF ok(1), of a]
    by (auto simp: queue_ok_def MAX_CONNECTIONS_PER_ACCOUNT_def MAX_WEBSOCKET_QUEUE_MESSAGES_def
        MAX_WEBSOCKET_QUEUE_BYTES_def)
qed

theorem presence_limits_witness:
  "length (conns sample_manager 1) \<le> 8 \<and> active_socket_count sample_manager \<le> 512 \<and>
   dict_get (pm_outbound sample_manager) 110 = Some new_queue \<and> oq_queued_bytes new_queue \<le> 262144"
proof -
  have "dict_get (pm_outbound sample_manager) 110 = Some new_queue"
    by (simp add: sample_manager_defs)
  then show ?thesis
    using presence_limits [OF empty_manager sample_steps [of "\<lambda>_. 1"], of 1 110 new_queue] by blast
qed

text \<open>
  C21.  Signaling budgets.  In every reachable state each device has sent at most one message of
  each single-use type and at most 64 of another type for a transfer, a transfer's total is exactly
  the sum of those counts and at most 128, and the total kept for an account is exactly the sum
  over its transfers and at most 512: releasing and pruning give back what was charged, no more.
\<close>

theorem signaling_budgets:
  assumes "new_manager h = Inr m0" and "(presence_step own)\<^sup>*\<^sup>* m0 m"
  shows "(dict_get (pm_signaling m) t = Some u \<longrightarrow>
            su_account_id u = own t \<and>
            (dict_get (su_counts u) (v, ty) = Some n \<longrightarrow>
               0 \<le> n \<and> n \<le> (if ty \<in> set SINGLE_USE_MESSAGE_TYPES then 1 else 64)) \<and>
            su_total u = dict_sum (\<lambda>n. n) (su_counts u) \<and> su_total u \<le> 128) \<and>
         account_total m a =
           dict_sum (\<lambda>u. if su_account_id u = a then su_total u else 0) (pm_signaling m) \<and>
         account_total m a \<le> 512"
proof -
  note ok = reachable_ok(3) [OF assms]
  have "usage_ok (own t) u" if "dict_get (pm_signaling m) t = Some u"
    using signaling_okD(5) [OF ok that] .
  moreover have "0 \<le> n \<and> n \<le> (if ty \<in> set SINGLE_USE_MESSAGE_TYPES then 1 else 64)"
    if "usage_ok (own t) u" "dict_get (su_counts u) (v, ty) = Some n"
    using dict_all_get [OF _ that(2)] that(1)
    by (fastforce simp: usage_ok_def MAX_SIGNALING_ICE_CANDIDATES_def)
  ultimately show ?thesis
    using signaling_okD(3,4) [OF ok, of a]
    by (auto simp: usage_ok_def spent_def MAX_SIGNALING_MESSAGES_def
        MAX_SIGNALING_MESSAGES_PER_ACCOUNT_def)
qed

theorem signaling_budgets_witness:
  "account_total sample_manager 1 =
     dict_sum (\<lambda>u. if su_account_id u = 1 then su_total u else 0) (pm_signaling sample_manager) \<and>
   account_total sample_manager 1 \<le> 512"
  using signaling_budgets [OF empty_manager sample_steps [of "\<lambda>_. 1"], of 7 _ 10 _ _ 1] by blast

text \<open>
  The socket registry is consistent.  In every reachable state a registered socket stands
  under its own account and device, has a writer queue, and shares its identifier with no other
  registered socket.
\<close>

theorem socket_registry_consistent:
  assumes "new_manager h = Inr m0" and "(presence_step own)\<^sup>*\<^sup>* m0 m" and "conn_at m a v = Some c"
  shows "co_account_id c = a \<and> co_device_id c = v \<and> dict_get (pm_outbound m) (co_id c) \<noteq> None \<and>
         (\<forall>b w k. conn_at m b w = Some k \<and> co_id k = co_id c \<longrightarrow> b = a \<and> w = v)"
proof -
  note ok = reachable_ok [OF assms(1,2)]
  have "co_account_id c = a \<and> co_device_id c = v"
    using dict_all_get [OF conns_ok_conns(3) [OF ok(1)]] assms(3) by (auto simp: conn_at_def)
  then show ?thesis
    using ok(4) assms(3) unfolding linked_ok_def by blast
qed

theorem socket_registry_consistent_witness:
  "dict_get (pm_outbound sample_manager) 110 \<noteq> None"
proof -
  have "conn_at sample_manager 1 10 = Some (sample_conn 10)"
    by (simp add: sample_manager_defs)
  from socket_registry_consistent [OF empty_manager sample_steps [of "\<lambda>_. 1"] this] show ?thesis
    by (simp add: sample_conn_def)
qed

text \<open>
  The methods keep the invariant.  Run in a good state, every method of the manager that is
  made of several sections (delivery to a device, presence broadcast, heartbeat, disconnection,
  pruning, signaling and connection-mode messages) is a sequence of the atomic sections and ends
  in a good state, whatever the repositories answer, as long as the transfer repository gives a
  transfer only to the account that owns it.
\<close>

theorem methods_keep_invariant:
  assumes "presence_ok own m" and "owned own repository s"
  shows "safe own m (fst (snd (forward_signaling repository clk rclk c message (m, s)))) \<and>
         safe own m (fst (snd (record_connection_mode repository rclk c message (m, s)))) \<and>
         safe own m (snd (send_to_device now a v payload m)) \<and>
         safe own m (broadcast_presence device_get t1 t2 a m) \<and>
         safe own m (snd (heartbeat find_current now c m)) \<and>
         safe own m (disconnect_device device_get t1 t2 a v m) \<and>
         safe own m (prune_expired now account_id m)"
  by (intro conjI safe_forward safe_mode safe_send safe_broadcast safe_heartbeat
      safe_disconnect_device safe_prune assms)

theorem methods_keep_invariant_witness:
  "safe (\<lambda>_. 1) sample_manager
     (fst (snd (forward_signaling (Some sql_port) (\<lambda>_. 5) (\<lambda>_. 5) (sample_conn 10) sample_ice
        (sample_manager, sample_db Accepted))))"
proof -
  have "presence_ok (\<lambda>_. 1) sample_manager"
    using presence_ok_steps [OF sample_steps presence_ok_init [OF empty_manager]] .
  moreover have "owned (\<lambda>_. 1) (Some sql_port) (sample_db Accepted)"
    by (auto simp: owned_def sql_port_def sql_get_by_id_def sql_select_def sample_defs
        split: if_splits)
  ultimately show ?thesis
    by (rule methods_keep_invariant [THEN conjunct1])
qed

lemma dict_get_fold_expire:
  "dict_get (pm_outbound (fold expire_socket cs m)) i = Some q \<Longrightarrow> dict_get (pm_outbound m) i = Some q"
  by (induction cs arbitrary: m) (fastforce simp: expire_socket_def split: if_splits)+

lemma fold_expire_connections: "pm_connections (fold expire_socket cs m) = pm_connections m"
  by (induction cs arbitrary: m) (simp_all add: expire_socket_def)

lemma prune_outbound:
  assumes "conns_ok (pm_connections m)"
    and "dict_get (pm_outbound (prune_expired now account_id m)) i = Some q"
  shows "dict_get (pm_outbound m) i = Some q"
  using assms(2) prune_sockets_keeps(3) [OF assms(1), of now account_id]
  by (auto simp: prune_expired_def dest!: dict_get_fold_expire split: prod.splits)

text \<open>What a successful delivery did to the queues.\<close>

lemma send_to_device_True:
  assumes "conns_ok (pm_connections m)" and "send_to_device now a v p m = (True, m')"
  shows "\<exists>k q. conn_at m' a v = Some k \<and> dict_get (pm_outbound m) (co_id k) = Some q \<and>
    dict_get (pm_outbound m') (co_id k) =
      Some (q\<lparr>oq_queue := oq_queue q @ [p],
              oq_queued_bytes := oq_queued_bytes q + int (payload_bytes p)\<rparr>) \<and>
    (\<forall>i q'. i \<noteq> co_id k \<longrightarrow> dict_get (pm_outbound m') i = Some q' \<longrightarrow>
       dict_get (pm_outbound m) i = Some q')"
proof -
  let ?m1 = "prune_expired now (Some a) m"
  obtain k where k: "conn_at ?m1 a v = Some k" "enqueue_outbound k p ?m1 = (True, m')"
    using assms(2)
    by (auto simp: send_to_device_def connection_for_def Let_def conn_at_def split: option.splits)
  have "conns_ok (pm_connections ?m1)"
    using assms(1) prune_sockets_keeps(1) [OF assms(1)] fold_expire_connections
    by (simp add: prune_expired_def split: prod.split) (metis snd_conv)
  then have ids: "co_account_id k = a" "co_device_id k = v"
    using dict_all_get [OF conns_ok_conns(3)] k(1) by (auto simp: conn_at_def)
  note old = prune_outbound [OF assms(1)]
  show ?thesis
  proof (cases rule: enqueue_section_cases [of k p ?m1])
    case (stored q k')
    then have m': "m' = ?m1\<lparr>pm_outbound := dict_set (co_id k)
        (q\<lparr>oq_queue := oq_queue q @ [p],
           oq_queued_bytes := oq_queued_bytes q + int (payload_bytes p)\<rparr>) (pm_outbound ?m1)\<rparr>"
      using k(2) by (simp add: enqueue_outbound_def)
    have "conn_at m' a v = Some k"
      using k(1) conn_at_cong [of m' ?m1] by (simp add: m')
    then show ?thesis
      using old [OF stored(1)] old m' by (intro exI [of _ k] exI [of _ q]) auto
  qed (use k(2) in \<open>simp_all add: enqueue_outbound_def\<close>)
qed

text \<open>
  C18.  Signaling stays inside the account and between the two devices of a live transfer.  When
  a message is forwarded, the repository holds, for the sender's own account, a transfer that is
  active and not expired and whose two devices are the sending device and the one the message
  goes to; the message is appended to the queue of that device's current socket in the same
  account, and no other queue changes except that expired ones may disappear.
\<close>

theorem signaling_routing:
  assumes "presence_ok own m"
    and "forward_signaling (Some repo) clk rclk c message (m, s) = (Inr True, m', s')"
  shows "\<exists>t r peer k q.
    tp_get_by_id repo (co_account_id c) t s = Some r \<and> active_transfer r (clk 2) \<and>
    {co_device_id c, peer} = {tr_sender_device_id r, tr_recipient_device_id r} \<and>
    co_device_id c \<noteq> peer \<and> conn_at m' (co_account_id c) peer = Some k \<and>
    dict_get (pm_outbound m) (co_id k) = Some q \<and>
    dict_get (pm_outbound m') (co_id k) =
      Some (q\<lparr>oq_queue := oq_queue q @ [message],
              oq_queued_bytes := oq_queued_bytes q + int (payload_bytes message)\<rparr>) \<and>
    (\<forall>i q'. i \<noteq> co_id k \<longrightarrow> dict_get (pm_outbound m') i = Some q' \<longrightarrow>
       dict_get (pm_outbound m) i = Some q')"
proof -
  let ?m1 = "prune_signaling_state (clk 0) m"
  obtain t sv rv ty r s1 where
    p: "parse_signaling_message message (clk 1) = Inr (Some (t, sv, rv, ty))" and
    r: "tp_get_by_id repo (co_account_id c) t s = Some r" "active_transfer r (clk 2)"
      "tr_sender_device_id r = sv" "tr_recipient_device_id r = rv" "co_device_id c \<in> {sv, rv}" and
    d: "signaling_deliver clk c r sv rv ty message (?m1, s1) = (Inr True, m', s')"
    using assms(2)
    by (auto simp: forward_signaling_def Let_def signaling_rejected_def
        split: sum.splits option.splits prod.splits bool.splits if_splits)
  let ?peer = "if co_device_id c = sv then rv else sv"
  obtain m2 m3 where 2: "record_signaling_use (clk 4) (clk 5) (tr_id r) c ty ?m1 = (True, m2)"
    and 3: "send_to_device (clk 6) (co_account_id c) ?peer message m2 = (True, m3)"
    and m': "m' = pm_count ''signaling_forwarded'' m3"
    using d by (auto simp: signaling_deliver_def signaling_rejected_def
        split: prod.splits bool.splits)
  have same: "pm_connections m2 = pm_connections m" "pm_outbound m2 = pm_outbound m"
    using record_rest [of "clk 4" "clk 5" "tr_id r" c ty ?m1] 2 by simp_all
  have "conns_ok (pm_connections m2)"
    using assms(1) same by (simp add: presence_ok_def)
  from send_to_device_True [OF this 3] obtain k q where
    k: "conn_at m3 (co_account_id c) ?peer = Some k" "dict_get (pm_outbound m2) (co_id k) = Some q"
      "dict_get (pm_outbound m3) (co_id k) =
         Some (q\<lparr>oq_queue := oq_queue q @ [message],
                 oq_queued_bytes := oq_queued_bytes q + int (payload_bytes message)\<rparr>)"
      "\<forall>i q'. i \<noteq> co_id k \<longrightarrow> dict_get (pm_outbound m3) i = Some q' \<longrightarrow>
         dict_get (pm_outbound m2) i = Some q'"
    by blast
  have "{co_device_id c, ?peer} = {sv, rv}" "co_device_id c \<noteq> ?peer"
    using r(5) parse_signaling_Some [OF p] by auto
  then show ?thesis
    using r k same conn_at_cong [of m' m3]
    by (intro exI [of _ t] exI [of _ r] exI [of _ ?peer] exI [of _ k] exI [of _ q]) (simp add: m')
qed


lemma sample_forward:
  "fst (forward_signaling (Some sql_port) (\<lambda>_. 0) (\<lambda>_. 0) (sample_conn 10) sample_ice
          (sample_manager, sample_db Accepted)) = Inr True"
  unfolding forward_signaling_def prod.case option.case Let_def parse_sample_ice sum.case
  by code_simp

theorem signaling_routing_witness:
  "\<exists>t r peer. tp_get_by_id sql_port 1 t (sample_db Accepted) = Some r \<and> active_transfer r 0 \<and>
     {10, peer} = {tr_sender_device_id r, tr_recipient_device_id r}"
proof -
  let ?out = "forward_signaling (Some sql_port) (\<lambda>_. 0) (\<lambda>_. 0) (sample_conn 10) sample_ice
          (sample_manager, sample_db Accepted)"
  have "presence_ok (\<lambda>_. 1) sample_manager"
    using presence_ok_steps [OF sample_steps presence_ok_init [OF empty_manager]] .
  moreover have "?out = (Inr True, fst (snd ?out), snd (snd ?out))"
    using sample_forward by (metis prod.collapse)
  ultimately obtain t r peer where
    "tp_get_by_id sql_port (co_account_id (sample_conn 10)) t (sample_db Accepted) = Some r"
    "active_transfer r 0"
    "{co_device_id (sample_conn 10), peer} = {tr_sender_device_id r, tr_recipient_device_id r}"
    using signaling_routing [of "\<lambda>_. 1" sample_manager sql_port "\<lambda>_. 0" "\<lambda>_. 0" "sample_conn 10"
        sample_ice "sample_db Accepted" "fst (snd ?out)" "snd (snd ?out)"]
    by blast
  then show ?thesis
    unfolding sample_conn_def by (intro exI [of _ t] exI [of _ r] exI [of _ peer]) simp
qed

text \<open>
  \<open>disconnect_account\<close> leaves the writer queues of the sockets it closes behind: their
  entries in \<open>_outbound\<close> survive although no registered socket has their identifier any more, so
  nothing is ever queued on them again and only shutdown removes them (every other way to take a
  socket out pops its queue).
\<close>

theorem disconnect_account_leaks_queues:
  assumes "presence_ok own m" and "conn_at m a v = Some c"
  shows "dict_get (pm_outbound (disconnect_account a m)) (co_id c) \<noteq> None \<and>
         (\<forall>b w k. conn_at (disconnect_account a m) b w = Some k \<longrightarrow> co_id k \<noteq> co_id c) \<and>
         dict_get (pm_outbound (snd (pm_remove c (disconnect_account a m)))) (co_id c) \<noteq> None"
proof -
  have ok: "conns_ok (pm_connections m)" "linked_ok m"
    using assms(1) by (simp_all add: presence_ok_def)
  have c: "co_account_id c = a"
    using dict_all_get [OF conns_ok_conns(3) [OF ok(1)]] assms(2) by (auto simp: conn_at_def)
  have out: "pm_outbound (disconnect_account a m) = pm_outbound m"
    by (simp add: disconnect_account_def)
  have "pm_connections (disconnect_account a m) = put_conns a [] (pm_connections m)"
    by (simp add: disconnect_account_def put_conns_def)
  then have conn: "conn_at (disconnect_account a m) b w = (if b = a then None else conn_at m b w)" for b w
    using conn_at_put [of "disconnect_account a m" a "[]" m b w] by simp
  have "fst (pm_remove c (disconnect_account a m)) = False \<and>
        snd (pm_remove c (disconnect_account a m)) = disconnect_account a m"
    by (simp add: pm_remove_def c disconnect_account_def)
  moreover have "co_id k \<noteq> co_id c" if "conn_at (disconnect_account a m) b w = Some k" for b w k
    using that ok(2) assms(2) conn [of b w] unfolding linked_ok_def
    by (metis option.distinct(1))
  moreover have "dict_get (pm_outbound m) (co_id c) \<noteq> None"
    using ok(2) assms(2) unfolding linked_ok_def by blast
  ultimately show ?thesis using out by auto
qed

theorem disconnect_account_leaks_queues_witness:
  "dict_get (pm_outbound (disconnect_account 1 sample_manager)) 110 \<noteq> None"
proof -
  have "presence_ok (\<lambda>_. 1) sample_manager"
    using presence_ok_steps [OF sample_steps presence_ok_init [OF empty_manager]] .
  moreover have "conn_at sample_manager 1 10 = Some (sample_conn 10)"
    by (simp add: sample_manager_defs)
  ultimately show ?thesis
    using disconnect_account_leaks_queues [of "\<lambda>_. 1" sample_manager 1 10 "sample_conn 10"]
    by (simp add: sample_conn_def)
qed

end
