(* ===== verification/SocketAdmission.thy ===== *)
theory SocketAdmission
  imports TicketRepo SessionApi PresenceSafety
begin

text \<open>
  Ticket admission of \<open>app/presence.py\<close>: \<open>WebSocketTicketService\<close>, the route that issues a ticket to
  an authenticated session, and \<open>websocket_presence\<close>, the handler that trades a ticket for a
  registered socket and serves it.  The state \<open>'s\<close> holds the repositories, the manager is separate.
\<close>

section \<open>Issuing a ticket\<close>

definition WEBSOCKET_TICKET_LIFETIME :: int where "WEBSOCKET_TICKET_LIFETIME = minutes 1"

definition new_ticket_service :: "int \<Rightarrow> int res" where
  "new_ticket_service lifetime = (if lifetime \<le> 0 then Inl ValueError else Inr lifetime)"

text \<open>\<open>issue\<close>: the service reads its clock as \<open>issued_at\<close>, the repository its own as \<open>now\<close>.\<close>

definition issue_ticket ::
    "'s ticket_port \<Rightarrow> (bytes \<Rightarrow> bytes) \<Rightarrow> (nat \<Rightarrow> bytes) \<Rightarrow> int \<Rightarrow> instant \<Rightarrow> instant \<Rightarrow> uuid \<Rightarrow> session \<Rightarrow> 's \<Rightarrow>
     (pystr \<times> websocket_ticket) res \<times> 's" where
  "issue_ticket port sha256 random lifetime issued_at now fresh session s =
     (case bind_res (new_opaque_token random SESSION_TOKEN_BYTES)
             (\<lambda>raw_ticket. bind_res (hash_secret sha256 raw_ticket) (\<lambda>h. Inr (raw_ticket, h))) of
        Inl e \<Rightarrow> (Inl e, s)
      | Inr (raw_ticket, h) \<Rightarrow>
          (case tkp_create port now fresh (se_user_id session) (se_id session) h (issued_at + lifetime) s of
             (Inl e, s') \<Rightarrow> (Inl e, s')
           | (Inr record, s') \<Rightarrow> (Inr (raw_ticket, record), s')))"

definition public_ticket :: "websocket_ticket \<Rightarrow> pystr \<Rightarrow> pyval" where
  "public_ticket record raw_ticket =
     PyDict [(lit ''ticket'', PyStr raw_ticket), (lit ''ticket_id'', PyStr (uuid_str (tk_id record))),
             (lit ''expires_at'', PyTime (tk_expires_at record))]"

text \<open>
  The route: the dependency \<open>require_session_csrf\<close> first, reading the clock \<open>clk\<close>; then the service,
  whose \<open>RuntimeError\<close> or \<open>ValueError\<close> becomes a 401 response.
\<close>

definition issue_websocket_ticket ::
    "'s request \<Rightarrow> 's ticket_port option \<Rightarrow> (bytes \<Rightarrow> bytes) \<Rightarrow> (nat \<Rightarrow> bytes) \<Rightarrow> clock \<Rightarrow> uuid \<Rightarrow> 's \<Rightarrow> pyval res \<times> 's" where
  "issue_websocket_ticket rq tickets sha256 random clk fresh s =
     (case require_session_csrf rq sha256 clk s of
        (Inl e, s1) \<Rightarrow> (Inl e, s1)
      | (Inr session, s1) \<Rightarrow>
          (case (case tickets of
                   None \<Rightarrow> (Inl RuntimeError, s1)
                 | Some port \<Rightarrow>
                     issue_ticket port sha256 random WEBSOCKET_TICKET_LIFETIME (clk 3) (clk 4) fresh session s1) of
             (Inl e, s2) \<Rightarrow> (Inl (if is_RuntimeError e \<or> is_ValueError e then HTTPException 401 else e), s2)
           | (Inr (raw_ticket, record), s2) \<Rightarrow> (Inr (public_ticket record raw_ticket), s2)))"

section \<open>The handshake\<close>

text \<open>What the handler reads of the handshake, and of the application state.\<close>

record handshake =
  hs_origin :: "pystr option"
  hs_tickets :: "pystr list"
  hs_websocket :: nat

record 's socket_app =
  sa_app_origin :: "pystr option"
  sa_tickets :: "'s ticket_port option"
  sa_find_current :: "(instant \<Rightarrow> uuid \<Rightarrow> 's \<Rightarrow> session option) option"
  sa_has_manager :: bool
  sa_devices :: "device_lookup option"
  sa_manager_transfers :: "'s transfer_port option"
  sa_transfers :: "'s transfer_port option"

definition websocket_origin_allowed :: "'s socket_app \<Rightarrow> handshake \<Rightarrow> bool" where
  "websocket_origin_allowed app hs =
     (case sa_app_origin app of None \<Rightarrow> False | Some app_origin \<Rightarrow> hs_origin hs = Some app_origin)"

definition query_ticket :: "handshake \<Rightarrow> pystr option" where
  "query_ticket hs = (case hs_tickets hs of [t] \<Rightarrow> Some t | _ \<Rightarrow> None)"

definition ticket_hash :: "(bytes \<Rightarrow> bytes) \<Rightarrow> pystr option \<Rightarrow> bytes option" where
  "ticket_hash sha256 ticket =
     (case ticket of
        None \<Rightarrow> None
      | Some t \<Rightarrow>
          if \<not> (1 \<le> length t \<and> length t \<le> 512) then None
          else if list_ex (\<lambda>c. c < 32) t then None
          else case hash_secret sha256 t of Inl _ \<Rightarrow> None | Inr h \<Rightarrow> Some h)"

datatype admission = Admitted active_connection | Refused nat | Raised exc

text \<open>
  \<open>websocket_presence\<close> up to the registration of the socket: the readings of the repository are
  \<open>clk 0\<close> to \<open>clk 2\<close> for the ticket and \<open>clk 3\<close> for the session, that of the manager \<open>clk 4\<close>.
\<close>

definition refuse :: "handshake \<Rightarrow> nat \<Rightarrow> manager \<Rightarrow> 's \<Rightarrow> admission \<times> manager \<times> 's" where
  "refuse hs code m s = (Refused code, ws_close (hs_websocket hs) code m, s)"

definition new_connection :: "uuid \<Rightarrow> session \<Rightarrow> nat \<Rightarrow> instant \<Rightarrow> active_connection" where
  "new_connection fresh session websocket now =
     \<lparr>co_id = fresh, co_account_id = se_user_id session, co_device_id = se_device_id session,
      co_session_id = se_id session, co_websocket = websocket, co_connected_at = now,
      co_last_heartbeat_at = now\<rparr>"

definition admit ::
    "'s socket_app \<Rightarrow> (bytes \<Rightarrow> bytes) \<Rightarrow> clock \<Rightarrow> uuid \<Rightarrow> handshake \<Rightarrow> manager \<times> 's \<Rightarrow>
     admission \<times> manager \<times> 's" where
  "admit app sha256 clk fresh hs ms =
     (case ms of (m, s) \<Rightarrow>
      if \<not> websocket_origin_allowed app hs then refuse hs 1008 m s
      else case ticket_hash sha256 (query_ticket hs) of
             None \<Rightarrow> refuse hs 1008 m s
           | Some h \<Rightarrow>
               (case (sa_tickets app, sa_find_current app, sa_has_manager app) of
                  (Some tickets, Some lookup, True) \<Rightarrow>
                    (case tkp_consume_for_socket tickets clk h s of
                       (Inl e, s1) \<Rightarrow> (Raised e, m, s1)
                     | (Inr None, s1) \<Rightarrow> refuse hs 1008 m s1
                     | (Inr (Some ticket), s1) \<Rightarrow>
                         (case lookup (clk 3) (tk_session_id ticket) s1 of
                            None \<Rightarrow> refuse hs 1008 m s1
                          | Some session \<Rightarrow>
                              let connection = new_connection fresh session (hs_websocket hs) (clk 4)
                              in case register connection m of
                                   (Inl _, m1) \<Rightarrow> refuse hs 1013 m1 s1
                                 | (Inr previous, m1) \<Rightarrow>
                                     (Admitted connection,
                                      (case previous of None \<Rightarrow> m1
                                       | Some p \<Rightarrow> ws_close (co_websocket p) 4001 m1), s1)))
                | _ \<Rightarrow> refuse hs 1011 m s))"

text \<open>
  The whole handler on a sequence of frames.  While the loop waits for the next frame the socket
  stays registered; when it ends, normally or by an exception, the \<open>finally\<close> block removes it.
\<close>

definition finish_connection ::
    "'s socket_app \<Rightarrow> instant \<Rightarrow> instant \<Rightarrow> active_connection \<Rightarrow> manager \<times> 's \<Rightarrow> manager \<times> 's" where
  "finish_connection app t1 t2 c ms =
     (case ms of (m, s) \<Rightarrow>
      case pm_remove c m of
        (False, m') \<Rightarrow> (m', s)
      | (True, m') \<Rightarrow> (broadcast_presence (sa_devices app) t1 t2 (co_account_id c) m', s))"

definition websocket_presence ::
    "'s socket_app \<Rightarrow> (pystr \<Rightarrow> json res) \<Rightarrow> (uuid \<Rightarrow> session option) option \<Rightarrow> (bytes \<Rightarrow> bytes) \<Rightarrow> clock \<Rightarrow>
     (nat \<Rightarrow> clock \<times> clock) \<Rightarrow> uuid \<Rightarrow> handshake \<Rightarrow> received list \<Rightarrow> manager \<times> 's \<Rightarrow>
     (admission \<times> turn) \<times> manager \<times> 's" where
  "websocket_presence app loads find_current sha256 clk clks fresh hs frames ms =
     (case admit app sha256 clk fresh hs ms of
        (Admitted c, m, s) \<Rightarrow>
          (let m1 = broadcast_presence (sa_devices app) (clk 5) (clk 6) (co_account_id c) m;
               env = \<lparr>ev_find_current = find_current,
                      ev_repository = (case sa_manager_transfers app of None \<Rightarrow> sa_transfers app | Some r \<Rightarrow> Some r),
                      ev_loads = loads\<rparr>
           in case serve_connection env clks 0 c frames (m1, s) of
                (Continue c', ms') \<Rightarrow> ((Admitted c, Continue c'), ms')
              | (turn, ms') \<Rightarrow> ((Admitted c, turn), finish_connection app (clk 7) (clk 8) c ms'))
      | (Raised e, ms') \<Rightarrow> ((Raised e, Escape e), ms')
      | (Refused code, ms') \<Rightarrow> ((Refused code, Stop), ms'))"

text \<open>The route that lists the devices of the account that are online.\<close>

definition list_online_devices ::
    "'s request \<Rightarrow> 's socket_app \<Rightarrow> (bytes \<Rightarrow> bytes) \<Rightarrow> clock \<Rightarrow> manager \<times> 's \<Rightarrow> json list res \<times> manager \<times> 's" where
  "list_online_devices rq app sha256 clk ms =
     (case ms of (m, s) \<Rightarrow>
      case get_authenticated_session rq sha256 clk s of
        (Inl e, s1) \<Rightarrow> (Inl e, m, s1)
      | (Inr session, s1) \<Rightarrow>
          (case check_optional_origin rq of
             Inl e \<Rightarrow> (Inl e, m, s1)
           | Inr _ \<Rightarrow>
               if \<not> sa_has_manager app then (Inl RuntimeError, m, s1)
               else case online_devices (sa_devices app) (clk 3) (se_user_id session) m of
                      (ds, m') \<Rightarrow> (Inr ds, m', s1)))"

section \<open>What admission guarantees\<close>

lemma websocket_origin_allowed_iff:
  "websocket_origin_allowed app hs \<longleftrightarrow> (\<exists>origin. sa_app_origin app = Some origin \<and> hs_origin hs = Some origin)"
  by (auto simp: websocket_origin_allowed_def split: option.splits)

lemma ticket_hash_text:
  "ticket_hash sha256 (Some t) =
     (if 1 \<le> length t \<and> length t \<le> 512 \<and> list_all (\<lambda>c. 32 \<le> c \<and> c < 128) t then Some (sha256 t) else None)"
proof -
  have "(\<not> list_ex (\<lambda>c. c < 32) t \<and> list_all (\<lambda>c. c < 128) t) \<longleftrightarrow> list_all (\<lambda>c. 32 \<le> c \<and> c < 128) t"
    by (induction t) auto
  then show ?thesis by (auto simp: ticket_hash_def hash_secret_def encode_ascii_def)
qed

lemma ticket_hash_Some:
  "ticket_hash sha256 (query_ticket hs) = Some h \<longleftrightarrow>
     (\<exists>t. hs_tickets hs = [t] \<and> 1 \<le> length t \<and> length t \<le> 512 \<and> list_all (\<lambda>c. 32 \<le> c \<and> c < 128) t \<and> h = sha256 t)"
proof (cases "\<exists>t. hs_tickets hs = [t]")
  case True
  then obtain t where "hs_tickets hs = [t]" by blast
  then show ?thesis by (auto simp: query_ticket_def ticket_hash_text)
next
  case False
  then have "query_ticket hs = None" by (auto simp: query_ticket_def split: list.split)
  then show ?thesis using False by (simp add: ticket_hash_def)
qed

lemma register_Inr:
  assumes "register c m = (Inr previous, m')"
  shows "dict_get (conns m' (co_account_id c)) (co_device_id c) = Some c \<and>
    previous = dict_get (conns m (co_account_id c)) (co_device_id c)"
  using assms
  by (auto simp: register_def Let_def conns_def pm_count_def pop_outbound_def split: if_splits option.splits)

lemma register_Inl:
  assumes "register c m = (Inl e, m')"
  shows "pm_outbound m' = pm_outbound m \<and> (\<forall>a. conns m' a = conns m a)"
  using assms
  by (auto simp: register_def Let_def conns_def pm_count_def split: if_splits option.splits)


text \<open>The refusals and the one admission of \<open>admit\<close>, as a case distinction.\<close>

lemma admit_cases:
  obtains (early) code where "admit app sha256 clk fresh hs (m, s) = refuse hs code m s" "code \<in> {1008, 1011}"
  | (raised) h tickets e s1 where "websocket_origin_allowed app hs" "ticket_hash sha256 (query_ticket hs) = Some h"
      "sa_tickets app = Some tickets" "tkp_consume_for_socket tickets clk h s = (Inl e, s1)"
      "admit app sha256 clk fresh hs (m, s) = (Raised e, m, s1)"
  | (unknown) h tickets s1 out where "websocket_origin_allowed app hs" "ticket_hash sha256 (query_ticket hs) = Some h"
      "sa_tickets app = Some tickets" "tkp_consume_for_socket tickets clk h s = (Inr out, s1)"
      "admit app sha256 clk fresh hs (m, s) = refuse hs 1008 m s1"
  | (full) h tickets s1 t lookup x e m1 where "websocket_origin_allowed app hs"
      "ticket_hash sha256 (query_ticket hs) = Some h" "sa_tickets app = Some tickets"
      "sa_find_current app = Some lookup" "tkp_consume_for_socket tickets clk h s = (Inr (Some t), s1)"
      "lookup (clk 3) (tk_session_id t) s1 = Some x"
      "register (new_connection fresh x (hs_websocket hs) (clk 4)) m = (Inl e, m1)"
      "admit app sha256 clk fresh hs (m, s) = refuse hs 1013 m1 s1"
  | (admitted) h tickets s1 t lookup x previous m1 where "websocket_origin_allowed app hs"
      "ticket_hash sha256 (query_ticket hs) = Some h" "sa_tickets app = Some tickets"
      "sa_find_current app = Some lookup" "tkp_consume_for_socket tickets clk h s = (Inr (Some t), s1)"
      "lookup (clk 3) (tk_session_id t) s1 = Some x"
      "register (new_connection fresh x (hs_websocket hs) (clk 4)) m = (Inr previous, m1)"
      "admit app sha256 clk fresh hs (m, s) =
         (Admitted (new_connection fresh x (hs_websocket hs) (clk 4)),
          (case previous of None \<Rightarrow> m1 | Some p \<Rightarrow> ws_close (co_websocket p) 4001 m1), s1)"
proof (cases "websocket_origin_allowed app hs \<and> ticket_hash sha256 (query_ticket hs) \<noteq> None \<and>
    sa_tickets app \<noteq> None \<and> sa_find_current app \<noteq> None \<and> sa_has_manager app")
  case False
  then have "\<exists>code. admit app sha256 clk fresh hs (m, s) = refuse hs code m s \<and> code \<in> {1008, 1011}"
    by (auto simp: admit_def split: option.split bool.split)
  then show ?thesis using early by blast
next
  case True
  then obtain h tickets lookup where g: "websocket_origin_allowed app hs"
      "ticket_hash sha256 (query_ticket hs) = Some h" "sa_tickets app = Some tickets"
      "sa_find_current app = Some lookup" "sa_has_manager app" by blast
  obtain out s1 where c: "tkp_consume_for_socket tickets clk h s = (out, s1)" by fastforce
  show ?thesis
  proof (cases out)
    case (Inl e)
    then show ?thesis using g c by (intro raised [of h tickets e s1]) (simp_all add: admit_def)
  next
    case (Inr found)
    show ?thesis
    proof (cases "\<exists>t x. found = Some t \<and> lookup (clk 3) (tk_session_id t) s1 = Some x")
      case False
      then have "admit app sha256 clk fresh hs (m, s) = refuse hs 1008 m s1"
        using g c Inr by (cases found) (auto simp: admit_def split: option.split)
      then show ?thesis using g c Inr by (intro unknown [of h tickets found s1]) simp_all
    next
      case True
      then obtain t x where t: "found = Some t" "lookup (clk 3) (tk_session_id t) s1 = Some x" by blast
      obtain r m1 where r: "register (new_connection fresh x (hs_websocket hs) (clk 4)) m = (r, m1)" by fastforce
      show ?thesis
      proof (cases r)
        case (Inl e)
        then show ?thesis
          using g c \<open>out = Inr found\<close> t r by (intro full [of h tickets lookup t s1 x e m1]) (simp_all add: admit_def)
      next
        case (Inr previous)
        then show ?thesis
          using g c \<open>out = Inr found\<close> t r
          by (intro admitted [of h tickets lookup t s1 x previous m1]) (simp_all add: admit_def)
      qed
    qed
  qed
qed

context ticket_repository
begin

text \<open>An admitted handshake presented the text of an open ticket, which is consumed by it.\<close>

lemma admitted_ticket:
  assumes "inv s" "sa_tickets app = Some port" "admit app sha256 clk fresh hs (m, s) = (Admitted c, m', s')"
  shows "websocket_origin_allowed app hs \<and> inv s' \<and>
    (\<exists>raw y now lookup x. hs_tickets hs = [raw] \<and> 1 \<le> length raw \<and> length raw \<le> 512 \<and>
       y \<in> rows s \<and> tk_token_hash y = sha256 raw \<and> ticket_open now y \<and> now \<in> range clk \<and>
       rows s' = insert (y\<lparr>tk_consumed_at := Some now\<rparr>) (rows s - {y}) \<and>
       sa_find_current app = Some lookup \<and> lookup (clk 3) (tk_session_id y) s' = Some x \<and>
       c = new_connection fresh x (hs_websocket hs) (clk 4)) \<and>
    dict_get (conns m' (co_account_id c)) (co_device_id c) = Some c"
proof (cases rule: admit_cases [of app sha256 clk fresh hs m s])
  case (admitted h tickets s1 t lookup x previous m1)
  have tickets: "tickets = port" using admitted(3) assms(2) by simp
  have c: "c = new_connection fresh x (hs_websocket hs) (clk 4)" and s': "s' = s1"
    and m': "m' = (case previous of None \<Rightarrow> m1 | Some p \<Rightarrow> ws_close (co_websocket p) 4001 m1)"
    using admitted(8) assms(3) by simp_all
  obtain raw where raw: "hs_tickets hs = [raw]" "1 \<le> length raw" "length raw \<le> 512" "h = sha256 raw"
    using admitted(2) unfolding ticket_hash_Some by blast
  have law: "inv s'" "\<exists>y now. y \<in> rows s \<and> tk_token_hash y = h \<and> ticket_open now y \<and> now \<in> range clk \<and>
      t = y\<lparr>tk_consumed_at := Some now\<rparr> \<and> rows s' = insert t (rows s - {y})"
    using consume_law [OF assms(1) admitted(5) [unfolded tickets]] by (simp_all add: s')
  then obtain y now where y: "y \<in> rows s" "tk_token_hash y = h" "ticket_open now y" "now \<in> range clk"
      "t = y\<lparr>tk_consumed_at := Some now\<rparr>" "rows s' = insert t (rows s - {y})" by blast
  have "lookup (clk 3) (tk_session_id y) s' = Some x" using admitted(6) y(5) s' by simp
  moreover have "conns m' = conns m1" by (simp add: m' conns_def ws_close_def fun_eq_iff split: option.split)
  then have "dict_get (conns m' (co_account_id c)) (co_device_id c) = Some c"
    using register_Inr [OF admitted(7)] by (simp only: c)
  ultimately show ?thesis
    using admitted(1,4) law(1) raw y c by blast
qed (use assms(3) in \<open>simp_all add: refuse_def\<close>)

end

text \<open>
  C5.  A socket is admitted only for an open, unexpired ticket.  With the SQL repositories, an
  admitted handshake came from the application's own origin, carried exactly one ticket, whose
  digest is that of an unconsumed and unexpired row; that row, and no other, is now consumed; the
  connection has the account, the device and the identity of the session the ticket was issued to,
  which was still usable and bound to an active device, and is the one registered for that device.
\<close>

theorem socket_admission_sound:
  assumes "ticket_inv d" "session_inv d" "sa_tickets app = Some sql_tickets"
    and "sa_find_current app = Some find_current_by_id"
    and "admit app sha256 clk fresh hs (m, d) = (Admitted c, m', d')"
  shows "hs_origin hs \<noteq> None \<and> hs_origin hs = sa_app_origin app \<and>
    (\<exists>raw y now x. hs_tickets hs = [raw] \<and> y \<in> set (websocket_tickets d) \<and>
       tk_token_hash y = sha256 raw \<and> tk_consumed_at y = None \<and> now \<in> range clk \<and> now < tk_expires_at y \<and>
       set (websocket_tickets d') = insert (y\<lparr>tk_consumed_at := Some now\<rparr>) (set (websocket_tickets d) - {y}) \<and>
       x \<in> set (app_sessions d') \<and> se_id x = tk_session_id y \<and> session_usable (clk 3) x \<and> session_bound d' x \<and>
       co_account_id c = se_user_id x \<and> co_device_id c = se_device_id x \<and> co_session_id c = se_id x) \<and>
    dict_get (conns m' (co_account_id c)) (co_device_id c) = Some c"
proof -
  from sqlk.admitted_ticket [OF assms(1,3,5)] obtain raw y now x where
    o: "websocket_origin_allowed app hs" "dict_get (conns m' (co_account_id c)) (co_device_id c) = Some c"
    and t: "hs_tickets hs = [raw]" "y \<in> set (websocket_tickets d)" "tk_token_hash y = sha256 raw"
      "ticket_open now y" "now \<in> range clk"
      "set (websocket_tickets d') = insert (y\<lparr>tk_consumed_at := Some now\<rparr>) (set (websocket_tickets d) - {y})"
      "find_current_by_id (clk 3) (tk_session_id y) d' = Some x"
      "c = new_connection fresh x (hs_websocket hs) (clk 4)"
    using assms(4) by auto
  have "app_sessions d' = app_sessions d"
  proof (cases rule: admit_cases [of app sha256 clk fresh hs m d])
    case (admitted h tickets s1 t lookup x previous m1)
    then show ?thesis
      using assms(3,5)
      by (auto simp: sql_tickets_def tk_consume_for_socket_def tk_consume_where_def split: prod.splits sum.splits)
  qed (use assms(5) in \<open>simp_all add: refuse_def\<close>)
  then have "session_inv d'" using assms(2) by (simp add: session_inv_def)
  from sqls.current_law [OF this, of "clk 3" "tk_session_id y" x] t(7)
  have x: "x \<in> set (app_sessions d')" "se_id x = tk_session_id y" "session_usable (clk 3) x" "session_bound d' x"
    by (simp_all add: sql_sessions_def)
  have c: "co_account_id c = se_user_id x" "co_device_id c = se_device_id x" "co_session_id c = se_id x"
    by (simp_all add: t(8) new_connection_def)
  have "tk_consumed_at y = None" "now < tk_expires_at y" using t(4) by (simp_all add: ticket_open_def)
  moreover have "hs_origin hs \<noteq> None" "hs_origin hs = sa_app_origin app"
    using o(1) by (auto simp: websocket_origin_allowed_iff)
  ultimately show ?thesis using o(2) t x c by blast
qed

text \<open>
  A handshake that is not admitted leaves no socket behind.  The registry and the outbound
  queues are unchanged, a bad origin or a malformed ticket is closed with the policy code before any
  repository is touched, and the only codes used are 1008, 1011 and 1013.
\<close>

theorem refused_socket_harmless:
  assumes "admit app sha256 clk fresh hs (m, s) = (out, m', s')" and "\<forall>c. out \<noteq> Admitted c"
  shows "(\<forall>a. conns m' a = conns m a) \<and> pm_outbound m' = pm_outbound m \<and>
    (\<forall>code. out = Refused code \<longrightarrow> code \<in> {1008, 1011, 1013}) \<and>
    (\<not> websocket_origin_allowed app hs \<or> ticket_hash sha256 (query_ticket hs) = None \<longrightarrow>
       out = Refused 1008 \<and> s' = s)"
proof -
  have k: "conns (ws_close w code m1) a = conns m1 a" "pm_outbound (ws_close w code m1) = pm_outbound m1" for w code m1 a
    by (simp_all add: conns_def ws_close_def)
  have "\<not> websocket_origin_allowed app hs \<or> ticket_hash sha256 (query_ticket hs) = None \<Longrightarrow> out = Refused 1008 \<and> s' = s"
    using assms(1) by (auto simp: admit_def refuse_def split: if_splits)
  moreover have "(\<forall>a. conns m' a = conns m a) \<and> pm_outbound m' = pm_outbound m \<and>
    (\<forall>code. out = Refused code \<longrightarrow> code \<in> {1008, 1011, 1013})"
  proof (cases rule: admit_cases [of app sha256 clk fresh hs m s])
    case (full h tickets s1 t lookup x e m1)
    then show ?thesis using assms(1) register_Inl [OF full(7)] by (simp add: refuse_def k)
  next
    case admitted
    then show ?thesis using assms by simp
  qed (use assms(1) in \<open>auto simp: refuse_def k\<close>)
  ultimately show ?thesis by blast
qed

lemma encode_printable: "list_all (\<lambda>b. b < 256) bs \<Longrightarrow> list_all (\<lambda>c. 32 \<le> c \<and> c < 128) (encode_base64url bs)"
proof -
  assume "list_all (\<lambda>b. b < 256) bs"
  moreover have "32 \<le> c" if "b64_value c \<noteq> None" for c using that by (auto simp: b64_value_def split: if_splits)
  ultimately show ?thesis using b64_values_encode [of bs] by (auto simp: list_all_iff)
qed

lemma consume_new_ticket:
  assumes "tk_create now fresh a i h e d = (Inr t, d')" "ticket_session (clk 0) None d i" "now \<le> clk 0" "clk 0 < e"
  shows "\<exists>d''. tk_consume_for_socket (clk 0) h d' = (Inr (Some (t\<lparr>tk_consumed_at := Some (clk 0)\<rparr>)), d'') \<and>
    app_sessions d'' = app_sessions d \<and> app_users d'' = app_users d \<and> devices d'' = devices d"
proof (cases rule: tk_create_cases [of now fresh i h e a d])
  case (stored u)
  then have u: "t = u" "d' = d\<lparr>websocket_tickets := websocket_tickets d @ [t]\<rparr>" using assms(1) by simp_all
  have f: "tk_token_hash t = h" "tk_session_id t = i" "tk_consumed_at t = None" "tk_expires_at t = e" "tk_created_at t = now"
    unfolding u(1) stored(1) by (simp_all add: new_ticket_def)
  have "ticket_session (clk 0) None d' i"
    using assms(2) by (simp add: u(2) ticket_session_def session_bound_def)
  then have p: "tk_token_hash t = h \<and> ticket_open (clk 0) t \<and> ticket_session (clk 0) None d' (tk_session_id t)"
    using assms(4) by (simp add: f ticket_open_def)
  have "filter (\<lambda>r. tk_token_hash r = h \<and> ticket_open (clk 0) r \<and> ticket_session (clk 0) None d' (tk_session_id r))
      (websocket_tickets d) = []"
    using stored(5) by (auto simp: filter_empty_conv)
  moreover have "list_all (\<lambda>r. tk_token_hash r = h \<and> ticket_open (clk 0) r \<and> ticket_session (clk 0) None d' (tk_session_id r) \<longrightarrow>
      ticket_check (r\<lparr>tk_consumed_at := Some (clk 0)\<rparr>)) (websocket_tickets d')"
  proof -
    have "ticket_check (t\<lparr>tk_consumed_at := Some (clk 0)\<rparr>)"
      using stored(3) assms(3) f by (simp add: u(1) ticket_check_def)
    moreover have "tk_token_hash r \<noteq> h" if "r \<in> set (websocket_tickets d)" for r using stored(5) that by auto
    ultimately show ?thesis by (simp add: u(2) list_all_iff)
  qed
  ultimately show ?thesis
    using p by (simp add: tk_consume_for_socket_def tk_consume_where_def sql_update_def u(2))
next
  case refused
  then show ?thesis using assms(1) by simp
qed

text \<open>
  C29.  A ticket that was just issued opens a socket.  When the service issued a ticket for a session
  and the handshake with its text arrives before the ticket and the session expire, while the
  account and the device are still good and the manager has room, the socket is admitted for that
  session.
\<close>

theorem issued_ticket_admits:
  assumes "session_inv d" "list_all (\<lambda>b. b < 256) (random 32)" "length (random 32) = 32"
    and "issue_ticket sql_tickets sha256 random lifetime issued_at now fresh x d = (Inr (raw, t), d')"
    and "x \<in> set (app_sessions d)" "session_bound d x" "\<forall>i. session_usable (clk i) x"
    and "now \<le> clk 0" "clk 0 < issued_at + lifetime"
    and "sa_tickets app = Some sql_tickets" "sa_find_current app = Some find_current_by_id" "sa_has_manager app"
    and "websocket_origin_allowed app hs" "hs_tickets hs = [raw]"
    and "\<not> isl (fst (register (new_connection fid x (hs_websocket hs) (clk 4)) m))"
  shows "\<exists>m' d''. admit app sha256 clk fid hs (m, d') =
           (Admitted (new_connection fid x (hs_websocket hs) (clk 4)), m', d'')"
proof -
  have raw: "raw = encode_base64url (random 32)" and
    k: "tk_create now fresh (se_user_id x) (se_id x) (sha256 raw) (issued_at + lifetime) d = (Inr t, d')"
    using assms(4)
    by (auto simp: issue_ticket_def new_opaque_token_def SESSION_TOKEN_BYTES_def sql_tickets_def bind_res_def hash_secret_Inr
        split: sum.splits prod.splits)
  have "length raw = 43" using assms(3) by (simp add: raw length_encode)
  then have h: "ticket_hash sha256 (query_ticket hs) = Some (sha256 raw)"
    using encode_printable [OF assms(2)] assms(14) by (simp add: ticket_hash_Some raw)
  have "ticket_session (clk 0) None d (se_id x)"
    using assms(5-7) by (auto simp: ticket_session_def list_ex_iff)
  from consume_new_ticket [where clk = clk, OF k this assms(8,9)] obtain d2 where
    c: "tk_consume_for_socket (clk 0) (sha256 raw) d' = (Inr (Some (t\<lparr>tk_consumed_at := Some (clk 0)\<rparr>)), d2)"
      "app_sessions d2 = app_sessions d" "app_users d2 = app_users d" "devices d2 = devices d" by blast
  have "tk_session_id t = se_id x"
    using k by (cases rule: tk_create_cases [of now fresh "se_id x" "sha256 raw" "issued_at + lifetime" "se_user_id x" d])
      (auto simp: new_ticket_def)
  moreover have "session_inv d2" using assms(1) c(2) by (simp add: session_inv_def)
  from sqls.current_law [OF this, of "clk 3" "se_id x" x]
  have "find_current_by_id (clk 3) (se_id x) d2 = Some x"
    using assms(5-7) c session_bound_cong [of d2 d] by (simp add: sql_sessions_def)
  ultimately show ?thesis
    using assms(10-13,15) h c(1) by (auto simp: admit_def sql_tickets_def isl_def Let_def split: prod.split sum.split)
qed

text \<open>A handshake on the sample database, for the witnesses.\<close>

definition sample_app :: "db socket_app" where
  "sample_app =
     \<lparr>sa_app_origin = Some (lit ''https://app''), sa_tickets = Some sql_tickets,
      sa_find_current = Some find_current_by_id, sa_has_manager = True, sa_devices = None,
      sa_manager_transfers = None, sa_transfers = None\<rparr>"

definition idle_manager :: manager where
  "idle_manager =
     \<lparr>pm_heartbeat_timeout = seconds 45, pm_connections = [], pm_outbound = [],
      pm_signaling = [], pm_signaling_account_totals = [], pm_metrics = [], pm_wire = []\<rparr>"

definition sample_handshake :: "pystr list \<Rightarrow> handshake" where
  "sample_handshake ts = \<lparr>hs_origin = Some (lit ''https://app''), hs_tickets = ts, hs_websocket = 1\<rparr>"

theorem socket_admission_sound_witness:
  "\<exists>c m' d'. admit sample_app (\<lambda>_. replicate 32 3) (\<lambda>_. 2) 30 (sample_handshake [lit ''t'']) (idle_manager, ticket_db) =
     (Admitted c, m', d') \<and> dict_get (conns m' (co_account_id c)) (co_device_id c) = Some c"
proof -
  let ?r = "admit sample_app (\<lambda>_. replicate 32 3) (\<lambda>_. 2) 30 (sample_handshake [lit ''t'']) (idle_manager, ticket_db)"
  have "(case fst ?r of Admitted _ \<Rightarrow> True | _ \<Rightarrow> False)" by code_simp
  then obtain c m' d' where r: "?r = (Admitted c, m', d')"
    by (cases ?r) (auto split: admission.splits)
  have "ticket_inv ticket_db" "session_inv ticket_db" by code_simp+
  from socket_admission_sound [OF this _ _ r] show ?thesis using r by (auto simp: sample_app_def)
qed

theorem refused_socket_harmless_witness:
  "pm_outbound (fst (snd (admit sample_app (\<lambda>_. replicate 32 4) (\<lambda>_. 2) 30 (sample_handshake [lit ''t''])
     (idle_manager, ticket_db)))) = []"
proof -
  let ?r = "admit sample_app (\<lambda>_. replicate 32 4) (\<lambda>_. 2) 30 (sample_handshake [lit ''t'']) (idle_manager, ticket_db)"
  have "(case fst ?r of Admitted _ \<Rightarrow> False | _ \<Rightarrow> True)" by code_simp
  then have "\<forall>c. fst ?r \<noteq> Admitted c" by (auto split: admission.splits)
  with refused_socket_harmless [of sample_app "\<lambda>_. replicate 32 4" "\<lambda>_. 2" 30 "sample_handshake [lit ''t'']"
      idle_manager ticket_db "fst ?r" "fst (snd ?r)" "snd (snd ?r)"]
  show ?thesis by (simp add: idle_manager_def)
qed

theorem issued_ticket_admits_witness:
  "\<exists>raw t d' m' d''. issue_ticket sql_tickets (\<lambda>_. replicate 32 8) (\<lambda>n. replicate n 9) 60 1 1 40 sample_session
       (session_db [sample_session]) = (Inr (raw, t), d') \<and>
     admit sample_app (\<lambda>_. replicate 32 8) (\<lambda>_. 2) 30 (sample_handshake [raw]) (idle_manager, d') =
       (Admitted (new_connection 30 sample_session 1 2), m', d'')"
proof -
  let ?i = "issue_ticket sql_tickets (\<lambda>_. replicate 32 8) (\<lambda>n. replicate n 9) 60 1 1 40 sample_session
       (session_db [sample_session])"
  have "\<not> isl (fst ?i)" by code_simp
  then obtain raw t d' where i: "?i = (Inr (raw, t), d')" by (metis prod.collapse sum.collapse(2))
  have "session_inv (session_db [sample_session])" "session_bound (session_db [sample_session]) sample_session"
    "session_usable 2 sample_session"
    "\<not> isl (fst (register (new_connection 30 sample_session 1 2) idle_manager))"
    "list_all (\<lambda>b. b < 256) (replicate 32 (9::nat))" by code_simp+
  then show ?thesis
    using issued_ticket_admits [of "session_db [sample_session]" "\<lambda>n. replicate n 9" "\<lambda>_. replicate 32 8" 60 1 1 40
        sample_session raw t d' "\<lambda>_. 2" sample_app "sample_handshake [raw]" 30 idle_manager] i
    by (auto simp: sample_app_def sample_handshake_def websocket_origin_allowed_iff session_db_def)
qed
end
