(* ===== verification/RateLimit.thy ===== *)
theory RateLimit
  imports Models Encoding
begin

text \<open>
  The two rate limiters: \<open>RateLimiter\<close> of \<open>app/auth.py\<close>, process-local, and
  \<open>PersistentRateLimiter\<close> over \<open>RateLimitBucketRepository\<close> of \<open>repositories/rate_limits.py\<close>.
  HMAC-SHA256 is the standard library's, a parameter \<open>hmac\<close> of key and message.  A call under the
  in-process lock is one step.  \<open>consume_many\<close> is the database transaction when no other runs between its
  statements; theory \<open>BucketLocks\<close> runs the statements of concurrent transactions one by one.
\<close>

type_synonym bucket_key = "pystr \<times> bytes"
type_synonym bucket_request = "pystr \<times> bytes \<times> int \<times> int"

section \<open>Fingerprints\<close>

definition fingerprint :: "(bytes \<Rightarrow> bytes \<Rightarrow> bytes) \<Rightarrow> bytes \<Rightarrow> pystr \<Rightarrow> pystr \<Rightarrow> bytes res" where
  "fingerprint hmac secret scope value =
     bind_res (encode_utf8 (scope @ lit '':'' @ value)) (\<lambda>message. Inr (hmac secret message))"

definition persistent_fingerprint :: "(bytes \<Rightarrow> bytes \<Rightarrow> bytes) \<Rightarrow> bytes \<Rightarrow> pystr \<Rightarrow> pystr \<Rightarrow> bytes res" where
  "persistent_fingerprint hmac secret scope value =
     (if scope = [] then Inl ValueError else fingerprint hmac secret scope value)"

text \<open>The validation loop both \<open>allow_many\<close> share, with their own fingerprint.\<close>

fun encode_requests ::
    "(pystr \<Rightarrow> pystr \<Rightarrow> bytes res) \<Rightarrow> (pystr \<times> pystr \<times> int \<times> int) list \<Rightarrow> bucket_request list res" where
  "encode_requests fp [] = Inr []"
| "encode_requests fp ((scope, value, limit, window) # rest) =
     (if scope = [] \<or> limit \<le> 0 \<or> window \<le> 0 then Inl ValueError
      else bind_res (fp scope value) (\<lambda>key.
           bind_res (encode_requests fp rest) (\<lambda>encoded. Inr ((scope, key, limit, window) # encoded))))"

section \<open>The process-local limiter\<close>

type_synonym buckets = "(bucket_key, instant \<times> int) dict"

definition new_rate_limiter :: "bytes \<Rightarrow> buckets res" where
  "new_rate_limiter secret = (if secret = [] then Inl ValueError else Inr [])"

text \<open>The window a request at \<open>now\<close> falls into: the stored one, or a new one.\<close>

definition open_window :: "instant \<Rightarrow> int \<Rightarrow> (instant \<times> int) option \<Rightarrow> instant \<times> int" where
  "open_window now window stored =
     (case (case stored of None \<Rightarrow> (now, 0) | Some b \<Rightarrow> b) of (expires_at, request_count) \<Rightarrow>
        if expires_at \<le> now then (now + window, 0) else (expires_at, request_count))"

text \<open>The locked section of \<open>allow\<close> and \<open>allow_fingerprint\<close>.\<close>

definition take_one :: "instant \<Rightarrow> bucket_key \<Rightarrow> int \<Rightarrow> int \<Rightarrow> buckets \<Rightarrow> bool \<times> buckets" where
  "take_one now bucket_key limit window bs =
     (case open_window now window (dict_get bs bucket_key) of (expires_at, request_count) \<Rightarrow>
        if request_count \<ge> limit then (False, dict_set bucket_key (expires_at, request_count) bs)
        else (True, dict_set bucket_key (expires_at, request_count + 1) bs))"

definition rl_allow ::
    "(bytes \<Rightarrow> bytes \<Rightarrow> bytes) \<Rightarrow> bytes \<Rightarrow> instant \<Rightarrow> pystr \<Rightarrow> pystr \<Rightarrow> int \<Rightarrow> int \<Rightarrow> buckets \<Rightarrow>
     bool res \<times> buckets" where
  "rl_allow hmac secret now scope value limit window bs =
     (if scope = [] \<or> limit \<le> 0 \<or> window \<le> 0 then (Inl ValueError, bs)
      else case fingerprint hmac secret scope value of
             Inl e \<Rightarrow> (Inl e, bs)
           | Inr key \<Rightarrow> (case take_one now (scope, key) limit window bs of (b, bs') \<Rightarrow> (Inr b, bs')))"

definition rl_allow_fingerprint ::
    "instant \<Rightarrow> pystr \<Rightarrow> bytes \<Rightarrow> int \<Rightarrow> int \<Rightarrow> buckets \<Rightarrow> bool res \<times> buckets" where
  "rl_allow_fingerprint now scope key limit window bs =
     (if length key \<noteq> 32 then (Inl ValueError, bs)
      else if scope = [] \<or> limit \<le> 0 \<or> window \<le> 0 then (Inl ValueError, bs)
      else case take_one now (scope, key) limit window bs of (b, bs') \<Rightarrow> (Inr b, bs'))"

text \<open>
  The locked section of \<open>allow_many\<close>: the states of all buckets are read first, \<open>None\<close> meaning that
  one has no capacity left, and only then written.
\<close>

fun bucket_states ::
    "instant \<Rightarrow> buckets \<Rightarrow> bucket_request list \<Rightarrow> (bucket_key \<times> instant \<times> int) list option" where
  "bucket_states now bs [] = Some []"
| "bucket_states now bs ((scope, key, limit, window) # rest) =
     (case open_window now window (dict_get bs (scope, key)) of (expires_at, request_count) \<Rightarrow>
        if request_count \<ge> limit then None
        else map_option (\<lambda>states. ((scope, key), expires_at, request_count) # states)
               (bucket_states now bs rest))"

definition take_many :: "instant \<Rightarrow> bucket_request list \<Rightarrow> buckets \<Rightarrow> bool \<times> buckets" where
  "take_many now requests bs =
     (case bucket_states now bs requests of
        None \<Rightarrow> (False, bs)
      | Some states \<Rightarrow>
          (True, fold (\<lambda>(k, expires_at, request_count). dict_set k (expires_at, request_count + 1)) states bs))"

definition rl_allow_many ::
    "(bytes \<Rightarrow> bytes \<Rightarrow> bytes) \<Rightarrow> bytes \<Rightarrow> instant \<Rightarrow> (pystr \<times> pystr \<times> int \<times> int) list \<Rightarrow> buckets \<Rightarrow>
     bool res \<times> buckets" where
  "rl_allow_many hmac secret now requests bs =
     (if requests = [] then (Inl ValueError, bs)
      else case encode_requests (fingerprint hmac secret) requests of
             Inl e \<Rightarrow> (Inl e, bs)
           | Inr encoded \<Rightarrow> (case take_many now encoded bs of (b, bs') \<Rightarrow> (Inr b, bs')))"

section \<open>The bucket table\<close>

definition bucket_check :: "rate_limit_bucket \<Rightarrow> bool" where
  "bucket_check r \<longleftrightarrow>
     1 \<le> length (rb_scope r) \<and> length (rb_scope r) \<le> 64 \<and> length (rb_bucket_key r) = 32 \<and>
     rb_window_started_at r < rb_window_expires_at r \<and> 0 \<le> rb_request_count r"

definition bucket_at :: "pystr \<Rightarrow> bytes \<Rightarrow> rate_limit_bucket \<Rightarrow> bool" where
  "bucket_at scope key r \<longleftrightarrow> rb_scope r = scope \<and> rb_bucket_key r = key"

definition bucket_get :: "pystr \<Rightarrow> bytes \<Rightarrow> db \<Rightarrow> rate_limit_bucket option" where
  "bucket_get scope key d = first_row (sql_select (bucket_at scope key) (rate_limit_buckets d))"

definition bucket_get_active :: "instant \<Rightarrow> pystr \<Rightarrow> bytes \<Rightarrow> db \<Rightarrow> rate_limit_bucket option" where
  "bucket_get_active now scope key d =
     first_row (sql_select (\<lambda>r. bucket_at scope key r \<and> rb_window_expires_at r > now) (rate_limit_buckets d))"

text \<open>
  \<open>INSERT ... ON CONFLICT (scope, bucket_key) DO UPDATE ... RETURNING\<close>: the row \<open>new\<close> when there is
  none, else the present one changed by \<open>f\<close>; either way the constraints apply.
\<close>

definition bucket_upsert ::
    "rate_limit_bucket \<Rightarrow> (rate_limit_bucket \<Rightarrow> rate_limit_bucket) \<Rightarrow> db \<Rightarrow> rate_limit_bucket res \<times> db" where
  "bucket_upsert new f d =
     (let here = bucket_at (rb_scope new) (rb_bucket_key new)
      in if \<not> bucket_check new then (Inl BackendUnavailableError, d)
         else if list_ex here (rate_limit_buckets d)
         then case sql_update bucket_check here f (rate_limit_buckets d) of
                (Inl e, _) \<Rightarrow> (Inl e, d)
              | (Inr rows, t) \<Rightarrow> (required_row rows, d\<lparr>rate_limit_buckets := t\<rparr>)
         else (Inr new, d\<lparr>rate_limit_buckets := rate_limit_buckets d @ [new]\<rparr>))"

definition bucket_increment :: "instant \<Rightarrow> pystr \<Rightarrow> bytes \<Rightarrow> instant \<Rightarrow> db \<Rightarrow> rate_limit_bucket res \<times> db" where
  "bucket_increment now scope key window_expires_at d =
     bucket_upsert
       \<lparr>rb_scope = scope, rb_bucket_key = key, rb_window_started_at = now,
        rb_window_expires_at = window_expires_at, rb_request_count = 1\<rparr>
       (\<lambda>r. if rb_window_expires_at r \<le> now
            then r\<lparr>rb_window_started_at := now, rb_window_expires_at := window_expires_at,
                   rb_request_count := 1\<rparr>
            else r\<lparr>rb_request_count := rb_request_count r + 1\<rparr>) d"

definition bucket_record_request ::
    "instant \<Rightarrow> pystr \<Rightarrow> bytes \<Rightarrow> instant \<Rightarrow> db \<Rightarrow> rate_limit_bucket res \<times> db" where
  "bucket_record_request now scope key window_expires_at d =
     bucket_increment now scope key window_expires_at d"

text \<open>The reads of \<open>consume_many\<close>; \<open>None\<close> is the early \<open>return False\<close>.\<close>

fun consume_states ::
    "instant \<Rightarrow> db \<Rightarrow> bucket_request list \<Rightarrow> (bucket_request \<times> (instant \<times> int) option) list option" where
  "consume_states now d [] = Some []"
| "consume_states now d ((scope, key, limit, window) # rest) =
     (let state = map_option (\<lambda>r. (rb_window_expires_at r, rb_request_count r)) (bucket_get scope key d)
      in if (case state of None \<Rightarrow> False | Some (e, n) \<Rightarrow> e > now \<and> n \<ge> limit) then None
         else map_option (\<lambda>states. ((scope, key, limit, window), state) # states)
                (consume_states now d rest))"

definition consume_write ::
    "instant \<Rightarrow> bucket_request \<times> (instant \<times> int) option \<Rightarrow> db \<Rightarrow> unit res \<times> db" where
  "consume_write now = (\<lambda>((scope, key, limit, window), state) d.
     case state of
       Some (e, n) \<Rightarrow>
         if e \<le> now
         then (case bucket_upsert
                 \<lparr>rb_scope = scope, rb_bucket_key = key, rb_window_started_at = now,
                  rb_window_expires_at = now + window, rb_request_count = 1\<rparr>
                 (\<lambda>r. r\<lparr>rb_window_started_at := now, rb_window_expires_at := now + window,
                        rb_request_count := 1\<rparr>) d of (res, d') \<Rightarrow> (bind_res res (\<lambda>_. Inr ()), d'))
         else (case sql_update bucket_check (bucket_at scope key) (\<lambda>r. r\<lparr>rb_request_count := n + 1\<rparr>)
                      (rate_limit_buckets d) of
                 (Inl e, _) \<Rightarrow> (Inl e, d)
               | (Inr _, t) \<Rightarrow> (Inr (), d\<lparr>rate_limit_buckets := t\<rparr>))
     | None \<Rightarrow>
         (case bucket_upsert
            \<lparr>rb_scope = scope, rb_bucket_key = key, rb_window_started_at = now,
             rb_window_expires_at = now + window, rb_request_count = 1\<rparr>
            (\<lambda>r. r\<lparr>rb_window_started_at := now, rb_window_expires_at := now + window,
                   rb_request_count := 1\<rparr>) d of (res, d') \<Rightarrow> (bind_res res (\<lambda>_. Inr ()), d')))"

fun consume_writes ::
    "instant \<Rightarrow> (bucket_request \<times> (instant \<times> int) option) list \<Rightarrow> db \<Rightarrow> unit res \<times> db" where
  "consume_writes now [] d = (Inr (), d)"
| "consume_writes now (w # ws) d =
     (case consume_write now w d of
        (Inl e, d') \<Rightarrow> (Inl e, d')
      | (Inr _, d') \<Rightarrow> consume_writes now ws d')"

text \<open>
  \<open>consume_many\<close>, with no other transaction between its statements; an exception inside the transaction
  rolls it back.
\<close>

definition consume_many :: "instant \<Rightarrow> bucket_request list \<Rightarrow> db \<Rightarrow> bool res \<times> db" where
  "consume_many now requests d =
     (if requests = [] then (Inl ValueError, d)
      else if list_ex (\<lambda>(scope, key, limit, window).
                 \<not> (1 \<le> length scope \<and> length scope \<le> 64) \<or> length key \<noteq> 32 \<or> limit \<le> 0 \<or> window \<le> 0) requests
      then (Inl ValueError, d)
      else case consume_states now d requests of
             None \<Rightarrow> (Inr False, d)
           | Some states \<Rightarrow>
               (case consume_writes now states d of
                  (Inl e, _) \<Rightarrow> (Inl e, d)
                | (Inr _, d') \<Rightarrow> (Inr True, d')))"

definition bucket_delete :: "pystr \<Rightarrow> bytes \<Rightarrow> db \<Rightarrow> bool \<times> db" where
  "bucket_delete scope key d =
     (list_ex (bucket_at scope key) (rate_limit_buckets d),
      d\<lparr>rate_limit_buckets := filter (\<lambda>r. \<not> bucket_at scope key r) (rate_limit_buckets d)\<rparr>)"

definition delete_expired :: "instant \<Rightarrow> int \<Rightarrow> db \<Rightarrow> nat res \<times> db" where
  "delete_expired now limit d =
     (if limit \<le> 0 then (Inl ValueError, d)
      else let rows = take (nat limit) (sort_key rb_window_expires_at
                        (filter (\<lambda>r. rb_window_expires_at r \<le> now) (rate_limit_buckets d)))
           in (Inr (length rows),
               d\<lparr>rate_limit_buckets := filter (\<lambda>r. r \<notin> set rows) (rate_limit_buckets d)\<rparr>))"

definition persistent_allow_many ::
    "(bytes \<Rightarrow> bytes \<Rightarrow> bytes) \<Rightarrow> bytes \<Rightarrow> instant \<Rightarrow> (pystr \<times> pystr \<times> int \<times> int) list \<Rightarrow> db \<Rightarrow>
     bool res \<times> db" where
  "persistent_allow_many hmac secret now requests d =
     (if requests = [] then (Inl ValueError, d)
      else case encode_requests (persistent_fingerprint hmac secret) requests of
             Inl e \<Rightarrow> (Inl e, d)
           | Inr encoded \<Rightarrow> consume_many now encoded d)"

section \<open>The contract of a limiter\<close>

text \<open>
  \<open>bucket s k\<close> is the deadline and the count stored for a key.  A request has room when the count of
  its window is below the limit; taking it counts it in that window.
\<close>

definition has_room :: "instant \<Rightarrow> int \<Rightarrow> (instant \<times> int) option \<Rightarrow> bool" where
  "has_room now limit stored \<longleftrightarrow> snd (open_window now 1 stored) < limit"

definition counted :: "instant \<Rightarrow> int \<Rightarrow> (instant \<times> int) option \<Rightarrow> instant \<times> int" where
  "counted now window stored = (case open_window now window stored of (e, n) \<Rightarrow> (e, n + 1))"

definition keys_of :: "bucket_request list \<Rightarrow> bucket_key set" where
  "keys_of rs = (\<lambda>(scope, key, limit, window). (scope, key)) ` set rs"

lemma open_window_count: "snd (open_window now w stored) = snd (open_window now w' stored)"
  by (simp add: open_window_def split: prod.split)

lemma counted_simps:
  "counted now w None = (now + w, 1)"
  "e \<le> now \<Longrightarrow> counted now w (Some (e, n)) = (now + w, 1)"
  "now < e \<Longrightarrow> counted now w (Some (e, n)) = (e, n + 1)"
  by (simp_all add: counted_def open_window_def)

lemma has_room_simps:
  "0 < l \<Longrightarrow> has_room now l None"
  "0 < l \<Longrightarrow> has_room now l (Some (e, n)) \<longleftrightarrow> e \<le> now \<or> n < l"
  by (simp_all add: has_room_def open_window_def)

text \<open>What the buckets of the keys of some requests become when all of them are taken.\<close>

definition counts ::
    "instant \<Rightarrow> (bucket_key \<Rightarrow> (instant \<times> int) option) \<Rightarrow> bucket_request list \<Rightarrow>
     (bucket_key \<times> instant \<times> int) list" where
  "counts now b rs = map (\<lambda>(scope, key, l, w). ((scope, key), counted now w (b (scope, key)))) rs"

lemma counts_at:
  assumes "k \<in> keys_of rs"
  shows "\<exists>l w. (fst k, snd k, l, w) \<in> set rs \<and>
           (b ++ map_of (rev (counts now b rs))) k = Some (counted now w (b k))"
proof -
  have "fst ` set (counts now b rs) = keys_of rs" by (force simp: counts_def keys_of_def)
  then have "map_of (rev (counts now b rs)) k \<noteq> None" using assms by (simp add: map_of_eq_None_iff)
  then obtain v where v: "map_of (rev (counts now b rs)) k = Some v" by blast
  then have "(k, v) \<in> set (counts now b rs)" by (metis map_of_SomeD set_rev)
  then obtain l w where "(fst k, snd k, l, w) \<in> set rs" "v = counted now w (b k)"
    by (auto simp: counts_def)
  then show ?thesis using v by (auto simp: map_add_def)
qed

lemma counts_other:
  assumes "k \<notin> keys_of rs"
  shows "(b ++ map_of (rev (counts now b rs))) k = b k"
proof -
  have "fst ` set (counts now b rs) = keys_of rs" by (force simp: counts_def keys_of_def)
  then have "map_of (rev (counts now b rs)) k = None" using assms by (simp add: map_of_eq_None_iff)
  then show ?thesis by (simp add: map_add_def)
qed

text \<open>
  A history is a list of timed calls.  \<open>granted\<close> counts the calls at times satisfying \<open>p\<close> that took
  from the bucket \<open>k\<close>; \<open>answers\<close> is what the calls return, with the state they leave.
\<close>

fun granted ::
    "(instant \<Rightarrow> 'c \<Rightarrow> 's \<Rightarrow> bool res \<times> 's) \<Rightarrow> ('c \<Rightarrow> bucket_request list) \<Rightarrow> (instant \<Rightarrow> bool) \<Rightarrow>
     bucket_key \<Rightarrow> (instant \<times> 'c) list \<Rightarrow> 's \<Rightarrow> int" where
  "granted consume requests p k [] s = 0"
| "granted consume requests p k ((now, c) # h) s =
     (case consume now c s of (out, s') \<Rightarrow>
        (if p now \<and> k \<in> keys_of (requests c) \<and> out = Inr True then 1 else 0) +
        granted consume requests p k h s')"

fun answers :: "(instant \<Rightarrow> 'c \<Rightarrow> 's \<Rightarrow> bool res \<times> 's) \<Rightarrow> (instant \<times> 'c) list \<Rightarrow> 's \<Rightarrow> bool res list \<times> 's" where
  "answers consume [] s = ([], s)"
| "answers consume ((now, c) # h) s =
     (case consume now c s of (out, s') \<Rightarrow> case answers consume h s' of (outs, s'') \<Rightarrow> (out # outs, s''))"

definition constant_limit ::
    "('c \<Rightarrow> bucket_request list) \<Rightarrow> bucket_key \<Rightarrow> int \<Rightarrow> int \<Rightarrow> (instant \<times> 'c) list \<Rightarrow> bool" where
  "constant_limit requests k limit window h \<longleftrightarrow>
     list_all (\<lambda>(now, c). list_all (\<lambda>(scope, key, l, w). (scope, key) = k \<longrightarrow> l = limit \<and> w = window)
                            (requests c)) h"

text \<open>What a bucket can still grant in the interval of one window's length that starts at \<open>t\<close>.\<close>

definition quota :: "instant \<Rightarrow> int \<Rightarrow> int \<Rightarrow> (instant \<times> int) option \<Rightarrow> int" where
  "quota t window limit stored =
     (case stored of
        None \<Rightarrow> 2 * limit
      | Some (e, n) \<Rightarrow>
          if e \<le> t then 2 * limit
          else if e < t + window then limit + max 0 (limit - n)
          else max 0 (limit - n))"

lemma quota_bound: "0 < l \<Longrightarrow> (\<And>e n. b = Some (e, n) \<Longrightarrow> 0 \<le> n) \<Longrightarrow> 0 \<le> quota t w l b \<and> quota t w l b \<le> 2 * l"
  by (auto simp: quota_def split: option.split)

lemma quota_step:
  assumes "has_room now l b" "0 < l" "0 < w" "now < t + w"
  shows "(if t \<le> now then 1 else 0) + quota t w l (Some (counted now w b)) \<le> quota t w l b"
  using assms
  by (cases b) (auto simp: quota_def counted_def open_window_def has_room_def split: if_splits)

locale rate_limiter =
  fixes consume :: "instant \<Rightarrow> 'c \<Rightarrow> 's \<Rightarrow> bool res \<times> 's" and requests :: "'c \<Rightarrow> bucket_request list"
    and bucket :: "'s \<Rightarrow> bucket_key \<Rightarrow> (instant \<times> int) option"
    and inv :: "'s \<Rightarrow> bool" and valid :: "'c \<Rightarrow> bool"
  assumes refused: "consume now c s = (out, s') \<Longrightarrow> out \<noteq> Inr True \<Longrightarrow> s' = s"
    and taken: "inv s \<Longrightarrow> consume now c s = (Inr True, s') \<Longrightarrow>
      inv s' \<and> bucket s' = bucket s ++ map_of (rev (counts now (bucket s) (requests c)))"
    and decides: "inv s \<Longrightarrow> valid c \<Longrightarrow>
      fst (consume now c s) =
        Inr (list_all (\<lambda>(scope, key, l, w). has_room now l (bucket s (scope, key))) (requests c))"
    and invalid: "\<not> valid c \<Longrightarrow> isl (fst (consume now c s))"
    and valid_pos: "valid c \<Longrightarrow> list_all (\<lambda>(scope, key, l, w). 0 < l \<and> 0 < w) (requests c)"
    and inv_count: "inv s \<Longrightarrow> bucket s k = Some (e, n) \<Longrightarrow> 0 \<le> n"
begin

lemma step_inv:
  assumes "inv s" "consume now c s = (out, s')"
  shows "inv s'"
  using assms refused taken by (cases "out = Inr True") blast+

lemma granted_zero:
  "list_all (\<lambda>(now, c). \<not> p now) h \<Longrightarrow> granted consume requests p k h s = 0"
  by (induction h arbitrary: s) (auto split: prod.split)

lemma step_quota:
  assumes "inv s" "consume now c s = (out, s')" "now < t + w" "0 < l" "0 < w"
    and const: "list_all (\<lambda>(scope, key, l', w'). (scope, key) = k \<longrightarrow> l' = l \<and> w' = w) (requests c)"
  shows "(if t \<le> now \<and> k \<in> keys_of (requests c) \<and> out = Inr True then 1 else 0) + quota t w l (bucket s' k)
         \<le> quota t w l (bucket s k)"
proof (cases "out = Inr True \<and> k \<in> keys_of (requests c)")
  case True
  then have s': "bucket s' = bucket s ++ map_of (rev (counts now (bucket s) (requests c)))"
    using assms(1,2) taken by blast
  have "valid c" using invalid [of c now s] assms(2) True by auto
  then have room: "list_all (\<lambda>(scope, key, l, w). has_room now l (bucket s (scope, key))) (requests c)"
    using decides [OF assms(1)] assms(2) True by (metis fst_conv sum.inject(2))
  obtain l' w' where
    at: "(fst k, snd k, l', w') \<in> set (requests c)" "bucket s' k = Some (counted now w' (bucket s k))"
    using counts_at [of k "requests c" "bucket s" now] True unfolding s' by metis
  then have "l' = l" "w' = w" "has_room now l (bucket s k)"
    using const room by (cases k; fastforce simp: list_all_iff)+
  then show ?thesis using quota_step [of now l "bucket s k" w t] assms at True by simp
next
  case False
  then have "bucket s' k = bucket s k"
    using assms(1,2) taken refused counts_other by (cases "out = Inr True") metis+
  then show ?thesis using False by auto
qed

text \<open>No bucket grants more than twice its limit in any interval as long as its window.\<close>

lemma granted_bound:
  assumes "inv s" "sorted (map fst h)" "constant_limit requests k l w h" "0 < l" "0 < w"
  shows "granted consume requests (\<lambda>now. t \<le> now \<and> now < t + w) k h s \<le> quota t w l (bucket s k)"
  using assms
proof (induction h arbitrary: s)
  case Nil
  then show ?case using quota_bound [of l "bucket s k" t w] inv_count by simp
next
  case (Cons x h)
  obtain now c where x: "x = (now, c)" by (cases x)
  obtain out s' where o: "consume now c s = (out, s')" by fastforce
  show ?case
  proof (cases "now < t + w")
    case True
    have "granted consume requests (\<lambda>now. t \<le> now \<and> now < t + w) k h s' \<le> quota t w l (bucket s' k)"
      using Cons.IH [of s'] Cons.prems step_inv [OF _ o] by (simp add: constant_limit_def)
    moreover have "list_all (\<lambda>(scope, key, l', w'). (scope, key) = k \<longrightarrow> l' = l \<and> w' = w) (requests c)"
      using Cons.prems(3) by (simp add: x constant_limit_def)
    note step_quota [OF Cons.prems(1) o True Cons.prems(4,5) this]
    ultimately show ?thesis using True by (auto simp: x o split: if_splits)
  next
    case False
    then have "list_all (\<lambda>(n, c). \<not> (t \<le> n \<and> n < t + w)) (x # h)"
      using Cons.prems(2) by (fastforce simp: x list_all_iff)
    then show ?thesis
      using granted_zero quota_bound [of l "bucket s k" t w] inv_count Cons.prems by metis
  qed
qed

lemma granted_twice:
  assumes "inv s" "sorted (map fst h)" "constant_limit requests k l w h" "0 < l" "0 < w"
  shows "granted consume requests (\<lambda>now. t \<le> now \<and> now < t + w) k h s \<le> 2 * l"
  using granted_bound [OF assms, of t] quota_bound [of l "bucket s k" t w] inv_count [OF assms(1)] assms(4)
  by fastforce

end

section \<open>The process-local limiter satisfies it\<close>

datatype limiter_call =
    Allow pystr pystr int int
  | AllowFingerprint pystr bytes int int
  | AllowMany "(pystr \<times> pystr \<times> int \<times> int) list"

fun rl_call ::
    "(bytes \<Rightarrow> bytes \<Rightarrow> bytes) \<Rightarrow> bytes \<Rightarrow> instant \<Rightarrow> limiter_call \<Rightarrow> buckets \<Rightarrow> bool res \<times> buckets" where
  "rl_call hmac secret now (Allow scope value l w) bs = rl_allow hmac secret now scope value l w bs"
| "rl_call hmac secret now (AllowFingerprint scope key l w) bs = rl_allow_fingerprint now scope key l w bs"
| "rl_call hmac secret now (AllowMany rs) bs = rl_allow_many hmac secret now rs bs"

text \<open>The buckets a call asks for, or the exception its arguments raise.\<close>

fun call_requests :: "(bytes \<Rightarrow> bytes \<Rightarrow> bytes) \<Rightarrow> bytes \<Rightarrow> limiter_call \<Rightarrow> bucket_request list res" where
  "call_requests hmac secret (Allow scope value l w) =
     encode_requests (fingerprint hmac secret) [(scope, value, l, w)]"
| "call_requests hmac secret (AllowFingerprint scope key l w) =
     (if length key \<noteq> 32 \<or> scope = [] \<or> l \<le> 0 \<or> w \<le> 0 then Inl ValueError else Inr [(scope, key, l, w)])"
| "call_requests hmac secret (AllowMany rs) =
     (if rs = [] then Inl ValueError else encode_requests (fingerprint hmac secret) rs)"

definition requests_of :: "bucket_request list res \<Rightarrow> bucket_request list" where
  "requests_of r = (case r of Inl _ \<Rightarrow> [] | Inr rs \<Rightarrow> rs)"

definition counts_ok :: "buckets \<Rightarrow> bool" where
  "counts_ok bs \<longleftrightarrow> list_all (\<lambda>(k, e, n). 0 \<le> n) bs"

lemma encode_requests_pos:
  "encode_requests fp rs = Inr es \<Longrightarrow> list_all (\<lambda>(scope, key, l, w). scope \<noteq> [] \<and> 0 < l \<and> 0 < w) es"
  by (induction fp rs arbitrary: es rule: encode_requests.induct)
    (auto simp: bind_res_def split: if_splits sum.splits)

lemma call_requests_pos:
  "call_requests hmac secret c = Inr rs \<Longrightarrow> list_all (\<lambda>(scope, key, l, w). 0 < l \<and> 0 < w) rs"
  by (cases c) (auto simp: list_all_iff simp del: encode_requests.simps split: if_splits dest!: encode_requests_pos)

lemma bucket_states_iff:
  "bucket_states now bs rs =
     (if list_all (\<lambda>(scope, key, l, w). has_room now l (dict_get bs (scope, key))) rs
      then Some (map (\<lambda>(scope, key, l, w). ((scope, key), open_window now w (dict_get bs (scope, key)))) rs)
      else None)"
proof (induction rs)
  case (Cons r rs)
  obtain scope key l w where r: "r = (scope, key, l, w)" by (cases r)
  obtain e n where o: "open_window now w (dict_get bs (scope, key)) = (e, n)" by fastforce
  have "has_room now l (dict_get bs (scope, key)) \<longleftrightarrow> n < l"
    using o open_window_count [of now 1 _ w] unfolding has_room_def by (metis snd_conv)
  then show ?case using Cons by (simp add: r o not_le)
qed simp

lemma take_many_iff:
  "take_many now rs bs =
     (if list_all (\<lambda>(scope, key, l, w). has_room now l (dict_get bs (scope, key))) rs
      then (True, fold (\<lambda>(k, v). dict_set k v) (counts now (dict_get bs) rs) bs) else (False, bs))"
  by (simp add: take_many_def bucket_states_iff counts_def fold_map comp_def counted_def case_prod_beta)


lemma dict_set_same: "dict_get d k = Some v \<Longrightarrow> dict_set k v d = d"
  by (induction d) (auto simp: dict_get_def dict_set_def split: if_splits)

lemma take_one_eq:
  assumes "0 < l"
  shows "take_one now (scope, key) l w bs = take_many now [(scope, key, l, w)] bs"
proof (cases "dict_get bs (scope, key)")
  case None
  then show ?thesis
    using assms by (simp add: take_one_def take_many_def open_window_def)
next
  case (Some b)
  obtain e n where "b = (e, n)" by (cases b)
  then show ?thesis
    using assms Some dict_set_same [OF Some]
    by (cases "e \<le> now") (auto simp: take_one_def take_many_def open_window_def)
qed

lemma rl_call_eq:
  "rl_call hmac secret now c bs =
     (case call_requests hmac secret c of
        Inl e \<Rightarrow> (Inl e, bs)
      | Inr rs \<Rightarrow> (case take_many now rs bs of (b, bs') \<Rightarrow> (Inr b, bs')))"
proof (cases c)
  case (Allow scope v l w)
  then show ?thesis by (auto simp: rl_allow_def take_one_eq bind_res_def split: sum.split)
next
  case (AllowFingerprint scope key l w)
  then show ?thesis by (simp add: rl_allow_fingerprint_def take_one_eq)
next
  case (AllowMany rs)
  then show ?thesis by (simp add: rl_allow_many_def)
qed

lemma dict_get_fold:
  "dict_get (fold (\<lambda>(k, v). dict_set k v) xs d) = dict_get d ++ map_of (rev xs)"
  by (induction xs arbitrary: d) (auto simp: map_add_def fun_eq_iff split: option.splits)

lemma counts_ok_get: "counts_ok bs \<Longrightarrow> dict_get bs k = Some (e, n) \<Longrightarrow> 0 \<le> n"
  by (auto simp: counts_ok_def list_all_iff dest!: dict_get_SomeD)

lemma counts_ok_fold:
  "counts_ok xs \<Longrightarrow> counts_ok bs \<Longrightarrow> counts_ok (fold (\<lambda>(k, v). dict_set k v) xs bs)"
proof (induction xs arbitrary: bs)
  case (Cons x xs)
  then have "counts_ok (dict_set (fst x) (snd x) bs)"
    by (induction bs) (auto simp: counts_ok_def dict_set_def)
  then show ?case using Cons by (cases x) (simp add: counts_ok_def)
qed simp

lemma counted_nonneg: "(\<And>e n. b = Some (e, n) \<Longrightarrow> 0 \<le> n) \<Longrightarrow> 0 \<le> snd (counted now w b)"
  by (cases b) (auto simp: counted_def open_window_def)

interpretation meml: rate_limiter "rl_call hmac secret"
  "\<lambda>c. requests_of (call_requests hmac secret c)" dict_get counts_ok
  "\<lambda>c. \<not> isl (call_requests hmac secret c)" for hmac secret
proof unfold_locales
  fix now c and s s' :: buckets
  assume ok: "counts_ok s" and "rl_call hmac secret now c s = (Inr True, s')"
  then obtain rs where rs: "call_requests hmac secret c = Inr rs"
      "s' = fold (\<lambda>(k, v). dict_set k v) (counts now (dict_get s) rs) s"
    by (auto simp: rl_call_eq take_many_iff split: sum.splits if_splits)
  have "counts_ok (counts now (dict_get s) rs)"
    using counted_nonneg counts_ok_get [OF ok] by (auto simp: counts_def counts_ok_def list_all_iff) (metis snd_conv)
  then have "counts_ok s'" unfolding rs(2) using ok counts_ok_fold by blast
  then show "counts_ok s' \<and> dict_get s' = dict_get s ++
      map_of (rev (counts now (dict_get s) (requests_of (call_requests hmac secret c))))"
    by (simp add: rs dict_get_fold requests_of_def)
next
  fix c :: limiter_call
  assume "\<not> isl (call_requests hmac secret c)"
  then show "list_all (\<lambda>(scope, key, l, w). 0 < l \<and> 0 < w) (requests_of (call_requests hmac secret c))"
    by (auto simp: requests_of_def call_requests_pos split: sum.split)
qed (auto simp: rl_call_eq take_many_iff requests_of_def isl_def counts_ok_get
      split: sum.splits if_splits)

section \<open>The persistent limiter satisfies it\<close>

definition sql_bucket :: "db \<Rightarrow> bucket_key \<Rightarrow> (instant \<times> int) option" where
  "sql_bucket d k =
     map_option (\<lambda>r. (rb_window_expires_at r, rb_request_count r)) (bucket_get (fst k) (snd k) d)"

definition buckets_ok :: "db \<Rightarrow> bool" where
  "buckets_ok d \<longleftrightarrow> list_all bucket_check (rate_limit_buckets d)"

lemma first_row_update:
  assumes "\<And>r. q (f r) = q r"
  shows "first_row (filter q (map (\<lambda>r. if p r then f r else r) t)) =
           map_option (\<lambda>r. if p r then f r else r) (first_row (filter q t))"
  using assms by (induction t) (auto simp: first_row_def)

lemma bucket_at_unique: "bucket_at scope key r \<Longrightarrow> bucket_at s' k' r \<longleftrightarrow> s' = scope \<and> k' = key"
  by (auto simp: bucket_at_def)

lemma first_row_filter_SomeD: "first_row (filter p t) = Some r \<Longrightarrow> r \<in> set t \<and> p r"
  by (auto simp: first_row_def filter_eq_Cons_iff split: list.splits)

lemma bucket_get_SomeD: "bucket_get scope key d = Some r \<Longrightarrow> r \<in> set (rate_limit_buckets d) \<and> bucket_at scope key r"
  unfolding bucket_get_def sql_select_def by (rule first_row_filter_SomeD)

lemma bucket_get_None: "bucket_get scope key d = None \<longleftrightarrow> \<not> list_ex (bucket_at scope key) (rate_limit_buckets d)"
  by (auto simp: bucket_get_def sql_select_def first_row_def filter_empty_conv list_ex_iff split: list.split)
     (metis filter_empty_conv list.discI)

text \<open>An update of the rows of one key that keeps the constraints succeeds and changes that key's bucket only.\<close>

lemma bucket_update:
  assumes ok: "buckets_ok d"
    and f: "\<And>r. rb_scope (f r) = rb_scope r" "\<And>r. rb_bucket_key (f r) = rb_bucket_key r"
    and check: "\<And>r. bucket_check r \<Longrightarrow> bucket_at scope key r \<Longrightarrow> bucket_check (f r)"
  shows "\<exists>rows t. sql_update bucket_check (bucket_at scope key) f (rate_limit_buckets d) = (Inr rows, t) \<and>
    rows = map f (filter (bucket_at scope key) (rate_limit_buckets d)) \<and>
    buckets_ok (d\<lparr>rate_limit_buckets := t\<rparr>) \<and>
    (\<forall>s k. bucket_get s k (d\<lparr>rate_limit_buckets := t\<rparr>) =
       (if s = scope \<and> k = key then map_option f (bucket_get s k d) else bucket_get s k d))"
proof -
  let ?t = "map (\<lambda>r. if bucket_at scope key r then f r else r) (rate_limit_buckets d)"
  have "list_all (\<lambda>r. bucket_at scope key r \<longrightarrow> bucket_check (f r)) (rate_limit_buckets d)"
    using ok check by (auto simp: buckets_ok_def list_all_iff)
  moreover have "list_all bucket_check ?t" using ok check by (auto simp: buckets_ok_def list_all_iff)
  moreover have "bucket_get s k (d\<lparr>rate_limit_buckets := ?t\<rparr>) =
      (if s = scope \<and> k = key then map_option f (bucket_get s k d) else bucket_get s k d)" for s k
  proof -
    have "bucket_get s k (d\<lparr>rate_limit_buckets := ?t\<rparr>) =
        map_option (\<lambda>r. if bucket_at scope key r then f r else r) (bucket_get s k d)"
      unfolding bucket_get_def sql_select_def
      using first_row_update [of "bucket_at s k" f] f by (simp add: bucket_at_def)
    then show ?thesis
      using bucket_get_SomeD [of s k d] by (cases "bucket_get s k d") (auto simp: bucket_at_def)
  qed
  ultimately show ?thesis by (simp add: sql_update_def buckets_ok_def)
qed

lemma bucket_upsert_ok:
  assumes "buckets_ok d" "bucket_check new"
    and "\<And>r. rb_scope (f r) = rb_scope r" "\<And>r. rb_bucket_key (f r) = rb_bucket_key r"
    and "\<And>r. bucket_check r \<Longrightarrow> bucket_at (rb_scope new) (rb_bucket_key new) r \<Longrightarrow> bucket_check (f r)"
  shows "\<exists>r d'. bucket_upsert new f d = (Inr r, d') \<and> buckets_ok d' \<and>
    (\<forall>s k. bucket_get s k d' =
       (if s = rb_scope new \<and> k = rb_bucket_key new
        then Some (case bucket_get s k d of None \<Rightarrow> new | Some r \<Rightarrow> f r) else bucket_get s k d))"
proof (cases "bucket_get (rb_scope new) (rb_bucket_key new) d")
  case None
  then have no: "\<not> list_ex (bucket_at (rb_scope new) (rb_bucket_key new)) (rate_limit_buckets d)"
    by (simp add: bucket_get_None)
  have "bucket_get s k (d\<lparr>rate_limit_buckets := rate_limit_buckets d @ [new]\<rparr>) =
      (if s = rb_scope new \<and> k = rb_bucket_key new then Some new else bucket_get s k d)" for s k
    using no by (auto simp: bucket_get_def sql_select_def first_row_def bucket_at_def list_ex_iff
        filter_empty_conv filter_False split: list.splits)
  then show ?thesis using None no assms(1,2) by (simp add: bucket_upsert_def buckets_ok_def)
next
  case (Some r)
  then have yes: "list_ex (bucket_at (rb_scope new) (rb_bucket_key new)) (rate_limit_buckets d)"
    using bucket_get_None by (metis option.discI)
  then obtain x xs where rows: "filter (bucket_at (rb_scope new) (rb_bucket_key new)) (rate_limit_buckets d) = x # xs"
    by (cases "filter (bucket_at (rb_scope new) (rb_bucket_key new)) (rate_limit_buckets d)")
      (auto simp: list_ex_iff filter_empty_conv)
  from bucket_update [OF assms(1,3,4), of "rb_scope new" "rb_bucket_key new"] assms(5) obtain t where
    t: "sql_update bucket_check (bucket_at (rb_scope new) (rb_bucket_key new)) f (rate_limit_buckets d) =
          (Inr (map f (x # xs)), t)" "buckets_ok (d\<lparr>rate_limit_buckets := t\<rparr>)"
      "\<And>s k. bucket_get s k (d\<lparr>rate_limit_buckets := t\<rparr>) =
         (if s = rb_scope new \<and> k = rb_bucket_key new then map_option f (bucket_get s k d)
          else bucket_get s k d)"
    unfolding rows by metis
  then show ?thesis using Some yes assms(2) by (simp add: bucket_upsert_def required_row_def)
qed

definition request_ok :: "bucket_request \<Rightarrow> bool" where
  "request_ok = (\<lambda>(scope, key, l, w).
     1 \<le> length scope \<and> length scope \<le> 64 \<and> length key = 32 \<and> 0 < l \<and> 0 < w)"

lemma consume_write_ok:
  assumes ok: "buckets_ok d" and req: "request_ok (scope, key, l, w)"
    and b: "b = sql_bucket d (scope, key) \<or> sql_bucket d (scope, key) = Some (counted now w' b)"
    and n: "\<And>e n. b = Some (e, n) \<Longrightarrow> 0 \<le> n"
  shows "\<exists>d'. consume_write now ((scope, key, l, w), b) d = (Inr (), d') \<and> buckets_ok d' \<and>
    sql_bucket d' = (sql_bucket d)((scope, key) \<mapsto> counted now w b)"
proof (cases "\<exists>e n. b = Some (e, n) \<and> now < e")
  case True
  then obtain e m where e: "b = Some (e, m)" "now < e" by blast
  let ?f = "\<lambda>r. r\<lparr>rb_request_count := m + 1\<rparr>"
  have "\<exists>r. bucket_get scope key d = Some r \<and> rb_window_expires_at r = e"
    using b e by (cases "bucket_get scope key d") (auto simp: sql_bucket_def counted_simps)
  moreover from bucket_update [OF ok, of ?f scope key] obtain rows t where
    "sql_update bucket_check (bucket_at scope key) ?f (rate_limit_buckets d) = (Inr rows, t)"
    "buckets_ok (d\<lparr>rate_limit_buckets := t\<rparr>)"
    "\<And>s k. bucket_get s k (d\<lparr>rate_limit_buckets := t\<rparr>) =
       (if s = scope \<and> k = key then map_option ?f (bucket_get s k d) else bucket_get s k d)"
    using n [OF e(1)] by (auto simp: bucket_check_def)
  ultimately show ?thesis
    using e by (auto simp: consume_write_def sql_bucket_def counted_simps fun_eq_iff)
next
  case False
  let ?new = "\<lparr>rb_scope = scope, rb_bucket_key = key, rb_window_started_at = now,
    rb_window_expires_at = now + w, rb_request_count = 1\<rparr>"
  let ?f = "\<lambda>r. r\<lparr>rb_window_started_at := now, rb_window_expires_at := now + w, rb_request_count := 1\<rparr>"
  have up: "consume_write now ((scope, key, l, w), b) d =
      (case bucket_upsert ?new ?f d of (res, d') \<Rightarrow> (bind_res res (\<lambda>_. Inr ()), d'))"
    using False by (cases b) (auto simp: consume_write_def)
  have c: "counted now w b = (now + w, 1)" using False by (cases b) (auto simp: counted_simps not_less)
  have "bucket_check ?new" using req by (simp add: request_ok_def bucket_check_def)
  from bucket_upsert_ok [OF ok this, of ?f] obtain r d' where
    "bucket_upsert ?new ?f d = (Inr r, d')" "buckets_ok d'"
    "\<And>s k. bucket_get s k d' =
       (if s = scope \<and> k = key then Some (case bucket_get s k d of None \<Rightarrow> ?new | Some r \<Rightarrow> ?f r)
        else bucket_get s k d)"
    using req by (auto simp: bucket_check_def request_ok_def)
  then show ?thesis
    unfolding up c by (auto simp: sql_bucket_def fun_eq_iff bind_res_def split: option.split)
qed

definition with_bucket ::
    "(bucket_key \<Rightarrow> (instant \<times> int) option) \<Rightarrow> bucket_request \<Rightarrow> bucket_request \<times> (instant \<times> int) option" where
  "with_bucket b r = (r, b (fst r, fst (snd r)))"

lemma consume_writes_ok:
  assumes "list_all request_ok rs" "buckets_ok d"
    and "\<And>k. sql_bucket d k = b k \<or> (\<exists>w. sql_bucket d k = Some (counted now w (b k)))"
    and "\<And>k e n. b k = Some (e, n) \<Longrightarrow> 0 \<le> n"
  shows "\<exists>d'. consume_writes now (map (with_bucket b) rs) d =
           (Inr (), d') \<and> buckets_ok d' \<and> sql_bucket d' = sql_bucket d ++ map_of (rev (counts now b rs))"
  using assms
proof (induction rs arbitrary: d)
  case (Cons r rs)
  obtain scope key l w where r: "r = (scope, key, l, w)" by (cases r)
  obtain w' where "b (scope, key) = sql_bucket d (scope, key) \<or>
      sql_bucket d (scope, key) = Some (counted now w' (b (scope, key)))"
    using Cons.prems(3) [of "(scope, key)"] by auto
  moreover have "request_ok (scope, key, l, w)" using Cons.prems(1) by (simp add: r)
  ultimately obtain d1 where d1: "consume_write now ((scope, key, l, w), b (scope, key)) d = (Inr (), d1)"
      "buckets_ok d1" "sql_bucket d1 = (sql_bucket d)((scope, key) \<mapsto> counted now w (b (scope, key)))"
    using consume_write_ok [OF Cons.prems(2)] Cons.prems(4) by blast
  have "sql_bucket d1 k = b k \<or> (\<exists>w. sql_bucket d1 k = Some (counted now w (b k)))" for k
    using Cons.prems(3) [of k] unfolding d1(3) by (cases "k = (scope, key)") auto
  with Cons.IH [OF _ d1(2)] Cons.prems(1,4) obtain d' where
    "consume_writes now (map (with_bucket b) rs) d1 = (Inr (), d')"
    "buckets_ok d'" "sql_bucket d' = sql_bucket d1 ++ map_of (rev (counts now b rs))"
    by auto
  then show ?case using d1 by (simp add: r with_bucket_def [of b "(scope, key, l, w)"] counts_def)
qed (simp add: counts_def)

lemma consume_states_iff:
  assumes "list_all request_ok rs"
  shows "consume_states now d rs =
     (if list_all (\<lambda>(scope, key, l, w). has_room now l (sql_bucket d (scope, key))) rs
      then Some (map (with_bucket (sql_bucket d)) rs)
      else None)"
  using assms
proof (induction rs)
  case (Cons r rs)
  obtain scope key l w where r: "r = (scope, key, l, w)" by (cases r)
  then have l: "0 < l" using Cons.prems by (simp add: request_ok_def)
  have room: "(case sql_bucket d (scope, key) of None \<Rightarrow> False | Some (e, n) \<Rightarrow> e > now \<and> n \<ge> l) \<longleftrightarrow>
      \<not> has_room now l (sql_bucket d (scope, key))"
    using has_room_simps [OF l] by (auto split: option.split)
  show ?case
    using Cons room
    by (simp add: r with_bucket_def Let_def sql_bucket_def [of d "(scope, key)", symmetric, simplified])
qed simp

lemma buckets_ok_count: "buckets_ok d \<Longrightarrow> sql_bucket d k = Some (e, n) \<Longrightarrow> 0 \<le> n"
  by (auto simp: sql_bucket_def buckets_ok_def list_all_iff bucket_check_def dest!: bucket_get_SomeD)

lemma consume_many_iff:
  assumes "buckets_ok d" "rs \<noteq> []" "list_all request_ok rs"
  shows "if list_all (\<lambda>(scope, key, l, w). has_room now l (sql_bucket d (scope, key))) rs
    then \<exists>d'. consume_many now rs d = (Inr True, d') \<and> buckets_ok d' \<and>
           sql_bucket d' = sql_bucket d ++ map_of (rev (counts now (sql_bucket d) rs))
    else consume_many now rs d = (Inr False, d)"
proof -
  have "\<not> list_ex (\<lambda>(scope, key, limit, window).
      \<not> (1 \<le> length scope \<and> length scope \<le> 64) \<or> length key \<noteq> 32 \<or> limit \<le> 0 \<or> window \<le> 0) rs"
    using assms(3) by (auto simp: list_ex_iff list_all_iff request_ok_def)
  moreover note consume_writes_ok [OF assms(3,1), of "sql_bucket d" now]
  ultimately show ?thesis
    using assms buckets_ok_count [OF assms(1)]
    by (auto simp: consume_many_def consume_states_iff)
qed

lemma consume_many_invalid:
  "\<not> (rs \<noteq> [] \<and> list_all request_ok rs) \<Longrightarrow> consume_many now rs d = (Inl ValueError, d)"
  by (auto simp: consume_many_def list_ex_iff list_all_iff request_ok_def)

text \<open>The encoded requests of \<open>PersistentRateLimiter.allow_many\<close>, or the exception they raise.\<close>

definition persistent_requests ::
    "(bytes \<Rightarrow> bytes \<Rightarrow> bytes) \<Rightarrow> bytes \<Rightarrow> (pystr \<times> pystr \<times> int \<times> int) list \<Rightarrow> bucket_request list res" where
  "persistent_requests hmac secret rs =
     (if rs = [] then Inl ValueError else
      bind_res (encode_requests (persistent_fingerprint hmac secret) rs) (\<lambda>es.
        if es \<noteq> [] \<and> list_all request_ok es then Inr es else Inl ValueError))"

lemma persistent_eq:
  "persistent_allow_many hmac secret now rs d =
     (case persistent_requests hmac secret rs of Inl e \<Rightarrow> (Inl e, d) | Inr es \<Rightarrow> consume_many now es d)"
  by (auto simp: persistent_allow_many_def persistent_requests_def bind_res_def consume_many_invalid
      split: sum.splits)

lemma persistent_requests_ok:
  "persistent_requests hmac secret rs = Inr es \<Longrightarrow> es \<noteq> [] \<and> list_all request_ok es"
  by (auto simp: persistent_requests_def bind_res_def split: if_splits sum.splits)

interpretation sqll: rate_limiter "persistent_allow_many hmac secret"
  "\<lambda>c. requests_of (persistent_requests hmac secret c)" sql_bucket buckets_ok
  "\<lambda>c. \<not> isl (persistent_requests hmac secret c)" for hmac secret
proof unfold_locales
  fix now c s out s'
  assume "persistent_allow_many hmac secret now c s = (out, s')" "out \<noteq> Inr True"
  then show "s' = s"
    by (auto simp: persistent_eq consume_many_def split: sum.splits if_splits option.splits prod.splits)
next
  fix now c s s'
  assume s: "buckets_ok s" "persistent_allow_many hmac secret now c s = (Inr True, s')"
  then obtain es where es: "persistent_requests hmac secret c = Inr es" "consume_many now es s = (Inr True, s')"
    by (auto simp: persistent_eq split: sum.splits)
  then show "buckets_ok s' \<and> sql_bucket s' = sql_bucket s ++
      map_of (rev (counts now (sql_bucket s) (requests_of (persistent_requests hmac secret c))))"
    using consume_many_iff [OF s(1), of es now] persistent_requests_ok
    by (auto simp: requests_of_def split: if_splits)
next
  fix now c s
  assume s: "buckets_ok s" "\<not> isl (persistent_requests hmac secret c)"
  then obtain es where es: "persistent_requests hmac secret c = Inr es" by (auto simp: isl_def) (metis sum.exhaust)
  then show "fst (persistent_allow_many hmac secret now c s) =
      Inr (list_all (\<lambda>(scope, key, l, w). has_room now l (sql_bucket s (scope, key)))
        (requests_of (persistent_requests hmac secret c)))"
    using consume_many_iff [OF s(1), of es now] persistent_requests_ok [OF es]
    by (auto simp: persistent_eq requests_of_def split: if_splits)
next
  fix c
  show "list_all (\<lambda>(scope, key, l, w). 0 < l \<and> 0 < w) (requests_of (persistent_requests hmac secret c))"
    using persistent_requests_ok [of hmac secret c]
    by (cases "persistent_requests hmac secret c") (auto simp: requests_of_def list_all_iff request_ok_def)
qed (auto simp: persistent_eq isl_def buckets_ok_count)

section \<open>Properties of the limiters\<close>

text \<open>
  \<open>PersistentRateLimiter.allow_many\<close> on well-formed requests returns \<open>True\<close> exactly when every
  bucket has room; then each requested bucket is counted once in its window and no other bucket
  changes.  When it returns \<open>False\<close> or raises, the table is unchanged.
\<close>

theorem allow_many_all_or_nothing:
  assumes "buckets_ok d" "persistent_allow_many hmac secret now rs d = (out, d')"
  shows "(out \<noteq> Inr True \<longrightarrow> d' = d) \<and>
    (case persistent_requests hmac secret rs of
       Inl e \<Rightarrow> out = Inl e
     | Inr es \<Rightarrow>
         out = Inr (list_all (\<lambda>(scope, key, l, w). has_room now l (sql_bucket d (scope, key))) es) \<and>
         (out = Inr True \<longrightarrow> buckets_ok d' \<and>
           (\<forall>k. k \<notin> keys_of es \<longrightarrow> sql_bucket d' k = sql_bucket d k) \<and>
           (\<forall>k\<in>keys_of es. \<exists>l w. (fst k, snd k, l, w) \<in> set es \<and>
              sql_bucket d' k = Some (counted now w (sql_bucket d k)))))"
proof (cases "persistent_requests hmac secret rs")
  case (Inl e)
  then show ?thesis using assms(2) by (simp add: persistent_eq)
next
  case (Inr es)
  have "out = Inr (list_all (\<lambda>(scope, key, l, w). has_room now l (sql_bucket d (scope, key))) es)"
    using sqll.decides [OF assms(1), of hmac secret rs now] assms(2) Inr by (simp add: requests_of_def)
  moreover have "out = Inr True \<longrightarrow> buckets_ok d' \<and>
      sql_bucket d' = sql_bucket d ++ map_of (rev (counts now (sql_bucket d) es))"
    using sqll.taken [OF assms(1), of hmac secret now rs d'] assms(2) Inr by (auto simp: requests_of_def)
  ultimately show ?thesis
    using sqll.refused [OF assms(2)] counts_at [of _ es "sql_bucket d" now] counts_other [of _ es "sql_bucket d" now]
    by (simp add: Inr)
qed

lemma encode_requests_persistent:
  "encode_requests (persistent_fingerprint hmac secret) rs = encode_requests (fingerprint hmac secret) rs"
  by (induction rs) (auto simp: persistent_fingerprint_def)

lemma encode_requests_ok:
  assumes "encode_requests (fingerprint hmac secret) rs = Inr es" "\<And>m. length (hmac secret m) = 32"
    and "list_all (\<lambda>(scope, _). length scope \<le> 64) rs"
  shows "list_all request_ok es \<and> length es = length rs"
  using assms
  by (induction rs arbitrary: es)
    (auto simp: bind_res_def request_ok_def fingerprint_def Suc_le_eq split: if_splits sum.splits)

lemma limiters_agree_step:
  assumes "\<And>m. length (hmac secret m) = 32" "list_all (\<lambda>(scope, _). length scope \<le> 64) rs"
    and "dict_get bs = sql_bucket d" "buckets_ok d"
    and "rl_allow_many hmac secret now rs bs = (out, bs')"
  shows "\<exists>d'. persistent_allow_many hmac secret now rs d = (out, d') \<and> buckets_ok d' \<and> dict_get bs' = sql_bucket d'"
proof (cases "call_requests hmac secret (AllowMany rs)")
  case (Inl e)
  then have "persistent_requests hmac secret rs = Inl e"
    by (auto simp: persistent_requests_def encode_requests_persistent split: if_splits)
  then show ?thesis using Inl assms rl_call_eq [of hmac secret now "AllowMany rs" bs] by (simp add: persistent_eq)
next
  case (Inr es)
  then have es: "encode_requests (fingerprint hmac secret) rs = Inr es" "rs \<noteq> []" by (auto split: if_splits)
  then have ok: "es \<noteq> []" "list_all request_ok es" using encode_requests_ok [OF es(1) assms(1,2)] by auto
  then have "persistent_requests hmac secret rs = Inr es"
    using es by (simp add: persistent_requests_def encode_requests_persistent)
  then show ?thesis
    using Inr assms(3-5) rl_call_eq [of hmac secret now "AllowMany rs" bs] consume_many_iff [OF assms(4) ok, of now]
    by (auto simp: persistent_eq take_many_iff dict_get_fold split: if_splits)
qed

text \<open>
  C23.  The two limiters are interchangeable when their calls do not overlap: from buckets that agree,
  over any history of \<open>allow_many\<close> calls, one after the other and with scopes of at most 64 characters,
  they give the same answers, exceptions included, and end with buckets that agree.  (A longer scope
  raises in the persistent limiter only, and overlapping calls are the subject of \<open>BucketLocks\<close>.)
\<close>

theorem limiters_agree:
  assumes "\<And>m. length (hmac secret m) = 32"
    and "list_all (\<lambda>(now, rs). list_all (\<lambda>(scope, _). length scope \<le> 64) rs) h"
    and "dict_get bs = sql_bucket d" "buckets_ok d"
  shows "fst (answers (rl_allow_many hmac secret) h bs) = fst (answers (persistent_allow_many hmac secret) h d) \<and>
    dict_get (snd (answers (rl_allow_many hmac secret) h bs)) =
      sql_bucket (snd (answers (persistent_allow_many hmac secret) h d))"
  using assms(2-4)
proof (induction h arbitrary: bs d)
  case (Cons x h)
  obtain now rs where x: "x = (now, rs)" by (cases x)
  obtain out bs' where o: "rl_allow_many hmac secret now rs bs = (out, bs')" by fastforce
  obtain d' where d': "persistent_allow_many hmac secret now rs d = (out, d')" "buckets_ok d'"
      "dict_get bs' = sql_bucket d'"
    using limiters_agree_step [of hmac secret rs bs d now out bs'] assms(1) Cons.prems o by (auto simp: x)
  then show ?case
    using Cons.IH [of bs' d'] Cons.prems(1) by (simp add: x o split: prod.split) (metis fst_conv snd_conv)
qed simp

text \<open>A digest of the right length, and a history of two users of a bucket with limit two.\<close>

definition toy_hmac :: "bytes \<Rightarrow> bytes \<Rightarrow> bytes" where
  "toy_hmac key message = take 32 (message @ replicate 32 0)"

definition sample_requests :: "(pystr \<times> pystr \<times> int \<times> int) list" where
  "sample_requests = [(lit ''email'', lit ''a'', 2, 60), (lit ''network'', lit ''n'', 9, 60)]"

lemma length_toy_hmac: "length (toy_hmac key message) = 32"
  by (simp add: toy_hmac_def)

theorem allow_many_all_or_nothing_witness:
  "fst (persistent_allow_many toy_hmac [7] 0 sample_requests empty_db) = Inr True \<and>
   buckets_ok (snd (persistent_allow_many toy_hmac [7] 0 sample_requests empty_db))"
proof -
  let ?r = "persistent_allow_many toy_hmac [7] 0 sample_requests empty_db"
  have out: "fst ?r = Inr True" by code_simp
  have "\<not> isl (persistent_requests toy_hmac [7] sample_requests)" by code_simp
  then obtain es where es: "persistent_requests toy_hmac [7] sample_requests = Inr es"
    by (metis sum.collapse(2))
  have "buckets_ok empty_db" by code_simp
  note allow_many_all_or_nothing [OF this, of toy_hmac "[7]" 0 sample_requests "fst ?r" "snd ?r"]
  with out es show ?thesis by (simp add: prod_eq_iff)
qed

theorem limiters_agree_witness:
  "fst (answers (rl_allow_many toy_hmac [7]) [(0, sample_requests), (5, sample_requests), (7, sample_requests)] []) =
   fst (answers (persistent_allow_many toy_hmac [7])
     [(0, sample_requests), (5, sample_requests), (7, sample_requests)] empty_db)"
proof -
  have "dict_get [] = sql_bucket empty_db"
    by (simp add: fun_eq_iff sql_bucket_def bucket_get_def sql_select_def empty_db_def)
  then show ?thesis
    by (intro limiters_agree [THEN conjunct1] length_toy_hmac) (simp_all add: sample_requests_def lit_def buckets_ok_def empty_db_def)
qed
end
