(* ===== verification/BucketLocks.thy ===== *)
theory BucketLocks
  imports RateLimit
begin

text \<open>
  Concurrent calls of \<open>consume_many\<close> of \<open>repositories/rate_limits.py\<close>.  The transaction reads the rows
  of its buckets one by one with \<open>SELECT ... FOR UPDATE\<close>, which waits for a row that another transaction
  has locked, and locks the row until the transaction ends; where there is no row there is nothing to
  lock.  Nobody sees its writes before it commits, so they are one step with the commit, which waits for
  rows that others have locked.  PostgreSQL ends a transaction that waits for ever (\<open>TxAbort\<close>).
\<close>

section \<open>Transactions\<close>

record consuming =
  cs_now :: instant
  cs_left :: "bucket_request list"
  cs_states :: "(bucket_request \<times> (instant \<times> int) option) list"

type_synonym transactions = "(nat, consuming) dict"

definition request_key :: "bucket_request \<Rightarrow> bucket_key" where
  "request_key = (\<lambda>(scope, key, l, w). (scope, key))"

definition row_lock :: "bucket_key \<Rightarrow> consuming \<Rightarrow> bool" where
  "row_lock k c = list_ex (\<lambda>(r, state). request_key r = k \<and> state \<noteq> None) (cs_states c)"

definition locked_by_other :: "nat \<Rightarrow> bucket_key \<Rightarrow> transactions \<Rightarrow> bool" where
  "locked_by_other i k txs = list_ex (\<lambda>(j, c). j \<noteq> i \<and> row_lock k c) txs"

datatype tx_event =
    TxBegin nat instant "bucket_request list"
  | TxRead nat
  | TxCommit nat
  | TxAbort nat

text \<open>A step gives an answer when a call ends; a step that has to wait changes nothing.\<close>

fun tx_step :: "tx_event \<Rightarrow> db \<times> transactions \<Rightarrow> bool res option \<times> db \<times> transactions" where
  "tx_step (TxBegin i now rs) (d, txs) =
     (if dict_get txs i \<noteq> None then (None, d, txs)
      else if rs = [] \<or> \<not> list_all request_ok rs then (Some (Inl ValueError), d, txs)
      else (None, d, dict_set i \<lparr>cs_now = now, cs_left = rs, cs_states = []\<rparr> txs))"
| "tx_step (TxRead i) (d, txs) =
     (case dict_get txs i of
        None \<Rightarrow> (None, d, txs)
      | Some c \<Rightarrow>
          (case cs_left c of
             [] \<Rightarrow> (None, d, txs)
           | (scope, key, l, w) # rest \<Rightarrow>
               let state = sql_bucket d (scope, key)
               in if state \<noteq> None \<and> locked_by_other i (scope, key) txs then (None, d, txs)
                  else if (case state of None \<Rightarrow> False | Some (e, n) \<Rightarrow> e > cs_now c \<and> n \<ge> l)
                  then (Some (Inr False), d, dict_del i txs)
                  else (None, d, dict_set i (c\<lparr>cs_left := rest, cs_states := cs_states c @ [((scope, key, l, w), state)]\<rparr>) txs)))"
| "tx_step (TxCommit i) (d, txs) =
     (case dict_get txs i of
        None \<Rightarrow> (None, d, txs)
      | Some c \<Rightarrow>
          if cs_left c \<noteq> [] \<or> list_ex (\<lambda>(r, _). locked_by_other i (request_key r) txs) (cs_states c) then (None, d, txs)
          else (case consume_writes (cs_now c) (cs_states c) d of
                  (Inl e, _) \<Rightarrow> (Some (Inl e), d, dict_del i txs)
                | (Inr _, d') \<Rightarrow> (Some (Inr True), d', dict_del i txs)))"
| "tx_step (TxAbort i) (d, txs) =
     (case dict_get txs i of
        None \<Rightarrow> (None, d, txs)
      | Some _ \<Rightarrow> (Some (Inl BackendUnavailableError), d, dict_del i txs))"

fun tx_run :: "tx_event list \<Rightarrow> db \<times> transactions \<Rightarrow> bool res list \<times> db \<times> transactions" where
  "tx_run [] s = ([], s)"
| "tx_run (ev # evs) s =
     (case tx_step ev s of (out, s') \<Rightarrow>
      case tx_run evs s' of (outs, s'') \<Rightarrow> (case out of None \<Rightarrow> outs | Some x \<Rightarrow> x # outs, s''))"

text \<open>The times of the transactions that took from the bucket \<open>k\<close>, in the order of their commits.\<close>

definition tx_grant :: "bucket_key \<Rightarrow> tx_event \<Rightarrow> db \<times> transactions \<Rightarrow> instant list" where
  "tx_grant k ev s =
     (case ev of
        TxCommit i \<Rightarrow>
          (case dict_get (snd s) i of
             None \<Rightarrow> []
           | Some c \<Rightarrow>
               if fst (tx_step ev s) = Some (Inr True) \<and> k \<in> request_key ` fst ` set (cs_states c) then [cs_now c] else [])
      | _ \<Rightarrow> [])"

fun tx_grants :: "bucket_key \<Rightarrow> tx_event list \<Rightarrow> db \<times> transactions \<Rightarrow> instant list" where
  "tx_grants k [] s = []"
| "tx_grants k (ev # evs) s = tx_grant k ev s @ tx_grants k evs (snd (tx_step ev s))"

text \<open>Two first requests for a bucket with limit one.\<close>

definition race_key :: bucket_key where
  "race_key = (lit ''email'', replicate 32 0)"

definition race :: "tx_event list" where
  "race = [TxBegin 1 0 [(lit ''email'', replicate 32 0, 1, 60)], TxBegin 2 0 [(lit ''email'', replicate 32 0, 1, 60)],
     TxRead 1, TxRead 2, TxCommit 1, TxCommit 2]"

lemma first_requests_race:
  "fst (tx_run race (empty_db, [])) = [Inr True, Inr True] \<and> tx_grants race_key race (empty_db, []) = [0, 0] \<and>
   sql_bucket (fst (snd (tx_run race (empty_db, [])))) race_key = Some (60, 1)"
  by code_simp

section \<open>A transaction alone\<close>

definition alone :: "nat \<Rightarrow> instant \<Rightarrow> bucket_request list \<Rightarrow> tx_event list" where
  "alone i now rs = TxBegin i now rs # replicate (length rs) (TxRead i) @ [TxCommit i]"

lemma tx_run_idle:
  "tx_run (replicate n (TxRead i) @ [TxCommit i]) (d, []) = ([], d, [])"
  by (induction n) (simp_all add: dict_get_def)

lemma tx_run_reads:
  assumes "list_all request_ok rs"
  shows "tx_run (replicate (length rs) (TxRead i) @ [TxCommit i])
      (d, [(i, \<lparr>cs_now = now, cs_left = rs, cs_states = seen\<rparr>)]) =
    (case consume_states now d rs of
       None \<Rightarrow> ([Inr False], d, [])
     | Some states \<Rightarrow>
         (case consume_writes now (seen @ states) d of
            (Inl e, _) \<Rightarrow> ([Inl e], d, [])
          | (Inr _, d') \<Rightarrow> ([Inr True], d', [])))"
  using assms
proof (induction rs arbitrary: seen)
  case Nil
  then show ?case
    by (auto simp: dict_get_def dict_del_def locked_by_other_def list_ex_iff split: prod.splits sum.splits)
next
  case (Cons r rs)
  obtain scope key l w where r: "r = (scope, key, l, w)" by (cases r)
  have b: "map_option (\<lambda>r. (rb_window_expires_at r, rb_request_count r)) (bucket_get scope key d) = sql_bucket d (scope, key)"
    by (simp add: sql_bucket_def)
  show ?case
    using Cons
    by (auto simp: r b dict_get_def dict_set_def dict_del_def locked_by_other_def Let_def tx_run_idle split: option.split prod.splits)
qed

lemma consume_many_alone:
  "tx_run (alone i now rs) (d, []) = ([fst (consume_many now rs d)], snd (consume_many now rs d), [])"
proof (cases "rs \<noteq> [] \<and> list_all request_ok rs")
  case True
  then have "\<not> list_ex (\<lambda>(scope, key, limit, window).
      \<not> (1 \<le> length scope \<and> length scope \<le> 64) \<or> length key \<noteq> 32 \<or> limit \<le> 0 \<or> window \<le> 0) rs"
    by (auto simp: list_ex_iff list_all_iff request_ok_def)
  then show ?thesis
    using True tx_run_reads [of rs i d now "[]"]
    by (auto simp: alone_def consume_many_def dict_get_def dict_set_def split: option.splits prod.splits sum.splits)
next
  case False
  then show ?thesis
    using consume_many_invalid [OF False, of now d] by (auto simp: alone_def dict_get_def tx_run_idle)
qed

section \<open>What a write changes\<close>

lemma update_frame:
  assumes "sql_update bucket_check (bucket_at scope key) f (rate_limit_buckets d) = (Inr rows, t)" and "buckets_ok d"
    and "\<And>r. rb_scope (f r) = rb_scope r" "\<And>r. rb_bucket_key (f r) = rb_bucket_key r"
  shows "buckets_ok (d\<lparr>rate_limit_buckets := t\<rparr>)"
    and "k \<noteq> (scope, key) \<Longrightarrow> sql_bucket (d\<lparr>rate_limit_buckets := t\<rparr>) k = sql_bucket d k"
proof -
  have t: "t = map (\<lambda>r. if bucket_at scope key r then f r else r) (rate_limit_buckets d)"
    and ok: "list_all (\<lambda>r. bucket_at scope key r \<longrightarrow> bucket_check (f r)) (rate_limit_buckets d)"
    using assms(1) by (auto simp: sql_update_def split: if_splits)
  show "buckets_ok (d\<lparr>rate_limit_buckets := t\<rparr>)" using ok assms(2) by (auto simp: t buckets_ok_def list_all_iff)
  assume k: "k \<noteq> (scope, key)"
  have "bucket_get (fst k) (snd k) (d\<lparr>rate_limit_buckets := t\<rparr>) =
      map_option (\<lambda>r. if bucket_at scope key r then f r else r) (bucket_get (fst k) (snd k) d)"
    unfolding bucket_get_def sql_select_def t
    using first_row_update [of "bucket_at (fst k) (snd k)" f] assms(3,4) by (simp add: bucket_at_def)
  then show "sql_bucket (d\<lparr>rate_limit_buckets := t\<rparr>) k = sql_bucket d k"
    using k bucket_get_SomeD [of "fst k" "snd k" d]
    by (cases "bucket_get (fst k) (snd k) d") (auto simp: sql_bucket_def bucket_at_def)
qed

lemma upsert_frame:
  assumes "bucket_upsert new f d = (Inr r, d')" and "buckets_ok d"
    and "\<And>r. rb_scope (f r) = rb_scope r" "\<And>r. rb_bucket_key (f r) = rb_bucket_key r"
  shows "buckets_ok d'" and "k \<noteq> (rb_scope new, rb_bucket_key new) \<Longrightarrow> sql_bucket d' k = sql_bucket d k"
proof -
  have new: "bucket_check new" using assms(1) by (auto simp: bucket_upsert_def Let_def split: if_splits)
  have "buckets_ok d' \<and> (k \<noteq> (rb_scope new, rb_bucket_key new) \<longrightarrow> sql_bucket d' k = sql_bucket d k)"
  proof (cases "list_ex (bucket_at (rb_scope new) (rb_bucket_key new)) (rate_limit_buckets d)")
    case True
    then obtain rows t where t: "sql_update bucket_check (bucket_at (rb_scope new) (rb_bucket_key new)) f (rate_limit_buckets d) = (Inr rows, t)"
        "d' = d\<lparr>rate_limit_buckets := t\<rparr>"
      using assms(1) new by (auto simp: bucket_upsert_def Let_def split: prod.splits sum.splits)
    show ?thesis using update_frame [OF t(1) assms(2-4)] t(2) by blast
  next
    case False
    then have d': "d' = d\<lparr>rate_limit_buckets := rate_limit_buckets d @ [new]\<rparr>"
      using assms(1) new by (auto simp: bucket_upsert_def Let_def)
    then show ?thesis
      using assms(2) new
      by (auto simp: buckets_ok_def sql_bucket_def bucket_get_def sql_select_def bucket_at_def first_row_def split: list.splits)
  qed
  then show "buckets_ok d'" and "k \<noteq> (rb_scope new, rb_bucket_key new) \<Longrightarrow> sql_bucket d' k = sql_bucket d k" by blast+
qed

lemma consume_write_frame:
  assumes "consume_write now (r, state) d = (Inr u, d')" and "buckets_ok d"
  shows "buckets_ok d'" and "k \<noteq> request_key r \<Longrightarrow> sql_bucket d' k = sql_bucket d k"
proof -
  obtain scope key l w where r: "r = (scope, key, l, w)" by (cases r)
  let ?new = "\<lparr>rb_scope = scope, rb_bucket_key = key, rb_window_started_at = now,
    rb_window_expires_at = now + w, rb_request_count = 1\<rparr>"
  let ?f = "\<lambda>r. r\<lparr>rb_window_started_at := now, rb_window_expires_at := now + w, rb_request_count := 1\<rparr>"
  consider (up) x where "bucket_upsert ?new ?f d = (Inr x, d')"
    | (set) n rows t where "sql_update bucket_check (bucket_at scope key) (\<lambda>r. r\<lparr>rb_request_count := n + 1\<rparr>) (rate_limit_buckets d) = (Inr rows, t)"
        "d' = d\<lparr>rate_limit_buckets := t\<rparr>"
    using assms(1) by (auto simp: r consume_write_def bind_res_def split: option.splits if_splits prod.splits sum.splits)
  then have "buckets_ok d' \<and> (k \<noteq> request_key r \<longrightarrow> sql_bucket d' k = sql_bucket d k)"
  proof cases
    case up
    show ?thesis using upsert_frame [OF up assms(2)] by (simp add: r request_key_def)
  next
    case set
    show ?thesis using update_frame [OF set(1) assms(2)] by (simp add: r request_key_def set(2))
  qed
  then show "buckets_ok d'" and "k \<noteq> request_key r \<Longrightarrow> sql_bucket d' k = sql_bucket d k" by blast+
qed

text \<open>
  The writes of a transaction whose reads of the bucket \<open>k\<close> are still current count it once, however
  old its reads of other buckets are.
\<close>

lemma consume_writes_effect:
  assumes "consume_writes now ss d = (Inr u, d')" and "buckets_ok d" and "\<And>e n. b = Some (e, n) \<Longrightarrow> 0 \<le> n"
    and "list_all (\<lambda>(r, state). request_ok r \<and> (request_key r = k \<longrightarrow> state = b \<and> snd (snd (snd r)) = w)) ss"
    and "sql_bucket d k = b \<or> sql_bucket d k = Some (counted now w b)"
  shows "buckets_ok d' \<and> sql_bucket d' k = (if k \<in> request_key ` fst ` set ss then Some (counted now w b) else sql_bucket d k)"
  using assms
proof (induction ss arbitrary: d)
  case (Cons x ss)
  obtain scope key l w' state where x: "x = ((scope, key, l, w'), state)" by (metis prod.collapse)
  obtain d1 where d1: "consume_write now x d = (Inr (), d1)" "consume_writes now ss d1 = (Inr u, d')"
    using Cons.prems(1) by (auto split: prod.splits sum.splits)
  note frame = consume_write_frame [OF d1(1) [unfolded x] Cons.prems(2)]
  have rest: "list_all (\<lambda>(r, state). request_ok r \<and> (request_key r = k \<longrightarrow> state = b \<and> snd (snd (snd r)) = w)) ss"
    using Cons.prems(4) by simp
  show ?case
  proof (cases "(scope, key) = k")
    case True
    then have "state = b" "w' = w" "request_ok (scope, key, l, w')" using Cons.prems(4) by (auto simp: x request_key_def)
    then obtain d2 where "consume_write now x d = (Inr (), d2)" "sql_bucket d2 = (sql_bucket d)((scope, key) \<mapsto> counted now w b)"
      using consume_write_ok [OF Cons.prems(2), of scope key l w b now w] Cons.prems(3,5) True by (auto simp: x)
    then have "sql_bucket d1 k = Some (counted now w b)" using d1(1) True by simp
    then show ?thesis
      using Cons.IH [OF d1(2) frame(1) Cons.prems(3) rest] True by (auto simp: x request_key_def split: if_splits)
  next
    case False
    then have same: "sql_bucket d1 k = sql_bucket d k" using frame(2) [of k] by (simp add: request_key_def)
    then show ?thesis
      using Cons.IH [OF d1(2) frame(1) Cons.prems(3) rest] Cons.prems(5) False by (auto simp: x request_key_def)
  qed
qed simp

section \<open>A stored bucket under concurrency\<close>

definition uses_limit :: "bucket_key \<Rightarrow> int \<Rightarrow> int \<Rightarrow> bucket_request \<Rightarrow> bool" where
  "uses_limit k l w = (\<lambda>(scope, key, l', w'). (scope, key) = k \<longrightarrow> l' = l \<and> w' = w)"

fun event_uses :: "bucket_key \<Rightarrow> int \<Rightarrow> int \<Rightarrow> tx_event \<Rightarrow> bool" where
  "event_uses k l w (TxBegin i now rs) = list_all (uses_limit k l w) rs"
| "event_uses k l w _ = True"

text \<open>
  The bucket has a row; what an open transaction read of it is still its content, and had room; and
  at most one transaction has read it.
\<close>

definition tx_ok :: "bucket_key \<Rightarrow> int \<Rightarrow> int \<Rightarrow> (instant \<times> int) option \<Rightarrow> consuming \<Rightarrow> bool" where
  "tx_ok k l w b c \<longleftrightarrow>
     list_all (\<lambda>r. request_ok r \<and> uses_limit k l w r) (cs_left c) \<and>
     list_all (\<lambda>(r, state). request_ok r \<and> uses_limit k l w r \<and>
       (request_key r = k \<longrightarrow> state = b \<and> has_room (cs_now c) l b)) (cs_states c)"

definition steady :: "bucket_key \<Rightarrow> int \<Rightarrow> int \<Rightarrow> db \<times> transactions \<Rightarrow> bool" where
  "steady k l w = (\<lambda>(d, txs).
     buckets_ok d \<and> sql_bucket d k \<noteq> None \<and> dict_ok txs \<and>
     (\<forall>i c. dict_get txs i = Some c \<longrightarrow> tx_ok k l w (sql_bucket d k) c) \<and>
     (\<forall>i j c c'. dict_get txs i = Some c \<longrightarrow> dict_get txs j = Some c' \<longrightarrow> row_lock k c \<longrightarrow> row_lock k c' \<longrightarrow> i = j))"

lemma locked_by_other_iff:
  "dict_ok txs \<Longrightarrow> locked_by_other i k txs \<longleftrightarrow> (\<exists>j c. j \<noteq> i \<and> dict_get txs j = Some c \<and> row_lock k c)"
  by (auto simp: locked_by_other_def list_ex_iff dict_get_iff)

lemma steady_del:
  "steady k l w (d, txs) \<Longrightarrow> steady k l w (d, dict_del i txs)"
  by (auto simp: steady_def split: if_splits)

lemma tx_ok_lock: "tx_ok k l w b c \<Longrightarrow> b \<noteq> None \<Longrightarrow> row_lock k c \<longleftrightarrow> k \<in> request_key ` fst ` set (cs_states c)"
  by (force simp: tx_ok_def row_lock_def list_ex_iff list_all_iff)

lemma tx_ok_unread:
  assumes "tx_ok k l w b c" and "k \<notin> request_key ` fst ` set (cs_states c)"
  shows "tx_ok k l w b' c"
proof -
  have "\<forall>x\<in>set (cs_states c). request_key (fst x) \<noteq> k" using assms(2) by auto
  then show ?thesis using assms(1) by (auto simp: tx_ok_def list_all_iff case_prod_unfold)
qed

lemma steady_read:
  assumes "steady k l w (d, txs)" and "dict_get txs i = Some c" and "cs_left c = (scope, key, l', w') # rest"
    and "\<not> (sql_bucket d (scope, key) \<noteq> None \<and> locked_by_other i (scope, key) txs)"
    and room: "\<not> (case sql_bucket d (scope, key) of None \<Rightarrow> False | Some (e, n) \<Rightarrow> e > cs_now c \<and> n \<ge> l')"
  shows "steady k l w (d, dict_set i
    (c\<lparr>cs_left := rest, cs_states := cs_states c @ [((scope, key, l', w'), sql_bucket d (scope, key))]\<rparr>) txs)"
proof -
  let ?c = "c\<lparr>cs_left := rest, cs_states := cs_states c @ [((scope, key, l', w'), sql_bucket d (scope, key))]\<rparr>"
  have c: "tx_ok k l w (sql_bucket d k) c" and ok: "dict_ok txs" "sql_bucket d k \<noteq> None" using assms(1,2) by (auto simp: steady_def)
  have pos: "0 < l'" using c assms(3) by (simp add: tx_ok_def request_ok_def)
  have "has_room (cs_now c) l (sql_bucket d k)" if "(scope, key) = k"
    using room that has_room_simps [OF pos] c assms(3)
    by (auto simp: tx_ok_def uses_limit_def not_le split: option.splits)
  then have c': "tx_ok k l w (sql_bucket d k) ?c"
    using c assms(3) by (auto simp: tx_ok_def request_key_def)
  have lock: "row_lock k ?c \<Longrightarrow> row_lock k c \<or> (scope, key) = k" by (auto simp: row_lock_def request_key_def)
  have free: "j = i" if "row_lock k ?c" "dict_get txs j = Some c'" "row_lock k c'" for j c'
  proof (cases "row_lock k c")
    case True
    then show ?thesis using assms(1,2) that by (auto simp: steady_def)
  next
    case False
    then have "\<not> locked_by_other i k txs" using lock [OF that(1)] assms(4) ok(2) by auto
    then show ?thesis using that(2,3) locked_by_other_iff [OF ok(1)] by blast
  qed
  show ?thesis
    using assms(1) c' free by (auto simp: steady_def split: if_splits)
qed

lemma steady_commit:
  assumes "steady k l w (d, txs)" and "dict_get txs i = Some c"
    and "\<not> list_ex (\<lambda>(r, _). locked_by_other i (request_key r) txs) (cs_states c)"
    and "consume_writes (cs_now c) (cs_states c) d = (Inr u, d')"
  shows "steady k l w (d', dict_del i txs)"
    and "sql_bucket d' k = (if k \<in> request_key ` fst ` set (cs_states c)
        then Some (counted (cs_now c) w (sql_bucket d k)) else sql_bucket d k)"
    and "k \<in> request_key ` fst ` set (cs_states c) \<Longrightarrow> has_room (cs_now c) l (sql_bucket d k)"
proof -
  let ?b = "sql_bucket d k"
  have c: "tx_ok k l w ?b c" and ok: "buckets_ok d" "dict_ok txs" "?b \<noteq> None" using assms(1,2) by (auto simp: steady_def)
  have ss: "list_all (\<lambda>(r, state). request_ok r \<and> (request_key r = k \<longrightarrow> state = ?b \<and> snd (snd (snd r)) = w)) (cs_states c)"
    using c by (auto simp: tx_ok_def uses_limit_def request_key_def list_all_iff)
  have eff: "buckets_ok d' \<and> sql_bucket d' k = (if k \<in> request_key ` fst ` set (cs_states c) then Some (counted (cs_now c) w ?b) else ?b)"
    using consume_writes_effect [OF assms(4) ok(1) _ ss] buckets_ok_count [OF ok(1)] by blast
  then show new: "sql_bucket d' k = (if k \<in> request_key ` fst ` set (cs_states c) then Some (counted (cs_now c) w ?b) else ?b)" by blast
  show "has_room (cs_now c) l ?b" if "k \<in> request_key ` fst ` set (cs_states c)"
    using that c by (force simp: tx_ok_def list_all_iff)
  have stored: "sql_bucket d' k \<noteq> None" using new ok(3) by simp
  have others: "tx_ok k l w (sql_bucket d' k) c'" if j: "dict_get txs j = Some c'" "j \<noteq> i" for j c'
  proof -
    have c': "tx_ok k l w ?b c'" using assms(1) j by (auto simp: steady_def)
    show ?thesis
    proof (cases "k \<in> request_key ` fst ` set (cs_states c)")
      case True
      then have "\<not> locked_by_other i k txs" using assms(3) by (auto simp: list_ex_iff)
      then have "k \<notin> request_key ` fst ` set (cs_states c')"
        using j locked_by_other_iff [OF ok(2)] tx_ok_lock [OF c' ok(3)] by blast
      then show ?thesis using tx_ok_unread [OF c'] by blast
    next
      case False
      then show ?thesis using c' new by simp
    qed
  qed
  show "steady k l w (d', dict_del i txs)"
  proof -
    have "dict_ok (dict_del i txs)" "buckets_ok d'" using ok(2) eff by simp_all
    moreover have "\<forall>j c'. dict_get (dict_del i txs) j = Some c' \<longrightarrow> tx_ok k l w (sql_bucket d' k) c'"
      using others by (auto split: if_splits)
    moreover have "\<forall>j j' c c'. dict_get (dict_del i txs) j = Some c \<longrightarrow> dict_get (dict_del i txs) j' = Some c' \<longrightarrow>
        row_lock k c \<longrightarrow> row_lock k c' \<longrightarrow> j = j'"
      using assms(1) unfolding steady_def by (simp split: if_splits)
    ultimately show ?thesis using stored unfolding steady_def by blast
  qed
qed

lemma tx_step_steady:
  assumes "steady k l w s" and "event_uses k l w ev" and "tx_step ev s = (out, s')"
  shows "steady k l w s' \<and>
    (tx_grant k ev s = [] \<and> sql_bucket (fst s') k = sql_bucket (fst s) k \<or>
     (\<exists>now. tx_grant k ev s = [now] \<and> has_room now l (sql_bucket (fst s) k) \<and>
        sql_bucket (fst s') k = Some (counted now w (sql_bucket (fst s) k))))"
proof -
  obtain d txs where s: "s = (d, txs)" by (cases s)
  show ?thesis
  proof (cases ev)
    case (TxBegin i now rs)
    have "steady k l w (d, dict_set i \<lparr>cs_now = now, cs_left = rs, cs_states = []\<rparr> txs)"
      if "list_all request_ok rs"
      using assms(1,2) that by (auto simp: s TxBegin steady_def tx_ok_def row_lock_def list_all_iff split: if_splits)
    then show ?thesis using assms(1,3) by (auto simp: s TxBegin tx_grant_def split: if_splits)
  next
    case (TxRead i)
    show ?thesis
    proof (cases "dict_get txs i")
      case None
      then show ?thesis using assms(1,3) by (simp add: s TxRead tx_grant_def)
    next
      case (Some c)
      show ?thesis
      proof (cases "cs_left c")
        case Nil
        then show ?thesis using assms(1,3) Some by (simp add: s TxRead tx_grant_def)
      next
        case (Cons r rest)
        obtain scope key l' w' where r: "r = (scope, key, l', w')" by (cases r)
        note rd = steady_read [OF assms(1) [unfolded s] Some Cons [unfolded r]]
        show ?thesis
          using assms(1,3) Some Cons rd steady_del [of k l w d txs i] by (simp add: s r TxRead tx_grant_def Let_def split: if_splits) auto
      qed
    qed
  next
    case (TxCommit i)
    show ?thesis
    proof (cases "\<exists>c u d'. dict_get txs i = Some c \<and> cs_left c = [] \<and>
        \<not> list_ex (\<lambda>(r, _). locked_by_other i (request_key r) txs) (cs_states c) \<and>
        consume_writes (cs_now c) (cs_states c) d = (Inr u, d')")
      case True
      then obtain c u d' where c: "dict_get txs i = Some c" "cs_left c = []"
        "\<not> list_ex (\<lambda>(r, _). locked_by_other i (request_key r) txs) (cs_states c)"
        "consume_writes (cs_now c) (cs_states c) d = (Inr u, d')" by blast
      note commit = steady_commit [OF assms(1) [unfolded s] c(1,3,4)]
      have "s' = (d', dict_del i txs)" "tx_grant k ev s = (if k \<in> request_key ` fst ` set (cs_states c) then [cs_now c] else [])"
        using assms(3) c by (simp_all add: s TxCommit tx_grant_def)
      then show ?thesis using commit by (simp add: s split: if_splits)
    next
      case False
      then have "s' = (d, txs) \<or> s' = (d, dict_del i txs)" "tx_grant k ev s = []"
        using assms(3) by (auto simp: s TxCommit tx_grant_def split: option.splits if_splits prod.splits sum.splits)
      then show ?thesis using assms(1) steady_del [of k l w d txs i] by (auto simp: s)
    qed
  next
    case (TxAbort i)
    then show ?thesis using assms(1,3) steady_del [of k l w d txs i] by (auto simp: s tx_grant_def split: option.splits)
  qed
qed

lemma tx_grants_quota:
  assumes "steady k l w s" and "list_all (event_uses k l w) evs" and "0 < l" and "0 < w" and "sorted (tx_grants k evs s)"
  shows "int (length (filter (\<lambda>now. t \<le> now \<and> now < t + w) (tx_grants k evs s))) \<le> quota t w l (sql_bucket (fst s) k)"
  using assms(1,2,5)
proof (induction evs arbitrary: s)
  case Nil
  then have "buckets_ok (fst s)" by (auto simp: steady_def)
  then show ?case using quota_bound [OF assms(3), of "sql_bucket (fst s) k" t w] buckets_ok_count by simp
next
  case (Cons ev evs)
  obtain out s' where st: "tx_step ev s = (out, s')" by (cases "tx_step ev s")
  note step = tx_step_steady [OF Cons.prems(1) _ st]
  have steady': "steady k l w s'" using step Cons.prems(2) by simp
  have IH: "int (length (filter (\<lambda>now. t \<le> now \<and> now < t + w) (tx_grants k evs s'))) \<le> quota t w l (sql_bucket (fst s') k)"
    using Cons.IH [OF steady'] Cons.prems(2,3) st by (simp add: sorted_append)
  consider "tx_grant k ev s = []" "sql_bucket (fst s') k = sql_bucket (fst s) k"
    | now where "tx_grant k ev s = [now]" "has_room now l (sql_bucket (fst s) k)"
        "sql_bucket (fst s') k = Some (counted now w (sql_bucket (fst s) k))"
    using step Cons.prems(2) by auto
  then show ?case
  proof cases
    case 1
    then show ?thesis using IH st by simp
  next
    case 2
    show ?thesis
    proof (cases "now < t + w")
      case True
      have "(if t \<le> now then 1 else 0) + quota t w l (sql_bucket (fst s') k) \<le> quota t w l (sql_bucket (fst s) k)"
        unfolding 2(3) using quota_step [OF 2(2) assms(3,4) True] .
      then show ?thesis using IH st 2(1) True by (auto split: if_splits)
    next
      case False
      then have "filter (\<lambda>now. t \<le> now \<and> now < t + w) (tx_grants k (ev # evs) s) = []"
        using Cons.prems(3) st 2(1) by (fastforce simp: filter_empty_conv)
      moreover have "buckets_ok (fst s)" using Cons.prems(1) by (auto simp: steady_def)
      ultimately show ?thesis using quota_bound [OF assms(3), of "sql_bucket (fst s) k" t w] buckets_ok_count by simp
    qed
  qed
qed

lemma tx_grants_twice:
  assumes "buckets_ok d" and "sql_bucket d k \<noteq> None" and "list_all (event_uses k l w) evs" and "0 < l" and "0 < w"
    and "sorted (tx_grants k evs (d, []))"
  shows "int (length (filter (\<lambda>now. t \<le> now \<and> now < t + w) (tx_grants k evs (d, [])))) \<le> 2 * l"
proof -
  have "steady k l w (d, [])" using assms(1,2) by (simp add: steady_def dict_ok_def)
  note grants = tx_grants_quota [OF this assms(3-6), of t]
  have "quota t w l (sql_bucket d k) \<le> 2 * l"
    using quota_bound [OF assms(4), of "sql_bucket d k" t w] buckets_ok_count [OF assms(1)] by blast
  then show ?thesis using grants by simp
qed

text \<open>
  C22.  A bucket that is always used with the same limit and window grants at most twice the limit in
  every interval as long as the window.  For the process-local limiter this holds over any time-ordered
  history of its three methods, each of which runs under its lock.  For the persistent limiter it holds
  over any interleaving of transactions, provided that the bucket has a row to lock when they start and
  that the calls that are granted take the row in the order of their clock readings.  Without a row the
  first requests are not bounded, see \<open>first_requests_race\<close>.
\<close>

theorem rate_limit_bound:
  fixes h :: "(instant \<times> limiter_call) list"
  assumes "0 < l" and "0 < w"
    and "counts_ok bs" and "sorted (map fst h)"
    and "constant_limit (\<lambda>c. requests_of (call_requests hmac secret c)) k l w h"
    and "buckets_ok d" and "sql_bucket d k \<noteq> None" and "list_all (event_uses k l w) evs" and "sorted (tx_grants k evs (d, []))"
  shows "granted (rl_call hmac secret) (\<lambda>c. requests_of (call_requests hmac secret c))
      (\<lambda>now. t \<le> now \<and> now < t + w) k h bs \<le> 2 * l \<and>
    int (length (filter (\<lambda>now. t \<le> now \<and> now < t + w) (tx_grants k evs (d, [])))) \<le> 2 * l"
  using meml.granted_twice [OF assms(3-5,1,2), of t] tx_grants_twice [OF assms(6-8,1,2,9), of t] by blast

definition race_db :: db where
  "race_db = snd (consume_many 0 [(lit ''email'', replicate 32 0, 1, 60)] empty_db)"

definition later_race :: "tx_event list" where
  "later_race = [TxBegin 1 60 [(lit ''email'', replicate 32 0, 1, 60)], TxBegin 2 61 [(lit ''email'', replicate 32 0, 1, 60)],
     TxRead 1, TxRead 2, TxCommit 1, TxRead 2, TxCommit 2]"

theorem rate_limit_bound_witness:
  "granted (rl_call toy_hmac [7]) (\<lambda>c. requests_of (call_requests toy_hmac [7] c)) (\<lambda>now. 60 \<le> now \<and> now < 60 + 60)
      race_key [(60, AllowMany [(lit ''email'', lit ''a'', 1, 60)])] [] \<le> 2 * 1 \<and>
    int (length (filter (\<lambda>now. 60 \<le> now \<and> now < 60 + 60) (tx_grants race_key later_race (race_db, [])))) \<le> 2 * 1 \<and>
    tx_grants race_key later_race (race_db, []) = [60]"
proof -
  have grants: "tx_grants race_key later_race (race_db, []) = [60]" by code_simp
  have stored: "buckets_ok race_db" "sql_bucket race_db race_key \<noteq> None" "list_all (event_uses race_key 1 60) later_race"
    "constant_limit (\<lambda>c. requests_of (call_requests toy_hmac [7] c)) race_key 1 60 [(60, AllowMany [(lit ''email'', lit ''a'', 1, 60)])]"
    "counts_ok []" by code_simp+
  show ?thesis
    using rate_limit_bound [of 1 60 "[]" "[(60, AllowMany [(lit ''email'', lit ''a'', 1, 60)])]" toy_hmac "[7]" race_key race_db later_race 60]
      stored grants by simp
qed

end
