(* ===== verification/Statements.thy ===== *)
theory Statements
  imports SessionRepo
begin

text \<open>
  Statements on a table of the database, shared by the repositories of devices, challenges, linking
  codes and audit events and by the retention job: an update and an insertion through the access
  functions of the table's field, a bounded deletion, sequencing of statements on one state, and the
  transaction of \<open>Database.transaction\<close>, which undoes the writes of a body that raises.
\<close>

section \<open>Sequencing\<close>

definition bind_st :: "'a res \<times> 's \<Rightarrow> ('a \<Rightarrow> 's \<Rightarrow> 'b res \<times> 's) \<Rightarrow> 'b res \<times> 's" where
  "bind_st out k = (case out of (Inl e, s) \<Rightarrow> (Inl e, s) | (Inr x, s) \<Rightarrow> k x s)"

definition transaction :: "('s \<Rightarrow> 'a res \<times> 's) \<Rightarrow> 's \<Rightarrow> 'a res \<times> 's" where
  "transaction body s = (case body s of (Inl e, _) \<Rightarrow> (Inl e, s) | (Inr x, s') \<Rightarrow> (Inr x, s'))"

text \<open>\<open>required_row\<close> of the rows a statement returned.\<close>

definition required :: "'r list res \<times> 's \<Rightarrow> 'r res \<times> 's" where
  "required out = bind_st out (\<lambda>rows s. (required_row rows, s))"

section \<open>Statements on a table\<close>

definition tbl_update ::
    "('s \<Rightarrow> 'r list) \<Rightarrow> (('r list \<Rightarrow> 'r list) \<Rightarrow> 's \<Rightarrow> 's) \<Rightarrow> ('r \<Rightarrow> bool) \<Rightarrow> ('r \<Rightarrow> bool) \<Rightarrow> ('r \<Rightarrow> 'r) \<Rightarrow> 's \<Rightarrow>
     'r list res \<times> 's" where
  "tbl_update rows put ok p f s =
     (case sql_update ok p f (rows s) of
        (Inl e, _) \<Rightarrow> (Inl e, s)
      | (Inr out, t) \<Rightarrow> (Inr out, put (\<lambda>_. t) s))"

definition tbl_insert ::
    "('s \<Rightarrow> 'r list) \<Rightarrow> (('r list \<Rightarrow> 'r list) \<Rightarrow> 's \<Rightarrow> 's) \<Rightarrow> ('r \<Rightarrow> bool) \<Rightarrow> ('r \<Rightarrow> 'r \<Rightarrow> bool) \<Rightarrow> 'r list \<Rightarrow> 's \<Rightarrow>
     'r list res \<times> 's" where
  "tbl_insert rows put ok clash new s =
     (case sql_insert ok clash new (rows s) of
        (Inl e, _) \<Rightarrow> (Inl e, s)
      | (Inr out, t) \<Rightarrow> (Inr out, put (\<lambda>_. t) s))"

text \<open>
  \<open>DELETE ... WHERE ctid IN (SELECT ctid ... WHERE p ORDER BY key LIMIT n)\<close>: a row's \<open>ctid\<close> is its
  place in the table.  The result is the deleted rows and the rows that stay.
\<close>

definition batch_victims :: "('r \<Rightarrow> bool) \<Rightarrow> ('r \<Rightarrow> int) \<Rightarrow> nat \<Rightarrow> 'r list \<Rightarrow> (nat \<times> 'r) list" where
  "batch_victims p key n t =
     take n (sort_key (\<lambda>x. key (snd x)) (filter (\<lambda>x. p (snd x)) (enumerate 0 t)))"

definition sql_delete_batch :: "('r \<Rightarrow> bool) \<Rightarrow> ('r \<Rightarrow> int) \<Rightarrow> nat \<Rightarrow> 'r list \<Rightarrow> 'r list \<times> 'r list" where
  "sql_delete_batch p key n t =
     (let victims = batch_victims p key n t
      in (map snd victims, map snd (filter (\<lambda>x. fst x \<notin> fst ` set victims) (enumerate 0 t))))"

section \<open>Lemmas\<close>

lemma bind_st_simps [simp]:
  "bind_st (Inl e, s) k = (Inl e, s)" "bind_st (Inr x, s) k = k x s"
  by (simp_all add: bind_st_def)

lemma bind_st_Inr:
  "bind_st out k = (Inr y, s') \<longleftrightarrow> (\<exists>x s. out = (Inr x, s) \<and> k x s = (Inr y, s'))"
  by (cases out; cases "fst out") auto

lemma transaction_Inr [simp]: "transaction body s = (Inr x, s') \<longleftrightarrow> body s = (Inr x, s')"
  by (auto simp: transaction_def split: prod.splits sum.splits)

lemma transaction_Inl: "transaction body s = (Inl e, s') \<longleftrightarrow> s' = s \<and> (\<exists>s''. body s = (Inl e, s''))"
  by (auto simp: transaction_def split: prod.splits sum.splits)

lemma required_Inr: "required out = (Inr r, s) \<longleftrightarrow> (\<exists>rs. out = (Inr (r # rs), s))"
  by (cases out; cases "fst out") (auto simp: required_def required_row_def first_row_def split: list.splits)

lemma tbl_update_cases:
  obtains (written) "list_all (\<lambda>r. p r \<longrightarrow> ok (f r)) (rows s)"
      "tbl_update rows put ok p f s =
         (Inr (map f (filter p (rows s))), put (\<lambda>_. map (\<lambda>r. if p r then f r else r) (rows s)) s)"
  | (failed) "\<not> list_all (\<lambda>r. p r \<longrightarrow> ok (f r)) (rows s)"
      "tbl_update rows put ok p f s = (Inl BackendUnavailableError, s)"
  by (cases "list_all (\<lambda>r. p r \<longrightarrow> ok (f r)) (rows s)") (auto simp: tbl_update_def sql_update_def)

lemma tbl_insert_Inr:
  "tbl_insert rows put ok clash new s = (Inr out, s') \<longleftrightarrow>
     out = new \<and> s' = put (\<lambda>_. rows s @ new) s \<and> list_all (\<lambda>r. ok r \<and> list_all (\<lambda>q. \<not> clash q r) (rows s)) new \<and>
     sorted_wrt (\<lambda>q r. \<not> clash q r) new"
  by (auto simp: tbl_insert_def sql_insert_def)

lemma tbl_insert_Inl:
  "tbl_insert rows put ok clash new s = (Inl e, s') \<Longrightarrow> s' = s \<and> e = BackendUnavailableError"
  by (auto simp: tbl_insert_def sql_insert_def split: if_splits)

text \<open>An insertion whose new rows all clash with each other inserts at most one row.\<close>

lemma clashing_rows_le_1:
  assumes "sorted_wrt (\<lambda>q r. \<not> clash q r) rs" and "\<And>q r. q \<in> set rs \<Longrightarrow> r \<in> set rs \<Longrightarrow> clash q r"
  shows "length rs \<le> 1"
proof (rule ccontr)
  assume "\<not> length rs \<le> 1"
  then obtain a b cs where "rs = a # b # cs" by (cases rs; cases "tl rs") auto
  then have "\<not> clash a b" "clash a b" using assms(1) assms(2) [of a b] by simp_all
  then show False by blast
qed

subsection \<open>Bounded deletion\<close>

lemma enumerate_filter_snd: "map snd (filter (\<lambda>x. P (snd x)) (enumerate k t)) = filter P t"
  by (induction t arbitrary: k) auto

lemma length_batch_victims: "length (batch_victims p key n t) = min n (length (filter p t))"
proof -
  have "length (filter (\<lambda>x. p (snd x)) (enumerate 0 t)) = length (filter p t)"
    by (metis enumerate_filter_snd length_map)
  then show ?thesis by (simp add: batch_victims_def min.commute)
qed

lemma batch_victims_in: "x \<in> set (batch_victims p key n t) \<Longrightarrow> x \<in> set (enumerate 0 t) \<and> p (snd x)"
  by (auto simp: batch_victims_def dest: in_set_takeD)

lemma distinct_batch_victims: "distinct (map fst (batch_victims p key n t))"
proof -
  have "distinct (map fst (filter (\<lambda>x. p (snd x)) (enumerate 0 t)))"
    by (intro distinct_map_filter) simp
  then have "distinct (map fst (sort_key (\<lambda>x. key (snd x)) (filter (\<lambda>x. p (snd x)) (enumerate 0 t))))"
    by (simp add: distinct_map)
  then show ?thesis by (simp add: batch_victims_def take_map [symmetric])
qed

text \<open>A row that is no candidate stays, in its order among the others.\<close>

lemma delete_batch_keeps:
  assumes "\<And>r. Q r \<Longrightarrow> \<not> p r"
  shows "filter Q (snd (sql_delete_batch p key n t)) = filter Q t"
proof -
  let ?v = "batch_victims p key n t"
  have "fst x \<notin> fst ` set ?v" if "x \<in> set (enumerate 0 t)" "Q (snd x)" for x
  proof
    assume "fst x \<in> fst ` set ?v"
    then obtain y where "y \<in> set ?v" "fst y = fst x" by auto
    with batch_victims_in [of y p key n t] that(1) have "snd x = snd y" "p (snd y)"
      by (auto simp: in_set_enumerate_eq)
    then show False using assms that(2) by auto
  qed
  then have "filter (\<lambda>x. Q (snd x)) (filter (\<lambda>x. fst x \<notin> fst ` set ?v) (enumerate 0 t)) =
      filter (\<lambda>x. Q (snd x)) (enumerate 0 t)"
    unfolding filter_filter by (intro filter_cong) blast+
  then have "map snd (filter (\<lambda>x. Q (snd x)) (filter (\<lambda>x. fst x \<notin> fst ` set ?v) (enumerate 0 t))) = filter Q t"
    by (simp only: enumerate_filter_snd)
  then show ?thesis
    unfolding sql_delete_batch_def Let_def snd_conv filter_map comp_def .
qed

lemma delete_batch_subset: "set (snd (sql_delete_batch p key n t)) \<subseteq> set t"
  by (auto simp: sql_delete_batch_def Let_def in_set_enumerate_eq)

lemma delete_batch_deleted: "r \<in> set (fst (sql_delete_batch p key n t)) \<Longrightarrow> r \<in> set t \<and> p r"
  using batch_victims_in by (fastforce simp: sql_delete_batch_def Let_def in_set_enumerate_eq)

text \<open>The number of candidates goes down by the batch, until none is left.\<close>

lemma delete_batch_length:
  "length (snd (sql_delete_batch p key n t)) = length t - min n (length (filter p t))"
proof -
  let ?v = "batch_victims p key n t"
  let ?e = "enumerate 0 t"
  have sub: "set (map fst ?v) \<subseteq> set (map fst ?e)"
    using batch_victims_in [of _ p key n t] unfolding set_map by blast
  have e: "map fst (filter (\<lambda>x. fst x \<notin> fst ` set ?v) ?e) = filter (\<lambda>i. i \<notin> set (map fst ?v)) (map fst ?e)"
    unfolding set_map filter_map comp_def ..
  have "length (filter (\<lambda>i. i \<notin> set (map fst ?v)) (map fst ?e)) =
      card (set (map fst ?e) - set (map fst ?v))"
    by (subst distinct_card [symmetric]) (auto intro: arg_cong [of _ _ card])
  also have "\<dots> = length t - length ?v"
    using sub distinct_card [OF distinct_batch_victims [of p key n t]]
    by (subst card_Diff_subset) (simp_all add: distinct_card)
  finally have "length (map fst (filter (\<lambda>x. fst x \<notin> fst ` set ?v) ?e)) = length t - length ?v"
    unfolding e .
  then show ?thesis by (simp add: sql_delete_batch_def Let_def length_batch_victims)
qed

lemma delete_batch_candidates:
  "length (filter p (snd (sql_delete_batch p key n t))) = length (filter p t) - n"
proof -
  let ?t = "snd (sql_delete_batch p key n t)"
  have "filter (\<lambda>r. \<not> p r) ?t = filter (\<lambda>r. \<not> p r) t" by (rule delete_batch_keeps) simp
  then have "length ?t - length (filter p ?t) = length t - length (filter p t)"
    by (metis add_diff_cancel_left' sum_length_filter_compl)
  moreover have "length (filter p ?t) \<le> length ?t" "length (filter p t) \<le> length t" by simp_all
  moreover have "length ?t = length t - min n (length (filter p t))" by (rule delete_batch_length)
  ultimately show ?thesis by linarith
qed

section \<open>Tables as fields of a state\<close>

text \<open>
  What a repository relies on when it keeps its rows in a field of a larger state, under constraints:
  \<open>ok\<close> on each row and \<open>clash\<close> between two.  The lemmas hold for each table of the database.
\<close>

locale table =
  fixes rows :: "'s \<Rightarrow> 'r list" and put :: "('r list \<Rightarrow> 'r list) \<Rightarrow> 's \<Rightarrow> 's"
    and ok :: "'r \<Rightarrow> bool" and clash :: "'r \<Rightarrow> 'r \<Rightarrow> bool"
  assumes rows_put: "rows (put f s) = f (rows s)"
    and clash_sym: "clash q r \<Longrightarrow> clash r q"
begin

definition inv :: "'s \<Rightarrow> bool" where
  "inv s \<longleftrightarrow> list_all ok (rows s) \<and> sorted_wrt (\<lambda>q r. \<not> clash q r) (rows s)"

lemma inv_cong: "rows s' = rows s \<Longrightarrow> inv s' = inv s"
  by (simp add: inv_def)

lemma inv_ok: "inv s \<Longrightarrow> r \<in> set (rows s) \<Longrightarrow> ok r"
  by (simp add: inv_def list_all_iff)

lemma sorted_wrt_distinct:
  assumes "\<And>q r. key q = key r \<Longrightarrow> clash q r"
  shows "sorted_wrt (\<lambda>q r. \<not> clash q r) rs \<Longrightarrow> distinct (map key rs)"
  by (induction rs) (use assms in fastforce)+

lemma inv_distinct: "(\<And>q r. key q = key r \<Longrightarrow> clash q r) \<Longrightarrow> inv s \<Longrightarrow> distinct (map key (rows s))"
  unfolding inv_def using sorted_wrt_distinct [of key "rows s"] by blast

lemma sorted_wrt_nclash:
  assumes "sorted_wrt (\<lambda>q r. \<not> clash q r) rs" and "q \<in> set rs" and "r \<in> set rs" and "q \<noteq> r"
  shows "\<not> clash q r"
  using assms by (induction rs) (auto dest: clash_sym)

text \<open>Two rows that clash are one row.\<close>

lemma inv_unique: "inv s \<Longrightarrow> q \<in> set (rows s) \<Longrightarrow> r \<in> set (rows s) \<Longrightarrow> clash q r \<Longrightarrow> q = r"
  unfolding inv_def using sorted_wrt_nclash [of "rows s" q r] by blast

lemma update_rel:
  assumes "\<And>r. R r r" and "\<And>r. r \<in> set (rows s) \<Longrightarrow> p r \<Longrightarrow> R r (f r)"
  shows "list_all2 R (rows s) (rows (snd (tbl_update rows put ok p f s)))"
  by (cases rule: tbl_update_cases [of p ok f rows s put])
     (auto simp: rows_put list.rel_map assms intro!: list.rel_refl_strong)

lemma update_inv:
  assumes "inv s" and "\<And>q r. q \<in> set (rows s) \<Longrightarrow> r \<in> set (rows s) \<Longrightarrow>
      clash (if p q then f q else q) (if p r then f r else r) = clash q r"
  shows "inv (snd (tbl_update rows put ok p f s))"
proof (cases rule: tbl_update_cases [of p ok f rows s put])
  case written
  then have "list_all ok (map (\<lambda>r. if p r then f r else r) (rows s))"
    using assms(1) by (auto simp: inv_def list_all_iff)
  moreover have "\<not> clash (if p q then f q else q) (if p r then f r else r)"
    if "q \<in> set (rows s)" "r \<in> set (rows s)" "\<not> clash q r" for q r
    unfolding assms(2) [OF that(1,2)] by (rule that(3))
  then have "sorted_wrt (\<lambda>q r. \<not> clash (if p q then f q else q) (if p r then f r else r)) (rows s)"
    using assms(1) unfolding inv_def by (elim conjE) (rule sorted_wrt_mono_rel)
  ultimately show ?thesis
    unfolding inv_def written(2) snd_conv rows_put sorted_wrt_map by blast
qed (use assms in simp)

lemma insert_inv:
  assumes "inv s"
  shows "inv (snd (tbl_insert rows put ok clash new s))"
proof (cases "fst (tbl_insert rows put ok clash new s)")
  case (Inl e)
  then show ?thesis using assms by (metis prod.collapse tbl_insert_Inl)
next
  case (Inr out)
  then have *: "list_all (\<lambda>r. ok r \<and> list_all (\<lambda>q. \<not> clash q r) (rows s)) new" "sorted_wrt (\<lambda>q r. \<not> clash q r) new"
    "snd (tbl_insert rows put ok clash new s) = put (\<lambda>_. rows s @ new) s"
    using tbl_insert_Inr [of rows put ok clash new s out "snd (tbl_insert rows put ok clash new s)"]
    by (metis prod.collapse)+
  then show ?thesis
    using assms unfolding inv_def *(3) rows_put by (auto simp: sorted_wrt_append list_all_iff)
qed

lemma insert_rows:
  "\<exists>extra. rows (snd (tbl_insert rows put ok clash new s)) = rows s @ extra \<and> set extra \<subseteq> set new"
proof (cases "fst (tbl_insert rows put ok clash new s)")
  case (Inl e)
  then have "snd (tbl_insert rows put ok clash new s) = s" by (metis prod.collapse tbl_insert_Inl)
  then show ?thesis by simp
next
  case (Inr out)
  then have "snd (tbl_insert rows put ok clash new s) = put (\<lambda>_. rows s @ new) s"
    using tbl_insert_Inr [of rows put ok clash new s out "snd (tbl_insert rows put ok clash new s)"]
    by (metis prod.collapse)
  then show ?thesis by (auto simp: rows_put)
qed

end

text \<open>A state relation that follows every row from one table to a later one.\<close>

definition rows_evolve :: "('r \<Rightarrow> 'r \<Rightarrow> bool) \<Rightarrow> 'r list \<Rightarrow> 'r list \<Rightarrow> bool" where
  "rows_evolve R t t' \<longleftrightarrow> (\<forall>r\<in>set t. \<exists>r'\<in>set t'. R r r')"

lemma rows_evolve_refl: "(\<And>r. R r r) \<Longrightarrow> rows_evolve R t t"
  unfolding rows_evolve_def by blast

lemma rows_evolve_trans:
  assumes "\<forall>x y z. R x y \<longrightarrow> R y z \<longrightarrow> R x z" and "rows_evolve R t u" and "rows_evolve R u w"
  shows "rows_evolve R t w"
  using assms unfolding rows_evolve_def by meson

lemma rows_evolve_list_all2: "list_all2 R t u \<Longrightarrow> rows_evolve R t (u @ extra)"
  unfolding rows_evolve_def by (metis Un_iff in_set_conv_nth list_all2_conv_all_nth set_append)

lemma rows_evolve_append: "(\<And>r. R r r) \<Longrightarrow> rows_evolve R t (t @ extra)"
  unfolding rows_evolve_def by auto

end
