(* ===== verification/Cleanup.thy ===== *)
theory Cleanup
  imports Statements TicketRepo TransferRepo
begin

text \<open>
  Retention: \<open>ExpiryCleanupRepository\<close> of \<open>repositories/cleanup.py\<close>.  Each query deletes a bounded
  batch of the rows of one table that are past their retention, oldest first; deleting a session
  also deletes its WebSocket tickets, by the \<open>ON DELETE CASCADE\<close> of their foreign key.  All queries of
  a run are in one transaction, so they share one \<open>CURRENT_TIMESTAMP\<close>.
\<close>

definition DEFAULT_CLEANUP_BATCH_SIZE :: int where "DEFAULT_CLEANUP_BATCH_SIZE = 100"

definition MAX_CLEANUP_BATCH_SIZE :: int where "MAX_CLEANUP_BATCH_SIZE = 1000"

definition validate_batch_size :: "int \<Rightarrow> unit res" where
  "validate_batch_size batch_size =
     (if 0 < batch_size \<and> batch_size \<le> MAX_CLEANUP_BATCH_SIZE then Inr () else Inl ValueError)"

section \<open>The queries\<close>

text \<open>\<open>COALESCE\<close> with a column that is not null.\<close>

definition or_else :: "'a option \<Rightarrow> 'a \<Rightarrow> 'a" where
  "or_else x y = (case x of None \<Rightarrow> y | Some v \<Rightarrow> v)"

definition session_retired :: "instant \<Rightarrow> session \<Rightarrow> bool" where
  "session_retired now s \<longleftrightarrow>
     (case se_revoked_at s of
        Some t \<Rightarrow> t \<le> now - days 7
      | None \<Rightarrow> min (se_idle_expires_at s) (se_absolute_expires_at s) \<le> now - days 7)"

definition SESSION_CLEANUP_QUERY :: "instant \<Rightarrow> nat \<Rightarrow> db \<Rightarrow> uuid list \<times> db" where
  "SESSION_CLEANUP_QUERY now n d =
     (case sql_delete_batch (session_retired now) (\<lambda>s. or_else (se_revoked_at s) (se_absolute_expires_at s)) n
             (app_sessions d) of
        (gone, kept) \<Rightarrow>
          (map se_id gone,
           d\<lparr>app_sessions := kept,
             websocket_tickets := filter (\<lambda>t. tk_session_id t \<notin> se_id ` set gone) (websocket_tickets d)\<rparr>))"

definition challenge_retired :: "instant \<Rightarrow> device_challenge \<Rightarrow> bool" where
  "challenge_retired now c \<longleftrightarrow> ch_consumed_at c \<noteq> None \<or> ch_expires_at c \<le> now"

definition CHALLENGE_CLEANUP_QUERY :: "instant \<Rightarrow> nat \<Rightarrow> db \<Rightarrow> uuid list \<times> db" where
  "CHALLENGE_CLEANUP_QUERY now n d =
     (case sql_delete_batch (challenge_retired now) (\<lambda>c. or_else (ch_consumed_at c) (ch_expires_at c)) n
             (device_challenges d) of
        (gone, kept) \<Rightarrow> (map ch_id gone, d\<lparr>device_challenges := kept\<rparr>))"

definition otp_retired :: "instant \<Rightarrow> device_linking_otp \<Rightarrow> bool" where
  "otp_retired now x \<longleftrightarrow> ot_status x \<in> {OtpConsumed, OtpExpired} \<or> ot_expires_at x \<le> now"

definition LINKING_OTP_CLEANUP_QUERY :: "instant \<Rightarrow> nat \<Rightarrow> db \<Rightarrow> uuid list \<times> db" where
  "LINKING_OTP_CLEANUP_QUERY now n d =
     (case sql_delete_batch (otp_retired now) (\<lambda>x. or_else (ot_consumed_at x) (ot_expires_at x)) n
             (device_linking_otps d) of
        (gone, kept) \<Rightarrow> (map ot_id gone, d\<lparr>device_linking_otps := kept\<rparr>))"

definition transfer_retired :: "instant \<Rightarrow> transfer_request \<Rightarrow> bool" where
  "transfer_retired now r \<longleftrightarrow>
     tr_status r \<in> {Completed, Rejected, Expired, Cancelled, Failed} \<and>
     or_else (tr_completed_at r) (tr_created_at r) \<le> now - days 30"

definition TRANSFER_CLEANUP_QUERY :: "instant \<Rightarrow> nat \<Rightarrow> db \<Rightarrow> uuid list \<times> db" where
  "TRANSFER_CLEANUP_QUERY now n d =
     (case sql_delete_batch (transfer_retired now) (\<lambda>r. or_else (tr_completed_at r) (tr_created_at r)) n
             (transfer_requests d) of
        (gone, kept) \<Rightarrow> (map tr_id gone, d\<lparr>transfer_requests := kept\<rparr>))"

definition ticket_retired :: "instant \<Rightarrow> websocket_ticket \<Rightarrow> bool" where
  "ticket_retired now t \<longleftrightarrow> tk_consumed_at t \<noteq> None \<or> tk_expires_at t \<le> now"

definition TICKET_CLEANUP_QUERY :: "instant \<Rightarrow> nat \<Rightarrow> db \<Rightarrow> uuid list \<times> db" where
  "TICKET_CLEANUP_QUERY now n d =
     (case sql_delete_batch (ticket_retired now) (\<lambda>t. or_else (tk_consumed_at t) (tk_expires_at t)) n
             (websocket_tickets d) of
        (gone, kept) \<Rightarrow> (map tk_id gone, d\<lparr>websocket_tickets := kept\<rparr>))"

definition SECURITY_EVENT_CLEANUP_QUERY :: "instant \<Rightarrow> nat \<Rightarrow> db \<Rightarrow> uuid list \<times> db" where
  "SECURITY_EVENT_CLEANUP_QUERY now n d =
     (case sql_delete_batch (\<lambda>e. ev_expires_at e \<le> now) ev_expires_at n (security_events d) of
        (gone, kept) \<Rightarrow> (map ev_id gone, d\<lparr>security_events := kept\<rparr>))"

definition RATE_LIMIT_CLEANUP_QUERY :: "instant \<Rightarrow> nat \<Rightarrow> db \<Rightarrow> (pystr \<times> bytes) list \<times> db" where
  "RATE_LIMIT_CLEANUP_QUERY now n d =
     (case sql_delete_batch (\<lambda>b. rb_window_expires_at b \<le> now) rb_window_expires_at n (rate_limit_buckets d) of
        (gone, kept) \<Rightarrow> (map (\<lambda>b. (rb_scope b, rb_bucket_key b)) gone, d\<lparr>rate_limit_buckets := kept\<rparr>))"

definition delete_batch :: "(instant \<Rightarrow> nat \<Rightarrow> db \<Rightarrow> 'a list \<times> db) \<Rightarrow> instant \<Rightarrow> int \<Rightarrow> db \<Rightarrow> nat \<times> db" where
  "delete_batch query now batch_size d = (case query now (nat batch_size) d of (rows, d') \<Rightarrow> (length rows, d'))"

section \<open>The job\<close>

definition cleanup_expired :: "instant \<Rightarrow> int \<Rightarrow> db \<Rightarrow> (string \<times> nat) list res \<times> db" where
  "cleanup_expired now batch_size d =
     (case validate_batch_size batch_size of
        Inl e \<Rightarrow> (Inl e, d)
      | Inr _ \<Rightarrow>
          (let (sessions, d1) = delete_batch SESSION_CLEANUP_QUERY now batch_size d;
               (challenges, d2) = delete_batch CHALLENGE_CLEANUP_QUERY now batch_size d1;
               (otps, d3) = delete_batch LINKING_OTP_CLEANUP_QUERY now batch_size d2;
               (transfers, d4) = delete_batch TRANSFER_CLEANUP_QUERY now batch_size d3;
               (tickets, d5) = delete_batch TICKET_CLEANUP_QUERY now batch_size d4;
               (events, d6) = delete_batch SECURITY_EVENT_CLEANUP_QUERY now batch_size d5;
               (limits, d7) = delete_batch RATE_LIMIT_CLEANUP_QUERY now batch_size d6
           in (Inr [(''app_sessions'', sessions), (''device_challenges'', challenges),
                    (''device_linking_otps'', otps), (''transfer_requests'', transfers),
                    (''websocket_tickets'', tickets), (''security_events'', events),
                    (''rate_limit_buckets'', limits)], d7)))"

text \<open>\<open>cleanup\<close>, \<open>run\<close> and \<open>cleanup_all\<close> are other names of \<open>cleanup_expired\<close>.\<close>

definition cleanup :: "instant \<Rightarrow> int \<Rightarrow> db \<Rightarrow> (string \<times> nat) list res \<times> db" where
  "cleanup now batch_size d = cleanup_expired now batch_size d"

definition cleanup_run :: "instant \<Rightarrow> int \<Rightarrow> db \<Rightarrow> (string \<times> nat) list res \<times> db" where
  "cleanup_run now batch_size d = cleanup_expired now batch_size d"

definition cleanup_all :: "instant \<Rightarrow> int \<Rightarrow> db \<Rightarrow> (string \<times> nat) list res \<times> db" where
  "cleanup_all now batch_size d = cleanup_expired now batch_size d"

definition cleanup_one ::
    "(instant \<Rightarrow> nat \<Rightarrow> db \<Rightarrow> 'a list \<times> db) \<Rightarrow> instant \<Rightarrow> int \<Rightarrow> db \<Rightarrow> nat res \<times> db" where
  "cleanup_one query now batch_size d =
     (case validate_batch_size batch_size of
        Inl e \<Rightarrow> (Inl e, d)
      | Inr _ \<Rightarrow> (case delete_batch query now batch_size d of (n, d') \<Rightarrow> (Inr n, d')))"

definition cleanup_sessions :: "instant \<Rightarrow> int \<Rightarrow> db \<Rightarrow> nat res \<times> db" where
  "cleanup_sessions = cleanup_one SESSION_CLEANUP_QUERY"

definition cleanup_challenges :: "instant \<Rightarrow> int \<Rightarrow> db \<Rightarrow> nat res \<times> db" where
  "cleanup_challenges = cleanup_one CHALLENGE_CLEANUP_QUERY"

definition cleanup_device_linking_otps :: "instant \<Rightarrow> int \<Rightarrow> db \<Rightarrow> nat res \<times> db" where
  "cleanup_device_linking_otps = cleanup_one LINKING_OTP_CLEANUP_QUERY"

definition cleanup_transfers :: "instant \<Rightarrow> int \<Rightarrow> db \<Rightarrow> nat res \<times> db" where
  "cleanup_transfers = cleanup_one TRANSFER_CLEANUP_QUERY"

definition cleanup_tickets :: "instant \<Rightarrow> int \<Rightarrow> db \<Rightarrow> nat res \<times> db" where
  "cleanup_tickets = cleanup_one TICKET_CLEANUP_QUERY"

definition cleanup_security_events :: "instant \<Rightarrow> int \<Rightarrow> db \<Rightarrow> nat res \<times> db" where
  "cleanup_security_events = cleanup_one SECURITY_EVENT_CLEANUP_QUERY"

definition cleanup_rate_limits :: "instant \<Rightarrow> int \<Rightarrow> db \<Rightarrow> nat res \<times> db" where
  "cleanup_rate_limits = cleanup_one RATE_LIMIT_CLEANUP_QUERY"

section \<open>One run\<close>

lemmas query_defs =
  SESSION_CLEANUP_QUERY_def CHALLENGE_CLEANUP_QUERY_def LINKING_OTP_CLEANUP_QUERY_def
  TRANSFER_CLEANUP_QUERY_def TICKET_CLEANUP_QUERY_def SECURITY_EVENT_CLEANUP_QUERY_def
  RATE_LIMIT_CLEANUP_QUERY_def

text \<open>The tables after a run, each in terms of the tables before.\<close>

lemma cleanup_expired_tables:
  assumes "cleanup_expired now batch_size d = (out, d')" and "0 < batch_size" and "batch_size \<le> MAX_CLEANUP_BATCH_SIZE"
  defines "n \<equiv> nat batch_size"
  defines "gone \<equiv> fst (sql_delete_batch (session_retired now) (\<lambda>s. or_else (se_revoked_at s) (se_absolute_expires_at s)) n (app_sessions d))"
  defines "tickets \<equiv> filter (\<lambda>t. tk_session_id t \<notin> se_id ` set gone) (websocket_tickets d)"
  shows "app_users d' = app_users d" and "devices d' = devices d"
    and "app_sessions d' = snd (sql_delete_batch (session_retired now) (\<lambda>s. or_else (se_revoked_at s) (se_absolute_expires_at s)) n (app_sessions d))"
    and "device_challenges d' = snd (sql_delete_batch (challenge_retired now) (\<lambda>c. or_else (ch_consumed_at c) (ch_expires_at c)) n (device_challenges d))"
    and "device_linking_otps d' = snd (sql_delete_batch (otp_retired now) (\<lambda>x. or_else (ot_consumed_at x) (ot_expires_at x)) n (device_linking_otps d))"
    and "transfer_requests d' = snd (sql_delete_batch (transfer_retired now) (\<lambda>r. or_else (tr_completed_at r) (tr_created_at r)) n (transfer_requests d))"
    and "websocket_tickets d' = snd (sql_delete_batch (ticket_retired now) (\<lambda>t. or_else (tk_consumed_at t) (tk_expires_at t)) n tickets)"
    and "security_events d' = snd (sql_delete_batch (\<lambda>e. ev_expires_at e \<le> now) ev_expires_at n (security_events d))"
    and "rate_limit_buckets d' = snd (sql_delete_batch (\<lambda>b. rb_window_expires_at b \<le> now) rb_window_expires_at n (rate_limit_buckets d))"
  using assms(1-3)
  by (auto simp: cleanup_expired_def validate_batch_size_def delete_batch_def query_defs n_def gone_def tickets_def
      case_prod_beta Let_def)

subsection \<open>What stays\<close>









section \<open>The backlog\<close>

text \<open>The most candidates for deletion in one table.\<close>

definition backlog :: "instant \<Rightarrow> db \<Rightarrow> nat" where
  "backlog now d =
     foldr max
       [length (filter (session_retired now) (app_sessions d)),
        length (filter (challenge_retired now) (device_challenges d)),
        length (filter (otp_retired now) (device_linking_otps d)),
        length (filter (transfer_retired now) (transfer_requests d)),
        length (filter (ticket_retired now) (websocket_tickets d)),
        length (filter (\<lambda>e. ev_expires_at e \<le> now) (security_events d)),
        length (filter (\<lambda>b. rb_window_expires_at b \<le> now) (rate_limit_buckets d))] 0"

lemma foldr_max_le: "foldr max xs (0::nat) \<le> c \<longleftrightarrow> (\<forall>x\<in>set xs. x \<le> c)"
  by (induction xs) auto

lemma backlog_le:
  "backlog now d \<le> c \<longleftrightarrow>
     length (filter (session_retired now) (app_sessions d)) \<le> c \<and>
     length (filter (challenge_retired now) (device_challenges d)) \<le> c \<and>
     length (filter (otp_retired now) (device_linking_otps d)) \<le> c \<and>
     length (filter (transfer_retired now) (transfer_requests d)) \<le> c \<and>
     length (filter (ticket_retired now) (websocket_tickets d)) \<le> c \<and>
     length (filter (\<lambda>e. ev_expires_at e \<le> now) (security_events d)) \<le> c \<and>
     length (filter (\<lambda>b. rb_window_expires_at b \<le> now) (rate_limit_buckets d)) \<le> c"
  unfolding backlog_def foldr_max_le by (simp only: list.set ball_simps simp_thms)

lemma backlog_run:
  assumes "0 < batch_size" and "batch_size \<le> MAX_CLEANUP_BATCH_SIZE"
  shows "backlog now (snd (cleanup_expired now batch_size d)) \<le> backlog now d - nat batch_size"
proof -
  obtain out d' where run: "cleanup_expired now batch_size d = (out, d')" by fastforce
  have tickets: "length (filter (ticket_retired now) (filter Q (websocket_tickets d))) \<le>
      length (filter (ticket_retired now) (websocket_tickets d))" for Q
    using length_filter_le [of Q "filter (ticket_retired now) (websocket_tickets d)"] by (simp add: filter_filter conj_commute)
  note le = backlog_le [of now d "backlog now d", simplified]
  show ?thesis
    unfolding run snd_conv backlog_le cleanup_expired_tables [OF run assms] delete_batch_candidates
    using le tickets by (meson diff_le_mono le_trans)
qed

lemma backlog_0_batch:
  assumes "filter p t = []"
  shows "sql_delete_batch p key n t = ([], t)"
proof -
  have "batch_victims p key n t = []"
    using length_batch_victims [of p key n t] assms by simp
  then show ?thesis by (simp add: sql_delete_batch_def)
qed

lemma backlog_0_idle:
  assumes "backlog now d = 0" and "0 < batch_size" and "batch_size \<le> MAX_CLEANUP_BATCH_SIZE"
  shows "\<exists>counts. cleanup_expired now batch_size d = (Inr counts, d) \<and> list_all (\<lambda>x. snd x = 0) counts"
proof -
  have none: "filter (session_retired now) (app_sessions d) = []"
    "filter (challenge_retired now) (device_challenges d) = []" "filter (otp_retired now) (device_linking_otps d) = []"
    "filter (transfer_retired now) (transfer_requests d) = []" "filter (ticket_retired now) (websocket_tickets d) = []"
    "filter (\<lambda>e. ev_expires_at e \<le> now) (security_events d) = []"
    "filter (\<lambda>b. rb_window_expires_at b \<le> now) (rate_limit_buckets d) = []"
    using backlog_le [of now d 0] assms(1) by simp_all
  show ?thesis
    using assms(2,3) by (simp add: cleanup_expired_def validate_batch_size_def delete_batch_def query_defs backlog_0_batch none)
qed

section \<open>Properties\<close>

text \<open>A database with a live session, one that expired long ago, and a ticket of each.\<close>

definition stale_session :: session where
  "stale_session = sample_session\<lparr>se_id := 6, se_token_hash := replicate 32 3, se_idle_expires_at := days 1\<rparr>"

definition retention_db :: db where
  "retention_db =
     (session_db [sample_session, stale_session])\<lparr>websocket_tickets :=
        [new_ticket (days 20) 1 5 (replicate 32 4) (days 40), new_ticket 0 2 6 (replicate 32 5) (days 40)]\<rparr>"



text \<open>
  C33.  Repeating the retention job ends.  With a batch size the job accepts, as many runs as the
  largest backlog of a table needs batches leave nothing to delete: the next run reports zero for
  every table and changes nothing.
\<close>

theorem cleanup_drains:
  assumes "0 < batch_size" and "batch_size \<le> MAX_CLEANUP_BATCH_SIZE" and "backlog now d \<le> k * nat batch_size"
  shows "\<exists>counts d'. ((\<lambda>d. snd (cleanup_expired now batch_size d)) ^^ k) d = d' \<and>
    cleanup_expired now batch_size d' = (Inr counts, d') \<and> list_all (\<lambda>x. snd x = 0) counts"
proof -
  let ?run = "\<lambda>d. snd (cleanup_expired now batch_size d)"
  have "backlog now ((?run ^^ j) d) \<le> backlog now d - j * nat batch_size" for j
  proof (induction j)
    case (Suc j)
    show ?case using backlog_run [OF assms(1,2), of now "(?run ^^ j) d"] Suc by simp
  qed simp
  then have "backlog now ((?run ^^ k) d) = 0" using assms(3) by (metis diff_is_0_eq le_zero_eq)
  then show ?thesis using backlog_0_idle [OF _ assms(1,2)] by blast
qed

theorem cleanup_drains_witness:
  "\<exists>counts d'. ((\<lambda>d. snd (cleanup_expired (days 50) 1 d)) ^^ 2) retention_db = d' \<and>
     cleanup_expired (days 50) 1 d' = (Inr counts, d') \<and> list_all (\<lambda>x. snd x = 0) counts"
proof -
  have "backlog (days 50) retention_db \<le> 2 * nat 1" by code_simp
  then show ?thesis by (intro cleanup_drains) (simp_all add: MAX_CLEANUP_BATCH_SIZE_def)
qed

end
