(* ===== verification/DeviceRepo.thy ===== *)
theory DeviceRepo
  imports Statements
begin

text \<open>
  Accounts and trusted devices: \<open>AccountRepository\<close> of \<open>repositories/accounts.py\<close> and
  \<open>DeviceRepository\<close> of \<open>repositories/devices.py\<close> on the database, and \<open>InMemoryDeviceRepository\<close> on
  a dictionary beside the in-memory session store it revokes sessions in.  \<open>now\<close> is
  \<open>CURRENT_TIMESTAMP\<close> or a reading of \<open>datetime.now(UTC)\<close>; \<open>fresh\<close> is the identifier the database,
  or \<open>uuid4\<close>, generated.
\<close>

section \<open>Accounts\<close>

text \<open>The \<open>CHECK\<close> constraints of \<open>app_users\<close>, and its unique columns.\<close>

definition account_check :: "account \<Rightarrow> bool" where
  "account_check a \<longleftrightarrow>
     3 \<le> length (ac_email_normalized a) \<and> length (ac_email_normalized a) \<le> 320 \<and> 0 \<le> ac_device_epoch a \<and>
     (case ac_email_fallback_at a of None \<Rightarrow> True | Some t \<Rightarrow> ac_created_at a \<le> t) \<and>
     (case ac_deleted_at a of None \<Rightarrow> True | Some t \<Rightarrow> ac_created_at a \<le> t)"

definition account_clash :: "account \<Rightarrow> account \<Rightarrow> bool" where
  "account_clash a b \<longleftrightarrow>
     ac_id a = ac_id b \<or> ac_supabase_user_id a = ac_supabase_user_id b \<or>
     ac_email_normalized a = ac_email_normalized b"

definition acc_get_by_id :: "uuid \<Rightarrow> db \<Rightarrow> account option" where
  "acc_get_by_id account_id d =
     first_row (sql_select (\<lambda>a. ac_id a = account_id \<and> ac_deleted_at a = None) (app_users d))"

definition acc_get_by_supabase_user_id :: "uuid \<Rightarrow> db \<Rightarrow> account option" where
  "acc_get_by_supabase_user_id supabase_user_id d =
     first_row (sql_select (\<lambda>a. ac_supabase_user_id a = supabase_user_id \<and> ac_deleted_at a = None) (app_users d))"

definition acc_get_by_email :: "pystr \<Rightarrow> db \<Rightarrow> account option" where
  "acc_get_by_email email_normalized d =
     first_row (sql_select (\<lambda>a. ac_email_normalized a = email_normalized \<and> ac_deleted_at a = None) (app_users d))"

definition new_account :: "instant \<Rightarrow> uuid \<Rightarrow> uuid \<Rightarrow> pystr \<Rightarrow> account" where
  "new_account now fresh supabase_user_id email_normalized =
     \<lparr>ac_id = fresh, ac_supabase_user_id = supabase_user_id, ac_email_normalized = email_normalized,
      ac_device_epoch = 0, ac_created_at = now, ac_email_fallback_at = None, ac_deleted_at = None\<rparr>"

text \<open>The foreign key to \<open>auth.users\<close> is Supabase's table: \<open>known\<close> are the identities it holds.\<close>

definition acc_create :: "(uuid \<Rightarrow> bool) \<Rightarrow> instant \<Rightarrow> uuid \<Rightarrow> uuid \<Rightarrow> pystr \<Rightarrow> db \<Rightarrow> account res \<times> db" where
  "acc_create known now fresh supabase_user_id email_normalized d =
     required (tbl_insert app_users app_users_update (\<lambda>a. account_check a \<and> known (ac_supabase_user_id a))
       account_clash [new_account now fresh supabase_user_id email_normalized] d)"

definition mark_email_fallback :: "uuid \<Rightarrow> instant \<Rightarrow> db \<Rightarrow> account option res \<times> db" where
  "mark_email_fallback account_id t d =
     one_row (tbl_update app_users app_users_update account_check
       (\<lambda>a. ac_id a = account_id \<and> ac_deleted_at a = None) (\<lambda>a. a\<lparr>ac_email_fallback_at := Some t\<rparr>) d)"

section \<open>Devices\<close>

text \<open>
  The \<open>CHECK\<close> constraints of \<open>devices\<close>, with the status and lifecycle constraints as migration
  \<open>20260830100000\<close> left them, its key, and the unique index on the fingerprint that migration
  \<open>20260827164934\<close> added.
\<close>

definition device_check :: "device \<Rightarrow> bool" where
  "device_check v \<longleftrightarrow>
     1 \<le> length (dv_label v) \<and> length (dv_label v) \<le> 100 \<and>
     1 \<le> length (dv_signing_public_key_spki v) \<and> length (dv_signing_public_key_spki v) \<le> 1024 \<and>
     length (dv_fingerprint v) = 32 \<and> 0 \<le> dv_epoch v \<and>
     (dv_status v = Revoked) = (dv_revoked_at v \<noteq> None) \<and> dv_created_at v \<le> dv_last_seen_at v \<and>
     dv_linked_by_device_id v \<noteq> Some (dv_id v)"

definition device_clash :: "device \<Rightarrow> device \<Rightarrow> bool" where
  "device_clash v w \<longleftrightarrow>
     dv_id v = dv_id w \<or> (dv_user_id v = dv_user_id w \<and> dv_fingerprint v = dv_fingerprint w)"

definition dev_get_by_id :: "uuid \<Rightarrow> uuid \<Rightarrow> db \<Rightarrow> device option" where
  "dev_get_by_id account_id device_id d =
     first_row (sql_select (\<lambda>v. dv_user_id v = account_id \<and> dv_id v = device_id) (devices d))"

definition dev_get_by_fingerprint :: "uuid \<Rightarrow> bytes \<Rightarrow> db \<Rightarrow> device option" where
  "dev_get_by_fingerprint account_id fingerprint d =
     first_row (sql_select (\<lambda>v. dv_user_id v = account_id \<and> dv_fingerprint v = fingerprint) (devices d))"

definition newest_devices :: "device list \<Rightarrow> device list" where
  "newest_devices vs = sort_key (\<lambda>v. - dv_created_at v) vs"

definition dev_list_for_account :: "uuid \<Rightarrow> db \<Rightarrow> device list" where
  "dev_list_for_account account_id d =
     newest_devices (sql_select (\<lambda>v. dv_user_id v = account_id) (devices d))"

definition dev_list_by_account :: "uuid \<Rightarrow> db \<Rightarrow> device list" where
  "dev_list_by_account account_id d = dev_list_for_account account_id d"

definition new_device ::
    "instant \<Rightarrow> uuid \<Rightarrow> uuid \<Rightarrow> int \<Rightarrow> pystr \<Rightarrow> bytes \<Rightarrow> bytes \<Rightarrow> uuid option \<Rightarrow> device" where
  "new_device now device_id account_id epoch label spki fingerprint linked_by =
     \<lparr>dv_id = device_id, dv_user_id = account_id, dv_epoch = epoch, dv_label = label,
      dv_signing_public_key_spki = spki, dv_fingerprint = fingerprint, dv_status = Active,
      dv_created_at = now, dv_last_seen_at = now, dv_revoked_at = None, dv_linked_by_device_id = linked_by\<rparr>"

definition dev_insert :: "device list \<Rightarrow> db \<Rightarrow> device list res \<times> db" where
  "dev_insert rows d = tbl_insert devices devices_update device_check device_clash rows d"

definition dev_update :: "(device \<Rightarrow> bool) \<Rightarrow> (device \<Rightarrow> device) \<Rightarrow> db \<Rightarrow> device list res \<times> db" where
  "dev_update p f d = tbl_update devices devices_update device_check p f d"

definition dev_create ::
    "instant \<Rightarrow> uuid \<Rightarrow> uuid \<Rightarrow> int \<Rightarrow> pystr \<Rightarrow> bytes \<Rightarrow> bytes \<Rightarrow> uuid option \<Rightarrow> uuid option \<Rightarrow> db \<Rightarrow>
     device res \<times> db" where
  "dev_create now fresh account_id epoch label spki fingerprint linked_by device_id d =
     required (dev_insert
       [new_device now (case device_id of None \<Rightarrow> fresh | Some i \<Rightarrow> i) (ac_id a) epoch label spki fingerprint linked_by.
          a \<leftarrow> app_users d,
          ac_id a = account_id \<and> ac_deleted_at a = None \<and> ac_device_epoch a = epoch \<and>
          (case linked_by of None \<Rightarrow> True
           | Some approver \<Rightarrow>
               list_ex (\<lambda>v. dv_id v = approver \<and> dv_user_id v = ac_id a \<and> dv_status v = Active \<and>
                            dv_epoch v = ac_device_epoch a) (devices d))] d)"

definition register_for_email ::
    "instant \<Rightarrow> uuid \<Rightarrow> int \<Rightarrow> pystr \<Rightarrow> bytes \<Rightarrow> bytes \<Rightarrow> uuid \<Rightarrow> db \<Rightarrow> device res \<times> db" where
  "register_for_email now account_id epoch label spki fingerprint device_id =
     transaction (\<lambda>d.
       case first_row (sql_select (\<lambda>v. dv_user_id v = account_id \<and> dv_fingerprint v = fingerprint) (devices d)) of
         Some existing \<Rightarrow>
           if dv_status existing = Revoked then (Inl ValueError, d)
           else required (dev_update
             (\<lambda>v. dv_user_id v = account_id \<and> dv_fingerprint v = fingerprint \<and> dv_epoch v = epoch)
             (\<lambda>v. v\<lparr>dv_status := Active, dv_label := label, dv_last_seen_at := now\<rparr>) d)
       | None \<Rightarrow>
           required (dev_insert
             [new_device now device_id (ac_id a) epoch label spki fingerprint None.
                a \<leftarrow> app_users d,
                ac_id a = account_id \<and> ac_deleted_at a = None \<and> ac_device_epoch a = epoch] d))"

definition dev_touch_last_seen :: "instant \<Rightarrow> uuid \<Rightarrow> uuid \<Rightarrow> db \<Rightarrow> device option res \<times> db" where
  "dev_touch_last_seen now account_id device_id d =
     one_row (dev_update (\<lambda>v. dv_user_id v = account_id \<and> dv_id v = device_id \<and> dv_status v = Active)
       (\<lambda>v. v\<lparr>dv_last_seen_at := now\<rparr>) d)"

definition dev_rename :: "uuid \<Rightarrow> uuid \<Rightarrow> pystr \<Rightarrow> db \<Rightarrow> device option res \<times> db" where
  "dev_rename account_id device_id label d =
     one_row (dev_update (\<lambda>v. dv_user_id v = account_id \<and> dv_id v = device_id) (\<lambda>v. v\<lparr>dv_label := label\<rparr>) d)"

definition device_revoked :: "instant \<Rightarrow> device \<Rightarrow> device" where
  "device_revoked now v = v\<lparr>dv_status := Revoked, dv_revoked_at := coalesce (dv_revoked_at v) now\<rparr>"

definition device_logged_out :: "device \<Rightarrow> device" where
  "device_logged_out v = v\<lparr>dv_status := (if dv_status v = Revoked then dv_status v else Inactive)\<rparr>"

text \<open>The two updates of \<open>revoke_with_sessions\<close> and \<open>logout_with_sessions\<close>, in one transaction.\<close>

definition end_device_with_sessions ::
    "(device \<Rightarrow> device) \<Rightarrow> instant \<Rightarrow> uuid \<Rightarrow> uuid \<Rightarrow> pystr \<Rightarrow> db \<Rightarrow> device option res \<times> db" where
  "end_device_with_sessions f now account_id device_id reason =
     transaction (\<lambda>d.
       bind_st (dev_update (\<lambda>v. dv_user_id v = account_id \<and> dv_id v = device_id) f d) (\<lambda>rows d1.
         case first_row rows of
           None \<Rightarrow> (Inr None, d1)
         | Some device \<Rightarrow>
             bind_st (sess_update
                 (\<lambda>s. se_user_id s = account_id \<and> se_device_id s = device_id \<and> se_revoked_at s = None)
                 (revoked now reason) d1)
               (\<lambda>_ d2. (Inr (Some device), d2))))"

definition revoke_with_sessions :: "instant \<Rightarrow> uuid \<Rightarrow> uuid \<Rightarrow> pystr \<Rightarrow> db \<Rightarrow> device option res \<times> db" where
  "revoke_with_sessions now = end_device_with_sessions (device_revoked now) now"

definition logout_with_sessions :: "instant \<Rightarrow> uuid \<Rightarrow> uuid \<Rightarrow> pystr \<Rightarrow> db \<Rightarrow> device option res \<times> db" where
  "logout_with_sessions now = end_device_with_sessions device_logged_out now"

definition dev_revoke :: "instant \<Rightarrow> uuid \<Rightarrow> uuid \<Rightarrow> pystr \<Rightarrow> db \<Rightarrow> device option res \<times> db" where
  "dev_revoke now account_id device_id reason d = revoke_with_sessions now account_id device_id reason d"

definition revoke_all_for_account :: "instant \<Rightarrow> uuid \<Rightarrow> pystr \<Rightarrow> db \<Rightarrow> nat res \<times> db" where
  "revoke_all_for_account now account_id reason =
     transaction (\<lambda>d.
       bind_st (dev_update (\<lambda>v. dv_user_id v = account_id \<and> dv_status v = Active) (device_revoked now) d) (\<lambda>rows d1.
         bind_st (sess_update (\<lambda>s. se_user_id s = account_id \<and> se_revoked_at s = None) (revoked now reason) d1)
           (\<lambda>_ d2. (Inr (length rows), d2))))"

section \<open>The in-memory repository\<close>

text \<open>
  \<open>md_sessions\<close> is the store of the session repository it was built with, which other components share;
  \<open>md_wired\<close> says whether it was built with one.  \<open>revoke_with_sessions\<close>, \<open>logout_with_sessions\<close> and
  \<open>revoke_all_for_account\<close> read the clock again for the sessions.
\<close>

record mem_devices =
  md_records :: "(uuid, device) dict"
  md_sessions :: session_store
  md_wired :: bool

definition empty_mem_devices :: "session_store \<Rightarrow> bool \<Rightarrow> mem_devices" where
  "empty_mem_devices sessions wired = \<lparr>md_records = [], md_sessions = sessions, md_wired = wired\<rparr>"

definition md_get_by_id :: "uuid \<Rightarrow> uuid \<Rightarrow> mem_devices \<Rightarrow> device option" where
  "md_get_by_id account_id device_id st =
     (case dict_get (md_records st) device_id of
        None \<Rightarrow> None
      | Some record \<Rightarrow> if dv_user_id record = account_id then Some record else None)"

definition md_get_by_fingerprint :: "uuid \<Rightarrow> bytes \<Rightarrow> mem_devices \<Rightarrow> device option" where
  "md_get_by_fingerprint account_id fingerprint st =
     find (\<lambda>v. dv_user_id v = account_id \<and> dv_fingerprint v = fingerprint) (dict_values (md_records st))"

definition md_list_for_account :: "uuid \<Rightarrow> mem_devices \<Rightarrow> device list" where
  "md_list_for_account account_id st =
     newest_devices (filter (\<lambda>v. dv_user_id v = account_id) (dict_values (md_records st)))"

definition md_create ::
    "instant \<Rightarrow> uuid \<Rightarrow> uuid \<Rightarrow> int \<Rightarrow> pystr \<Rightarrow> bytes \<Rightarrow> bytes \<Rightarrow> uuid option \<Rightarrow> uuid option \<Rightarrow> mem_devices \<Rightarrow>
     device res \<times> mem_devices" where
  "md_create now fresh account_id epoch label spki fingerprint linked_by device_id st =
     (let record = new_device now (case device_id of None \<Rightarrow> fresh | Some i \<Rightarrow> i) account_id epoch label spki
                     fingerprint linked_by
      in if list_ex (\<lambda>v. dv_user_id v = account_id \<and> dv_fingerprint v = fingerprint) (dict_values (md_records st))
         then (Inl ValueError, st)
         else (Inr record, st\<lparr>md_records := dict_set (dv_id record) record (md_records st)\<rparr>))"

definition md_register_for_email ::
    "instant \<Rightarrow> instant \<Rightarrow> uuid \<Rightarrow> int \<Rightarrow> pystr \<Rightarrow> bytes \<Rightarrow> bytes \<Rightarrow> uuid \<Rightarrow> mem_devices \<Rightarrow> device res \<times> mem_devices" where
  "md_register_for_email t1 t2 account_id epoch label spki fingerprint device_id st =
     (case md_get_by_fingerprint account_id fingerprint st of
        Some existing \<Rightarrow>
          if dv_status existing = Revoked then (Inl ValueError, st)
          else let updated = existing\<lparr>dv_epoch := epoch, dv_label := label, dv_status := Active, dv_last_seen_at := t1\<rparr>
               in (Inr updated, st\<lparr>md_records := dict_set (dv_id existing) updated (md_records st)\<rparr>)
      | None \<Rightarrow>
          let return_record = (new_device t1 device_id account_id epoch label spki fingerprint None)\<lparr>dv_last_seen_at := t2\<rparr>
          in if list_ex (\<lambda>v. dv_id v = device_id) (dict_values (md_records st)) then (Inl ValueError, st)
             else (Inr return_record, st\<lparr>md_records := dict_set device_id return_record (md_records st)\<rparr>))"

definition md_remove :: "uuid \<Rightarrow> uuid \<Rightarrow> mem_devices \<Rightarrow> bool \<times> mem_devices" where
  "md_remove account_id device_id st =
     (case md_get_by_id account_id device_id st of
        None \<Rightarrow> (False, st)
      | Some _ \<Rightarrow> (True, st\<lparr>md_records := dict_del device_id (md_records st)\<rparr>))"

text \<open>Replace the account's own record by \<open>f record\<close>, when the guard allows it.\<close>

definition md_replace ::
    "uuid \<Rightarrow> uuid \<Rightarrow> (device \<Rightarrow> bool) \<Rightarrow> (device \<Rightarrow> device) \<Rightarrow> mem_devices \<Rightarrow> device option \<times> mem_devices" where
  "md_replace account_id device_id p f st =
     (case md_get_by_id account_id device_id st of
        None \<Rightarrow> (None, st)
      | Some record \<Rightarrow>
          if \<not> p record then (None, st)
          else (Some (f record), st\<lparr>md_records := dict_set device_id (f record) (md_records st)\<rparr>))"

definition md_touch_last_seen :: "instant \<Rightarrow> uuid \<Rightarrow> uuid \<Rightarrow> mem_devices \<Rightarrow> device option \<times> mem_devices" where
  "md_touch_last_seen now account_id device_id st =
     md_replace account_id device_id (\<lambda>v. dv_status v = Active) (\<lambda>v. v\<lparr>dv_last_seen_at := now\<rparr>) st"

definition md_rename :: "uuid \<Rightarrow> uuid \<Rightarrow> pystr \<Rightarrow> mem_devices \<Rightarrow> device option \<times> mem_devices" where
  "md_rename account_id device_id label st =
     md_replace account_id device_id (\<lambda>_. True) (\<lambda>v. v\<lparr>dv_label := label\<rparr>) st"

definition md_revoke_sessions :: "instant \<Rightarrow> uuid \<Rightarrow> uuid \<Rightarrow> pystr \<Rightarrow> mem_devices \<Rightarrow> mem_devices" where
  "md_revoke_sessions now account_id device_id reason st =
     (if md_wired st
      then st\<lparr>md_sessions := snd (ms_revoke_for_device now account_id device_id reason (md_sessions st))\<rparr>
      else st)"

definition md_revoke_with_sessions ::
    "instant \<Rightarrow> instant \<Rightarrow> uuid \<Rightarrow> uuid \<Rightarrow> pystr \<Rightarrow> mem_devices \<Rightarrow> device option \<times> mem_devices" where
  "md_revoke_with_sessions t1 t2 account_id device_id reason st =
     (case md_get_by_id account_id device_id st of
        None \<Rightarrow> (None, st)
      | Some record \<Rightarrow>
          if dv_status record = Revoked then (Some record, st)
          else let updated = record\<lparr>dv_status := Revoked, dv_revoked_at := Some t1\<rparr>
               in (Some updated,
                   md_revoke_sessions t2 account_id device_id reason
                     (st\<lparr>md_records := dict_set device_id updated (md_records st)\<rparr>)))"

definition md_logout_with_sessions ::
    "instant \<Rightarrow> uuid \<Rightarrow> uuid \<Rightarrow> pystr \<Rightarrow> mem_devices \<Rightarrow> device option \<times> mem_devices" where
  "md_logout_with_sessions now account_id device_id reason st =
     (case md_get_by_id account_id device_id st of
        None \<Rightarrow> (None, st)
      | Some record \<Rightarrow>
          let (record', st') =
                (if dv_status record \<noteq> Revoked
                 then (record\<lparr>dv_status := Inactive\<rparr>,
                       st\<lparr>md_records := dict_set device_id (record\<lparr>dv_status := Inactive\<rparr>) (md_records st)\<rparr>)
                 else (record, st))
          in (Some record', md_revoke_sessions now account_id device_id reason st'))"

definition md_revoke :: "instant \<Rightarrow> instant \<Rightarrow> uuid \<Rightarrow> uuid \<Rightarrow> pystr \<Rightarrow> mem_devices \<Rightarrow> device option \<times> mem_devices" where
  "md_revoke t1 t2 account_id device_id reason st = md_revoke_with_sessions t1 t2 account_id device_id reason st"

definition md_revoke_all_for_account ::
    "instant \<Rightarrow> clock \<Rightarrow> uuid \<Rightarrow> pystr \<Rightarrow> mem_devices \<Rightarrow> nat \<times> mem_devices" where
  "md_revoke_all_for_account now clk account_id reason st =
     (let targets = filter (\<lambda>v. dv_user_id v = account_id \<and> dv_status v = Active) (dict_values (md_records st));
          st1 = st\<lparr>md_records :=
                  fold (\<lambda>v. dict_set (dv_id v) (v\<lparr>dv_status := Revoked, dv_revoked_at := Some now\<rparr>)) targets (md_records st)\<rparr>
      in (length targets,
          snd (fold (\<lambda>v (i, s). (i + 1, md_revoke_sessions (clk i) account_id (dv_id v) reason s)) targets (0, st1))))"

section \<open>Facts about the statements\<close>

interpretation dev: table devices devices_update device_check device_clash
  by unfold_locales (auto simp: device_clash_def)

interpretation acc: table app_users app_users_update account_check account_clash
  by unfold_locales (auto simp: account_clash_def)

abbreviation device_inv :: "db \<Rightarrow> bool" where
  "device_inv \<equiv> dev.inv"

text \<open>
  What the statements may do to a device: its identity, key and origin are fixed, and a revoked
  device stays revoked with the time it was first revoked at.
\<close>

definition device_evolves :: "device \<Rightarrow> device \<Rightarrow> bool" where
  "device_evolves v w \<longleftrightarrow>
     dv_id w = dv_id v \<and> dv_user_id w = dv_user_id v \<and> dv_epoch w = dv_epoch v \<and>
     dv_signing_public_key_spki w = dv_signing_public_key_spki v \<and> dv_fingerprint w = dv_fingerprint v \<and>
     dv_created_at w = dv_created_at v \<and> dv_linked_by_device_id w = dv_linked_by_device_id v \<and>
     (dv_status v = Revoked \<longrightarrow> dv_status w = Revoked \<and> (\<forall>t. dv_revoked_at v = Some t \<longrightarrow> dv_revoked_at w = Some t))"

lemma device_evolves_refl [simp]: "device_evolves v v"
  by (simp add: device_evolves_def)

lemma device_evolves_trans: "device_evolves v w \<Longrightarrow> device_evolves w x \<Longrightarrow> device_evolves v x"
  by (auto simp: device_evolves_def)

lemma device_evolves_clash:
  "device_evolves v v' \<Longrightarrow> device_evolves w w' \<Longrightarrow> device_clash v' w' = device_clash v w"
  by (simp add: device_evolves_def device_clash_def)

lemma dev_update_evolves:
  assumes "\<And>v. v \<in> set (devices d) \<Longrightarrow> p v \<Longrightarrow> device_evolves v (f v)"
  shows "list_all2 device_evolves (devices d) (devices (snd (dev_update p f d)))"
    and "device_inv d \<Longrightarrow> device_inv (snd (dev_update p f d))"
  unfolding dev_update_def
  by (rule dev.update_rel; simp add: assms)
     (rule dev.update_inv, assumption, rule device_evolves_clash; simp add: assms)

lemma dev_insert_facts:
  shows "device_inv d \<Longrightarrow> device_inv (snd (dev_insert new d))"
    and "\<exists>new'. devices (snd (dev_insert new d)) = devices d @ new' \<and> set new' \<subseteq> set new"
    and "app_sessions (snd (dev_insert new d)) = app_sessions d"
    and "app_users (snd (dev_insert new d)) = app_users d"
proof -
  show "device_inv d \<Longrightarrow> device_inv (snd (dev_insert new d))" unfolding dev_insert_def by (rule dev.insert_inv)
  show "\<exists>new'. devices (snd (dev_insert new d)) = devices d @ new' \<and> set new' \<subseteq> set new"
    unfolding dev_insert_def by (rule dev.insert_rows)
qed (auto simp: dev_insert_def tbl_insert_def split: prod.split sum.split)

lemma dev_update_tables:
  "app_sessions (snd (dev_update p f d)) = app_sessions d" "app_users (snd (dev_update p f d)) = app_users d"
  by (auto simp: dev_update_def tbl_update_def split: prod.split sum.split)

lemma snd_required [simp]: "snd (required out) = snd out"
  by (cases out; cases "fst out") (auto simp: required_def)

lemma snd_transaction:
  "P s \<Longrightarrow> P (snd (body s)) \<Longrightarrow> P (snd (transaction body s))"
  by (auto simp: transaction_def split: prod.split sum.split)

lemma snd_bind_st:
  "P (snd out) \<Longrightarrow> (\<And>x s. out = (Inr x, s) \<Longrightarrow> P (snd (k x s))) \<Longrightarrow> P (snd (bind_st out k))"
  by (cases out; cases "fst out") auto

lemma device_updates_evolve [simp]:
  "device_evolves v (device_revoked now v)" "device_evolves v (device_logged_out v)"
  "device_evolves v (v\<lparr>dv_label := l\<rparr>)" "device_evolves v (v\<lparr>dv_last_seen_at := now\<rparr>)"
  "dv_status v \<noteq> Revoked \<Longrightarrow> device_evolves v (v\<lparr>dv_status := Active, dv_label := l, dv_last_seen_at := now\<rparr>)"
  by (auto simp: device_evolves_def device_revoked_def device_logged_out_def)

section \<open>Histories\<close>

text \<open>
  The device table under any interleaving of its statements, with insertions of new rows by device
  linking, and statements on the other tables.
\<close>

inductive device_step :: "db \<Rightarrow> db \<Rightarrow> bool" where
  "device_step d (snd (dev_create now fresh a ep l k fp linked i d))"
| "device_step d (snd (register_for_email now a ep l k fp i d))"
| "device_step d (snd (dev_touch_last_seen now a i d))"
| "device_step d (snd (dev_rename a i l d))"
| "device_step d (snd (revoke_with_sessions now a i r d))"
| "device_step d (snd (logout_with_sessions now a i r d))"
| "device_step d (snd (revoke_all_for_account now a r d))"
| "device_step d (snd (dev_insert [new_device now i a ep l k fp linked] d))"
| "devices d' = devices d \<Longrightarrow> app_sessions d' = app_sessions d \<Longrightarrow> device_step d d'"

definition trust_evolves :: "db \<Rightarrow> db \<Rightarrow> bool" where
  "trust_evolves d d' \<longleftrightarrow>
     rows_evolve device_evolves (devices d) (devices d') \<and> rows_evolve session_evolves (app_sessions d) (app_sessions d') \<and>
     (device_inv d \<longrightarrow> device_inv d') \<and> (session_inv d \<longrightarrow> session_inv d')"

lemma trust_evolves_refl: "devices d' = devices d \<Longrightarrow> app_sessions d' = app_sessions d \<Longrightarrow> trust_evolves d d'"
  by (simp add: trust_evolves_def rows_evolve_refl dev.inv_def session_inv_def)

lemma trust_evolves_trans: "trust_evolves d d' \<Longrightarrow> trust_evolves d' d'' \<Longrightarrow> trust_evolves d d''"
proof -
  have "\<forall>x y z. device_evolves x y \<longrightarrow> device_evolves y z \<longrightarrow> device_evolves x z"
    "\<forall>x y z. session_evolves x y \<longrightarrow> session_evolves y z \<longrightarrow> session_evolves x z"
    using device_evolves_trans session_evolves_trans by blast+
  note trans = this [THEN rows_evolve_trans]
  show "trust_evolves d d' \<Longrightarrow> trust_evolves d' d'' \<Longrightarrow> trust_evolves d d''"
    unfolding trust_evolves_def using trans by blast
qed

lemma dev_insert_trust: "trust_evolves d (snd (dev_insert new d))"
proof -
  obtain new' where "devices (snd (dev_insert new d)) = devices d @ new'" using dev_insert_facts(2) by blast
  then show ?thesis
    using dev_insert_facts(1) [of d new] dev_insert_facts(3) [of new d]
    by (simp add: trust_evolves_def rows_evolve_append rows_evolve_refl session_inv_def)
qed

lemma dev_update_trust:
  assumes "\<And>v. v \<in> set (devices d) \<Longrightarrow> p v \<Longrightarrow> device_evolves v (f v)"
  shows "trust_evolves d (snd (dev_update p f d))"
  using dev_update_evolves [of d p f, OF assms] rows_evolve_list_all2 [of device_evolves "devices d" _ "[]"]
  by (simp add: trust_evolves_def dev_update_tables rows_evolve_refl session_inv_def)

lemma sess_update_tables:
  "devices (snd (sess_update p f d)) = devices d" "app_users (snd (sess_update p f d)) = app_users d"
  by (auto simp: sess_update_def split: prod.split sum.split)

lemma sess_update_trust:
  assumes "\<And>s. p s \<Longrightarrow> session_evolves s (f s)"
  shows "trust_evolves d (snd (sess_update p f d))"
  using sess_update_evolves [of p f, OF assms] rows_evolve_list_all2 [of session_evolves "app_sessions d" _ "[]"]
  by (simp add: trust_evolves_def sess_update_tables rows_evolve_refl dev.inv_def)

lemma end_device_trust:
  assumes "\<And>v. device_evolves v (f v)"
  shows "trust_evolves d (snd (end_device_with_sessions f now a i r d))"
  unfolding end_device_with_sessions_def
proof (rule snd_transaction, rule trust_evolves_refl; (simp; fail)?)
  show "trust_evolves d (snd (bind_st (dev_update (\<lambda>v. dv_user_id v = a \<and> dv_id v = i) f d) (\<lambda>rows d1.
         case first_row rows of None \<Rightarrow> (Inr None, d1) | Some device \<Rightarrow>
           bind_st (sess_update (\<lambda>s. se_user_id s = a \<and> se_device_id s = i \<and> se_revoked_at s = None) (revoked now r) d1)
             (\<lambda>_ d2. (Inr (Some device), d2)))))"
  proof (rule snd_bind_st)
    show *: "trust_evolves d (snd (dev_update (\<lambda>v. dv_user_id v = a \<and> dv_id v = i) f d))"
      using assms by (intro dev_update_trust)
    fix rows d1
    assume "dev_update (\<lambda>v. dv_user_id v = a \<and> dv_id v = i) f d = (Inr rows, d1)"
    then have d1: "trust_evolves d d1" using * by simp
    moreover have "trust_evolves d1 (snd (sess_update
        (\<lambda>s. se_user_id s = a \<and> se_device_id s = i \<and> se_revoked_at s = None) (revoked now r) d1))"
      by (intro sess_update_trust) simp
    ultimately show "trust_evolves d (snd (case first_row rows of None \<Rightarrow> (Inr None, d1) | Some device \<Rightarrow>
           bind_st (sess_update (\<lambda>s. se_user_id s = a \<and> se_device_id s = i \<and> se_revoked_at s = None) (revoked now r) d1)
             (\<lambda>_ d2. (Inr (Some device), d2))))"
      by (auto split: option.split intro!: snd_bind_st [where P = "trust_evolves d"] dest: trust_evolves_trans
          simp: snd_conv)
  qed
qed

lemma revoke_all_trust: "trust_evolves d (snd (revoke_all_for_account now a r d))"
  unfolding revoke_all_for_account_def
proof (rule snd_transaction, rule trust_evolves_refl; (simp; fail)?)
  let ?dev = "dev_update (\<lambda>v. dv_user_id v = a \<and> dv_status v = Active) (device_revoked now) d"
  let ?sess = "sess_update (\<lambda>s. se_user_id s = a \<and> se_revoked_at s = None) (revoked now r)"
  have dev: "trust_evolves d (snd ?dev)" by (intro dev_update_trust) simp
  show "trust_evolves d (snd (bind_st ?dev (\<lambda>rows d1. bind_st (?sess d1) (\<lambda>_ d2. (Inr (length rows), d2)))))"
  proof (rule snd_bind_st [where P = "trust_evolves d"])
    fix rows d1
    assume "?dev = (Inr rows, d1)"
    then have "trust_evolves d d1" using dev by simp
    moreover have "trust_evolves d1 (snd (?sess d1))" by (intro sess_update_trust) simp
    ultimately have 1: "trust_evolves d (snd (?sess d1))" by (rule trust_evolves_trans)
    then show "trust_evolves d (snd (bind_st (?sess d1) (\<lambda>_ d2. (Inr (length rows), d2))))"
      by (rule snd_bind_st [where P = "trust_evolves d"]) (use 1 in simp)
  qed (rule dev)
qed

lemma register_tables:
  "app_sessions (snd (register_for_email now a ep l k fp i d)) = app_sessions d"
  unfolding register_for_email_def
  by (rule snd_transaction) (auto simp: dev_insert_facts(3) dev_update_tables split: option.split)

lemma register_trust:
  assumes "device_inv d"
  shows "trust_evolves d (snd (register_for_email now a ep l k fp i d))"
  unfolding register_for_email_def
proof (rule snd_transaction, rule trust_evolves_refl; (simp; fail)?)
  let ?p = "\<lambda>v. dv_user_id v = a \<and> dv_fingerprint v = fp"
  show "trust_evolves d (snd (case first_row (sql_select ?p (devices d)) of
         Some existing \<Rightarrow>
           if dv_status existing = Revoked then (Inl ValueError, d)
           else required (dev_update (\<lambda>v. dv_user_id v = a \<and> dv_fingerprint v = fp \<and> dv_epoch v = ep)
             (\<lambda>v. v\<lparr>dv_status := Active, dv_label := l, dv_last_seen_at := now\<rparr>) d)
       | None \<Rightarrow> required (dev_insert [new_device now i (ac_id u) ep l k fp None. u \<leftarrow> app_users d,
                ac_id u = a \<and> ac_deleted_at u = None \<and> ac_device_epoch u = ep] d)))"
  proof (cases "first_row (sql_select ?p (devices d))")
    case (Some existing)
    then have ex: "existing \<in> set (devices d)" "?p existing"
      by (auto simp: sql_select_def dest: first_row_SomeD)
    have "v = existing" if "v \<in> set (devices d)" "?p v" for v
      using dev.inv_unique [OF assms that(1) ex(1)] that(2) ex(2) by (simp add: device_clash_def)
    then have "trust_evolves d (snd (dev_update (\<lambda>v. dv_user_id v = a \<and> dv_fingerprint v = fp \<and> dv_epoch v = ep)
        (\<lambda>v. v\<lparr>dv_status := Active, dv_label := l, dv_last_seen_at := now\<rparr>) d))" if "dv_status existing \<noteq> Revoked"
      using that by (intro dev_update_trust) auto
    then show ?thesis using Some by (simp add: trust_evolves_refl)
  qed (simp add: dev_insert_trust)
qed

lemma device_step_cases:
  assumes "device_step d d'"
  obtains (register) now a ep l k fp i where "d' = snd (register_for_email now a ep l k fp i d)"
  | (other) "trust_evolves d d'"
  using assms
proof cases
  case 2
  then show thesis by (rule register)
next
  case 7
  then show thesis using other revoke_all_trust by simp
next
  case 9
  then show thesis using other trust_evolves_refl by blast
qed (auto simp: dev_create_def dev_touch_last_seen_def dev_rename_def revoke_with_sessions_def logout_with_sessions_def
    intro!: other dev_insert_trust dev_update_trust end_device_trust)

lemma device_step_trust:
  assumes "device_inv d" and "device_step d d'"
  shows "trust_evolves d d'"
  using assms(2) by (cases rule: device_step_cases) (simp_all add: register_trust assms(1))

text \<open>The sessions evolve also when the device table holds clashing rows.\<close>

lemma device_step_sessions:
  assumes "device_step d d'"
  shows "rows_evolve session_evolves (app_sessions d) (app_sessions d') \<and> (session_inv d \<longrightarrow> session_inv d')"
  using assms
proof (cases rule: device_step_cases)
  case register
  then show ?thesis by (simp add: register_tables rows_evolve_refl session_inv_def)
qed (simp add: trust_evolves_def)

lemma device_steps_trust:
  assumes "device_step\<^sup>*\<^sup>* d d'" and "device_inv d"
  shows "trust_evolves d d'"
  using assms(1)
proof (induction rule: rtranclp_induct)
  case (step y z)
  then have "device_inv y" using assms(2) by (simp add: trust_evolves_def)
  then show ?case using step device_step_trust trust_evolves_trans by blast
qed (simp add: trust_evolves_refl)

text \<open>Any request's statements on sessions and devices.\<close>

definition trust_step :: "db \<Rightarrow> db \<Rightarrow> bool" where
  "trust_step d d' \<longleftrightarrow> session_step d d' \<or> device_step d d'"

lemma trust_steps_sessions:
  assumes "trust_step\<^sup>*\<^sup>* d d'" and "session_inv d"
  shows "session_inv d' \<and> rows_evolve session_evolves (app_sessions d) (app_sessions d')"
  using assms(1)
proof (induction rule: rtranclp_induct)
  case (step y z)
  have "session_inv z \<and> rows_evolve session_evolves (app_sessions y) (app_sessions z)"
    using step.hyps(2) unfolding trust_step_def
  proof
    assume "session_step y z"
    then obtain old new where "app_sessions z = old @ new" "list_all2 session_evolves (app_sessions y) old" "session_inv z"
      using step.IH session_step_table by blast
    then show ?thesis using rows_evolve_list_all2 by metis
  qed (use device_step_sessions step.IH in blast)
  moreover have "\<forall>x y z. session_evolves x y \<longrightarrow> session_evolves y z \<longrightarrow> session_evolves x z"
    using session_evolves_trans by blast
  ultimately show ?case using step.IH rows_evolve_trans by blast
qed (simp add: assms(2) rows_evolve_refl)

lemma sess_update_rows:
  assumes "sess_update p f d = (Inr out, d')"
  shows "app_sessions d' = map (\<lambda>s. if p s then f s else s) (app_sessions d)"
  using assms by (cases rule: sess_update_cases [of p f d]) auto

lemma dev_update_rows:
  assumes "dev_update p f d = (Inr out, d')"
  shows "out = map f (filter p (devices d)) \<and> devices d' = map (\<lambda>v. if p v then f v else v) (devices d)"
  using assms unfolding dev_update_def by (cases rule: tbl_update_cases [of p device_check f devices d devices_update]) auto

text \<open>Ending a device: the device row is written and every session of the device is revoked.\<close>

lemma end_device_result:
  assumes "end_device_with_sessions f now a i r d = (Inr (Some x), d')" and "\<And>v. device_evolves v (f v)"
  shows "x \<in> set (devices d') \<and> (\<exists>v\<in>set (devices d). x = f v \<and> dv_user_id v = a \<and> dv_id v = i) \<and>
    (\<forall>s\<in>set (app_sessions d'). se_user_id s = a \<and> se_device_id s = i \<longrightarrow> se_revoked_at s \<noteq> None) \<and>
    trust_evolves d d'"
proof -
  let ?p = "\<lambda>v. dv_user_id v = a \<and> dv_id v = i"
  let ?q = "\<lambda>s. se_user_id s = a \<and> se_device_id s = i \<and> se_revoked_at s = None"
  let ?k = "\<lambda>rows d1. case first_row rows of None \<Rightarrow> (Inr None, d1)
    | Some device \<Rightarrow> bind_st (sess_update ?q (revoked now r) d1) (\<lambda>_ d2. (Inr (Some device), d2))"
  obtain rows d1 where 0: "dev_update ?p f d = (Inr rows, d1)" "?k rows d1 = (Inr (Some x), d')"
    using assms(1) unfolding end_device_with_sessions_def transaction_Inr bind_st_Inr by (elim exE conjE) (rule that)
  obtain out where "first_row rows = Some x" "sess_update ?q (revoked now r) d1 = (Inr out, d')"
    using 0(2) by (cases "first_row rows") (auto simp: bind_st_Inr)
  note 1 = 0(1) this
  have dev: "rows = map f (filter ?p (devices d))" "devices d1 = map (\<lambda>v. if ?p v then f v else v) (devices d)"
    using dev_update_rows [OF 1(1)] by blast+
  have "x \<in> set rows" using 1(2) by (rule first_row_SomeD)
  then obtain v where v: "v \<in> set (devices d)" "?p v" "x = f v" using dev(1) by auto
  then have "x \<in> set (devices d1)" unfolding dev(2) set_map by (intro image_eqI [of _ _ v]) simp_all
  moreover have "devices d' = devices d1" using sess_update_tables(1) [of ?q "revoked now r" d1] 1(3) by simp
  moreover have "se_user_id s = a \<and> se_device_id s = i \<longrightarrow> se_revoked_at s \<noteq> None" if s: "s \<in> set (app_sessions d')" for s
  proof -
    obtain u where "s = (if ?q u then revoked now r u else u)"
      using s unfolding sess_update_rows [OF 1(3)] set_map by (rule imageE)
    then show ?thesis by (cases "?q u") (auto simp: revoked_def)
  qed
  moreover have "trust_evolves d d'" using end_device_trust [OF assms(2), of d now a i r] assms(1) by simp
  moreover have "\<exists>v\<in>set (devices d). x = f v \<and> dv_user_id v = a \<and> dv_id v = i"
    using v by (intro bexI [of _ v] conjI) simp_all
  ultimately show ?thesis by (intro conjI ballI) simp_all
qed

lemma ended_status [simp]: "dv_status (device_logged_out v) \<noteq> Active" "dv_status (device_revoked now v) \<noteq> Active"
  by (simp_all add: device_logged_out_def device_revoked_def)

lemma ended_sessions_lost:
  assumes "session_inv d1" and "trust_step\<^sup>*\<^sup>* d1 d2" and "s \<in> set (app_sessions d1)" and "se_revoked_at s \<noteq> None"
  shows "find_current_by_id t (se_id s) d2 = None \<and> find_by_token_hash t (se_token_hash s) d2 = None"
proof -
  have inv: "session_inv d2" and ev: "rows_evolve session_evolves (app_sessions d1) (app_sessions d2)"
    using trust_steps_sessions [OF assms(2,1)] by blast+
  then obtain s2 where s2: "s2 \<in> set (app_sessions d2)" "session_evolves s s2"
    using assms(3) unfolding rows_evolve_def by blast
  then have eq: "s2 = s" using assms(4) by (simp add: session_evolves_def)
  have "\<not> session_usable t s" using assms(4) by (simp add: session_usable_def)
  then show ?thesis
    using find_current_by_id_iff [OF inv, of t "se_id s"] find_by_token_hash_iff [OF inv, of t "se_token_hash s"]
      s2(1) inv distinct_key_eq [of se_id "app_sessions d2" s] distinct_key_eq [of se_token_hash "app_sessions d2" s]
    unfolding eq session_inv_def by (metis not_None_eq)
qed

section \<open>Properties\<close>

definition trusted_device :: "uuid \<Rightarrow> device" where
  "trusted_device i = (sample_device i)\<lparr>dv_fingerprint := replicate 32 i\<rparr>"

definition device_db :: db where
  "device_db = (session_db [sample_session])\<lparr>devices := [trusted_device 10, trusted_device 11]\<rparr>"

lemma device_db_inv: "device_inv device_db" "session_inv device_db"
  unfolding dev.inv_def by code_simp+

text \<open>
  Logging a device out, or revoking it, ends its sessions for good.  When
  \<open>logout_with_sessions\<close> or \<open>revoke_with_sessions\<close> answers with the device, the device is no longer
  active, and a session the device had before is never returned again by a lookup under its
  identifier or its token digest, whatever statements on sessions and devices follow, also when the
  device is activated again.
\<close>

theorem logout_ends_sessions:
  assumes "session_inv d"
    and "statement \<in> {logout_with_sessions now, revoke_with_sessions now}"
    and "statement a i r d = (Inr (Some x), d1)"
    and "trust_step\<^sup>*\<^sup>* d1 d2"
    and "s \<in> set (app_sessions d)" and "se_user_id s = a" and "se_device_id s = i"
  shows "dv_status x \<noteq> Active \<and> find_current_by_id t (se_id s) d2 = None \<and> find_by_token_hash t (se_token_hash s) d2 = None"
proof -
  obtain f where f: "end_device_with_sessions f now a i r d = (Inr (Some x), d1)" "\<And>v. device_evolves v (f v)"
      "\<And>v. dv_status (f v) \<noteq> Active"
  proof (cases "statement = logout_with_sessions now")
    case True
    then show thesis using assms(3) by (intro that [of device_logged_out]) (simp_all add: logout_with_sessions_def)
  next
    case False
    then show thesis using assms(2,3) by (intro that [of "device_revoked now"]) (simp_all add: revoke_with_sessions_def)
  qed
  note res = end_device_result [OF f(1,2)]
  have inv: "session_inv d1" and ev: "rows_evolve session_evolves (app_sessions d) (app_sessions d1)"
    using res assms(1) by (simp_all add: trust_evolves_def)
  obtain s1 where s1: "s1 \<in> set (app_sessions d1)" "session_evolves s s1"
    using ev assms(5) unfolding rows_evolve_def by blast
  then have id: "se_id s1 = se_id s" "se_token_hash s1 = se_token_hash s" "se_user_id s1 = a" "se_device_id s1 = i"
    using assms(6,7) by (simp_all add: session_evolves_def)
  then have "se_revoked_at s1 \<noteq> None" using res s1(1) by blast
  then show ?thesis using ended_sessions_lost [OF inv assms(4) s1(1)] f(3) res unfolding id by blast
qed

theorem logout_ends_sessions_witness:
  "\<exists>x d1. logout_with_sessions 9 1 10 (lit ''logout'') device_db = (Inr (Some x), d1) \<and> dv_status x = Inactive \<and>
     find_current_by_id 10 5 (snd (register_for_email 9 1 0 (lit ''again'') [10] (replicate 32 10) 12 d1)) = None"
proof -
  let ?r = "logout_with_sessions 9 1 10 (lit ''logout'') device_db"
  have "\<not> isl (fst ?r)" "map_option dv_status (projr (fst ?r)) = Some Inactive" by code_simp+
  moreover from this(1) obtain y d1 where y: "?r = (Inr y, d1)" by (metis prod.collapse sum.collapse(2))
  ultimately obtain x where r: "?r = (Inr (Some x), d1)" "dv_status x = Inactive" by (cases y) auto
  have step: "trust_step\<^sup>*\<^sup>* d1 (snd (register_for_email 9 1 0 (lit ''again'') [10] (replicate 32 10) 12 d1))"
    by (intro r_into_rtranclp) (simp add: trust_step_def device_step.intros)
  have "sample_session \<in> set (app_sessions device_db)" "se_user_id sample_session = 1"
    "se_device_id sample_session = 10" "se_id sample_session = 5"
    by (simp_all add: device_db_def session_db_def sample_session_def new_session_def)
  then show ?thesis
    using logout_ends_sessions [of device_db "logout_with_sessions 9" 9, OF device_db_inv(2) _ r(1) step, of sample_session 10] r
    by auto
qed

text \<open>
  C31.  The identity of a device is fixed and its revocation is final.  Over any history of the
  statements, a device row keeps its identifier, account, epoch, key, fingerprint and linking device;
  once it is revoked it stays revoked, is active for no lookup, and registering the same key again
  for the account raises.
\<close>

theorem revoked_device_final:
  assumes "device_inv d" and "device_step\<^sup>*\<^sup>* d d'" and "v \<in> set (devices d)"
  shows "\<exists>w\<in>set (devices d'). device_evolves v w \<and> dev_get_by_id (dv_user_id v) (dv_id v) d' = Some w \<and>
    (dv_status v = Revoked \<longrightarrow> \<not> active_device d' (dv_user_id v) (dv_id v) \<and>
       fst (register_for_email now (dv_user_id v) epoch label spki (dv_fingerprint v) i d') = Inl ValueError)"
proof -
  have ev: "trust_evolves d d'" by (rule device_steps_trust [OF assms(2,1)])
  then obtain w where w: "w \<in> set (devices d')" "device_evolves v w" and inv: "device_inv d'"
    using assms(1,3) by (auto simp: trust_evolves_def rows_evolve_def)
  have only: "u = w" if "u \<in> set (devices d')" "dv_id u = dv_id v \<or> (dv_user_id u = dv_user_id v \<and> dv_fingerprint u = dv_fingerprint v)" for u
    using dev.inv_unique [OF inv that(1) w(1)] that(2) w(2) by (simp add: device_clash_def device_evolves_def)
  have first: "first_row (sql_select p (devices d')) = Some w"
    if "p w" "\<And>u. u \<in> set (devices d') \<Longrightarrow> p u \<Longrightarrow> u = w" for p
  proof -
    have "w \<in> set (sql_select p (devices d'))" using w(1) that(1) by (simp add: sql_select_def)
    then obtain u us where us: "sql_select p (devices d') = u # us" by (metis empty_iff list.exhaust list.set(1))
    then have "u \<in> set (sql_select p (devices d'))" by simp
    then have "u = w" using that(2) by (simp add: sql_select_def)
    then show ?thesis using us by simp
  qed
  have get: "dev_get_by_id (dv_user_id v) (dv_id v) d' = Some w"
    unfolding dev_get_by_id_def using only w(2) by (intro first) (auto simp: device_evolves_def)
  have fp: "first_row (sql_select (\<lambda>u. dv_user_id u = dv_user_id v \<and> dv_fingerprint u = dv_fingerprint v) (devices d')) = Some w"
    using only w(2) by (intro first) (auto simp: device_evolves_def)
  have "\<not> active_device d' (dv_user_id v) (dv_id v) \<and>
       fst (register_for_email now (dv_user_id v) epoch label spki (dv_fingerprint v) i d') = Inl ValueError"
    if "dv_status v = Revoked"
  proof -
    have r: "dv_status w = Revoked" using w(2) that by (simp add: device_evolves_def)
    then have "\<not> active_device d' (dv_user_id v) (dv_id v)"
      using only by (metis active_device_iff device_status.distinct(3))
    then show ?thesis using r by (simp add: register_for_email_def transaction_def fp)
  qed
  then show ?thesis using w get by blast
qed

theorem revoked_device_final_witness:
  "fst (register_for_email 12 1 0 (lit ''again'') [10] (replicate 32 10) 12
     (snd (dev_rename 1 10 (lit ''old'') (snd (revoke_with_sessions 9 1 10 (lit ''device_revoked'') device_db))))) = Inl ValueError"
proof -
  let ?d = "snd (revoke_with_sessions 9 1 10 (lit ''device_revoked'') device_db)"
  let ?d' = "snd (dev_rename 1 10 (lit ''old'') ?d)"
  have steps: "device_step device_db ?d" "device_step\<^sup>*\<^sup>* ?d ?d'"
    by (simp_all add: device_step.intros r_into_rtranclp)
  have "device_inv ?d" using device_step_trust [OF device_db_inv(1) steps(1)] device_db_inv(1) by (simp add: trust_evolves_def)
  moreover have "hd (devices ?d) \<in> set (devices ?d)" "dv_user_id (hd (devices ?d)) = 1" "dv_id (hd (devices ?d)) = 10"
    "dv_fingerprint (hd (devices ?d)) = replicate 32 10" "dv_status (hd (devices ?d)) = Revoked" by code_simp+
  ultimately show ?thesis
    using revoked_device_final [OF _ steps(2), of "hd (devices ?d)" 12 0 "lit ''again''" "[10]" 12] by auto
qed

end
