(* ===== verification/OneTime.thy ===== *)
theory OneTime
  imports DeviceRepo TicketRepo
begin

text \<open>
  One-time credentials for devices: the login challenges of \<open>repositories/challenges.py\<close> and the
  device-linking codes of \<open>repositories/device_linking_otps.py\<close>, as SQL statements on the database and
  as the in-memory repositories.  The contract \<open>single_use\<close> of the WebSocket tickets is interpreted for
  both.
\<close>

section \<open>Challenges in SQL\<close>

definition challenge_check :: "device_challenge \<Rightarrow> bool" where
  "challenge_check c \<longleftrightarrow>
     length (ch_nonce_hash c) = 32 \<and> 1 \<le> length (ch_origin c) \<and> length (ch_origin c) \<le> 2048 \<and>
     ch_created_at c < ch_expires_at c \<and>
     (case ch_consumed_at c of None \<Rightarrow> True | Some t \<Rightarrow> ch_created_at c \<le> t) \<and>
     0 \<le> ch_attempt_count c \<and> ch_attempt_count c \<le> 10"

definition challenge_clash :: "device_challenge \<Rightarrow> device_challenge \<Rightarrow> bool" where
  "challenge_clash b c \<longleftrightarrow> ch_id b = ch_id c \<or> ch_nonce_hash b = ch_nonce_hash c"

definition challenge_open :: "instant \<Rightarrow> device_challenge \<Rightarrow> bool" where
  "challenge_open now c \<longleftrightarrow> ch_consumed_at c = None \<and> ch_expires_at c > now"

definition challenge_rows :: "uuid \<Rightarrow> (device_challenge \<Rightarrow> bool) \<Rightarrow> db \<Rightarrow> device_challenge list" where
  "challenge_rows account_id p d =
     [c. c \<leftarrow> device_challenges d, v \<leftarrow> devices d, a \<leftarrow> app_users d,
         dv_id v = ch_device_id c \<and> ac_id a = dv_user_id v \<and> ac_id a = account_id \<and> p c \<and> ac_deleted_at a = None]"

definition ch_get_by_id :: "uuid \<Rightarrow> uuid \<Rightarrow> db \<Rightarrow> device_challenge option" where
  "ch_get_by_id account_id challenge_id d = first_row (challenge_rows account_id (\<lambda>c. ch_id c = challenge_id) d)"

definition ch_get_by_nonce_hash :: "uuid \<Rightarrow> bytes \<Rightarrow> db \<Rightarrow> device_challenge option" where
  "ch_get_by_nonce_hash account_id nonce_hash d =
     first_row (challenge_rows account_id (\<lambda>c. ch_nonce_hash c = nonce_hash) d)"

definition new_challenge :: "instant \<Rightarrow> uuid \<Rightarrow> uuid \<Rightarrow> bytes \<Rightarrow> pystr \<Rightarrow> instant \<Rightarrow> device_challenge" where
  "new_challenge now fresh device_id nonce_hash origin expires_at =
     \<lparr>ch_id = fresh, ch_device_id = device_id, ch_nonce_hash = nonce_hash, ch_origin = origin,
      ch_created_at = now, ch_expires_at = expires_at, ch_consumed_at = None, ch_attempt_count = 0\<rparr>"

definition ch_create ::
    "instant \<Rightarrow> uuid \<Rightarrow> uuid \<Rightarrow> uuid \<Rightarrow> bytes \<Rightarrow> pystr \<Rightarrow> instant \<Rightarrow> db \<Rightarrow> device_challenge res \<times> db" where
  "ch_create now fresh account_id device_id nonce_hash origin expires_at d =
     required (tbl_insert device_challenges device_challenges_update challenge_check challenge_clash
       [new_challenge now fresh (dv_id v) nonce_hash origin expires_at.
          v \<leftarrow> devices d, a \<leftarrow> app_users d,
          ac_id a = dv_user_id v \<and> ac_id a = account_id \<and> dv_id v = device_id \<and> ac_deleted_at a = None \<and>
          dv_status v = Active \<and> dv_epoch v = ac_device_epoch a] d)"

definition ch_update ::
    "uuid \<Rightarrow> (device_challenge \<Rightarrow> bool) \<Rightarrow> (device_challenge \<Rightarrow> device_challenge) \<Rightarrow> db \<Rightarrow>
     device_challenge list res \<times> db" where
  "ch_update account_id p f d =
     tbl_update device_challenges device_challenges_update challenge_check
       (\<lambda>c. p c \<and> active_device d account_id (ch_device_id c)) f d"

definition ch_consume :: "instant \<Rightarrow> uuid \<Rightarrow> uuid \<Rightarrow> db \<Rightarrow> device_challenge option res \<times> db" where
  "ch_consume now account_id challenge_id d =
     one_row (transaction (ch_update account_id (\<lambda>c. ch_id c = challenge_id \<and> challenge_open now c)
       (\<lambda>c. c\<lparr>ch_consumed_at := Some now\<rparr>)) d)"

definition ch_consume_by_nonce_hash :: "instant \<Rightarrow> uuid \<Rightarrow> bytes \<Rightarrow> db \<Rightarrow> device_challenge option res \<times> db" where
  "ch_consume_by_nonce_hash now account_id nonce_hash d =
     one_row (transaction (ch_update account_id (\<lambda>c. ch_nonce_hash c = nonce_hash \<and> challenge_open now c)
       (\<lambda>c. c\<lparr>ch_consumed_at := Some now\<rparr>)) d)"

definition ch_mark_failed :: "instant \<Rightarrow> uuid \<Rightarrow> uuid \<Rightarrow> db \<Rightarrow> device_challenge option res \<times> db" where
  "ch_mark_failed now account_id challenge_id d =
     one_row (ch_update account_id (\<lambda>c. ch_id c = challenge_id \<and> ch_attempt_count c < 10 \<and> challenge_open now c)
       (\<lambda>c. c\<lparr>ch_attempt_count := min (ch_attempt_count c + 1) 10\<rparr>) d)"

section \<open>Challenges in memory\<close>

text \<open>
  \<open>lookup\<close> is \<open>get_by_id\<close> of the device repository at the time it is called; a consumption calls it
  twice before its critical section.
\<close>

type_synonym device_finder = "uuid \<Rightarrow> uuid \<Rightarrow> device option"
type_synonym challenge_store = "(uuid, device_challenge) dict"

definition mc_create ::
    "device_finder \<Rightarrow> instant \<Rightarrow> uuid \<Rightarrow> uuid \<Rightarrow> uuid \<Rightarrow> bytes \<Rightarrow> pystr \<Rightarrow> instant \<Rightarrow> challenge_store \<Rightarrow>
     device_challenge res \<times> challenge_store" where
  "mc_create lookup now fresh account_id device_id nonce_hash origin expires_at st =
     (case lookup account_id device_id of
        None \<Rightarrow> (Inl ValueError, st)
      | Some device \<Rightarrow>
          if dv_status device \<noteq> Active then (Inl ValueError, st)
          else let record = new_challenge now fresh device_id nonce_hash origin expires_at
               in if list_ex (\<lambda>c. ch_nonce_hash c = nonce_hash) (dict_values st) then (Inl ValueError, st)
                  else (Inr record, dict_set fresh record st))"

definition mc_get_by_id :: "device_finder \<Rightarrow> uuid \<Rightarrow> uuid \<Rightarrow> challenge_store \<Rightarrow> device_challenge option" where
  "mc_get_by_id lookup account_id challenge_id st =
     (case dict_get st challenge_id of
        None \<Rightarrow> None
      | Some record \<Rightarrow> if lookup account_id (ch_device_id record) \<noteq> None then Some record else None)"

definition mc_get_by_nonce_hash :: "device_finder \<Rightarrow> uuid \<Rightarrow> bytes \<Rightarrow> challenge_store \<Rightarrow> device_challenge option" where
  "mc_get_by_nonce_hash lookup account_id nonce_hash st =
     (case find (\<lambda>c. ch_nonce_hash c = nonce_hash) (dict_values st) of
        None \<Rightarrow> None
      | Some record \<Rightarrow> if lookup account_id (ch_device_id record) \<noteq> None then Some record else None)"

text \<open>The critical section of \<open>consume\<close>, and of \<open>mark_failed\<close>.\<close>

definition mc_take ::
    "(device_challenge \<Rightarrow> device_challenge) \<Rightarrow> instant \<Rightarrow> uuid \<Rightarrow> challenge_store \<Rightarrow> device_challenge option \<times> challenge_store" where
  "mc_take f now challenge_id st =
     (case dict_get st challenge_id of
        None \<Rightarrow> (None, st)
      | Some current \<Rightarrow>
          if \<not> challenge_open now current then (None, st)
          else (Some (f current), dict_set challenge_id (f current) st))"

definition mc_consume ::
    "device_finder \<Rightarrow> device_finder \<Rightarrow> instant \<Rightarrow> uuid \<Rightarrow> uuid \<Rightarrow> challenge_store \<Rightarrow> device_challenge option \<times> challenge_store" where
  "mc_consume lookup lookup' now account_id challenge_id st =
     (case mc_get_by_id lookup account_id challenge_id st of
        None \<Rightarrow> (None, st)
      | Some record \<Rightarrow>
          if \<not> challenge_open now record then (None, st)
          else (case lookup' account_id (ch_device_id record) of
                  None \<Rightarrow> (None, st)
                | Some device \<Rightarrow>
                    if dv_status device \<noteq> Active then (None, st)
                    else mc_take (\<lambda>c. c\<lparr>ch_consumed_at := Some now\<rparr>) now challenge_id st))"

definition mc_consume_by_nonce_hash ::
    "device_finder \<Rightarrow> device_finder \<Rightarrow> device_finder \<Rightarrow> instant \<Rightarrow> uuid \<Rightarrow> bytes \<Rightarrow> challenge_store \<Rightarrow>
     device_challenge option \<times> challenge_store" where
  "mc_consume_by_nonce_hash lookup lookup' lookup'' now account_id nonce_hash st =
     (case mc_get_by_nonce_hash lookup account_id nonce_hash st of
        None \<Rightarrow> (None, st)
      | Some record \<Rightarrow> mc_consume lookup' lookup'' now account_id (ch_id record) st)"

definition mc_mark_failed ::
    "device_finder \<Rightarrow> instant \<Rightarrow> uuid \<Rightarrow> uuid \<Rightarrow> challenge_store \<Rightarrow> device_challenge option \<times> challenge_store" where
  "mc_mark_failed lookup now account_id challenge_id st =
     (case mc_get_by_id lookup account_id challenge_id st of
        None \<Rightarrow> (None, st)
      | Some record \<Rightarrow>
          if \<not> challenge_open now record then (None, st)
          else mc_take (\<lambda>c. c\<lparr>ch_attempt_count := min (ch_attempt_count c + 1) 10\<rparr>) now challenge_id st)"

section \<open>Linking codes in SQL\<close>

definition otp_check :: "device_linking_otp \<Rightarrow> bool" where
  "otp_check x \<longleftrightarrow>
     length (ot_otp_hash x) = 32 \<and> 0 \<le> ot_attempt_count x \<and> ot_attempt_count x \<le> 10 \<and>
     ot_created_at x < ot_expires_at x \<and>
     (case ot_consumed_at x of None \<Rightarrow> True | Some t \<Rightarrow> ot_created_at x \<le> t) \<and>
     (ot_status x = OtpConsumed) = (ot_consumed_at x \<noteq> None)"

definition otp_clash :: "device_linking_otp \<Rightarrow> device_linking_otp \<Rightarrow> bool" where
  "otp_clash x y \<longleftrightarrow> ot_id x = ot_id y \<or> ot_otp_hash x = ot_otp_hash y"

definition new_otp :: "instant \<Rightarrow> uuid \<Rightarrow> uuid \<Rightarrow> uuid \<Rightarrow> bytes \<Rightarrow> instant \<Rightarrow> device_linking_otp" where
  "new_otp now fresh account_id issuing_device_id otp_hash expires_at =
     \<lparr>ot_id = fresh, ot_user_id = account_id, ot_issuing_device_id = issuing_device_id, ot_otp_hash = otp_hash,
      ot_status = OtpActive, ot_attempt_count = 0, ot_created_at = now, ot_expires_at = expires_at,
      ot_consumed_at = None\<rparr>"

definition otp_create ::
    "instant \<Rightarrow> uuid \<Rightarrow> uuid \<Rightarrow> uuid \<Rightarrow> bytes \<Rightarrow> instant \<Rightarrow> db \<Rightarrow> device_linking_otp res \<times> db" where
  "otp_create now fresh account_id issuing_device_id otp_hash expires_at d =
     required (tbl_insert device_linking_otps device_linking_otps_update otp_check otp_clash
       [new_otp now fresh (ac_id a) (dv_id v) otp_hash expires_at.
          a \<leftarrow> app_users d, v \<leftarrow> devices d,
          dv_user_id v = ac_id a \<and> ac_id a = account_id \<and> dv_id v = issuing_device_id \<and> ac_deleted_at a = None \<and>
          dv_status v = Active \<and> dv_epoch v = ac_device_epoch a] d)"

text \<open>
  \<open>get_active_by_hash\<close> selects the columns of \<open>_OTP_COLUMNS\<close> without the table they belong to, from a join
  with \<open>app_users\<close>.  PostgreSQL refuses a column name that two of the joined tables have, before it looks
  at any row, and \<open>Database.fetch\<close> turns that into \<open>BackendUnavailableError\<close>.
\<close>

definition OTP_COLUMNS :: "string list" where
  "OTP_COLUMNS =
     [''id'', ''user_id'', ''issuing_device_id'', ''otp_hash'', ''status'', ''attempt_count'', ''created_at'',
      ''expires_at'', ''consumed_at'']"

definition APP_USERS_TABLE :: "string list" where
  "APP_USERS_TABLE =
     [''id'', ''supabase_user_id'', ''email_normalized'', ''device_epoch'', ''created_at'', ''email_fallback_at'',
      ''deleted_at'']"

definition DEVICE_LINKING_OTPS_TABLE :: "string list" where
  "DEVICE_LINKING_OTPS_TABLE =
     [''id'', ''user_id'', ''issuing_device_id'', ''otp_hash'', ''status'', ''attempt_count'', ''created_at'',
      ''expires_at'', ''consumed_at'']"

definition ambiguous :: "string list \<Rightarrow> string list list \<Rightarrow> bool" where
  "ambiguous columns tables = list_ex (\<lambda>c. length (filter (\<lambda>t. c \<in> set t) tables) \<noteq> 1) columns"

definition otp_get_active_by_hash :: "instant \<Rightarrow> bytes \<Rightarrow> db \<Rightarrow> device_linking_otp option res" where
  "otp_get_active_by_hash now otp_hash d =
     (if ambiguous OTP_COLUMNS [DEVICE_LINKING_OTPS_TABLE, APP_USERS_TABLE] then Inl BackendUnavailableError
      else Inr (first_row
        [x. x \<leftarrow> device_linking_otps d, a \<leftarrow> app_users d,
            ac_id a = ot_user_id x \<and> ot_otp_hash x = otp_hash \<and> ot_status x = OtpActive \<and> ot_expires_at x > now \<and>
            ac_deleted_at a = None]))"

definition otp_update ::
    "(device_linking_otp \<Rightarrow> bool) \<Rightarrow> (device_linking_otp \<Rightarrow> device_linking_otp) \<Rightarrow> db \<Rightarrow>
     device_linking_otp list res \<times> db" where
  "otp_update p f d = tbl_update device_linking_otps device_linking_otps_update otp_check p f d"

definition otp_failed :: "device_linking_otp \<Rightarrow> device_linking_otp" where
  "otp_failed x =
     x\<lparr>ot_attempt_count := min (ot_attempt_count x + 1) 10,
       ot_status := (if ot_attempt_count x + 1 \<ge> 10 then OtpExpired else ot_status x)\<rparr>"

definition otp_mark_failed :: "instant \<Rightarrow> uuid \<Rightarrow> db \<Rightarrow> device_linking_otp option res \<times> db" where
  "otp_mark_failed now otp_id d =
     one_row (otp_update
       (\<lambda>x. ot_id x = otp_id \<and> ot_status x = OtpActive \<and> ot_expires_at x > now \<and> ot_attempt_count x < 10)
       otp_failed d)"

text \<open>The condition of the consuming update of \<open>consume_and_register\<close>.\<close>

definition otp_redeemable :: "instant \<Rightarrow> uuid \<Rightarrow> uuid \<Rightarrow> uuid \<Rightarrow> int \<Rightarrow> db \<Rightarrow> device_linking_otp \<Rightarrow> bool" where
  "otp_redeemable now otp_id account_id issuing_device_id epoch d x \<longleftrightarrow>
     ot_id x = otp_id \<and> ot_user_id x = account_id \<and> ot_issuing_device_id x = issuing_device_id \<and>
     ot_status x = OtpActive \<and> ot_attempt_count x < 10 \<and> ot_expires_at x > now \<and>
     list_ex (\<lambda>a. ac_id a = ot_user_id x \<and> ac_deleted_at a = None \<and> ac_device_epoch a = epoch \<and>
         list_ex (\<lambda>v. dv_user_id v = ac_id a \<and> dv_id v = ot_issuing_device_id x \<and> dv_status v = Active \<and>
                      dv_epoch v = ac_device_epoch a) (devices d)) (app_users d)"

definition consume_and_register ::
    "instant \<Rightarrow> uuid \<Rightarrow> uuid \<Rightarrow> uuid \<Rightarrow> int \<Rightarrow> uuid \<Rightarrow> pystr \<Rightarrow> bytes \<Rightarrow> bytes \<Rightarrow> db \<Rightarrow> device option res \<times> db" where
  "consume_and_register now otp_id account_id issuing_device_id epoch device_id label spki fingerprint =
     transaction (\<lambda>d.
       bind_st (otp_update (otp_redeemable now otp_id account_id issuing_device_id epoch d)
                 (\<lambda>x. x\<lparr>ot_status := OtpConsumed, ot_consumed_at := Some now\<rparr>) d) (\<lambda>consumed d1.
         if consumed = [] then (Inr None, d1)
         else bind_st (required (dev_insert
                [new_device now device_id (ac_id a) epoch label spki fingerprint (Some issuing_device_id).
                   a \<leftarrow> app_users d1,
                   ac_id a = account_id \<and> ac_deleted_at a = None \<and> ac_device_epoch a = epoch] d1))
              (\<lambda>device d2. (Inr (Some device), d2))))"

section \<open>Linking codes in memory\<close>

text \<open>
  The store and the device repository it registers devices in.  \<open>mark_failed\<close> and
  \<open>consume_and_register\<close> hold the redemption lock for their whole body.
\<close>

type_synonym otp_store = "(uuid, device_linking_otp) dict"

definition mo_create ::
    "instant \<Rightarrow> uuid \<Rightarrow> uuid \<Rightarrow> uuid \<Rightarrow> bytes \<Rightarrow> instant \<Rightarrow> otp_store \<Rightarrow> device_linking_otp \<times> otp_store" where
  "mo_create now fresh account_id issuing_device_id otp_hash expires_at st =
     (let record = new_otp now fresh account_id issuing_device_id otp_hash expires_at
      in (record, dict_set fresh record st))"

definition mo_get_active_by_hash :: "instant \<Rightarrow> bytes \<Rightarrow> otp_store \<Rightarrow> device_linking_otp option" where
  "mo_get_active_by_hash now otp_hash st =
     find (\<lambda>x. ot_otp_hash x = otp_hash \<and> ot_status x = OtpActive \<and> ot_expires_at x > now) (dict_values st)"

definition get_active_by_hash_for_id :: "instant \<Rightarrow> uuid \<Rightarrow> otp_store \<Rightarrow> device_linking_otp option" where
  "get_active_by_hash_for_id now otp_id st =
     (case dict_get st otp_id of
        None \<Rightarrow> None
      | Some record \<Rightarrow> if ot_status record \<noteq> OtpActive \<or> ot_expires_at record \<le> now then None else Some record)"

definition mo_mark_failed :: "instant \<Rightarrow> uuid \<Rightarrow> otp_store \<Rightarrow> device_linking_otp option \<times> otp_store" where
  "mo_mark_failed now otp_id st =
     (case dict_get st otp_id of
        None \<Rightarrow> (None, st)
      | Some record \<Rightarrow>
          if ot_status record \<noteq> OtpActive \<or> ot_expires_at record \<le> now \<or> ot_attempt_count record \<ge> 10 then (None, st)
          else let updated = record\<lparr>ot_attempt_count := ot_attempt_count record + 1,
                                    ot_status := (if ot_attempt_count record + 1 \<ge> 10 then OtpExpired else OtpActive)\<rparr>
               in (Some updated, dict_set otp_id updated st))"

definition mo_consume_and_register ::
    "instant \<Rightarrow> instant \<Rightarrow> instant \<Rightarrow> uuid \<Rightarrow> uuid \<Rightarrow> uuid \<Rightarrow> int \<Rightarrow> uuid \<Rightarrow> pystr \<Rightarrow> bytes \<Rightarrow> bytes \<Rightarrow>
     otp_store \<times> mem_devices \<Rightarrow> device option res \<times> (otp_store \<times> mem_devices)" where
  "mo_consume_and_register t1 t2 t3 otp_id account_id issuing_device_id epoch device_id label spki fingerprint = (\<lambda>(st, ds).
     case get_active_by_hash_for_id t1 otp_id st of
       None \<Rightarrow> (Inr None, (st, ds))
     | Some record \<Rightarrow>
         if ot_user_id record \<noteq> account_id \<or> ot_issuing_device_id record \<noteq> issuing_device_id \<or> ot_attempt_count record \<ge> 10
         then (Inr None, (st, ds))
         else (case md_get_by_id account_id issuing_device_id ds of
             None \<Rightarrow> (Inr None, (st, ds))
           | Some issuer \<Rightarrow>
               if dv_status issuer \<noteq> Active \<or> dv_epoch issuer \<noteq> epoch then (Inr None, (st, ds))
               else (case md_create t2 0 account_id epoch label spki fingerprint (Some issuing_device_id) (Some device_id) ds of
                   (Inl e, ds1) \<Rightarrow> (Inl e, (st, ds1))
                 | (Inr device, ds1) \<Rightarrow>
                     (case dict_get st otp_id of
                        None \<Rightarrow> (Inr None, (st, ds1))
                      | Some current \<Rightarrow>
                          if ot_status current \<noteq> OtpActive then (Inr None, (st, ds1))
                          else (Inr (Some device),
                                (dict_set otp_id (current\<lparr>ot_status := OtpConsumed, ot_consumed_at := Some t3\<rparr>) st, ds1))))))"

section \<open>Tables\<close>

interpretation chl: table device_challenges device_challenges_update challenge_check challenge_clash
  by unfold_locales (auto simp: challenge_clash_def)

interpretation otp: table device_linking_otps device_linking_otps_update otp_check otp_clash
  by unfold_locales (auto simp: otp_clash_def)

text \<open>
  A consuming update of a table whose rows have unique keys: it returns at most one row, an open one,
  and closes it.
\<close>

lemma consuming_update:
  assumes "tbl_update rows put ok p f s = (Inr out, s')" and "\<And>g s. rows (put g s) = g (rows s)"
    and "distinct (map key (rows s))" and "\<And>r. key (f r) = key r" and "\<And>r. \<not> opn (f r)" and "\<And>r. p r \<Longrightarrow> opn r"
  shows "key ` {r \<in> set (rows s'). opn r} \<subseteq> key ` {r \<in> set (rows s). opn r} - key ` set out"
    and "key ` set out \<subseteq> key ` {r \<in> set (rows s). opn r}"
proof -
  have out: "out = map f (filter p (rows s))" and s': "rows s' = map (\<lambda>r. if p r then f r else r) (rows s)"
    using assms(1) assms(2) [of "\<lambda>_. map (\<lambda>r. if p r then f r else r) (rows s)" s]
    by (cases rule: tbl_update_cases [of p ok f rows s put]; force)+
  show "key ` set out \<subseteq> key ` {r \<in> set (rows s). opn r}"
    unfolding out set_map set_filter image_image assms(4) using assms(6) by blast
  have "r \<in> set (rows s) \<and> opn r \<and> \<not> p r" if r: "r \<in> set (rows s')" "opn r" for r
  proof -
    obtain q where q: "q \<in> set (rows s)" "r = (if p q then f q else q)" using r(1) unfolding s' by auto
    then have "\<not> p q" using r(2) assms(5) [of q] by (cases "p q") simp_all
    then show ?thesis using q r(2) by simp
  qed
  moreover have "key r \<notin> key ` set out" if "r \<in> set (rows s)" "\<not> p r" for r
  proof
    assume "key r \<in> key ` set out"
    then obtain q where q: "q \<in> set (rows s)" "p q" "key q = key r"
      unfolding out set_map set_filter image_image assms(4) by auto
    then have "q = r" using that(1) assms(3) by (intro distinct_key_eq [of key "rows s"])
    then show False using q(2) that(2) by simp
  qed
  ultimately have "key r \<in> key ` {r \<in> set (rows s). opn r} - key ` set out" if "r \<in> set (rows s')" "opn r" for r
    using that by simp
  then show "key ` {r \<in> set (rows s'). opn r} \<subseteq> key ` {r \<in> set (rows s). opn r} - key ` set out"
    by (intro image_subsetI) simp
qed

text \<open>An update that keeps keys and opens nothing.\<close>

lemma keeping_update:
  assumes "tbl_update rows put ok p f s = (out, s')" and "\<And>g s. rows (put g s) = g (rows s)"
    and "\<And>r. key (f r) = key r" and "\<And>r. opn (f r) \<Longrightarrow> opn r"
  shows "key ` {r \<in> set (rows s'). opn r} \<subseteq> key ` {r \<in> set (rows s). opn r}"
  using assms(1)
proof (cases rule: tbl_update_cases [of p ok f rows s put])
  case written
  then have s': "rows s' = map (\<lambda>r. if p r then f r else r) (rows s)" using assms(1,2) by simp
  show ?thesis
  proof
    fix k assume "k \<in> key ` {r \<in> set (rows s'). opn r}"
    then obtain q where q: "q \<in> set (rows s)" "opn (if p q then f q else q)" "k = key (if p q then f q else q)"
      unfolding s' by auto
    then have "opn q" "k = key q" using assms(3,4) by (auto split: if_splits)
    then show "k \<in> key ` {r \<in> set (rows s). opn r}" using q(1) by blast
  qed
qed (use assms(1) in auto)

lemma inserting_opens:
  assumes "snd (tbl_insert rows put ok clash new s) = s'" and "\<And>g s. rows (put g s) = g (rows s)"
  shows "key ` {r \<in> set (rows s'). opn r} \<subseteq> key ` {r \<in> set (rows s). opn r} \<union> key ` set new"
proof (cases "fst (tbl_insert rows put ok clash new s)")
  case (Inl e)
  then have "s' = s" using assms(1) by (metis prod.collapse tbl_insert_Inl)
  then show ?thesis by blast
next
  case (Inr out)
  then have "s' = put (\<lambda>_. rows s @ new) s"
    using assms(1) tbl_insert_Inr [of rows put ok clash new s out s'] by (metis prod.collapse)
  then show ?thesis by (auto simp: assms(2))
qed

section \<open>Single use of challenges\<close>

datatype challenge_op =
    ChCreate instant uuid uuid uuid bytes pystr instant
  | ChConsume instant uuid uuid
  | ChConsumeByNonceHash instant uuid bytes
  | ChMarkFailed instant uuid uuid
  | ChDelete "device_challenge \<Rightarrow> bool"
  | ChOther db

definition answered_id :: "('r \<Rightarrow> uuid) \<Rightarrow> 'r option res \<times> 's \<Rightarrow> uuid option \<times> 's" where
  "answered_id key r = (case r of (Inr (Some x), s) \<Rightarrow> (Some (key x), s) | (_, s) \<Rightarrow> (None, s))"

fun challenge_step :: "challenge_op \<Rightarrow> db \<Rightarrow> uuid option \<times> db" where
  "challenge_step (ChCreate now fresh a v h origin e) d = (None, snd (ch_create now fresh a v h origin e d))"
| "challenge_step (ChConsume now a i) d = answered_id ch_id (ch_consume now a i d)"
| "challenge_step (ChConsumeByNonceHash now a h) d = answered_id ch_id (ch_consume_by_nonce_hash now a h d)"
| "challenge_step (ChMarkFailed now a i) d = (None, snd (ch_mark_failed now a i d))"
| "challenge_step (ChDelete p) d = (None, d\<lparr>device_challenges := filter (\<lambda>c. \<not> p c) (device_challenges d)\<rparr>)"
| "challenge_step (ChOther d') d = (None, d'\<lparr>device_challenges := device_challenges d\<rparr>)"

fun challenge_made :: "challenge_op \<Rightarrow> uuid list" where
  "challenge_made (ChCreate now fresh a v h origin e) = [fresh]"
| "challenge_made _ = []"

definition open_challenges :: "db \<Rightarrow> uuid set" where
  "open_challenges d = ch_id ` {c \<in> set (device_challenges d). ch_consumed_at c = None}"

lemma chl_ids: "chl.inv d \<Longrightarrow> distinct (map ch_id (device_challenges d))"
  by (rule chl.inv_distinct) (simp add: challenge_clash_def)

lemma ch_update_inv:
  assumes "chl.inv d" and "\<And>c. ch_id (f c) = ch_id c" and "\<And>c. ch_nonce_hash (f c) = ch_nonce_hash c"
  shows "chl.inv (snd (ch_update a p f d))"
  unfolding ch_update_def by (rule chl.update_inv [OF assms(1)]) (simp add: challenge_clash_def assms(2,3))

text \<open>One consumption, by either statement.\<close>

lemma ch_consume_step:
  fixes p :: "device_challenge \<Rightarrow> bool"
  assumes "chl.inv d" and "answered_id ch_id (one_row (transaction (ch_update a p f) d)) = (out, d')"
    and "\<And>c. p c \<Longrightarrow> ch_consumed_at c = None"
    and f: "f = (\<lambda>c. c\<lparr>ch_consumed_at := Some now\<rparr>)"
  shows "chl.inv d' \<and>
    (case out of Some i \<Rightarrow> i \<in> open_challenges d \<and> open_challenges d' \<subseteq> open_challenges d - {i}
     | None \<Rightarrow> open_challenges d' \<subseteq> open_challenges d)"
proof (cases "ch_update a p f d")
  case (Pair res d1)
  have inv1: "chl.inv d1" using ch_update_inv [OF assms(1), of f a p] Pair by (simp add: f)
  show ?thesis
  proof (cases res)
    case (Inl e)
    then have "d' = d" "out = None" using assms(2) Pair
      by (auto simp: transaction_def one_row_def answered_id_def)
    then show ?thesis using assms(1) by simp
  next
    case (Inr rows)
    have d': "d' = d1" and out: "out = map_option ch_id (first_row rows)"
      using assms(2) Pair Inr by (auto simp: transaction_def one_row_def answered_id_def split: option.splits)
    note upd = Pair [unfolded Inr ch_update_def]
    have 1: "open_challenges d1 \<subseteq> open_challenges d - ch_id ` set rows" "ch_id ` set rows \<subseteq> open_challenges d"
      unfolding open_challenges_def
      by (rule consuming_update [OF upd _ chl_ids [OF assms(1)]]; simp add: f assms(3))+
    show ?thesis
    proof (cases "first_row rows")
      case (Some c)
      then have "ch_id c \<in> ch_id ` set rows" by (intro imageI first_row_SomeD)
      then show ?thesis using 1 inv1 d' out Some by auto
    qed (use 1 inv1 d' out in auto)
  qed
qed

lemmas challenge_op_defs = ch_consume_def ch_consume_by_nonce_hash_def challenge_open_def

lemma challenge_step_facts:
  assumes "chl.inv d" and "challenge_step op d = (out, d')"
  shows "chl.inv d' \<and>
    (case out of Some i \<Rightarrow> i \<in> open_challenges d \<and> open_challenges d' \<subseteq> open_challenges d - {i}
     | None \<Rightarrow> open_challenges d' \<subseteq> open_challenges d \<union> set (challenge_made op))"
proof (cases op)
  case (ChCreate now fresh a v h origin e)
  then have out: "out = None" "snd (ch_create now fresh a v h origin e d) = d'" using assms(2) by simp_all
  define new where "new = [new_challenge now fresh (dv_id w) h origin e. w \<leftarrow> devices d, u \<leftarrow> app_users d,
          ac_id u = dv_user_id w \<and> ac_id u = a \<and> dv_id w = v \<and> ac_deleted_at u = None \<and>
          dv_status w = Active \<and> dv_epoch w = ac_device_epoch u]"
  have ins: "snd (tbl_insert device_challenges device_challenges_update challenge_check challenge_clash new d) = d'"
    using out(2) by (simp add: ch_create_def new_def)
  have "ch_id ` set new \<subseteq> {fresh}" by (auto simp: new_def new_challenge_def)
  moreover have "open_challenges d' \<subseteq> open_challenges d \<union> ch_id ` set new"
    unfolding open_challenges_def by (rule inserting_opens [OF ins]) simp
  moreover have "chl.inv d'" using chl.insert_inv [OF assms(1), of new] ins by simp
  ultimately have "chl.inv d' \<and> open_challenges d' \<subseteq> open_challenges d \<union> {fresh}" by blast
  then show ?thesis using out(1) ChCreate by simp
next
  case (ChConsume now a i)
  then show ?thesis
    using ch_consume_step [of d a "\<lambda>c. ch_id c = i \<and> challenge_open now c" _ out d' now] assms
    by (auto simp: challenge_op_defs split: option.splits)
next
  case (ChConsumeByNonceHash now a h)
  then show ?thesis
    using ch_consume_step [of d a "\<lambda>c. ch_nonce_hash c = h \<and> challenge_open now c" _ out d' now] assms
    by (auto simp: challenge_op_defs split: option.splits)
next
  case (ChMarkFailed now a i)
  let ?f = "\<lambda>c. c\<lparr>ch_attempt_count := min (ch_attempt_count c + 1) 10\<rparr>"
  let ?p = "\<lambda>c. ch_id c = i \<and> ch_attempt_count c < 10 \<and> challenge_open now c"
  obtain res where u: "ch_update a ?p ?f d = (res, d')" and out: "out = None"
    using ChMarkFailed assms(2) by (auto simp: ch_mark_failed_def intro: prod.collapse [symmetric])
  have "chl.inv d'" using ch_update_inv [OF assms(1), of ?f a ?p] u by simp
  moreover have "open_challenges d' \<subseteq> open_challenges d"
    unfolding open_challenges_def by (rule keeping_update [OF u [unfolded ch_update_def]]) simp_all
  ultimately show ?thesis using out by auto
next
  case (ChDelete p)
  then show ?thesis using assms
    by (auto simp: chl.inv_def open_challenges_def list_all_iff sorted_wrt_filter)
next
  case (ChOther d'')
  then show ?thesis using assms by (auto simp: chl.inv_def open_challenges_def)
qed

interpretation sqlch: single_use challenge_step challenge_made open_challenges chl.inv
proof unfold_locales
  fix s op i s'
  assume "chl.inv s" "challenge_step op s = (Some i, s')"
  then show "i \<in> open_challenges s \<and> open_challenges s' \<subseteq> open_challenges s - {i}"
    using challenge_step_facts [of s op "Some i" s'] by simp
next
  fix s op s'
  assume "chl.inv s" "challenge_step op s = (None, s')"
  then show "open_challenges s' \<subseteq> open_challenges s \<union> set (challenge_made op)"
    using challenge_step_facts [of s op None s'] by simp
next
  fix s op out s'
  assume "chl.inv s" "challenge_step op s = (out, s')"
  then show "chl.inv s'" using challenge_step_facts [of s op out s'] by blast
qed

section \<open>Single use of linking codes\<close>

datatype otp_op =
    OtCreate instant uuid uuid uuid bytes instant
  | OtMarkFailed instant uuid
  | OtRedeem instant uuid uuid uuid int uuid pystr bytes bytes
  | OtDelete "device_linking_otp \<Rightarrow> bool"
  | OtOther db

fun otp_step :: "otp_op \<Rightarrow> db \<Rightarrow> uuid option \<times> db" where
  "otp_step (OtCreate now fresh a v h e) d = (None, snd (otp_create now fresh a v h e d))"
| "otp_step (OtMarkFailed now i) d = (None, snd (otp_mark_failed now i d))"
| "otp_step (OtRedeem now i a v ep w l k fp) d = answered_id (\<lambda>_. i) (consume_and_register now i a v ep w l k fp d)"
| "otp_step (OtDelete p) d = (None, d\<lparr>device_linking_otps := filter (\<lambda>x. \<not> p x) (device_linking_otps d)\<rparr>)"
| "otp_step (OtOther d') d = (None, d'\<lparr>device_linking_otps := device_linking_otps d\<rparr>)"

fun otp_made :: "otp_op \<Rightarrow> uuid list" where
  "otp_made (OtCreate now fresh a v h e) = [fresh]"
| "otp_made _ = []"

definition open_otps :: "db \<Rightarrow> uuid set" where
  "open_otps d = ot_id ` {x \<in> set (device_linking_otps d). ot_status x = OtpActive}"

lemma otp_ids: "otp.inv d \<Longrightarrow> distinct (map ot_id (device_linking_otps d))"
  by (rule otp.inv_distinct) (simp add: otp_clash_def)

lemma otp_update_inv:
  assumes "otp.inv d" and "\<And>x. ot_id (f x) = ot_id x" and "\<And>x. ot_otp_hash (f x) = ot_otp_hash x"
  shows "otp.inv (snd (otp_update p f d))"
  unfolding otp_update_def by (rule otp.update_inv [OF assms(1)]) (simp add: otp_clash_def assms(2,3))

lemma dev_insert_otps: "device_linking_otps (snd (dev_insert new d)) = device_linking_otps d"
  by (auto simp: dev_insert_def tbl_insert_def split: prod.split sum.split)

text \<open>What a redemption that answers has done.\<close>

lemma consume_and_register_Inr:
  assumes "consume_and_register now i a v ep w l k fp d = (Inr out, d')"
  obtains consumed d1 where
    "otp_update (otp_redeemable now i a v ep d) (\<lambda>x. x\<lparr>ot_status := OtpConsumed, ot_consumed_at := Some now\<rparr>) d = (Inr consumed, d1)"
    "case out of None \<Rightarrow> consumed = [] \<and> d' = d1
     | Some device \<Rightarrow> consumed \<noteq> [] \<and> required (dev_insert [new_device now w (ac_id u) ep l k fp (Some v). u \<leftarrow> app_users d1,
            ac_id u = a \<and> ac_deleted_at u = None \<and> ac_device_epoch u = ep] d1) = (Inr device, d')"
proof -
  obtain consumed d1 where 1: "otp_update (otp_redeemable now i a v ep d)
      (\<lambda>x. x\<lparr>ot_status := OtpConsumed, ot_consumed_at := Some now\<rparr>) d = (Inr consumed, d1)"
    "(if consumed = [] then (Inr None, d1)
      else bind_st (required (dev_insert [new_device now w (ac_id u) ep l k fp (Some v). u \<leftarrow> app_users d1,
            ac_id u = a \<and> ac_deleted_at u = None \<and> ac_device_epoch u = ep] d1))
              (\<lambda>device d2. (Inr (Some device), d2))) = (Inr out, d')"
    using assms unfolding consume_and_register_def transaction_Inr bind_st_Inr by (elim exE conjE) (rule that)
  show thesis
  proof (rule that [OF 1(1)])
    show "case out of None \<Rightarrow> consumed = [] \<and> d' = d1
     | Some device \<Rightarrow> consumed \<noteq> [] \<and> required (dev_insert [new_device now w (ac_id u) ep l k fp (Some v). u \<leftarrow> app_users d1,
            ac_id u = a \<and> ac_deleted_at u = None \<and> ac_device_epoch u = ep] d1) = (Inr device, d')"
      using 1(2) by (cases "consumed = []") (auto simp: bind_st_Inr split: option.splits)
  qed
qed

lemma otp_redeem_rows:
  assumes "otp.inv d" and "otp_update (otp_redeemable now i a v ep d)
      (\<lambda>x. x\<lparr>ot_status := OtpConsumed, ot_consumed_at := Some now\<rparr>) d = (Inr consumed, d1)"
  shows "open_otps d1 \<subseteq> open_otps d - ot_id ` set consumed" and "ot_id ` set consumed \<subseteq> open_otps d"
    and "ot_id ` set consumed \<subseteq> {i}" and "otp.inv d1"
proof -
  note upd = assms(2) [unfolded otp_update_def]
  show "open_otps d1 \<subseteq> open_otps d - ot_id ` set consumed" "ot_id ` set consumed \<subseteq> open_otps d"
    unfolding open_otps_def
    by (rule consuming_update [OF upd _ otp_ids [OF assms(1)]]; simp add: otp_redeemable_def)+
  have "consumed = map (\<lambda>x. x\<lparr>ot_status := OtpConsumed, ot_consumed_at := Some now\<rparr>)
      (filter (otp_redeemable now i a v ep d) (device_linking_otps d))"
    using upd by (cases rule: tbl_update_cases [of "otp_redeemable now i a v ep d" otp_check
        "\<lambda>x. x\<lparr>ot_status := OtpConsumed, ot_consumed_at := Some now\<rparr>" device_linking_otps d device_linking_otps_update]) simp_all
  then show "ot_id ` set consumed \<subseteq> {i}" by (auto simp: otp_redeemable_def)
  show "otp.inv d1"
    using otp_update_inv [OF assms(1), of "\<lambda>x. x\<lparr>ot_status := OtpConsumed, ot_consumed_at := Some now\<rparr>"
        "otp_redeemable now i a v ep d"] assms(2) by simp
qed

lemma otp_redeem_step:
  assumes "otp.inv d" and "answered_id (\<lambda>_. i) (consume_and_register now i a v ep w l k fp d) = (out, d')"
  shows "otp.inv d' \<and>
    (case out of Some j \<Rightarrow> j \<in> open_otps d \<and> open_otps d' \<subseteq> open_otps d - {j} | None \<Rightarrow> open_otps d' \<subseteq> open_otps d)"
proof (cases "consume_and_register now i a v ep w l k fp d")
  case (Pair res d2)
  show ?thesis
  proof (cases res)
    case (Inl e)
    then have "d' = d" "out = None" using Pair assms(2)
      by (simp_all add: answered_id_def) (simp add: consume_and_register_def transaction_Inl)
    then show ?thesis using assms(1) by simp
  next
    case (Inr found)
    then have res: "consume_and_register now i a v ep w l k fp d = (Inr found, d')" "out = map_option (\<lambda>_. i) found"
      using Pair assms(2) by (auto simp: answered_id_def split: option.splits)
    obtain consumed d1 where c: "otp_update (otp_redeemable now i a v ep d)
        (\<lambda>x. x\<lparr>ot_status := OtpConsumed, ot_consumed_at := Some now\<rparr>) d = (Inr consumed, d1)"
      "case found of None \<Rightarrow> consumed = [] \<and> d' = d1
       | Some device \<Rightarrow> consumed \<noteq> [] \<and> required (dev_insert [new_device now w (ac_id u) ep l k fp (Some v). u \<leftarrow> app_users d1,
            ac_id u = a \<and> ac_deleted_at u = None \<and> ac_device_epoch u = ep] d1) = (Inr device, d')"
      by (rule consume_and_register_Inr [OF res(1)])
    note rows = otp_redeem_rows [OF assms(1) c(1)]
    show ?thesis
    proof (cases found)
      case None
      then show ?thesis using rows c(2) res(2) by auto
    next
      case (Some device)
      let ?new = "[new_device now w (ac_id u) ep l k fp (Some v). u \<leftarrow> app_users d1,
            ac_id u = a \<and> ac_deleted_at u = None \<and> ac_device_epoch u = ep]"
      have "d' = snd (required (dev_insert ?new d1))" "consumed \<noteq> []" using c(2) Some by simp_all
      then have same: "device_linking_otps d' = device_linking_otps d1" by (simp add: dev_insert_otps)
      have "ot_id ` set consumed = {i}" using rows(3) \<open>consumed \<noteq> []\<close> by (cases consumed) auto
      then show ?thesis
        using rows(1,2,4) Some res(2) same by (auto simp: open_otps_def otp.inv_def)
    qed
  qed
qed

lemma otp_step_facts:
  assumes "otp.inv d" and "otp_step op d = (out, d')"
  shows "otp.inv d' \<and>
    (case out of Some i \<Rightarrow> i \<in> open_otps d \<and> open_otps d' \<subseteq> open_otps d - {i}
     | None \<Rightarrow> open_otps d' \<subseteq> open_otps d \<union> set (otp_made op))"
proof (cases op)
  case (OtCreate now fresh a v h e)
  then have out: "out = None" "snd (otp_create now fresh a v h e d) = d'" using assms(2) by simp_all
  define new where "new = [new_otp now fresh (ac_id u) (dv_id w) h e. u \<leftarrow> app_users d, w \<leftarrow> devices d,
          dv_user_id w = ac_id u \<and> ac_id u = a \<and> dv_id w = v \<and> ac_deleted_at u = None \<and>
          dv_status w = Active \<and> dv_epoch w = ac_device_epoch u]"
  have ins: "snd (tbl_insert device_linking_otps device_linking_otps_update otp_check otp_clash new d) = d'"
    using out(2) by (simp add: otp_create_def new_def)
  have "ot_id ` set new \<subseteq> {fresh}" by (auto simp: new_def new_otp_def)
  moreover have "open_otps d' \<subseteq> open_otps d \<union> ot_id ` set new"
    unfolding open_otps_def by (rule inserting_opens [OF ins]) simp
  moreover have "otp.inv d'" using otp.insert_inv [OF assms(1), of new] ins by simp
  ultimately have "otp.inv d' \<and> open_otps d' \<subseteq> open_otps d \<union> {fresh}" by blast
  then show ?thesis using out(1) OtCreate by simp
next
  case (OtMarkFailed now i)
  let ?p = "\<lambda>x. ot_id x = i \<and> ot_status x = OtpActive \<and> ot_expires_at x > now \<and> ot_attempt_count x < 10"
  obtain res where u: "otp_update ?p otp_failed d = (res, d')" and out: "out = None"
    using OtMarkFailed assms(2) by (auto simp: otp_mark_failed_def intro: prod.collapse [symmetric])
  have "otp.inv d'" using otp_update_inv [OF assms(1), of otp_failed ?p] u by (simp add: otp_failed_def)
  moreover have "open_otps d' \<subseteq> open_otps d"
    unfolding open_otps_def
    by (rule keeping_update [OF u [unfolded otp_update_def]]) (simp_all add: otp_failed_def split: if_splits)
  ultimately show ?thesis using out by auto
next
  case (OtRedeem now i a v ep w l k fp)
  then show ?thesis using otp_redeem_step [of d i now a v ep w l k fp out d'] assms by (auto split: option.splits)
next
  case (OtDelete p)
  then show ?thesis using assms by (auto simp: otp.inv_def open_otps_def list_all_iff sorted_wrt_filter)
next
  case (OtOther d'')
  then show ?thesis using assms by (auto simp: otp.inv_def open_otps_def)
qed

interpretation sqlot: single_use otp_step otp_made open_otps otp.inv
proof unfold_locales
  fix s op i s'
  assume "otp.inv s" "otp_step op s = (Some i, s')"
  then show "i \<in> open_otps s \<and> open_otps s' \<subseteq> open_otps s - {i}"
    using otp_step_facts [of s op "Some i" s'] by simp
next
  fix s op s'
  assume "otp.inv s" "otp_step op s = (None, s')"
  then show "open_otps s' \<subseteq> open_otps s \<union> set (otp_made op)" using otp_step_facts [of s op None s'] by simp
next
  fix s op out s'
  assume "otp.inv s" "otp_step op s = (out, s')"
  then show "otp.inv s'" using otp_step_facts [of s op out s'] by blast
qed

section \<open>The repositories in memory\<close>

text \<open>
  Operations that run to their end, and the critical sections of operations that read the store and
  the devices at some earlier time.
\<close>

datatype mem_challenge_op =
    McCreate device_finder instant uuid uuid uuid bytes pystr instant
  | McConsume device_finder device_finder instant uuid uuid
  | McConsumeByNonceHash device_finder device_finder device_finder instant uuid bytes
  | McMarkFailed device_finder instant uuid uuid
  | McConsumeSection instant uuid
  | McMarkFailedSection instant uuid

definition named :: "('r \<Rightarrow> uuid) \<Rightarrow> 'r option \<times> 's \<Rightarrow> uuid option \<times> 's" where
  "named key r = (map_option key (fst r), snd r)"

fun mem_challenge_step :: "mem_challenge_op \<Rightarrow> challenge_store \<Rightarrow> uuid option \<times> challenge_store" where
  "mem_challenge_step (McCreate dv now fresh a v h origin e) st = (None, snd (mc_create dv now fresh a v h origin e st))"
| "mem_challenge_step (McConsume dv dv' now a i) st = named ch_id (mc_consume dv dv' now a i st)"
| "mem_challenge_step (McConsumeByNonceHash dv dv' dv'' now a h) st = named ch_id (mc_consume_by_nonce_hash dv dv' dv'' now a h st)"
| "mem_challenge_step (McMarkFailed dv now a i) st = (None, snd (mc_mark_failed dv now a i st))"
| "mem_challenge_step (McConsumeSection now i) st = named ch_id (mc_take (\<lambda>c. c\<lparr>ch_consumed_at := Some now\<rparr>) now i st)"
| "mem_challenge_step (McMarkFailedSection now i) st =
     (None, snd (mc_take (\<lambda>c. c\<lparr>ch_attempt_count := min (ch_attempt_count c + 1) 10\<rparr>) now i st))"

fun mem_challenge_made :: "mem_challenge_op \<Rightarrow> uuid list" where
  "mem_challenge_made (McCreate dv now fresh a v h origin e) = [fresh]"
| "mem_challenge_made _ = []"

definition keyed_challenges :: "challenge_store \<Rightarrow> bool" where
  "keyed_challenges st \<longleftrightarrow> (\<forall>i c. dict_get st i = Some c \<longrightarrow> ch_id c = i)"

definition open_mem_challenges :: "challenge_store \<Rightarrow> uuid set" where
  "open_mem_challenges st = {i. \<exists>c. dict_get st i = Some c \<and> ch_consumed_at c = None}"

definition closes_one :: "challenge_store \<Rightarrow> uuid option \<times> challenge_store \<Rightarrow> bool" where
  "closes_one st r \<longleftrightarrow>
     keyed_challenges (snd r) \<and> open_mem_challenges (snd r) \<subseteq> open_mem_challenges st \<and>
     (case fst r of None \<Rightarrow> True | Some i \<Rightarrow> i \<in> open_mem_challenges st \<and> i \<notin> open_mem_challenges (snd r))"

lemma mc_take_closes:
  assumes "keyed_challenges st"
  shows "closes_one st (named ch_id (mc_take (\<lambda>c. c\<lparr>ch_consumed_at := Some now\<rparr>) now i st))"
  using assms
  by (cases "dict_get st i")
     (auto simp: closes_one_def named_def mc_take_def keyed_challenges_def open_mem_challenges_def challenge_open_def
       split: if_splits)

lemma mc_take_keeps:
  assumes "keyed_challenges st"
  shows "closes_one st (None, snd (mc_take (\<lambda>c. c\<lparr>ch_attempt_count := min (ch_attempt_count c + 1) 10\<rparr>) now i st))"
  using assms
  by (cases "dict_get st i")
     (auto simp: closes_one_def mc_take_def keyed_challenges_def open_mem_challenges_def challenge_open_def split: if_splits)

lemma closes_nothing: "keyed_challenges st \<Longrightarrow> closes_one st (None, st)"
  by (simp add: closes_one_def)

lemma mem_challenge_step_closes:
  assumes "keyed_challenges st" and "mem_challenge_made op = []"
  shows "closes_one st (mem_challenge_step op st)"
proof -
  have consume: "closes_one st (named ch_id (mc_consume dv dv' now a i st))" for dv dv' now a i
    using mc_take_closes [OF assms(1), of now i] closes_nothing [OF assms(1)]
    by (auto simp: mc_consume_def named_def split: option.splits)
  then show ?thesis
    using assms(2) mc_take_closes [OF assms(1)] mc_take_keeps [OF assms(1)] closes_nothing [OF assms(1)]
    by (cases op)
       (auto simp: mc_consume_by_nonce_hash_def mc_mark_failed_def named_def split: option.splits)
qed

lemma mem_challenge_create:
  assumes "keyed_challenges st"
  shows "keyed_challenges (snd (mc_create dv now fresh a v h origin e st)) \<and>
    open_mem_challenges (snd (mc_create dv now fresh a v h origin e st)) \<subseteq> open_mem_challenges st \<union> {fresh}"
  using assms
  by (auto simp: mc_create_def keyed_challenges_def open_mem_challenges_def Let_def new_challenge_def
      split: option.splits if_splits)

interpretation memch: single_use mem_challenge_step mem_challenge_made open_mem_challenges keyed_challenges
proof unfold_locales
  fix s op i s'
  assume *: "keyed_challenges s" "mem_challenge_step op s = (Some i, s')"
  then have made: "mem_challenge_made op = []" by (cases op) auto
  show "i \<in> open_mem_challenges s \<and> open_mem_challenges s' \<subseteq> open_mem_challenges s - {i}"
    using mem_challenge_step_closes [OF *(1) made] *(2) by (auto simp: closes_one_def)
next
  fix s op s'
  assume *: "keyed_challenges s" "mem_challenge_step op s = (None, s')"
  show "open_mem_challenges s' \<subseteq> open_mem_challenges s \<union> set (mem_challenge_made op)"
  proof (cases "mem_challenge_made op = []")
    case True
    then show ?thesis using mem_challenge_step_closes [OF *(1) True] *(2) by (simp add: closes_one_def)
  next
    case False
    then show ?thesis using mem_challenge_create [OF *(1)] *(2) by (cases op) (simp_all, blast)
  qed
next
  fix s op out s'
  assume *: "keyed_challenges s" "mem_challenge_step op s = (out, s')"
  show "keyed_challenges s'"
  proof (cases "mem_challenge_made op = []")
    case True
    then show ?thesis using mem_challenge_step_closes [OF *(1) True] *(2) by (simp add: closes_one_def)
  next
    case False
    then show ?thesis using mem_challenge_create [OF *(1)] *(2) by (cases op) auto
  qed
qed

datatype mem_otp_op =
    MoCreate instant uuid uuid uuid bytes instant
  | MoMarkFailed instant uuid
  | MoRedeem instant instant instant uuid uuid uuid int uuid pystr bytes bytes
  | MoDevices mem_devices

fun mem_otp_step :: "mem_otp_op \<Rightarrow> otp_store \<times> mem_devices \<Rightarrow> uuid option \<times> (otp_store \<times> mem_devices)" where
  "mem_otp_step (MoCreate now fresh a v h e) (st, ds) = (None, (snd (mo_create now fresh a v h e st), ds))"
| "mem_otp_step (MoMarkFailed now i) (st, ds) = (None, (snd (mo_mark_failed now i st), ds))"
| "mem_otp_step (MoRedeem t1 t2 t3 i a v ep w l k fp) s =
     answered_id (\<lambda>_. i) (mo_consume_and_register t1 t2 t3 i a v ep w l k fp s)"
| "mem_otp_step (MoDevices ds') (st, ds) = (None, (st, ds'))"

fun mem_otp_made :: "mem_otp_op \<Rightarrow> uuid list" where
  "mem_otp_made (MoCreate now fresh a v h e) = [fresh]"
| "mem_otp_made _ = []"

definition open_mem_otps :: "otp_store \<times> mem_devices \<Rightarrow> uuid set" where
  "open_mem_otps s = {i. \<exists>x. dict_get (fst s) i = Some x \<and> ot_status x = OtpActive}"

lemma mo_redeem_closes:
  assumes "answered_id (\<lambda>_. i) (mo_consume_and_register t1 t2 t3 i a v ep w l k fp s) = (out, s')"
  shows "open_mem_otps s' \<subseteq> open_mem_otps s \<and>
    (case out of None \<Rightarrow> True | Some j \<Rightarrow> j \<in> open_mem_otps s \<and> j \<notin> open_mem_otps s')"
  using assms
  by (cases s)
     (auto simp: mo_consume_and_register_def answered_id_def open_mem_otps_def
       split: option.splits if_splits prod.splits sum.splits)

interpretation memot: single_use mem_otp_step mem_otp_made open_mem_otps "\<lambda>_. True"
proof unfold_locales
  fix s op i s'
  assume *: "mem_otp_step op s = (Some i, s')"
  then obtain t1 t2 t3 j a v ep w l k fp where "op = MoRedeem t1 t2 t3 j a v ep w l k fp"
    by (cases op; cases s) auto
  then show "i \<in> open_mem_otps s \<and> open_mem_otps s' \<subseteq> open_mem_otps s - {i}"
    using * mo_redeem_closes [of j t1 t2 t3 a v ep w l k fp s "Some i" s'] by auto
next
  fix s op s'
  assume *: "mem_otp_step op s = (None, s')"
  show "open_mem_otps s' \<subseteq> open_mem_otps s \<union> set (mem_otp_made op)"
  proof (cases op)
    case (MoRedeem t1 t2 t3 j a v ep w l k fp)
    then show ?thesis using * mo_redeem_closes [of j t1 t2 t3 a v ep w l k fp s None s'] by auto
  next
    case (MoMarkFailed now i)
    then show ?thesis using *
      by (cases s) (auto simp: open_mem_otps_def mo_mark_failed_def Let_def split: option.splits if_splits)
  qed (use * in \<open>cases s; auto simp: open_mem_otps_def mo_create_def Let_def split: if_splits\<close>)+
qed simp

section \<open>Properties\<close>

definition onetime_db :: db where
  "onetime_db =
     device_db\<lparr>device_challenges := [new_challenge 1 30 10 (replicate 32 7) (lit ''https://a'') 60],
               device_linking_otps := [new_otp 1 40 1 10 (replicate 32 8) 60]\<rparr>"

definition onetime_challenge_ops :: "challenge_op list" where
  "onetime_challenge_ops = [ChConsume 2 1 30, ChConsume 3 1 30, ChConsumeByNonceHash 4 1 (replicate 32 7)]"

definition onetime_otp_ops :: "otp_op list" where
  "onetime_otp_ops =
     [OtMarkFailed 2 40, OtRedeem 3 40 1 10 0 12 (lit ''phone'') [1] (replicate 32 9),
      OtRedeem 4 40 1 10 0 13 (lit ''other'') [2] (replicate 32 6)]"

text \<open>
  C8.  Login challenges and linking codes work at most once.  Over any history of the SQL statements,
  of deletions and of changes to every other table, and over any history of the in-memory operations
  and their interleaved critical sections, no challenge is consumed twice and no linking code
  registers two devices, as long as the identifiers of created ones are new; what was consumed or
  expired at the start is never accepted.
\<close>

theorem device_credentials_single_use:
  assumes "chl.inv d" "distinct (concat (map challenge_made cs))"
    and "open_challenges d \<inter> set (concat (map challenge_made cs)) = {}"
    and "otp.inv d" "distinct (concat (map otp_made os))" "open_otps d \<inter> set (concat (map otp_made os)) = {}"
    and "keyed_challenges st" "distinct (concat (map mem_challenge_made ms))"
    and "open_mem_challenges st \<inter> set (concat (map mem_challenge_made ms)) = {}"
    and "distinct (concat (map mem_otp_made mos))" "open_mem_otps so \<inter> set (concat (map mem_otp_made mos)) = {}"
  shows "distinct (handed_out challenge_step cs d) \<and>
    set (handed_out challenge_step cs d) \<subseteq> open_challenges d \<union> set (concat (map challenge_made cs)) \<and>
    distinct (handed_out otp_step os d) \<and>
    set (handed_out otp_step os d) \<subseteq> open_otps d \<union> set (concat (map otp_made os)) \<and>
    distinct (handed_out mem_challenge_step ms st) \<and>
    set (handed_out mem_challenge_step ms st) \<subseteq> open_mem_challenges st \<union> set (concat (map mem_challenge_made ms)) \<and>
    distinct (handed_out mem_otp_step mos so) \<and>
    set (handed_out mem_otp_step mos so) \<subseteq> open_mem_otps so \<union> set (concat (map mem_otp_made mos))"
  using sqlch.handed_out_once [OF assms(1-3)] sqlot.handed_out_once [OF assms(4-6)]
    memch.handed_out_once [OF assms(7-9)] memot.handed_out_once [OF TrueI assms(10,11)] by blast

theorem device_credentials_single_use_witness:
  "handed_out challenge_step onetime_challenge_ops onetime_db = [30] \<and>
   handed_out otp_step onetime_otp_ops onetime_db = [40] \<and>
   distinct (handed_out otp_step onetime_otp_ops onetime_db)"
proof -
  have inv: "chl.inv onetime_db" "otp.inv onetime_db" unfolding chl.inv_def otp.inv_def by code_simp+
  have none: "concat (map challenge_made onetime_challenge_ops) = []" "concat (map otp_made onetime_otp_ops) = []"
    by (simp_all add: onetime_challenge_ops_def onetime_otp_ops_def)
  have "keyed_challenges []" by (simp add: keyed_challenges_def)
  then have "distinct (handed_out otp_step onetime_otp_ops onetime_db)"
    using device_credentials_single_use [OF inv(1) _ _ inv(2), of onetime_challenge_ops onetime_otp_ops "[]" "[]" "[]"
        "([], empty_mem_devices empty_session_store True)"] none by simp
  moreover have "handed_out challenge_step onetime_challenge_ops onetime_db = [30]"
    "handed_out otp_step onetime_otp_ops onetime_db = [40]" by code_simp+
  ultimately show ?thesis by simp
qed

text \<open>
  A linking code is never found in PostgreSQL.  The query of \<open>get_active_by_hash\<close> names the columns
  \<open>id\<close> and \<open>created_at\<close>, which both joined tables have, without their table, so every lookup raises the
  backend error, whatever codes are stored.
\<close>

theorem linking_code_lookup_raises: "otp_get_active_by_hash now otp_hash d = Inl BackendUnavailableError"
proof -
  have "ambiguous OTP_COLUMNS [DEVICE_LINKING_OTPS_TABLE, APP_USERS_TABLE]" by code_simp
  then show ?thesis by (simp add: otp_get_active_by_hash_def)
qed

end
