(* ===== verification/DeviceCrypto.thy ===== *)
theory DeviceCrypto
  imports Encoding Models "HOL-Library.List_Lexorder"
begin

text \<open>
  What a device signs and how the signature is read: \<open>app/device_crypto.py\<close>.  SHA-256, the DER coding
  of signatures and keys and the ECDSA verification belong to \<open>hashlib\<close> and to the package
  \<open>cryptography\<close>; they are parameters.  \<open>DeviceCryptoError\<close> is a \<open>ValueError\<close>.
\<close>

section \<open>Canonical JSON\<close>

text \<open>\<open>normalize\<close>: the value itself, unless it holds a float that is not finite.\<close>

fun finite_json :: "json \<Rightarrow> bool" where
  "finite_json (JFloat v _) = (v \<noteq> None)"
| "finite_json (JArr xs) = list_all finite_json xs"
| "finite_json (JObj ms) = list_all (\<lambda>m. finite_json (snd m)) ms"
| "finite_json _ = True"

text \<open>\<open>sort_keys=True\<close>: the members of every object by key, in code point order.\<close>

fun sort_members :: "json \<Rightarrow> json" where
  "sort_members (JArr xs) = JArr (map sort_members xs)"
| "sort_members (JObj ms) = JObj (sort_key fst (map (\<lambda>m. (fst m, sort_members (snd m))) ms))"
| "sort_members x = x"

definition canonical_json_bytes :: "json \<Rightarrow> bytes res" where
  "canonical_json_bytes v =
     (if \<not> finite_json v then Inl ValueError else encode_utf8 (json_dumps False (sort_members v)))"

text \<open>\<open>isoformat(timespec="microseconds")\<close> of a UTC time, with \<open>Z\<close> for the offset.\<close>

definition normalize_timestamp :: "instant \<Rightarrow> pystr" where
  "normalize_timestamp t =
     (let us = t mod 1000000; s = t div 1000000; sod = s mod 86400;
          (y, m, d) = civil (s div 86400)
      in dec_pad 4 (nat y) @ [45] @ dec_pad 2 (nat m) @ [45] @ dec_pad 2 (nat d) @ lit ''T'' @
         dec_pad 2 (nat (sod div 3600)) @ [58] @ dec_pad 2 (nat (sod div 60 mod 60)) @ [58] @
         dec_pad 2 (nat (sod mod 60)) @ [46] @ dec_pad 6 (nat us) @ lit ''Z'')"

section \<open>Payloads\<close>

definition DEVICE_PROTOCOL_VERSION :: int where "DEVICE_PROTOCOL_VERSION = 1"

definition DEVICE_CHALLENGE_VERSION :: int where "DEVICE_CHALLENGE_VERSION = 1"

definition challenge_payload :: "device_challenge \<Rightarrow> account \<Rightarrow> device \<Rightarrow> bytes \<Rightarrow> json res" where
  "challenge_payload challenge account device nonce =
     (if ch_device_id challenge \<noteq> dv_id device then Inl ValueError
      else if length nonce \<noteq> 32 then Inl ValueError
      else Inr (JObj
        [(lit ''account_device_epoch'', JInt (ac_device_epoch account)),
         (lit ''account_id'', JStr (uuid_str (ac_id account))),
         (lit ''challenge_id'', JStr (uuid_str (ch_id challenge))),
         (lit ''challenge_version'', JInt DEVICE_CHALLENGE_VERSION),
         (lit ''device_id'', JStr (uuid_str (dv_id device))),
         (lit ''expires_at'', JStr (normalize_timestamp (ch_expires_at challenge))),
         (lit ''issued_at'', JStr (normalize_timestamp (ch_created_at challenge))),
         (lit ''nonce'', JStr (encode_base64url nonce)),
         (lit ''origin'', JStr (ch_origin challenge)),
         (lit ''protocol_version'', JInt DEVICE_PROTOCOL_VERSION)]))"

definition registration_payload ::
    "pystr \<Rightarrow> pystr \<Rightarrow> pystr \<Rightarrow> int \<Rightarrow> bytes \<Rightarrow> pystr \<Rightarrow> instant \<Rightarrow> instant \<Rightarrow> bytes \<Rightarrow> bool \<Rightarrow> pystr \<Rightarrow> json res" where
  "registration_payload challenge_id account_id device_id epoch nonce origin issued_at expires_at fingerprint
       fallback enrollment_method =
     (if length nonce \<noteq> 32 then Inl ValueError
      else if length fingerprint \<noteq> 32 then Inl ValueError
      else Inr (JObj
        [(lit ''account_device_epoch'', JInt epoch),
         (lit ''account_id'', JStr account_id),
         (lit ''challenge_id'', JStr challenge_id),
         (lit ''challenge_version'', JInt DEVICE_CHALLENGE_VERSION),
         (lit ''device_fingerprint'', JStr (encode_base64url fingerprint)),
         (lit ''device_id'', JStr device_id),
         (lit ''expires_at'', JStr (normalize_timestamp expires_at)),
         (lit ''issued_at'', JStr (normalize_timestamp issued_at)),
         (lit ''nonce'', JStr (encode_base64url nonce)),
         (lit ''origin'', JStr origin),
         (lit ''protocol_version'', JInt DEVICE_PROTOCOL_VERSION),
         (lit ''enrollment_method'', JStr enrollment_method),
         (lit ''fallback'', JBool fallback)]))"

definition signed_message :: "json \<Rightarrow> bytes res" where
  "signed_message payload =
     bind_res (canonical_json_bytes payload)
       (\<lambda>b. Inr (lit ''e2e-secure-file-transfer/device-auth/v1'' @ [0] @ b))"

section \<open>Keys\<close>

text \<open>
  What the code uses of \<open>cryptography\<close>: \<open>load_der_public_key\<close> gives the key, or raises; for an ECDSA
  P-256 key \<open>public_bytes\<close> gives its DER SPKI.  \<open>verify\<close> checks a DER signature.
\<close>

record 'k crypto =
  cr_sha256 :: "bytes \<Rightarrow> bytes"
  cr_load_der_public_key :: "bytes \<Rightarrow> 'k option"
  cr_is_p256 :: "'k \<Rightarrow> bool"
  cr_is_ec :: "'k \<Rightarrow> bool"
  cr_public_bytes :: "'k \<Rightarrow> bytes"
  cr_encode_dss_signature :: "nat \<Rightarrow> nat \<Rightarrow> bytes"
  cr_decode_dss_signature :: "bytes \<Rightarrow> (nat \<times> nat) option"
  cr_verify :: "'k \<Rightarrow> bytes \<Rightarrow> bytes \<Rightarrow> bool"

definition canonical_public_key :: "'k crypto \<Rightarrow> bytes \<Rightarrow> bytes res" where
  "canonical_public_key cr raw =
     (if \<not> (1 \<le> length raw \<and> length raw \<le> 1024) then Inl ValueError
      else case cr_load_der_public_key cr raw of
          None \<Rightarrow> Inl ValueError
        | Some key \<Rightarrow>
            if \<not> (cr_is_ec cr key \<and> cr_is_p256 cr key) then Inl ValueError
            else if cr_public_bytes cr key \<noteq> raw then Inl ValueError
            else Inr (cr_public_bytes cr key))"

definition fingerprint_public_key :: "'k crypto \<Rightarrow> bytes \<Rightarrow> bytes res" where
  "fingerprint_public_key cr public_key_spki =
     bind_res (canonical_public_key cr public_key_spki) (\<lambda>canonical. Inr (cr_sha256 cr canonical))"

section \<open>Signatures\<close>

definition DEVICE_SIGNATURE_BYTES :: nat where "DEVICE_SIGNATURE_BYTES = 64"

text \<open>\<open>int.from_bytes(b, "big")\<close> and \<open>n.to_bytes(k, "big")\<close> for an \<open>n\<close> that fits.\<close>

definition from_bytes :: "bytes \<Rightarrow> nat" where
  "from_bytes bs = fold (\<lambda>b acc. 256 * acc + b) bs 0"

fun to_bytes :: "nat \<Rightarrow> nat \<Rightarrow> bytes" where
  "to_bytes 0 n = []"
| "to_bytes (Suc k) n = to_bytes k (n div 256) @ [n mod 256]"

definition p1363_to_der :: "'k crypto \<Rightarrow> bytes \<Rightarrow> bytes res" where
  "p1363_to_der cr signature =
     (if length signature \<noteq> DEVICE_SIGNATURE_BYTES then Inl ValueError
      else let r = from_bytes (take 32 signature); s = from_bytes (drop 32 signature)
           in if r = 0 \<or> s = 0 then Inl ValueError else Inr (cr_encode_dss_signature cr r s))"

definition der_to_p1363 :: "'k crypto \<Rightarrow> bytes \<Rightarrow> bytes res" where
  "der_to_p1363 cr signature =
     (case cr_decode_dss_signature cr signature of
        None \<Rightarrow> Inl ValueError
      | Some (r, s) \<Rightarrow>
          if \<not> (0 < r \<and> r < 2 ^ 256 \<and> 0 < s \<and> s < 2 ^ 256) then Inl ValueError
          else Inr (to_bytes 32 r @ to_bytes 32 s))"

definition verify_signature :: "'k crypto \<Rightarrow> bytes \<Rightarrow> bytes \<Rightarrow> bytes \<Rightarrow> bool" where
  "verify_signature cr public_key_spki signature message =
     (case canonical_public_key cr public_key_spki of
        Inl _ \<Rightarrow> False
      | Inr canonical_key \<Rightarrow>
          (case cr_load_der_public_key cr canonical_key of
             None \<Rightarrow> False
           | Some key \<Rightarrow>
               if \<not> cr_is_ec cr key then False
               else (case (if length signature = DEVICE_SIGNATURE_BYTES then p1363_to_der cr signature
                           else Inr signature) of
                   Inl _ \<Rightarrow> False
                 | Inr der_signature \<Rightarrow> cr_verify cr key der_signature message)))"

definition verify_p1363_signature :: "'k crypto \<Rightarrow> bytes \<Rightarrow> bytes \<Rightarrow> bytes \<Rightarrow> bool" where
  "verify_p1363_signature cr public_key_spki signature message =
     (if length signature \<noteq> DEVICE_SIGNATURE_BYTES then False
      else verify_signature cr public_key_spki signature message)"

section \<open>Bytes of integers\<close>

lemma from_bytes_snoc [simp]: "from_bytes (bs @ [b]) = 256 * from_bytes bs + b"
  by (simp add: from_bytes_def)

lemma from_bytes_Nil [simp]: "from_bytes [] = 0"
  by (simp add: from_bytes_def)

lemma length_to_bytes [simp]: "length (to_bytes k n) = k"
  by (induction k arbitrary: n) simp_all

lemma to_bytes_from_bytes: "list_all (\<lambda>b. b < 256) bs \<Longrightarrow> to_bytes (length bs) (from_bytes bs) = bs"
  by (induction bs rule: rev_induct) simp_all

lemma from_bytes_bound: "list_all (\<lambda>b. b < 256) bs \<Longrightarrow> from_bytes bs < 256 ^ length bs"
  by (induction bs rule: rev_induct) simp_all

lemma from_bytes_0: "from_bytes bs = 0 \<longleftrightarrow> (\<forall>b\<in>set bs. b = 0)"
  by (induction bs rule: rev_induct) auto

section \<open>Unique decoding\<close>

text \<open>The escapes of two characters never overlap, and no escape starts with a quote.\<close>

lemma hex4_inj:
  assumes "c < 65536" and "c' < 65536" and "hex_digits 4 c = hex_digits 4 c'"
  shows "c = c'"
proof -
  have "hex_parse 0 (hex_digits 4 k) = Some k" if "k < 65536" for k
    using hex_parse_digits [of k 4 0] that by simp
  then show ?thesis using assms by (metis option.inject)
qed

lemma escape_char_cases:
  obtains (plain) "escape_char False c = [c]" "c \<noteq> 34" "c \<noteq> 92"
  | (short) k where "escape_char False c = [92, k]" "k \<noteq> 117" "(c, k) \<in> {(34, 34), (92, 92), (10, 110), (13, 114), (9, 116), (12, 102), (8, 98)}"
  | (hex) "escape_char False c = [92, 117] @ hex_digits 4 c" "c < 65536"
proof (cases "c \<in> {34, 92, 10, 13, 9, 12, 8}")
  case True
  then show thesis by (intro short [of "escape_char False c ! 1"]) (auto simp: escape_char_def)
next
  case False
  show thesis
  proof (cases "c < 32")
    case True
    then show thesis using False by (intro hex) (simp_all add: escape_char_def unicode_escape_def)
  next
    case c: False
    then show thesis using False by (intro plain) (simp_all add: escape_char_def)
  qed
qed

lemma escape_char_prefix:
  assumes "escape_char False c @ u = escape_char False c' @ u'"
  shows "c = c' \<and> u = u'"
proof (cases rule: escape_char_cases [of c]; cases rule: escape_char_cases [of c'])
  assume "escape_char False c = [92, 117] @ hex_digits 4 c" "c < 65536"
    "escape_char False c' = [92, 117] @ hex_digits 4 c'" "c' < 65536"
  then show ?thesis using assms hex4_inj [of c c'] append_eq_append_conv [of "hex_digits 4 c" "hex_digits 4 c'" u u'] by simp
qed (use assms in auto)

lemma escape_char_hd: "escape_char False c @ u \<noteq> 34 # v"
  by (cases rule: escape_char_cases [of c]) auto

lemma escaped_prefix:
  "concat (map (escape_char False) s) @ 34 # t = concat (map (escape_char False) s') @ 34 # t' \<Longrightarrow> s = s' \<and> t = t'"
proof (induction s arbitrary: s')
  case Nil
  then show ?case using escape_char_hd by (cases s') (auto simp: eq_commute [of "34 # _"])
next
  case (Cons c s)
  show ?case
  proof (cases s')
    case Nil
    then show ?thesis using Cons.prems escape_char_hd by simp
  next
    case (Cons c' r')
    then have "escape_char False c @ concat (map (escape_char False) s) @ 34 # t =
        escape_char False c' @ concat (map (escape_char False) r') @ 34 # t'"
      using Cons.prems by simp
    then show ?thesis using escape_char_prefix Cons.IH Cons by metis
  qed
qed

lemma json_string_prefix: "json_string False s @ t = json_string False s' @ t' \<Longrightarrow> s = s' \<and> t = t'"
  using escaped_prefix [of s t s' t'] by (simp add: json_string_def)

text \<open>Decimal digits, up to a character that is none.\<close>

lemma dec_digits_value: "fold (\<lambda>c acc. 10 * acc + (c - 48)) (dec_digits n) 0 = n"
proof (induction n rule: dec_digits.induct)
  case (1 n)
  then show ?case by (subst dec_digits.simps) auto
qed

lemma dec_digits_not_Nil [simp]: "dec_digits n \<noteq> []"
  by (subst dec_digits.simps) auto

definition ends_value :: "pystr \<Rightarrow> bool" where
  "ends_value s \<longleftrightarrow> s = [] \<or> hd s \<in> {44, 93, 125}"

lemma dec_digits_prefix:
  assumes "dec_digits n @ s = dec_digits m @ t" and "ends_value s" and "ends_value t"
  shows "n = m \<and> s = t"
proof -
  have digits: "takeWhile (\<lambda>c. 48 \<le> c \<and> c < 58) (dec_digits k @ u) = dec_digits k" if "ends_value u" for k u
    using that dec_digits_range [of _ k] by (cases u) (auto simp: ends_value_def takeWhile_append)
  have "dec_digits n = dec_digits m" using digits [OF assms(2), of n] digits [OF assms(3), of m] assms(1) by simp
  then show ?thesis using assms(1) dec_digits_value by (metis same_append_eq)
qed

lemma int_str_hd: "int_str n \<noteq> [] \<and> (hd (int_str n) = 45 \<or> 48 \<le> hd (int_str n) \<and> hd (int_str n) < 58)"
  using dec_digits_range [of "hd (dec_digits (nat n))" "nat n"] by (simp add: int_str_def)

lemma int_str_prefix:
  assumes "int_str n @ s = int_str m @ t" and "ends_value s" and "ends_value t"
  shows "n = m \<and> s = t"
proof -
  have pos: "hd (dec_digits k) \<noteq> 45" for k using dec_digits_range [of "hd (dec_digits k)" k] by auto
  show ?thesis
  proof (cases "n < 0"; cases "m < 0")
    assume "n < 0" "m < 0"
    then show ?thesis using assms dec_digits_prefix [of "nat (- n)" s "nat (- m)" t] by (auto simp: int_str_def)
  next
    assume "\<not> n < 0" "\<not> m < 0"
    then show ?thesis using assms dec_digits_prefix [of "nat n" s "nat m" t] by (auto simp: int_str_def)
  next
    assume "n < 0" "\<not> m < 0"
    then show ?thesis using assms(1) pos [of "nat m"] by (cases "dec_digits (nat m)") (auto simp: int_str_def)
  next
    assume "\<not> n < 0" "m < 0"
    then show ?thesis using assms(1) pos [of "nat n"] by (cases "dec_digits (nat n)") (auto simp: int_str_def)
  qed
qed

text \<open>The payloads hold no floats; the text \<open>json.dumps\<close> writes for one is not modelled further.\<close>

fun float_free :: "json \<Rightarrow> bool" where
  "float_free (JFloat _ _) = False"
| "float_free (JArr xs) = list_all float_free xs"
| "float_free (JObj ms) = list_all (\<lambda>m. float_free (snd m)) ms"
| "float_free _ = True"

definition starts_with :: "json \<Rightarrow> nat \<Rightarrow> bool" where
  "starts_with x c \<longleftrightarrow>
     (case x of
        JNull \<Rightarrow> c = 110 | JBool b \<Rightarrow> c = (if b then 116 else 102)
      | JInt _ \<Rightarrow> c = 45 \<or> 48 \<le> c \<and> c < 58
      | JFloat _ _ \<Rightarrow> True | JStr _ \<Rightarrow> c = 34 | JArr _ \<Rightarrow> c = 91 | JObj _ \<Rightarrow> c = 123)"

lemma dumps_starts:
  assumes "float_free x"
  obtains c cs where "json_dumps False x = c # cs" "starts_with x c"
proof (cases x)
  case (JInt n)
  then show thesis using int_str_hd [of n] that by (cases "int_str n") (auto simp: starts_with_def)
next
  case (JBool b)
  then show thesis using that by (cases b) (auto simp: starts_with_def lit_def)
qed (use assms that in \<open>auto simp: starts_with_def json_string_def lit_def\<close>)

lemma dumps_not_closing: "float_free x \<Longrightarrow> c \<in> {93, 125} \<Longrightarrow> json_dumps False x @ u \<noteq> c # v"
  by (frule dumps_starts) (auto simp: starts_with_def split: json.splits if_splits)

text \<open>Two values whose texts have a common beginning have the same shape at the top.\<close>

lemma dumps_same_head:
  assumes "json_dumps False x @ s = json_dumps False y @ t" and "float_free x" and "float_free y"
  obtains c where "starts_with x c" "starts_with y c"
  using dumps_starts [OF assms(2)] dumps_starts [OF assms(3)] assms(1) by (metis append_Cons list.inject)

lemma ends_value_simps [simp]: "ends_value (44 # s)" "ends_value (93 # s)" "ends_value (125 # s)" "ends_value []"
  by (simp_all add: ends_value_def)

lemma json_items_Cons: "json_items b (x # xs) = json_dumps b x @ (if xs = [] then [] else 44 # json_items b xs)"
  by (cases xs) simp_all

lemma json_members_Cons:
  "json_members b (m # ms) =
     json_string b (fst m) @ 58 # json_dumps b (snd m) @ (if ms = [] then [] else 44 # json_members b ms)"
  by (cases m; cases ms) simp_all

definition uniquely_read :: "json \<Rightarrow> bool" where
  "uniquely_read x \<longleftrightarrow> (\<forall>y s t. float_free y \<longrightarrow> ends_value s \<longrightarrow> ends_value t \<longrightarrow>
     json_dumps False x @ s = json_dumps False y @ t \<longrightarrow> x = y \<and> s = t)"

lemma uniquely_readD:
  "uniquely_read x \<Longrightarrow> json_dumps False x @ s = json_dumps False y @ t \<Longrightarrow> float_free y \<Longrightarrow> ends_value s \<Longrightarrow>
     ends_value t \<Longrightarrow> x = y \<and> s = t"
  unfolding uniquely_read_def by blast

lemma json_items_prefix:
  assumes "json_items False xs @ 93 # s = json_items False ys @ 93 # t"
    and "list_all uniquely_read xs" and "list_all float_free xs" and "list_all float_free ys"
  shows "xs = ys \<and> s = t"
  using assms
proof (induction xs arbitrary: ys)
  case Nil
  then show ?case using dumps_not_closing [of "hd ys" 93] by (cases ys) (auto simp: json_items_Cons eq_commute [of "93 # _"])
next
  case (Cons x xs)
  show ?case
  proof (cases ys)
    case Nil
    then show ?thesis using Cons.prems dumps_not_closing [of x 93] by (auto simp: json_items_Cons)
  next
    case ys: (Cons y ys')
    let ?rest = "\<lambda>zs u. (if zs = [] then [] else 44 # json_items False zs) @ 93 # u"
    have "x = y \<and> ?rest xs s = ?rest ys' t"
      using Cons.prems ys by (intro uniquely_readD) (auto simp: json_items_Cons)
    moreover from this have "xs = ys' \<and> s = t"
      using Cons.IH [of ys'] Cons.prems ys by (auto split: if_splits)
    ultimately show ?thesis using ys by simp
  qed
qed

lemma json_members_prefix:
  assumes "json_members False ms @ 125 # s = json_members False ns @ 125 # t"
    and "list_all (\<lambda>m. uniquely_read (snd m)) ms" and "list_all (\<lambda>m. float_free (snd m)) ns"
  shows "ms = ns \<and> s = t"
  using assms
proof (induction ms arbitrary: ns)
  case Nil
  then show ?case by (cases ns) (auto simp: json_members_Cons json_string_def)
next
  case (Cons m ms)
  show ?case
  proof (cases ns)
    case Nil
    then show ?thesis using Cons.prems by (auto simp: json_members_Cons json_string_def)
  next
    case ns: (Cons n ns')
    let ?rest = "\<lambda>zs u. (if zs = [] then [] else 44 # json_members False zs) @ 125 # u"
    have "json_string False (fst m) @ 58 # json_dumps False (snd m) @ ?rest ms s =
        json_string False (fst n) @ 58 # json_dumps False (snd n) @ ?rest ns' t"
      using Cons.prems(1) ns by (simp add: json_members_Cons)
    then have 1: "fst m = fst n" "json_dumps False (snd m) @ ?rest ms s = json_dumps False (snd n) @ ?rest ns' t"
      using json_string_prefix by blast+
    then have 2: "snd m = snd n \<and> ?rest ms s = ?rest ns' t"
      using Cons.prems ns by (intro uniquely_readD) auto
    then have "ms = ns' \<and> s = t" using Cons.IH [of ns'] Cons.prems ns by (auto split: if_splits)
    then show ?thesis using ns 1 2 by (simp add: prod_eq_iff)
  qed
qed

lemma uniquely_readI:
  assumes "\<And>y s t. float_free y \<Longrightarrow> ends_value s \<Longrightarrow> ends_value t \<Longrightarrow>
     json_dumps False x @ s = json_dumps False y @ t \<Longrightarrow> x = y \<and> s = t"
  shows "uniquely_read x"
  unfolding uniquely_read_def using assms by blast

lemma float_free_uniquely_read: "float_free x \<Longrightarrow> uniquely_read x"
proof (induction x)
  case (JArr xs)
  show ?case
  proof (rule uniquely_readI)
    fix y s t
    assume y: "float_free y" "json_dumps False (JArr xs) @ s = json_dumps False y @ t"
    obtain c where c: "starts_with (JArr xs) c" "starts_with y c" by (rule dumps_same_head [OF y(2) JArr.prems y(1)])
    obtain ys where ys: "y = JArr ys"
      using c y(1) by (cases y) (auto simp: starts_with_def split: if_splits)
    have "list_all uniquely_read xs" "list_all float_free xs" using JArr by (auto simp: list_all_iff)
    then show "JArr xs = y \<and> s = t" using y ys json_items_prefix [of xs s ys t] by simp
  qed
next
  case (JObj ms)
  show ?case
  proof (rule uniquely_readI)
    fix y s t
    assume y: "float_free y" "json_dumps False (JObj ms) @ s = json_dumps False y @ t"
    obtain c where c: "starts_with (JObj ms) c" "starts_with y c" by (rule dumps_same_head [OF y(2) JObj.prems y(1)])
    obtain ns where ns: "y = JObj ns"
      using c y(1) by (cases y) (auto simp: starts_with_def split: if_splits)
    have "uniquely_read (snd m)" if "m \<in> set ms" for m
      using JObj.IH [of m "snd m"] JObj.prems that by (cases m) (auto simp: list_all_iff)
    then show "JObj ms = y \<and> s = t" using y ns json_members_prefix [of ms s ns t] by (simp add: list_all_iff)
  qed
next
  case (JInt n)
  show ?case
  proof (rule uniquely_readI)
    fix y s t
    assume y: "float_free y" "ends_value s" "ends_value t" "json_dumps False (JInt n) @ s = json_dumps False y @ t"
    obtain c where c: "starts_with (JInt n) c" "starts_with y c" by (rule dumps_same_head [OF y(4) JInt y(1)])
    obtain k where "y = JInt k"
      using c y(1) by (cases y) (auto simp: starts_with_def split: if_splits)
    then show "JInt n = y \<and> s = t" using y int_str_prefix [of n s k t] by simp
  qed
next
  case (JStr k)
  show ?case
  proof (rule uniquely_readI)
    fix y s t
    assume y: "float_free y" "json_dumps False (JStr k) @ s = json_dumps False y @ t"
    obtain c where c: "starts_with (JStr k) c" "starts_with y c" by (rule dumps_same_head [OF y(2) JStr y(1)])
    obtain l where "y = JStr l"
      using c y(1) by (cases y) (auto simp: starts_with_def split: if_splits)
    then show "JStr k = y \<and> s = t" using y json_string_prefix [of k s l t] by simp
  qed
next
  case (JBool b)
  show ?case
  proof (rule uniquely_readI)
    fix y s t
    assume y: "float_free y" "json_dumps False (JBool b) @ s = json_dumps False y @ t"
    obtain c where c: "starts_with (JBool b) c" "starts_with y c" by (rule dumps_same_head [OF y(2) JBool y(1)])
    have "y = JBool b"
      using c y(1) by (cases y) (auto simp: starts_with_def split: if_splits)
    then show "JBool b = y \<and> s = t" using y by simp
  qed
next
  case JNull
  show ?case
  proof (rule uniquely_readI)
    fix y s t
    assume y: "float_free y" "json_dumps False JNull @ s = json_dumps False y @ t"
    obtain c where c: "starts_with JNull c" "starts_with y c" by (rule dumps_same_head [OF y(2) JNull y(1)])
    have "y = JNull"
      using c y(1) by (cases y) (auto simp: starts_with_def split: if_splits)
    then show "JNull = y \<and> s = t" using y by simp
  qed
qed simp

section \<open>The encoding of text\<close>

lemma utf8_bytes_prefix:
  assumes "utf8_bytes c @ u = utf8_bytes c' @ u'"
  shows "c = c' \<and> u = u'"
proof -
  have split: "c = c'" if "c div 64 = c' div 64" "c mod 64 = c' mod 64" for c c' :: nat
    using that by (metis div_mult_mod_eq)
  have split3: "c = c'" if "c div 4096 = c' div 4096" "c div 64 mod 64 = c' div 64 mod 64" "c mod 64 = c' mod 64" for c c' :: nat
  proof (rule split [OF _ that(3)])
    have "c div 64 div 64 = c' div 64 div 64" using that(1) by (simp flip: div_mult2_eq)
    then show "c div 64 = c' div 64" by (rule split [OF _ that(2)])
  qed
  have split4: "c = c'" if "c div 262144 = c' div 262144" "c div 4096 mod 64 = c' div 4096 mod 64"
    "c div 64 mod 64 = c' div 64 mod 64" "c mod 64 = c' mod 64" for c c' :: nat
  proof (rule split3 [OF _ that(3,4)])
    have "c div 4096 div 64 = c' div 4096 div 64" using that(1) by (simp flip: div_mult2_eq)
    then show "c div 4096 = c' div 4096" by (rule split [OF _ that(2)])
  qed
  have low: "c < 2048 \<Longrightarrow> c div 64 < 32" "c < 65536 \<Longrightarrow> c div 4096 < 16" for c :: nat by linarith+
  consider "c < 0x80" | "0x80 \<le> c" "c < 0x800" | "0x800 \<le> c" "c < 0x10000" | "0x10000 \<le> c" by linarith
  then show ?thesis
  proof cases
    case 1
    then show ?thesis using assms by (auto simp: utf8_bytes_def split: if_splits)
  next
    case 2
    then show ?thesis using assms low [of c] low [of c'] by (auto simp: utf8_bytes_def split: if_splits intro: split)
  next
    case 3
    then show ?thesis using assms low [of c] low [of c'] by (auto simp: utf8_bytes_def split: if_splits intro: split3)
  next
    case 4
    then show ?thesis using assms low [of c] low [of c'] by (auto simp: utf8_bytes_def split: if_splits intro: split4)
  qed
qed

lemma utf8_bytes_not_Nil [simp]: "utf8_bytes c \<noteq> []"
  by (simp add: utf8_bytes_def)

lemma utf8_inj: "concat (map utf8_bytes s) = concat (map utf8_bytes s') \<Longrightarrow> s = s'"
proof (induction s arbitrary: s')
  case Nil
  then show ?case by (cases s') auto
next
  case (Cons c s)
  then show ?case by (cases s') (auto dest: utf8_bytes_prefix)
qed

lemma encode_utf8_inj: "encode_utf8 s = Inr b \<Longrightarrow> encode_utf8 s' = Inr b \<Longrightarrow> s = s'"
  using utf8_inj [of s s'] by (auto simp: encode_utf8_def split: if_splits)

lemma float_free_sort: "float_free x \<Longrightarrow> float_free (sort_members x)"
  by (induction x) (auto simp: list_all_iff)

text \<open>A signed message determines the payload, up to the order of members.\<close>

lemma signed_message_inj:
  assumes "signed_message v = Inr b" and "signed_message w = Inr b" and "float_free v" and "float_free w"
  shows "sort_members v = sort_members w"
proof -
  obtain t t' where m: "canonical_json_bytes v = Inr t" "canonical_json_bytes w = Inr t'"
      "lit ''e2e-secure-file-transfer/device-auth/v1'' @ [0] @ t = lit ''e2e-secure-file-transfer/device-auth/v1'' @ [0] @ t'"
    using assms(1,2) unfolding signed_message_def bind_res_Inr by (metis sum.inject(2))
  then have "t' = t" by (simp only: same_append_eq)
  with m(1,2) have t: "encode_utf8 (json_dumps False (sort_members v)) = Inr t"
      "encode_utf8 (json_dumps False (sort_members w)) = Inr t"
    unfolding canonical_json_bytes_def by (metis sum.distinct(1))+
  have "json_dumps False (sort_members v) = json_dumps False (sort_members w)"
    by (rule encode_utf8_inj [OF t])
  then show ?thesis
    using uniquely_readD [OF float_free_uniquely_read [OF float_free_sort [OF assms(3)]], of "[]" "sort_members w" "[]"]
      float_free_sort [OF assms(4)] by simp
qed

lemma encode_base64url_inj:
  assumes "encode_base64url bs = encode_base64url cs" and "list_all (\<lambda>b. b < 256) bs" and "list_all (\<lambda>b. b < 256) cs"
  shows "bs = cs"
  using b64_groups_encode [OF assms(2), unfolded assms(1) b64_groups_encode [OF assms(3)]] by (rule option.inject [THEN iffD1, symmetric])

lemma uuid_str_inj: "uuid_str u = uuid_str w \<Longrightarrow> u < 2 ^ 128 \<Longrightarrow> w < 2 ^ 128 \<Longrightarrow> u = w"
  by (metis option.inject uuid_parse_str)

section \<open>What a signature binds\<close>

text \<open>The member of an object with a given name, and objects whose members hold no objects or lists.\<close>

definition member :: "json \<Rightarrow> string \<Rightarrow> json option" where
  "member v k = (case v of JObj ms \<Rightarrow> map_of ms (lit k) | _ \<Rightarrow> None)"

fun plain_value :: "json \<Rightarrow> bool" where
  "plain_value (JStr _) = True"
| "plain_value (JInt _) = True"
| "plain_value (JBool _) = True"
| "plain_value _ = False"

fun flat_object :: "json \<Rightarrow> bool" where
  "flat_object (JObj ms) = (distinct (map fst ms) \<and> list_all (\<lambda>m. plain_value (snd m)) ms)"
| "flat_object _ = False"

lemma plain_float_free: "plain_value v \<Longrightarrow> float_free v"
  by (cases v) simp_all

lemma plain_sort: "plain_value v \<Longrightarrow> sort_members v = v"
  by (cases v) simp_all

lemma flat_float_free: "flat_object v \<Longrightarrow> float_free v"
  by (cases v) (simp_all add: list_all_iff plain_float_free)

lemma member_sort:
  assumes "flat_object v"
  shows "member (sort_members v) k = member v k"
proof -
  obtain ms where v: "v = JObj ms" "distinct (map fst ms)"
      "list_all (\<lambda>m. plain_value (snd m)) ms"
    using assms by (cases v) auto
  have flat: "map (\<lambda>m. (fst m, sort_members (snd m))) ms = ms"
    using v(3) by (intro map_idI) (simp add: list_all_iff prod_eq_iff plain_sort)
  have "distinct (map fst (sort_key fst ms))"
    using v(2) by (simp add: distinct_map)
  then have "map_of (sort_key fst ms) = map_of ms"
    using v(2) by (simp add: map_of_inject_set)
  then show ?thesis by (simp add: v(1) member_def flat)
qed

lemma signed_members:
  assumes "signed_message v = Inr b" and "signed_message w = Inr b" and "flat_object v" and "flat_object w"
  shows "member v k = member w k"
  using signed_message_inj [OF assms(1,2)] flat_float_free assms(3,4) member_sort by metis

lemma challenge_payload_Inr:
  assumes "challenge_payload c a v n = Inr p"
  shows "flat_object p" and "ch_device_id c = dv_id v" and "length n = 32"
    and "member p ''account_device_epoch'' = Some (JInt (ac_device_epoch a))"
    and "member p ''account_id'' = Some (JStr (uuid_str (ac_id a)))"
    and "member p ''challenge_id'' = Some (JStr (uuid_str (ch_id c)))"
    and "member p ''device_id'' = Some (JStr (uuid_str (dv_id v)))"
    and "member p ''nonce'' = Some (JStr (encode_base64url n))"
    and "member p ''origin'' = Some (JStr (ch_origin c))"
    and "member p ''device_fingerprint'' = None"
proof -
  have "ch_device_id c = dv_id v" "length n = 32" using assms by (auto simp: challenge_payload_def split: if_splits)
  moreover from this have p: "p = projr (challenge_payload c a v n)" using assms by simp
  ultimately show "flat_object p" "ch_device_id c = dv_id v" "length n = 32"
    "member p ''account_device_epoch'' = Some (JInt (ac_device_epoch a))"
    "member p ''account_id'' = Some (JStr (uuid_str (ac_id a)))"
    "member p ''challenge_id'' = Some (JStr (uuid_str (ch_id c)))"
    "member p ''device_id'' = Some (JStr (uuid_str (dv_id v)))"
    "member p ''nonce'' = Some (JStr (encode_base64url n))"
    "member p ''origin'' = Some (JStr (ch_origin c))" "member p ''device_fingerprint'' = None"
    unfolding p challenge_payload_def by (simp_all add: lit_def member_def)
qed

lemma registration_payload_Inr:
  assumes "registration_payload ci ai di ep n og ia ea fp fb em = Inr p"
  shows "flat_object p" and "length n = 32" and "length fp = 32"
    and "member p ''account_device_epoch'' = Some (JInt ep)" and "member p ''account_id'' = Some (JStr ai)"
    and "member p ''challenge_id'' = Some (JStr ci)" and "member p ''device_id'' = Some (JStr di)"
    and "member p ''nonce'' = Some (JStr (encode_base64url n))" and "member p ''origin'' = Some (JStr og)"
    and "member p ''device_fingerprint'' = Some (JStr (encode_base64url fp))"
    and "member p ''fallback'' = Some (JBool fb)" and "member p ''enrollment_method'' = Some (JStr em)"
proof -
  have "length fp = 32" "length n = 32" using assms by (auto simp: registration_payload_def split: if_splits)
  moreover from this have p: "p = projr (registration_payload ci ai di ep n og ia ea fp fb em)" using assms by simp
  ultimately show "flat_object p" "length n = 32" "length fp = 32"
    "member p ''account_device_epoch'' = Some (JInt ep)" "member p ''account_id'' = Some (JStr ai)"
    "member p ''challenge_id'' = Some (JStr ci)" "member p ''device_id'' = Some (JStr di)"
    "member p ''nonce'' = Some (JStr (encode_base64url n))" "member p ''origin'' = Some (JStr og)"
    "member p ''device_fingerprint'' = Some (JStr (encode_base64url fp))"
    "member p ''fallback'' = Some (JBool fb)" "member p ''enrollment_method'' = Some (JStr em)"
    unfolding p registration_payload_def by (simp_all add: lit_def member_def)
qed

section \<open>Properties\<close>

definition valid_nonce :: "bytes \<Rightarrow> bool" where
  "valid_nonce n \<longleftrightarrow> list_all (\<lambda>b. b < 256) n"

text \<open>
  C17.  A device signature binds what it was made for.  When the message signed for a login challenge
  is also the message of a second payload, then the second payload is no registration payload; and
  when it is a login payload, it has the same account, account epoch, device, challenge, nonce and
  origin.  Likewise two registration payloads with the same message agree in account, epoch, device,
  challenge, nonce, origin, key fingerprint, fallback flag and enrollment method.
\<close>

theorem device_signature_binds:
  assumes "signed_message p = Inr b" and "signed_message q = Inr b"
    and "\<forall>u\<in>{ac_id a, ac_id a', ch_id c, ch_id c', dv_id v, dv_id v'}. u < 2 ^ 128"
    and "valid_nonce n" "valid_nonce n'" "valid_nonce fp" "valid_nonce fp'"
  shows "(challenge_payload c a v n = Inr p \<longrightarrow>
      registration_payload ci ai di ep n' og ia ea fp fb em \<noteq> Inr q \<and>
      (challenge_payload c' a' v' n' = Inr q \<longrightarrow>
         ac_id a' = ac_id a \<and> ac_device_epoch a' = ac_device_epoch a \<and> dv_id v' = dv_id v \<and> ch_id c' = ch_id c \<and>
         n' = n \<and> ch_origin c' = ch_origin c)) \<and>
    (registration_payload ci ai di ep n og ia ea fp fb em = Inr p \<and>
     registration_payload ci' ai' di' ep' n' og' ia' ea' fp' fb' em' = Inr q \<longrightarrow>
       ci' = ci \<and> ai' = ai \<and> di' = di \<and> ep' = ep \<and> n' = n \<and> og' = og \<and> fp' = fp \<and> fb' = fb \<and> em' = em)"
proof -
  note same = signed_members [OF assms(1,2)]
  have b64: "x = y" if "encode_base64url x = encode_base64url y" "valid_nonce x" "valid_nonce y" for x y
    using that encode_base64url_inj by (simp add: valid_nonce_def)
  have "registration_payload ci ai di ep n' og ia ea fp fb em \<noteq> Inr q" if p: "challenge_payload c a v n = Inr p"
  proof
    assume q: "registration_payload ci ai di ep n' og ia ea fp fb em = Inr q"
    show False
      using same [OF challenge_payload_Inr(1) [OF p] registration_payload_Inr(1) [OF q], of "''device_fingerprint''"]
      by (simp add: challenge_payload_Inr(10) [OF p] registration_payload_Inr(10) [OF q])
  qed
  moreover have "ac_id a' = ac_id a \<and> ac_device_epoch a' = ac_device_epoch a \<and> dv_id v' = dv_id v \<and> ch_id c' = ch_id c \<and>
      n' = n \<and> ch_origin c' = ch_origin c"
    if p: "challenge_payload c a v n = Inr p" and q: "challenge_payload c' a' v' n' = Inr q"
  proof -
    note mem = same [OF challenge_payload_Inr(1) [OF p] challenge_payload_Inr(1) [OF q]]
    have "uuid_str (ac_id a) = uuid_str (ac_id a')" "uuid_str (dv_id v) = uuid_str (dv_id v')"
      "uuid_str (ch_id c) = uuid_str (ch_id c')" "ac_device_epoch a = ac_device_epoch a'"
      "encode_base64url n = encode_base64url n'" "ch_origin c = ch_origin c'"
      using mem [of "''account_id''"] mem [of "''device_id''"] mem [of "''challenge_id''"]
        mem [of "''account_device_epoch''"] mem [of "''nonce''"] mem [of "''origin''"]
      by (simp_all only: challenge_payload_Inr(4-9) [OF p] challenge_payload_Inr(4-9) [OF q] option.inject json.inject)
    then show ?thesis using assms(3) b64 [OF _ assms(4,5)] uuid_str_inj by (metis insertI1 insertI2)
  qed
  moreover have "ci' = ci \<and> ai' = ai \<and> di' = di \<and> ep' = ep \<and> n' = n \<and> og' = og \<and> fp' = fp \<and> fb' = fb \<and> em' = em"
    if p: "registration_payload ci ai di ep n og ia ea fp fb em = Inr p"
      and q: "registration_payload ci' ai' di' ep' n' og' ia' ea' fp' fb' em' = Inr q"
  proof -
    note mem = same [OF registration_payload_Inr(1) [OF p] registration_payload_Inr(1) [OF q]]
    have "ci = ci'" "ai = ai'" "di = di'" "ep = ep'" "encode_base64url n = encode_base64url n'" "og = og'"
      "encode_base64url fp = encode_base64url fp'" "fb = fb'" "em = em'"
      using mem [of "''account_id''"] mem [of "''device_id''"] mem [of "''challenge_id''"] mem [of "''account_device_epoch''"]
        mem [of "''nonce''"] mem [of "''origin''"] mem [of "''device_fingerprint''"] mem [of "''fallback''"]
        mem [of "''enrollment_method''"]
      by (simp_all only: registration_payload_Inr(4-12) [OF p] registration_payload_Inr(4-12) [OF q] option.inject json.inject)
    then show ?thesis using b64 [OF _ assms(4,5)] b64 [OF _ assms(6,7)] by simp
  qed
  ultimately show ?thesis by blast
qed

text \<open>A login challenge of device 10.\<close>

definition login_challenge :: device_challenge where
  "login_challenge = \<lparr>ch_id = 21, ch_device_id = 10, ch_nonce_hash = replicate 32 0, ch_origin = lit ''https://relay.example'',
     ch_created_at = 0, ch_expires_at = 300000000, ch_consumed_at = None, ch_attempt_count = 0\<rparr>"

lemma login_payload:
  "\<exists>p b. challenge_payload login_challenge sample_account (sample_device 10) (replicate 32 7) = Inr p \<and>
     signed_message p = Inr b"
proof -
  define r where "r = bind_res (challenge_payload login_challenge sample_account (sample_device 10) (replicate 32 7)) signed_message"
  have "\<not> isl r" unfolding r_def by code_simp
  then obtain b where "r = Inr b" by (cases r) simp_all
  then show ?thesis unfolding r_def by (auto simp: bind_res_Inr)
qed

theorem device_signature_binds_witness:
  "\<exists>p b. challenge_payload login_challenge sample_account (sample_device 10) (replicate 32 7) = Inr p \<and>
     signed_message p = Inr b \<and>
     registration_payload (lit ''c'') (lit ''a'') (lit ''d'') 1 (replicate 32 7) (lit ''o'') 0 0 (replicate 32 7) False
       (lit ''email'') \<noteq> Inr p"
proof -
  obtain p b where p: "challenge_payload login_challenge sample_account (sample_device 10) (replicate 32 7) = Inr p"
    "signed_message p = Inr b"
    using login_payload by blast
  have n: "valid_nonce (replicate 32 7)" by (simp add: valid_nonce_def list_all_iff)
  have u: "\<forall>u\<in>{ac_id sample_account, ac_id sample_account, ch_id login_challenge, ch_id login_challenge,
      dv_id (sample_device 10), dv_id (sample_device 10)}. u < 2 ^ 128"
    by code_simp
  show ?thesis using device_signature_binds [OF p(2) p(2) u n n n n] p by blast
qed

text \<open>
  A signature survives the change of form at the boundary.  Let \<open>decode_dss_signature\<close> invert
  \<open>encode_dss_signature\<close>.  Every 64 bytes whose halves are not zero become a DER signature that
  \<open>der_to_p1363\<close> turns inverse into the same bytes; a zero half and every other length raise.
\<close>

theorem p1363_round_trip:
  assumes "\<And>r s. cr_decode_dss_signature cr (cr_encode_dss_signature cr r s) = Some (r, s)"
    and "list_all (\<lambda>b. b < 256) signature"
  shows "bind_res (p1363_to_der cr signature) (der_to_p1363 cr) =
    (if length signature = 64 \<and> (\<exists>b\<in>set (take 32 signature). b \<noteq> 0) \<and> (\<exists>b\<in>set (drop 32 signature). b \<noteq> 0)
     then Inr signature else Inl ValueError)"
proof (cases "length signature = 64")
  case True
  let ?r = "take 32 signature" and ?s = "drop 32 signature"
  have len: "length ?r = 32" "length ?s = 32" using True by simp_all
  have bytes: "list_all (\<lambda>b. b < 256) ?r" "list_all (\<lambda>b. b < 256) ?s"
    using assms(2) by (auto simp: list_all_iff dest: in_set_takeD in_set_dropD)
  have inverts: "to_bytes 32 (from_bytes ?r) = ?r" "to_bytes 32 (from_bytes ?s) = ?s"
    using to_bytes_from_bytes [OF bytes(1)] to_bytes_from_bytes [OF bytes(2)] unfolding len by simp_all
  have bound: "from_bytes ?r < 2 ^ 256" "from_bytes ?s < 2 ^ 256"
    using from_bytes_bound [OF bytes(1)] from_bytes_bound [OF bytes(2)] unfolding len by simp_all
  have der: "der_to_p1363 cr (cr_encode_dss_signature cr (from_bytes ?r) (from_bytes ?s)) = Inr signature"
    if "from_bytes ?r \<noteq> 0" "from_bytes ?s \<noteq> 0"
    unfolding der_to_p1363_def assms(1) using that bound inverts by simp
  show ?thesis
    using True der by (auto simp: p1363_to_der_def DEVICE_SIGNATURE_BYTES_def from_bytes_0 Let_def)
next
  case False
  then show ?thesis by (simp add: p1363_to_der_def DEVICE_SIGNATURE_BYTES_def)
qed

text \<open>A coding of signatures by pairs, for the witness.\<close>

definition pair_crypto :: "unit crypto" where
  "pair_crypto = \<lparr>cr_sha256 = (\<lambda>b. b), cr_load_der_public_key = (\<lambda>_. None), cr_is_p256 = (\<lambda>_. True),
     cr_is_ec = (\<lambda>_. True), cr_public_bytes = (\<lambda>_. []), cr_encode_dss_signature = (\<lambda>r s. [r, s]),
     cr_decode_dss_signature = (\<lambda>b. if length b = 2 then Some (hd b, last b) else None),
     cr_verify = (\<lambda>_ _ _. False)\<rparr>"

theorem p1363_round_trip_witness:
  "bind_res (p1363_to_der pair_crypto (replicate 64 9)) (der_to_p1363 pair_crypto) = Inr (replicate 64 9) \<and>
   bind_res (p1363_to_der pair_crypto (replicate 64 0)) (der_to_p1363 pair_crypto) = Inl ValueError"
proof -
  have c: "cr_decode_dss_signature pair_crypto (cr_encode_dss_signature pair_crypto r s) = Some (r, s)" for r s
    by (simp add: pair_crypto_def)
  show ?thesis
    using p1363_round_trip [of pair_crypto, OF c, of "replicate 64 9"] p1363_round_trip [of pair_crypto, OF c, of "replicate 64 0"]
    by (simp add: list_all_iff)
qed

end
