(* ===== verification/SecurityEvents.thy ===== *)
theory SecurityEvents
  imports OneTime DeviceCrypto
begin

text \<open>
  Audit events, \<open>repositories/security_events.py\<close>: the SQL repository on the database and the in-memory
  one on a list.  \<open>octets details\<close> is the length of the text PostgreSQL gives the stored \<open>jsonb\<close> value.
\<close>

section \<open>The SQL repository\<close>

definition EVENT_TYPES :: "string list" where
  "EVENT_TYPES =
     [''otp_started'', ''otp_verified'', ''otp_failed'', ''session_created'', ''session_revoked'',
      ''device_challenge_issued'', ''device_challenge_failed'', ''device_registered'', ''device_revoked'',
      ''device_logged_out'', ''device_linking_otp_created'', ''device_linking_failed'', ''device_linked'',
      ''email_fallback_completed'', ''transfer_created'', ''transfer_failed'', ''turn_credential_issued'',
      ''rate_limited'', ''security_alert'']"

definition event_check :: "(json \<Rightarrow> nat) \<Rightarrow> security_event \<Rightarrow> bool" where
  "event_check octets e \<longleftrightarrow>
     ev_event_type e \<in> set (map lit EVENT_TYPES) \<and>
     ev_outcome e \<in> {lit ''success'', lit ''failure'', lit ''blocked''} \<and>
     (case ev_network_fingerprint e of None \<Rightarrow> True | Some fp \<Rightarrow> length fp = 32) \<and>
     (case ev_details e of JObj _ \<Rightarrow> True | _ \<Rightarrow> False) \<and> octets (ev_details e) \<le> 2048 \<and>
     ev_created_at e \<le> ev_expires_at e"

definition event_clash :: "security_event \<Rightarrow> security_event \<Rightarrow> bool" where
  "event_clash e f \<longleftrightarrow> ev_id e = ev_id f"

definition SECURITY_EVENT_COLUMNS :: "string list" where
  "SECURITY_EVENT_COLUMNS =
     [''id'', ''user_id'', ''device_id'', ''event_type'', ''outcome'', ''network_fingerprint'', ''details'',
      ''created_at'', ''expires_at'']"

definition SECURITY_EVENTS_TABLE :: "string list" where
  "SECURITY_EVENTS_TABLE =
     [''id'', ''user_id'', ''device_id'', ''event_type'', ''outcome'', ''network_fingerprint'', ''details'',
      ''created_at'', ''expires_at'']"

text \<open>Both reads join \<open>app_users\<close> and name their columns without a table.\<close>

definition event_rows :: "uuid \<Rightarrow> (security_event \<Rightarrow> bool) \<Rightarrow> db \<Rightarrow> security_event list res" where
  "event_rows account_id p d =
     (if ambiguous SECURITY_EVENT_COLUMNS [SECURITY_EVENTS_TABLE, APP_USERS_TABLE] then Inl BackendUnavailableError
      else Inr [e. e \<leftarrow> security_events d, a \<leftarrow> app_users d,
                   Some (ac_id a) = ev_user_id e \<and> ev_user_id e = Some account_id \<and> p e \<and> ac_deleted_at a = None])"

definition ev_get_by_id :: "uuid \<Rightarrow> uuid \<Rightarrow> db \<Rightarrow> security_event option res" where
  "ev_get_by_id account_id event_id d =
     bind_res (event_rows account_id (\<lambda>e. ev_id e = event_id) d) (\<lambda>rows. Inr (first_row rows))"

definition ev_list_for_account :: "uuid \<Rightarrow> int \<Rightarrow> db \<Rightarrow> security_event list res" where
  "ev_list_for_account account_id limit d =
     (if limit \<le> 0 then Inl ValueError
      else bind_res (event_rows account_id (\<lambda>_. True) d)
             (\<lambda>rows. Inr (take (nat limit) (sort_key (\<lambda>e. - ev_created_at e) rows))))"

definition ev_list_by_account :: "uuid \<Rightarrow> int \<Rightarrow> db \<Rightarrow> security_event list res" where
  "ev_list_by_account account_id limit d = ev_list_for_account account_id limit d"

definition new_event ::
    "instant \<Rightarrow> uuid \<Rightarrow> pystr \<Rightarrow> pystr \<Rightarrow> instant \<Rightarrow> uuid option \<Rightarrow> uuid option \<Rightarrow> bytes option \<Rightarrow> json \<Rightarrow> security_event" where
  "new_event now fresh event_type outcome expires_at user_id device_id fp details =
     \<lparr>ev_id = fresh, ev_user_id = user_id, ev_device_id = device_id, ev_event_type = event_type, ev_outcome = outcome,
      ev_network_fingerprint = fp, ev_details = details, ev_created_at = now, ev_expires_at = expires_at\<rparr>"

definition ev_create ::
    "(json \<Rightarrow> nat) \<Rightarrow> instant \<Rightarrow> uuid \<Rightarrow> pystr \<Rightarrow> pystr \<Rightarrow> instant \<Rightarrow> uuid option \<Rightarrow> uuid option \<Rightarrow> bytes option \<Rightarrow>
     json \<Rightarrow> db \<Rightarrow> security_event res \<times> db" where
  "ev_create octets now fresh event_type outcome expires_at user_id device_id fp details d =
     (if \<not> finite_json details then (Inl ValueError, d)
      else required (tbl_insert security_events security_events_update (event_check octets) event_clash
        (if (case user_id of None \<Rightarrow> True
             | Some a \<Rightarrow> list_ex (\<lambda>x. ac_id x = a \<and> ac_deleted_at x = None) (app_users d)) \<and>
            (case device_id of None \<Rightarrow> True
             | Some v \<Rightarrow> list_ex (\<lambda>x. dv_id x = v \<and> (user_id = None \<or> user_id = Some (dv_user_id x))) (devices d))
         then [new_event now fresh event_type outcome expires_at user_id device_id fp details] else []) d))"

definition ev_record ::
    "(json \<Rightarrow> nat) \<Rightarrow> instant \<Rightarrow> uuid \<Rightarrow> pystr \<Rightarrow> pystr \<Rightarrow> instant \<Rightarrow> uuid option \<Rightarrow> uuid option \<Rightarrow> bytes option \<Rightarrow>
     json \<Rightarrow> db \<Rightarrow> security_event res \<times> db" where
  "ev_record = ev_create"

section \<open>The in-memory repository\<close>

definition me_get_by_id :: "uuid \<Rightarrow> uuid \<Rightarrow> security_event list \<Rightarrow> security_event option" where
  "me_get_by_id account_id event_id events = find (\<lambda>e. ev_user_id e = Some account_id \<and> ev_id e = event_id) events"

definition me_list_for_account :: "uuid \<Rightarrow> int \<Rightarrow> security_event list \<Rightarrow> security_event list res" where
  "me_list_for_account account_id limit events =
     (if limit \<le> 0 then Inl ValueError
      else Inr (take (nat limit) (filter (\<lambda>e. ev_user_id e = Some account_id) events)))"

definition me_create ::
    "instant \<Rightarrow> uuid \<Rightarrow> pystr \<Rightarrow> pystr \<Rightarrow> instant \<Rightarrow> uuid option \<Rightarrow> uuid option \<Rightarrow> bytes option \<Rightarrow> json \<Rightarrow>
     security_event list \<Rightarrow> security_event res \<times> security_event list" where
  "me_create now fresh event_type outcome expires_at user_id device_id fp details events =
     (let event = new_event now fresh event_type outcome expires_at user_id device_id fp details
      in (Inr event, events @ [event]))"

definition me_record ::
    "instant \<Rightarrow> uuid \<Rightarrow> pystr \<Rightarrow> pystr \<Rightarrow> instant \<Rightarrow> uuid option \<Rightarrow> uuid option \<Rightarrow> bytes option \<Rightarrow> json \<Rightarrow>
     security_event list \<Rightarrow> security_event res \<times> security_event list" where
  "me_record = me_create"

section \<open>Facts\<close>

interpretation evt: table security_events security_events_update "event_check octets" event_clash for octets
  by unfold_locales (auto simp: event_clash_def)

text \<open>A creation only writes to its own table, and what it writes satisfies the constraints.\<close>

lemma ev_create_tables:
  assumes "ev_create octets now fresh ty oc ex u v fp details d = (r, d')"
  shows "app_users d' = app_users d" "devices d' = devices d" "app_sessions d' = app_sessions d"
    "device_challenges d' = device_challenges d" "device_linking_otps d' = device_linking_otps d"
    "\<exists>new. security_events d' = security_events d @ new"
proof -
  have "d' = snd (ev_create octets now fresh ty oc ex u v fp details d)" using assms by simp
  then obtain new where "snd (tbl_insert security_events security_events_update (event_check octets) event_clash new d) = d' \<or> d' = d"
    unfolding ev_create_def by (cases "finite_json details") (simp_all only: if_True if_False snd_required snd_conv simp_thms, blast)
  moreover have "snd (tbl_insert security_events security_events_update (event_check octets) event_clash new d) \<in>
      {d, security_events_update (\<lambda>_. security_events d @ new) d}"
    by (auto simp: tbl_insert_def sql_insert_def)
  ultimately show "app_users d' = app_users d" "devices d' = devices d" "app_sessions d' = app_sessions d"
    "device_challenges d' = device_challenges d" "device_linking_otps d' = device_linking_otps d"
    "\<exists>new. security_events d' = security_events d @ new"
    by auto
qed

lemma event_lookups_raise:
  "ev_get_by_id a i d = Inl BackendUnavailableError"
  "ev_list_for_account a limit d = (if limit \<le> 0 then Inl ValueError else Inl BackendUnavailableError)"
proof -
  have "ambiguous SECURITY_EVENT_COLUMNS [SECURITY_EVENTS_TABLE, APP_USERS_TABLE]" by code_simp
  then show "ev_get_by_id a i d = Inl BackendUnavailableError"
    "ev_list_for_account a limit d = (if limit \<le> 0 then Inl ValueError else Inl BackendUnavailableError)"
    by (simp_all add: ev_get_by_id_def ev_list_for_account_def event_rows_def)
qed

end
