(* ===== verification/Adapters.thy ===== *)
theory Adapters
  imports Encoding DeviceCrypto
begin

text \<open>
  The provider boundaries of \<open>app/adapters.py\<close>: the email gateway on Supabase's HTTP interface and its
  deterministic substitute, and the TURN credential providers (Cloudflare, disabled, substitute).  The
  HTTP client is a parameter: a request has no response (\<open>httpx.HTTPError\<close>) or a status and the
  decoded body, \<open>None\<close> when the body is no JSON.  SHA-256 is a parameter too.
\<close>

section \<open>Text\<close>

text \<open>\<open>str.isspace\<close> on one character, and \<open>str.strip()\<close>.\<close>

definition py_isspace :: "nat \<Rightarrow> bool" where
  "py_isspace c \<longleftrightarrow>
     9 \<le> c \<and> c \<le> 13 \<or> 28 \<le> c \<and> c \<le> 32 \<or> c = 0x85 \<or> c = 0xA0 \<or> c = 0x1680 \<or>
     0x2000 \<le> c \<and> c \<le> 0x200A \<or> c = 0x2028 \<or> c = 0x2029 \<or> c = 0x202F \<or> c = 0x205F \<or> c = 0x3000"

definition py_strip :: "pystr \<Rightarrow> pystr" where
  "py_strip s = rev (dropWhile py_isspace (rev (dropWhile py_isspace s)))"

definition ascii_lower :: "nat \<Rightarrow> nat" where
  "ascii_lower c = (if 65 \<le> c \<and> c \<le> 90 then c + 32 else c)"

definition hexdigest :: "bytes \<Rightarrow> pystr" where
  "hexdigest bs = concat (map (hex_digits 2) bs)"

text \<open>
  The scheme \<open>urlsplit\<close> finds: leading control characters and blanks are dropped, tabs and line ends
  removed; the scheme ends at the first colon if what stands before it is one.  A network location
  follows two slashes; \<open>netloc_ok\<close> is its validation, \<open>ValueError\<close> when it fails.
\<close>

definition scheme_char :: "nat \<Rightarrow> bool" where
  "scheme_char c \<longleftrightarrow> 97 \<le> c \<and> c \<le> 122 \<or> 65 \<le> c \<and> c \<le> 90 \<or> 48 \<le> c \<and> c \<le> 57 \<or> c \<in> {43, 45, 46}"

definition urlsplit_clean :: "pystr \<Rightarrow> pystr" where
  "urlsplit_clean url = filter (\<lambda>c. c \<notin> {9, 10, 13}) (dropWhile (\<lambda>c. c \<le> 32) url)"

definition split_scheme :: "pystr \<Rightarrow> pystr \<times> pystr" where
  "split_scheme url =
     (let before = takeWhile (\<lambda>c. c \<noteq> 58) url; after = drop (Suc (length before)) url
      in if length before < length url \<and> before \<noteq> [] \<and> (case before of [] \<Rightarrow> False | c # _ \<Rightarrow>
              97 \<le> ascii_lower c \<and> ascii_lower c \<le> 122) \<and> list_all scheme_char before
         then (map ascii_lower before, after) else ([], url))"

definition urlsplit_scheme :: "(pystr \<Rightarrow> bool) \<Rightarrow> pystr \<Rightarrow> pystr res" where
  "urlsplit_scheme netloc_ok url =
     (case split_scheme (urlsplit_clean url) of (scheme, rest) \<Rightarrow>
        if take 2 rest = [47, 47] \<and> \<not> netloc_ok (takeWhile (\<lambda>c. c \<notin> {47, 63, 35}) (drop 2 rest))
        then Inl ValueError else Inr scheme)"

text \<open>\<open>urllib.parse.quote(text, safe="")\<close>.\<close>

definition quote_byte :: "nat \<Rightarrow> pystr" where
  "quote_byte b =
     (if 97 \<le> b \<and> b \<le> 122 \<or> 65 \<le> b \<and> b \<le> 90 \<or> 48 \<le> b \<and> b \<le> 57 \<or> b \<in> {95, 46, 45, 126} then [b]
      else 37 # map (\<lambda>c. if 97 \<le> c then c - 32 else c) (hex_digits 2 b))"

definition quote :: "pystr \<Rightarrow> pystr res" where
  "quote s = bind_res (encode_utf8 s) (\<lambda>bs. Inr (concat (map quote_byte bs)))"

section \<open>Email gateways\<close>

record auth_identity =
  ai_user_id :: pystr
  ai_email :: pystr

record 's auth_gateway =
  gw_start_otp :: "pystr \<Rightarrow> 's \<Rightarrow> unit res \<times> 's"
  gw_verify_otp :: "pystr \<Rightarrow> pystr \<Rightarrow> 's \<Rightarrow> auth_identity res \<times> 's"

text \<open>A request of the HTTP client: address, headers and JSON body; its answer may change the provider.\<close>

type_synonym 's http_client =
  "pystr \<Rightarrow> (pystr \<times> pystr) list \<Rightarrow> json \<Rightarrow> 's \<Rightarrow> (nat \<times> json option) option \<times> 's"

record supabase_gateway =
  sg_url :: pystr
  sg_headers :: "(pystr \<times> pystr) list"

definition new_supabase_gateway :: "pystr \<Rightarrow> pystr \<Rightarrow> supabase_gateway" where
  "new_supabase_gateway url publishable_key =
     \<lparr>sg_url = rev (dropWhile (\<lambda>c. c = 47) (rev url)),
      sg_headers = [(lit ''Accept'', lit ''application/json''), (lit ''apikey'', publishable_key)]\<rparr>"

definition gateway_post ::
    "'s http_client \<Rightarrow> supabase_gateway \<Rightarrow> string \<Rightarrow> json \<Rightarrow> bool \<Rightarrow> 's \<Rightarrow> json option res \<times> 's" where
  "gateway_post http g path payload invalid_is_otp s =
     (case http (sg_url g @ lit path) (sg_headers g) payload s of
        (None, s') \<Rightarrow> (Inl AuthGatewayUnavailableError, s')
      | (Some (code, body), s') \<Rightarrow>
          (if 200 \<le> code \<and> code \<le> 299 then Inr body
           else if invalid_is_otp \<and> 400 \<le> code \<and> code < 500 then Inl InvalidOtpError
           else Inl AuthGatewayUnavailableError, s'))"

definition supabase_start_otp :: "'s http_client \<Rightarrow> supabase_gateway \<Rightarrow> pystr \<Rightarrow> 's \<Rightarrow> unit res \<times> 's" where
  "supabase_start_otp http g email s =
     (case gateway_post http g ''/auth/v1/otp''
             (JObj [(lit ''email'', JStr email), (lit ''create_user'', JBool True)]) False s of
        (Inl e, s') \<Rightarrow> (Inl e, s')
      | (Inr _, s') \<Rightarrow> (Inr (), s'))"

text \<open>\<open>value[key]\<close> on decoded JSON: \<open>KeyError\<close> or \<open>TypeError\<close> is \<open>None\<close>.\<close>

definition json_item :: "json \<Rightarrow> string \<Rightarrow> json option" where
  "json_item v key = (case v of JObj ms \<Rightarrow> map_of ms (lit key) | _ \<Rightarrow> None)"

definition supabase_identity :: "json option \<Rightarrow> auth_identity res" where
  "supabase_identity body =
     (case body of
        None \<Rightarrow> Inl AuthGatewayUnavailableError
      | Some v \<Rightarrow>
          (case json_item v ''user'' of
             None \<Rightarrow> Inl AuthGatewayUnavailableError
           | Some user \<Rightarrow>
               (case (json_item user ''id'', json_item user ''email'') of
                  (Some (JStr user_id), Some (JStr user_email)) \<Rightarrow>
                    Inr \<lparr>ai_user_id = user_id, ai_email = user_email\<rparr>
                | _ \<Rightarrow> Inl AuthGatewayUnavailableError)))"

definition supabase_verify_otp ::
    "'s http_client \<Rightarrow> supabase_gateway \<Rightarrow> pystr \<Rightarrow> pystr \<Rightarrow> 's \<Rightarrow> auth_identity res \<times> 's" where
  "supabase_verify_otp http g email otp s =
     (case gateway_post http g ''/auth/v1/verify''
             (JObj [(lit ''email'', JStr email), (lit ''token'', JStr otp), (lit ''type'', JStr (lit ''email''))]) True s of
        (Inl e, s') \<Rightarrow> (Inl e, s')
      | (Inr body, s') \<Rightarrow> (supabase_identity body, s'))"

definition supabase_auth_gateway :: "'s http_client \<Rightarrow> supabase_gateway \<Rightarrow> 's auth_gateway" where
  "supabase_auth_gateway http g =
     \<lparr>gw_start_otp = supabase_start_otp http g, gw_verify_otp = supabase_verify_otp http g\<rparr>"

section \<open>The deterministic email gateway\<close>

definition deterministic_otp :: "(bytes \<Rightarrow> bytes) \<Rightarrow> pystr \<Rightarrow> pystr res" where
  "deterministic_otp sha256 email =
     bind_res (encode_utf8 (lit ''otp:'' @ email))
       (\<lambda>bs. Inr (dec_pad 6 (from_bytes (take 4 (sha256 bs)) mod 1000000)))"

definition deterministic_user_id :: "(bytes \<Rightarrow> bytes) \<Rightarrow> pystr \<Rightarrow> pystr res" where
  "deterministic_user_id sha256 email =
     bind_res (encode_utf8 (lit ''user:'' @ email)) (\<lambda>bs. Inr (take 32 (hexdigest (sha256 bs))))"

record fake_gateway =
  fg_otps :: "(pystr, pystr) dict"
  fg_requested_emails :: "pystr list"

definition require_test_environment :: "pystr \<Rightarrow> unit res" where
  "require_test_environment app_env = (if app_env \<noteq> lit ''test'' then Inl ConfigurationError else Inr ())"

definition new_fake_gateway :: "pystr \<Rightarrow> fake_gateway res" where
  "new_fake_gateway app_env =
     bind_res (require_test_environment app_env) (\<lambda>_. Inr \<lparr>fg_otps = [], fg_requested_emails = []\<rparr>)"

definition otp_for :: "pystr \<Rightarrow> fake_gateway \<Rightarrow> pystr res" where
  "otp_for email g = (case dict_get (fg_otps g) email of None \<Rightarrow> Inl InvalidOtpError | Some otp \<Rightarrow> Inr otp)"

definition fake_start_otp :: "(bytes \<Rightarrow> bytes) \<Rightarrow> pystr \<Rightarrow> fake_gateway \<Rightarrow> unit res \<times> fake_gateway" where
  "fake_start_otp sha256 email g =
     (case deterministic_otp sha256 email of
        Inl e \<Rightarrow> (Inl e, g)
      | Inr otp \<Rightarrow>
          (Inr (), \<lparr>fg_otps = dict_set email otp (fg_otps g), fg_requested_emails = fg_requested_emails g @ [email]\<rparr>))"

text \<open>\<open>hmac.compare_digest\<close> of texts: \<open>TypeError\<close> unless both are ASCII.\<close>

definition compare_text :: "pystr \<Rightarrow> pystr \<Rightarrow> bool res" where
  "compare_text a b = (if list_all (\<lambda>c. c < 128) a \<and> list_all (\<lambda>c. c < 128) b then Inr (a = b) else Inl TypeError)"

definition fake_verify_otp ::
    "(bytes \<Rightarrow> bytes) \<Rightarrow> pystr \<Rightarrow> pystr \<Rightarrow> fake_gateway \<Rightarrow> auth_identity res \<times> fake_gateway" where
  "fake_verify_otp sha256 email otp g =
     (case dict_get (fg_otps g) email of
        None \<Rightarrow> (Inl InvalidOtpError, g)
      | Some expected \<Rightarrow>
          (case compare_text expected otp of
             Inl e \<Rightarrow> (Inl e, g)
           | Inr False \<Rightarrow> (Inl InvalidOtpError, g)
           | Inr True \<Rightarrow>
               (bind_res (deterministic_user_id sha256 email)
                  (\<lambda>user_id. Inr \<lparr>ai_user_id = user_id, ai_email = email\<rparr>),
                g\<lparr>fg_otps := dict_del email (fg_otps g)\<rparr>)))"

definition fake_auth_gateway :: "(bytes \<Rightarrow> bytes) \<Rightarrow> fake_gateway auth_gateway" where
  "fake_auth_gateway sha256 = \<lparr>gw_start_otp = fake_start_otp sha256, gw_verify_otp = fake_verify_otp sha256\<rparr>"

datatype gateway_choice = FakeGateway fake_gateway | SupabaseGateway supabase_gateway

definition create_auth_gateway :: "pystr \<Rightarrow> pystr \<Rightarrow> pystr option \<Rightarrow> pystr option \<Rightarrow> gateway_choice res" where
  "create_auth_gateway app_env adapter supabase_url supabase_publishable_key =
     (if adapter = lit ''fake'' then bind_res (new_fake_gateway app_env) (\<lambda>g. Inr (FakeGateway g))
      else case (supabase_url, supabase_publishable_key) of
          (Some url, Some key) \<Rightarrow>
            if adapter = lit ''supabase'' \<and> url \<noteq> [] \<and> key \<noteq> []
            then Inr (SupabaseGateway (new_supabase_gateway url key)) else Inl ConfigurationError
        | _ \<Rightarrow> Inl ConfigurationError)"

section \<open>TURN credentials\<close>

record turn_credential_request =
  tq_account_id :: pystr
  tq_device_id :: pystr
  tq_transfer_id :: pystr
  tq_ttl_seconds :: int

record turn_credentials =
  tu_urls :: "pystr list"
  tu_username :: pystr
  tu_credential :: pystr
  tu_expires_at :: int

text \<open>\<open>issue_credentials\<close> of a provider.\<close>

type_synonym 's turn_provider = "turn_credential_request \<Rightarrow> 's \<Rightarrow> turn_credentials res \<times> 's"

definition disabled_issue_credentials :: "'s turn_provider" where
  "disabled_issue_credentials request s = (Inl TurnCredentialProviderError, s)"

definition CLOUDFLARE_MAX_TTL_SECONDS :: int where "CLOUDFLARE_MAX_TTL_SECONDS = 48 * 60 * 60"

definition printable :: "pystr \<Rightarrow> bool" where
  "printable s \<longleftrightarrow> list_all (\<lambda>c. \<not> (c < 32 \<or> c = 127)) s"

definition required_turn_text :: "pystr \<Rightarrow> pystr res" where
  "required_turn_text value =
     (if py_strip value = [] then Inl ConfigurationError
      else let normalized = py_strip value in if printable normalized then Inr normalized else Inl ConfigurationError)"

definition turn_scope_identifier :: "(bytes \<Rightarrow> bytes) \<Rightarrow> turn_credential_request \<Rightarrow> pystr res" where
  "turn_scope_identifier sha256 request =
     bind_res (encode_utf8 (lit ''turn:'' @ tq_account_id request @ [0] @ tq_device_id request @ [0] @ tq_transfer_id request))
       (\<lambda>bs. Inr (hexdigest (sha256 bs)))"

definition validate_turn_request :: "turn_credential_request \<Rightarrow> unit res" where
  "validate_turn_request request =
     (if py_strip (tq_account_id request) = [] \<or> py_strip (tq_device_id request) = [] \<or>
         py_strip (tq_transfer_id request) = [] then Inl ValueError
      else if tq_ttl_seconds request \<le> 0 then Inl ValueError
      else if tq_ttl_seconds request > CLOUDFLARE_MAX_TTL_SECONDS then Inl ValueError
      else Inr ())"

fun ice_urls_loop :: "(pystr \<Rightarrow> bool) \<Rightarrow> pystr list \<Rightarrow> pystr list res" where
  "ice_urls_loop netloc_ok [] = Inr []"
| "ice_urls_loop netloc_ok (url # urls) =
     (if py_strip url = [] then Inl TurnCredentialProviderError
      else case urlsplit_scheme netloc_ok url of
          Inl _ \<Rightarrow> Inl TurnCredentialProviderError
        | Inr scheme \<Rightarrow>
            if scheme \<notin> {lit ''stun'', lit ''turn'', lit ''turns''} then Inl TurnCredentialProviderError
            else bind_res (ice_urls_loop netloc_ok urls) (\<lambda>rest. Inr (url # rest)))"

fun json_texts :: "json list \<Rightarrow> pystr list option" where
  "json_texts [] = Some []"
| "json_texts (JStr s # vs) = map_option (\<lambda>rest. s # rest) (json_texts vs)"
| "json_texts (_ # vs) = None"

definition ice_urls :: "(pystr \<Rightarrow> bool) \<Rightarrow> json \<Rightarrow> pystr list res" where
  "ice_urls netloc_ok value =
     (case (case value of JStr s \<Rightarrow> Some [s] | JArr vs \<Rightarrow> json_texts vs | _ \<Rightarrow> None) of
        None \<Rightarrow> Inl TurnCredentialProviderError
      | Some values \<Rightarrow>
          bind_res (ice_urls_loop netloc_ok values)
            (\<lambda>normalized. if normalized = [] then Inl TurnCredentialProviderError else Inr normalized))"

text \<open>\<open>mapping.get(key)\<close>, and the state of the loop over the servers of a response.\<close>

definition json_get :: "(pystr \<times> json) list \<Rightarrow> string \<Rightarrow> json" where
  "json_get ms key = (case map_of ms (lit key) of None \<Rightarrow> JNull | Some v \<Rightarrow> v)"

record parsed_servers =
  ps_urls :: "pystr list"
  ps_username :: "pystr option"
  ps_credential :: "pystr option"
  ps_has_turn_url :: bool

definition add_url :: "(pystr \<Rightarrow> bool) \<Rightarrow> pystr \<Rightarrow> parsed_servers \<Rightarrow> parsed_servers" where
  "add_url netloc_ok url st =
     st\<lparr>ps_urls := (if url \<in> set (ps_urls st) then ps_urls st else ps_urls st @ [url]),
        ps_has_turn_url := (ps_has_turn_url st \<or>
          urlsplit_scheme netloc_ok url \<in> {Inr (lit ''turn''), Inr (lit ''turns'')})\<rparr>"

definition parse_server :: "(pystr \<Rightarrow> bool) \<Rightarrow> json \<Rightarrow> parsed_servers \<Rightarrow> parsed_servers res" where
  "parse_server netloc_ok raw_server st =
     (case raw_server of
        JObj ms \<Rightarrow>
          bind_res (ice_urls netloc_ok (json_get ms ''urls'')) (\<lambda>server_urls.
            let st1 = fold (add_url netloc_ok) server_urls st
            in case (json_get ms ''username'', json_get ms ''credential'') of
                 (JNull, JNull) \<Rightarrow> Inr st1
               | (JStr username, JStr credential) \<Rightarrow>
                   if username = [] \<or> credential = [] then Inl TurnCredentialProviderError
                   else if ps_username st1 \<noteq> None \<and> ps_username st1 \<noteq> Some username then Inl TurnCredentialProviderError
                   else if ps_credential st1 \<noteq> None \<and> ps_credential st1 \<noteq> Some credential
                   then Inl TurnCredentialProviderError
                   else Inr (st1\<lparr>ps_username := Some username, ps_credential := Some credential\<rparr>)
               | _ \<Rightarrow> Inl TurnCredentialProviderError)
      | _ \<Rightarrow> Inl TurnCredentialProviderError)"

fun parse_servers :: "(pystr \<Rightarrow> bool) \<Rightarrow> json list \<Rightarrow> parsed_servers \<Rightarrow> parsed_servers res" where
  "parse_servers netloc_ok [] st = Inr st"
| "parse_servers netloc_ok (v # vs) st = bind_res (parse_server netloc_ok v st) (parse_servers netloc_ok vs)"

definition parse_cloudflare_credentials :: "(pystr \<Rightarrow> bool) \<Rightarrow> json \<Rightarrow> (pystr list \<times> pystr \<times> pystr) res" where
  "parse_cloudflare_credentials netloc_ok payload =
     (case payload of
        JObj ms \<Rightarrow>
          (case json_get ms ''iceServers'' of
             JArr raw_servers \<Rightarrow>
               if raw_servers = [] then Inl TurnCredentialProviderError
               else bind_res (parse_servers netloc_ok raw_servers
                      \<lparr>ps_urls = [], ps_username = None, ps_credential = None, ps_has_turn_url = False\<rparr>) (\<lambda>st.
                 case (ps_username st, ps_credential st) of
                   (Some username, Some credential) \<Rightarrow>
                     if ps_urls st = [] \<or> \<not> ps_has_turn_url st then Inl TurnCredentialProviderError
                     else Inr (ps_urls st, username, credential)
                 | _ \<Rightarrow> Inl TurnCredentialProviderError)
           | _ \<Rightarrow> Inl TurnCredentialProviderError)
      | _ \<Rightarrow> Inl TurnCredentialProviderError)"

record cloudflare_provider =
  cp_turn_key_id :: pystr
  cp_api_token :: pystr

text \<open>The constructor, with the default timeout.\<close>

definition new_cloudflare_provider :: "pystr \<Rightarrow> pystr \<Rightarrow> cloudflare_provider res" where
  "new_cloudflare_provider turn_key_id api_token =
     bind_res (required_turn_text turn_key_id) (\<lambda>key.
     bind_res (required_turn_text api_token) (\<lambda>token. Inr \<lparr>cp_turn_key_id = key, cp_api_token = token\<rparr>))"

text \<open>\<open>now_ms\<close> is \<open>int(self._clock() * 1_000)\<close>.\<close>

definition cloudflare_issue_credentials ::
    "'s http_client \<Rightarrow> (bytes \<Rightarrow> bytes) \<Rightarrow> (pystr \<Rightarrow> bool) \<Rightarrow> int \<Rightarrow> cloudflare_provider \<Rightarrow> 's turn_provider" where
  "cloudflare_issue_credentials http sha256 netloc_ok now_ms p request s =
     (case bind_res (validate_turn_request request) (\<lambda>_.
           bind_res (quote (cp_turn_key_id p)) (\<lambda>key_id.
           bind_res (turn_scope_identifier sha256 request) (\<lambda>scope. Inr (key_id, scope)))) of
        Inl e \<Rightarrow> (Inl e, s)
      | Inr (key_id, scope) \<Rightarrow>
          (case http (lit ''https://rtc.live.cloudflare.com/v1/turn/keys/'' @ key_id @ lit ''/credentials/generate-ice-servers'')
                  [(lit ''Accept'', lit ''application/json''), (lit ''Authorization'', lit ''Bearer '' @ cp_api_token p),
                   (lit ''Content-Type'', lit ''application/json'')]
                  (JObj [(lit ''ttl'', JInt (tq_ttl_seconds request)), (lit ''customIdentifier'', JStr scope)]) s of
             (None, s') \<Rightarrow> (Inl TurnCredentialProviderError, s')
           | (Some (code, body), s') \<Rightarrow>
               (if \<not> (200 \<le> code \<and> code < 300) then Inl TurnCredentialProviderError
                else case body of
                    None \<Rightarrow> Inl TurnCredentialProviderError
                  | Some payload \<Rightarrow>
                      bind_res (parse_cloudflare_credentials netloc_ok payload) (\<lambda>(urls, username, credential).
                        Inr \<lparr>tu_urls = urls, tu_username = username, tu_credential = credential,
                             tu_expires_at = now_ms + tq_ttl_seconds request * 1000\<rparr>), s')))"

definition FAKE_EPOCH_MS :: int where "FAKE_EPOCH_MS = 1700000000000"

definition FAKE_TURN_URLS :: "pystr list" where
  "FAKE_TURN_URLS = [lit ''stun:turn.test.invalid'', lit ''turn:turn.test.invalid?transport=udp'']"

text \<open>The substitute provider keeps the requests it received.\<close>

definition new_fake_turn_provider :: "pystr \<Rightarrow> turn_credential_request list res" where
  "new_fake_turn_provider app_env = bind_res (require_test_environment app_env) (\<lambda>_. Inr [])"

definition fake_issue_credentials :: "(bytes \<Rightarrow> bytes) \<Rightarrow> turn_credential_request list turn_provider" where
  "fake_issue_credentials sha256 request requests =
     (if tq_ttl_seconds request \<le> 0 then (Inl ValueError, requests)
      else (bind_res (encode_utf8 (lit ''turn:'' @ tq_account_id request @ [58] @ tq_device_id request @ [58] @
                        tq_transfer_id request)) (\<lambda>bs.
              let digest = hexdigest (sha256 bs)
              in Inr \<lparr>tu_urls = FAKE_TURN_URLS, tu_username = lit ''test-'' @ take 16 digest,
                      tu_credential = take 32 (drop 16 digest),
                      tu_expires_at = FAKE_EPOCH_MS + tq_ttl_seconds request * 1000\<rparr>),
            requests @ [request]))"

datatype turn_choice =
    FakeTurn "turn_credential_request list"
  | DisabledTurn
  | CloudflareTurn cloudflare_provider

definition create_turn_credential_provider :: "pystr \<Rightarrow> pystr \<Rightarrow> pystr option \<Rightarrow> pystr option \<Rightarrow> turn_choice res" where
  "create_turn_credential_provider app_env adapter turn_key_id api_token =
     (if adapter = lit ''fake'' then bind_res (new_fake_turn_provider app_env) (\<lambda>rs. Inr (FakeTurn rs))
      else if adapter = lit ''disabled'' then Inr DisabledTurn
      else if adapter = lit ''cloudflare'' then
        (case (turn_key_id, api_token) of
           (Some key, Some token) \<Rightarrow> bind_res (new_cloudflare_provider key token) (\<lambda>p. Inr (CloudflareTurn p))
         | _ \<Rightarrow> Inl ConfigurationError)
      else Inl ConfigurationError)"

section \<open>Lemmas on the response parser\<close>

definition ice_scheme :: "(pystr \<Rightarrow> bool) \<Rightarrow> pystr \<Rightarrow> pystr list \<Rightarrow> bool" where
  "ice_scheme netloc_ok url schemes \<longleftrightarrow> (\<exists>x\<in>set schemes. urlsplit_scheme netloc_ok url = Inr x)"

lemma ice_urls_loop_Inr:
  "ice_urls_loop ok us = Inr rs \<Longrightarrow>
     rs = us \<and> (\<forall>u\<in>set us. ice_scheme ok u [lit ''stun'', lit ''turn'', lit ''turns''])"
proof (induction us arbitrary: rs)
  case (Cons u us)
  then obtain scheme rest where "urlsplit_scheme ok u = Inr scheme" "scheme \<in> {lit ''stun'', lit ''turn'', lit ''turns''}"
    "ice_urls_loop ok us = Inr rest" "rs = u # rest"
    by (auto simp: bind_res_Inr split: if_splits sum.splits)
  then show ?case using Cons.IH by (auto simp: ice_scheme_def)
qed simp

lemma ice_urls_Inr:
  assumes "ice_urls ok v = Inr rs"
  shows "\<forall>u\<in>set rs. ice_scheme ok u [lit ''stun'', lit ''turn'', lit ''turns'']"
  using assms ice_urls_loop_Inr by (fastforce simp: ice_urls_def bind_res_Inr split: option.splits json.splits if_splits)

text \<open>What holds of the loop's state over the servers it has read.\<close>

definition servers_ok :: "(pystr \<Rightarrow> bool) \<Rightarrow> parsed_servers \<Rightarrow> bool" where
  "servers_ok ok st \<longleftrightarrow>
     distinct (ps_urls st) \<and> (\<forall>u\<in>set (ps_urls st). ice_scheme ok u [lit ''stun'', lit ''turn'', lit ''turns'']) \<and>
     (ps_has_turn_url st \<longleftrightarrow> (\<exists>u\<in>set (ps_urls st). ice_scheme ok u [lit ''turn'', lit ''turns''])) \<and>
     ps_username st \<noteq> Some [] \<and> ps_credential st \<noteq> Some []"

lemma servers_ok_add:
  assumes "servers_ok ok st" and "ice_scheme ok u [lit ''stun'', lit ''turn'', lit ''turns'']"
  shows "servers_ok ok (add_url ok u st)"
  using assms by (auto simp: servers_ok_def add_url_def ice_scheme_def)

lemma servers_ok_fold:
  assumes "servers_ok ok st" and "\<forall>u\<in>set us. ice_scheme ok u [lit ''stun'', lit ''turn'', lit ''turns'']"
  shows "servers_ok ok (fold (add_url ok) us st)"
  using assms by (induction us arbitrary: st) (simp_all add: servers_ok_add)

lemma fold_add_url:
  "ps_username (fold (add_url ok) us st) = ps_username st" "ps_credential (fold (add_url ok) us st) = ps_credential st"
  "set (ps_urls (fold (add_url ok) us st)) = set (ps_urls st) \<union> set us"
  by (induction us arbitrary: st) (auto simp: add_url_def)

definition server_credentials :: "json \<Rightarrow> (pystr \<times> pystr) option" where
  "server_credentials v =
     (case v of JObj ms \<Rightarrow>
        (case (json_get ms ''username'', json_get ms ''credential'') of (JStr u, JStr c) \<Rightarrow> Some (u, c) | _ \<Rightarrow> None)
      | _ \<Rightarrow> None)"

definition agreed :: "parsed_servers \<Rightarrow> parsed_servers \<Rightarrow> bool" where
  "agreed st st' \<longleftrightarrow> (ps_username st \<noteq> None \<longrightarrow> ps_username st' = ps_username st) \<and>
     (ps_credential st \<noteq> None \<longrightarrow> ps_credential st' = ps_credential st)"

lemma parse_server_Inr:
  assumes "parse_server ok v st = Inr st'" and "servers_ok ok st"
  shows "servers_ok ok st' \<and> agreed st st' \<and>
    (\<forall>u c. server_credentials v = Some (u, c) \<longrightarrow> ps_username st' = Some u \<and> ps_credential st' = Some c)"
proof -
  obtain ms us where v: "v = JObj ms" "ice_urls ok (json_get ms ''urls'') = Inr us"
    using assms(1) by (auto simp: parse_server_def bind_res_Inr split: json.splits)
  define st1 where "st1 = fold (add_url ok) us st"
  have st1: "servers_ok ok st1" "ps_username st1 = ps_username st" "ps_credential st1 = ps_credential st"
    unfolding st1_def by (simp_all add: servers_ok_fold assms(2) ice_urls_Inr [OF v(2)] fold_add_url)
  consider (none) "json_get ms ''username'' = JNull" "json_get ms ''credential'' = JNull" "st' = st1"
    | (some) u c where "json_get ms ''username'' = JStr u" "json_get ms ''credential'' = JStr c" "u \<noteq> []" "c \<noteq> []"
        "ps_username st1 = None \<or> ps_username st1 = Some u" "ps_credential st1 = None \<or> ps_credential st1 = Some c"
        "st' = st1\<lparr>ps_username := Some u, ps_credential := Some c\<rparr>"
    using assms(1) v by (auto simp: parse_server_def Let_def st1_def split: json.splits if_splits)
  then show ?thesis
  proof cases
    case none
    then show ?thesis using st1 v(1) by (simp add: agreed_def server_credentials_def)
  next
    case some
    then show ?thesis using st1 v(1) by (auto simp: agreed_def server_credentials_def servers_ok_def)
  qed
qed

lemma parse_servers_Inr:
  "parse_servers ok vs st = Inr st' \<Longrightarrow> servers_ok ok st \<Longrightarrow>
     servers_ok ok st' \<and> agreed st st' \<and>
     (\<forall>v\<in>set vs. \<forall>u c. server_credentials v = Some (u, c) \<longrightarrow> ps_username st' = Some u \<and> ps_credential st' = Some c)"
proof (induction vs arbitrary: st)
  case Nil
  then show ?case by (simp add: agreed_def)
next
  case (Cons v vs)
  then obtain st1 where st1: "parse_server ok v st = Inr st1" "parse_servers ok vs st1 = Inr st'"
    by (auto simp: bind_res_Inr)
  note first = parse_server_Inr [OF st1(1) Cons.prems(2)]
  note rest = Cons.IH [OF st1(2) first [THEN conjunct1]]
  have "agreed st st'" using first rest unfolding agreed_def by metis
  moreover have "ps_username st' = Some u \<and> ps_credential st' = Some c" if "server_credentials v = Some (u, c)" for u c
    using first rest that unfolding agreed_def by (metis option.distinct(1))
  ultimately show ?case using rest by auto
qed

text \<open>
  The credentials taken from a Cloudflare response are usable and unambiguous.  When the parser
  answers, the addresses are distinct STUN or TURN addresses with at least one TURN address among
  them, the user name and the credential are not empty, and every server of the response that gives
  credentials gives exactly these.
\<close>

theorem cloudflare_credentials_sound:
  assumes "parse_cloudflare_credentials ok payload = Inr (urls, username, credential)"
  shows "distinct urls \<and> (\<forall>u\<in>set urls. ice_scheme ok u [lit ''stun'', lit ''turn'', lit ''turns'']) \<and>
    (\<exists>u\<in>set urls. ice_scheme ok u [lit ''turn'', lit ''turns'']) \<and> username \<noteq> [] \<and> credential \<noteq> [] \<and>
    (\<exists>ms servers. payload = JObj ms \<and> json_get ms ''iceServers'' = JArr servers \<and>
       (\<forall>v\<in>set servers. server_credentials v \<in> {None, Some (username, credential)}))"
proof -
  let ?st = "\<lparr>ps_urls = [], ps_username = None, ps_credential = None, ps_has_turn_url = False\<rparr>"
  obtain ms servers where p: "payload = JObj ms" "json_get ms ''iceServers'' = JArr servers"
    using assms by (auto simp: parse_cloudflare_credentials_def split: json.splits)
  obtain st where st: "parse_servers ok servers ?st = Inr st" "ps_username st = Some username"
      "ps_credential st = Some credential" "ps_has_turn_url st" "urls = ps_urls st"
    using assms unfolding p parse_cloudflare_credentials_def json.case p(2)
    by (auto simp: bind_res_Inr split: if_splits) (auto split: option.splits if_splits)
  have "servers_ok ok ?st" by (simp add: servers_ok_def)
  note law = parse_servers_Inr [OF st(1) this]
  have "server_credentials v \<in> {None, Some (username, credential)}" if "v \<in> set servers" for v
    using law that st(2,3) by (cases "server_credentials v") auto
  then show ?thesis using law st p unfolding servers_ok_def by auto
qed

definition sample_servers :: "json list" where
  "sample_servers =
     [JObj [(lit ''urls'', JArr [JStr (lit ''stun:s.example''), JStr (lit ''turn:t.example'')])],
      JObj [(lit ''urls'', JStr (lit ''turns:t.example'')), (lit ''username'', JStr (lit ''u'')),
            (lit ''credential'', JStr (lit ''c''))]]"

theorem cloudflare_credentials_sound_witness:
  "parse_cloudflare_credentials (\<lambda>_. True) (JObj [(lit ''iceServers'', JArr sample_servers)]) =
     Inr ([lit ''stun:s.example'', lit ''turn:t.example'', lit ''turns:t.example''], lit ''u'', lit ''c'') \<and>
   distinct [lit ''stun:s.example'', lit ''turn:t.example'', lit ''turns:t.example'']"
proof -
  have r: "parse_cloudflare_credentials (\<lambda>_. True) (JObj [(lit ''iceServers'', JArr sample_servers)]) =
     Inr ([lit ''stun:s.example'', lit ''turn:t.example'', lit ''turns:t.example''], lit ''u'', lit ''c'')"
    by code_simp
  then show ?thesis using cloudflare_credentials_sound [OF r] by blast
qed

end
