(* ===== verification/EmailAuth.thy ===== *)
theory EmailAuth
  imports Adapters DeviceRepo RateLimit SessionApi TicketRepo
begin

text \<open>
  Signing in by email, \<open>app/auth.py\<close>: normalisation of addresses, the account stores on the repository
  and in memory, the one-time bootstrap state, \<open>OtpBootstrapService\<close> and its two routes.  The Unicode
  tables behind \<open>unicodedata.normalize\<close> and \<open>str.casefold\<close> are parameters, as are HMAC, SHA-256 and the
  random source.
\<close>

section \<open>Addresses\<close>

record unicode_tables =
  un_nfkc :: "pystr \<Rightarrow> pystr"
  un_casefold :: "pystr \<Rightarrow> pystr"

fun has_empty_label :: "pystr \<Rightarrow> bool" where
  "has_empty_label (a # b # s) = (a = 46 \<and> b = 46 \<or> has_empty_label (b # s))"
| "has_empty_label _ = False"

definition normalize_email :: "unicode_tables \<Rightarrow> pystr \<Rightarrow> pystr res" where
  "normalize_email un value =
     (let normalized = un_casefold un (py_strip (un_nfkc un value))
      in if \<not> (3 \<le> length normalized \<and> length normalized \<le> 320) then Inl ValueError
         else if list_ex (\<lambda>c. py_isspace c \<or> c < 32) normalized then Inl ValueError
         else if length (filter (\<lambda>c. c = 64) normalized) \<noteq> 1 then Inl ValueError
         else let local_part = takeWhile (\<lambda>c. c \<noteq> 64) normalized;
                  domain = drop (Suc (length local_part)) normalized
              in if local_part = [] \<or> domain = [] \<or> hd domain = 46 \<or> last domain = 46 then Inl ValueError
                 else if has_empty_label local_part \<or> has_empty_label domain then Inl ValueError
                 else if 46 \<notin> set domain then Inl ValueError
                 else if list_ex (\<lambda>c. c \<in> set (lit ''()<>[],;:'' @ [92, 34])) normalized then Inl ValueError
                 else Inr normalized)"

definition network_fingerprint ::
    "unicode_tables \<Rightarrow> (bytes \<Rightarrow> bytes \<Rightarrow> bytes) \<Rightarrow> pystr \<Rightarrow> bytes \<Rightarrow> bytes res" where
  "network_fingerprint un hmac network_identifier secret =
     (if secret = [] then Inl ValueError
      else let stripped = un_casefold un (py_strip network_identifier);
               normalized = (if stripped = [] then lit ''unknown'' else stripped)
           in bind_res (encode_utf8 normalized) (\<lambda>bs. Inr (hmac secret bs)))"

section \<open>Accounts\<close>

text \<open>
  What the services use of an account store.  A creation takes the database's reading of the clock and
  the identifier it generated; \<open>created_at\<close> is what the service passes.
\<close>

record 's account_port =
  ap_get_or_create :: "instant \<Rightarrow> uuid \<Rightarrow> uuid \<Rightarrow> pystr \<Rightarrow> instant \<Rightarrow> 's \<Rightarrow> account res \<times> 's"
  ap_get_by_id :: "uuid \<Rightarrow> 's \<Rightarrow> account option"
  ap_get_by_email :: "pystr \<Rightarrow> 's \<Rightarrow> account option"
  ap_mark_email_fallback :: "uuid \<Rightarrow> instant \<Rightarrow> 's \<Rightarrow> account option res \<times> 's"

definition repository_get_or_create ::
    "(uuid \<Rightarrow> bool) \<Rightarrow> instant \<Rightarrow> uuid \<Rightarrow> uuid \<Rightarrow> pystr \<Rightarrow> instant \<Rightarrow> db \<Rightarrow> account res \<times> db" where
  "repository_get_or_create known now fresh supabase_user_id email_normalized created_at d =
     (case acc_get_by_supabase_user_id supabase_user_id d of
        Some account \<Rightarrow>
          if ac_email_normalized account \<noteq> email_normalized then (Inl ValueError, d) else (Inr account, d)
      | None \<Rightarrow>
          (case acc_get_by_email email_normalized d of
             Some existing \<Rightarrow>
               if ac_supabase_user_id existing \<noteq> supabase_user_id then (Inl ValueError, d) else (Inr existing, d)
           | None \<Rightarrow> acc_create known now fresh supabase_user_id email_normalized d))"

definition repository_accounts :: "(uuid \<Rightarrow> bool) \<Rightarrow> db account_port" where
  "repository_accounts known =
     \<lparr>ap_get_or_create = repository_get_or_create known, ap_get_by_id = acc_get_by_id,
      ap_get_by_email = acc_get_by_email, ap_mark_email_fallback = mark_email_fallback\<rparr>"

record memory_accounts =
  ma_by_identity :: "(uuid, account) dict"
  ma_by_email :: "(pystr, account) dict"

definition empty_memory_accounts :: memory_accounts where
  "empty_memory_accounts = \<lparr>ma_by_identity = [], ma_by_email = []\<rparr>"

definition memory_store :: "account \<Rightarrow> memory_accounts \<Rightarrow> memory_accounts" where
  "memory_store account st =
     \<lparr>ma_by_identity = dict_set (ac_supabase_user_id account) account (ma_by_identity st),
      ma_by_email = dict_set (ac_email_normalized account) account (ma_by_email st)\<rparr>"

definition memory_get_or_create ::
    "instant \<Rightarrow> uuid \<Rightarrow> uuid \<Rightarrow> pystr \<Rightarrow> instant \<Rightarrow> memory_accounts \<Rightarrow> account res \<times> memory_accounts" where
  "memory_get_or_create now fresh supabase_user_id email_normalized created_at st =
     (case dict_get (ma_by_identity st) supabase_user_id of
        Some account \<Rightarrow>
          if ac_email_normalized account \<noteq> email_normalized then (Inl ValueError, st) else (Inr account, st)
      | None \<Rightarrow>
          (case dict_get (ma_by_email st) email_normalized of
             Some existing \<Rightarrow>
               if ac_supabase_user_id existing \<noteq> supabase_user_id then (Inl ValueError, st) else (Inr existing, st)
           | None \<Rightarrow>
               let account = new_account created_at fresh supabase_user_id email_normalized
               in (Inr account, memory_store account st)))"

definition memory_get_by_id :: "uuid \<Rightarrow> memory_accounts \<Rightarrow> account option" where
  "memory_get_by_id account_id st = find (\<lambda>a. ac_id a = account_id) (dict_values (ma_by_identity st))"

definition memory_get_by_email :: "pystr \<Rightarrow> memory_accounts \<Rightarrow> account option" where
  "memory_get_by_email email_normalized st =
     (case dict_get (ma_by_email st) email_normalized of
        None \<Rightarrow> None
      | Some account \<Rightarrow> if ac_deleted_at account \<noteq> None then None else Some account)"

definition memory_mark_email_fallback ::
    "uuid \<Rightarrow> instant \<Rightarrow> memory_accounts \<Rightarrow> account option res \<times> memory_accounts" where
  "memory_mark_email_fallback account_id t st =
     (case memory_get_by_id account_id st of
        None \<Rightarrow> (Inr None, st)
      | Some account \<Rightarrow>
          if ac_deleted_at account \<noteq> None then (Inr None, st)
          else let updated = account\<lparr>ac_email_fallback_at := Some t\<rparr> in (Inr (Some updated), memory_store updated st))"

definition memory_account_port :: "memory_accounts account_port" where
  "memory_account_port =
     \<lparr>ap_get_or_create = memory_get_or_create, ap_get_by_id = memory_get_by_id,
      ap_get_by_email = memory_get_by_email, ap_mark_email_fallback = memory_mark_email_fallback\<rparr>"

section \<open>Bootstrap state\<close>

record bootstrap_credentials =
  bc_bootstrap_id :: uuid
  bc_token :: pystr
  bc_account_id :: uuid
  bc_email_normalized :: pystr
  bc_device_epoch :: int
  bc_expires_at :: instant

record bootstrap_state =
  bs_bootstrap_id :: uuid
  bs_token_hash :: bytes
  bs_account_id :: uuid
  bs_email_normalized :: pystr
  bs_device_epoch :: int
  bs_expires_at :: instant

type_synonym bootstrap_store = "(bytes, bootstrap_state) dict"

definition BOOTSTRAP_LIFETIME :: int where "BOOTSTRAP_LIFETIME = minutes 10"

definition bootstrap_credentials_of :: "pystr \<Rightarrow> bootstrap_state \<Rightarrow> bootstrap_credentials" where
  "bootstrap_credentials_of token state =
     \<lparr>bc_bootstrap_id = bs_bootstrap_id state, bc_token = token, bc_account_id = bs_account_id state,
      bc_email_normalized = bs_email_normalized state, bc_device_epoch = bs_device_epoch state,
      bc_expires_at = bs_expires_at state\<rparr>"

definition bootstrap_issue ::
    "(bytes \<Rightarrow> bytes) \<Rightarrow> (nat \<Rightarrow> bytes) \<Rightarrow> uuid \<Rightarrow> account \<Rightarrow> instant \<Rightarrow> bootstrap_store \<Rightarrow>
     bootstrap_credentials res \<times> bootstrap_store" where
  "bootstrap_issue sha256 random fresh account issued_at st =
     (case bind_res (new_opaque_token random SESSION_TOKEN_BYTES) (\<lambda>token.
           bind_res (hash_secret sha256 token) (\<lambda>token_hash.
             Inr (token, \<lparr>bs_bootstrap_id = fresh, bs_token_hash = token_hash, bs_account_id = ac_id account,
                          bs_email_normalized = ac_email_normalized account, bs_device_epoch = ac_device_epoch account,
                          bs_expires_at = issued_at + BOOTSTRAP_LIFETIME\<rparr>))) of
        Inl e \<Rightarrow> (Inl e, st)
      | Inr (token, state) \<Rightarrow> (Inr (bootstrap_credentials_of token state), dict_set (bs_token_hash state) state st))"

definition bootstrap_consume ::
    "(bytes \<Rightarrow> bytes) \<Rightarrow> instant \<Rightarrow> pystr \<Rightarrow> bootstrap_store \<Rightarrow> bootstrap_credentials option res \<times> bootstrap_store" where
  "bootstrap_consume sha256 now token st =
     (case hash_secret sha256 token of
        Inl e \<Rightarrow> (Inl e, st)
      | Inr token_hash \<Rightarrow>
          (case dict_get st token_hash of
             None \<Rightarrow> (Inr None, st)
           | Some state \<Rightarrow>
               (if bs_expires_at state \<le> now then Inr None else Inr (Some (bootstrap_credentials_of token state)),
                dict_del token_hash st)))"

definition bootstrap_peek ::
    "(bytes \<Rightarrow> bytes) \<Rightarrow> instant \<Rightarrow> pystr \<Rightarrow> bootstrap_store \<Rightarrow> bootstrap_credentials option res" where
  "bootstrap_peek sha256 now token st =
     bind_res (hash_secret sha256 token) (\<lambda>token_hash.
       case dict_get st token_hash of
         None \<Rightarrow> Inr None
       | Some state \<Rightarrow>
           if bs_expires_at state \<le> now then Inr None else Inr (Some (bootstrap_credentials_of token state)))"

section \<open>The service\<close>

text \<open>\<open>allow_many\<close> of the configured limiter.\<close>

type_synonym 's limiter = "instant \<Rightarrow> (pystr \<times> pystr \<times> int \<times> int) list \<Rightarrow> 's \<Rightarrow> bool res \<times> 's"

record 's otp_service =
  os_gateway :: "'s auth_gateway"
  os_accounts :: "'s account_port"
  os_allow_many :: "'s limiter"

definition OTP_WINDOW :: int where "OTP_WINDOW = minutes 10"

definition otp_requests :: "pystr \<Rightarrow> pystr \<Rightarrow> bool \<Rightarrow> (pystr \<times> pystr \<times> int \<times> int) list" where
  "otp_requests email_normalized network_identifier verify =
     [(lit (if verify then ''otp:verify:email'' else ''otp:start:email''), email_normalized,
         if verify then 5 else 3, OTP_WINDOW),
      (lit (if verify then ''otp:verify:network'' else ''otp:start:network''), network_identifier,
         if verify then 20 else 10, OTP_WINDOW)]"

definition otp_allow :: "'s otp_service \<Rightarrow> instant \<Rightarrow> pystr \<Rightarrow> pystr \<Rightarrow> bool \<Rightarrow> 's \<Rightarrow> bool res \<times> 's" where
  "otp_allow sv now email_normalized network_identifier verify s =
     os_allow_many sv now (otp_requests email_normalized network_identifier verify) s"

definition service_start_otp ::
    "unicode_tables \<Rightarrow> 's otp_service \<Rightarrow> instant \<Rightarrow> pystr \<Rightarrow> pystr \<Rightarrow> 's \<Rightarrow> pystr res \<times> 's" where
  "service_start_otp un sv now email network_identifier s =
     (case normalize_email un email of
        Inl e \<Rightarrow> (Inl e, s)
      | Inr normalized \<Rightarrow>
          bind_st (otp_allow sv now normalized network_identifier False s) (\<lambda>allowed s1.
            if \<not> allowed then (Inl OtpRateLimitedError, s1)
            else bind_st (gw_start_otp (os_gateway sv) normalized s1) (\<lambda>_ s2. (Inr normalized, s2))))"

text \<open>\<open>except (InvalidOtpError, ValueError, TypeError)\<close> around the answer of the provider.\<close>

definition accepted_identity ::
    "unicode_tables \<Rightarrow> pystr \<Rightarrow> auth_identity res \<Rightarrow> uuid res" where
  "accepted_identity un normalized answer =
     (case bind_res answer (\<lambda>identity.
           case uuid_parse (ai_user_id identity) of
             None \<Rightarrow> Inl ValueError
           | Some identity_id \<Rightarrow>
               bind_res (normalize_email un (ai_email identity)) (\<lambda>identity_email.
                 if identity_email \<noteq> normalized then Inl OtpInvalidError else Inr identity_id)) of
        Inl e \<Rightarrow> Inl (if is_ValueError e \<or> e = TypeError then OtpInvalidError else e)
      | Inr identity_id \<Rightarrow> Inr identity_id)"

text \<open>
  \<open>clk 0\<close> is read for the limit, \<open>clk 1\<close> after the verification, \<open>clk 2\<close> is the reading of the account
  store; \<open>fresh\<close> gives the identifiers of a new account and of the bootstrap state.
\<close>

definition service_verify_otp ::
    "unicode_tables \<Rightarrow> 's otp_service \<Rightarrow> (bytes \<Rightarrow> bytes) \<Rightarrow> (nat \<Rightarrow> bytes) \<Rightarrow> clock \<Rightarrow> (nat \<Rightarrow> uuid) \<Rightarrow> pystr \<Rightarrow>
     pystr \<Rightarrow> pystr \<Rightarrow> 's \<times> bootstrap_store \<Rightarrow> bootstrap_credentials res \<times> ('s \<times> bootstrap_store)" where
  "service_verify_otp un sv sha256 random clk fresh email otp network_identifier sb =
     (case sb of (s, st) \<Rightarrow>
      case normalize_email un email of
        Inl e \<Rightarrow> (Inl e, sb)
      | Inr normalized \<Rightarrow>
          if \<not> (1 \<le> length (py_strip otp) \<and> length (py_strip otp) \<le> 64) then (Inl OtpInvalidError, sb)
          else (case otp_allow sv (clk 0) normalized network_identifier True s of
              (Inl e, s1) \<Rightarrow> (Inl e, (s1, st))
            | (Inr False, s1) \<Rightarrow> (Inl OtpRateLimitedError, (s1, st))
            | (Inr True, s1) \<Rightarrow>
                (case gw_verify_otp (os_gateway sv) normalized (py_strip otp) s1 of (answer, s2) \<Rightarrow>
                 case accepted_identity un normalized answer of
                   Inl e \<Rightarrow> (Inl e, (s2, st))
                 | Inr identity_id \<Rightarrow>
                     (case ap_get_or_create (os_accounts sv) (clk 2) (fresh 0) identity_id normalized (clk 1) s2 of
                        (Inl e, s3) \<Rightarrow> (Inl e, (s3, st))
                      | (Inr account, s3) \<Rightarrow>
                          (case bootstrap_issue sha256 random (fresh 1) account (clk 1) st of
                             (out, st') \<Rightarrow> (out, (s3, st')))))))"

section \<open>Routes\<close>

text \<open>
  \<open>_service_from_request\<close> and \<open>get_auth_gateway\<close> find what the lifespan installed.  The bodies are what
  the schemas let through: lengths within their bounds.
\<close>

definition network_identifier :: "pystr option \<Rightarrow> pystr" where
  "network_identifier host = (case host of None \<Rightarrow> lit ''unknown'' | Some h \<Rightarrow> if h = [] then lit ''unknown'' else h)"

definition otp_error :: "exc \<Rightarrow> exc" where
  "otp_error e =
     (if e = OtpRateLimitedError then HTTPException 429 else if is_ValueError e then HTTPException 400 else e)"

definition start_otp_route ::
    "'r request \<Rightarrow> pystr option \<Rightarrow> unicode_tables \<Rightarrow> 's otp_service \<Rightarrow> instant \<Rightarrow> pystr \<Rightarrow> 's \<Rightarrow> pyval res \<times> 's" where
  "start_otp_route rq host un sv now email s =
     (case check_optional_origin rq of
        Inl e \<Rightarrow> (Inl e, s)
      | Inr _ \<Rightarrow>
          (case service_start_otp un sv now email (network_identifier host) s of
             (Inl e, s') \<Rightarrow> (Inl (otp_error e), s')
           | (Inr _, s') \<Rightarrow>
               (Inr (PyDict [(lit ''message'',
                  PyStr (lit ''If the email can receive messages, a one-time code has been sent.''))]), s')))"

definition verify_otp_route ::
    "'r request \<Rightarrow> pystr option \<Rightarrow> unicode_tables \<Rightarrow> 's otp_service \<Rightarrow> (bytes \<Rightarrow> bytes) \<Rightarrow> (nat \<Rightarrow> bytes) \<Rightarrow> clock \<Rightarrow>
     (nat \<Rightarrow> uuid) \<Rightarrow> pystr \<Rightarrow> pystr \<Rightarrow> 's \<times> bootstrap_store \<Rightarrow> pyval res \<times> ('s \<times> bootstrap_store)" where
  "verify_otp_route rq host un sv sha256 random clk fresh email otp sb =
     (case check_optional_origin rq of
        Inl e \<Rightarrow> (Inl e, sb)
      | Inr _ \<Rightarrow>
          (case service_verify_otp un sv sha256 random clk fresh email otp (network_identifier host) sb of
             (Inl e, sb') \<Rightarrow> (Inl (otp_error e), sb')
           | (Inr b, sb') \<Rightarrow>
               (Inr (PyDict [(lit ''bootstrap_id'', PyStr (uuid_str (bc_bootstrap_id b))),
                             (lit ''bootstrap_token'', PyStr (bc_token b)),
                             (lit ''account_id'', PyStr (uuid_str (bc_account_id b))),
                             (lit ''device_epoch'', PyInt (bc_device_epoch b)),
                             (lit ''expires_at'', PyTime (bc_expires_at b))]), sb')))"

section \<open>Wiring\<close>

text \<open>
  The services \<open>lifespan\<close> of \<open>app/main.py\<close> builds: on the database and Supabase, with \<open>'w\<close> the state of
  the provider, and the test application on the in-memory stores.
\<close>

definition on_fst :: "('a \<Rightarrow> 'b \<times> 'a) \<Rightarrow> 'a \<times> 'c \<Rightarrow> 'b \<times> ('a \<times> 'c)" where
  "on_fst f = (\<lambda>(a, c). case f a of (b, a') \<Rightarrow> (b, (a', c)))"

definition on_snd :: "('c \<Rightarrow> 'b \<times> 'c) \<Rightarrow> 'a \<times> 'c \<Rightarrow> 'b \<times> ('a \<times> 'c)" where
  "on_snd f = (\<lambda>(a, c). case f c of (b, c') \<Rightarrow> (b, (a, c')))"

definition accounts_on_fst :: "'s account_port \<Rightarrow> ('s \<times> 'w) account_port" where
  "accounts_on_fst port =
     \<lparr>ap_get_or_create = (\<lambda>now fresh u e t. on_fst (ap_get_or_create port now fresh u e t)),
      ap_get_by_id = (\<lambda>i s. ap_get_by_id port i (fst s)),
      ap_get_by_email = (\<lambda>e s. ap_get_by_email port e (fst s)),
      ap_mark_email_fallback = (\<lambda>i t. on_fst (ap_mark_email_fallback port i t))\<rparr>"

definition gateway_on_snd :: "'w auth_gateway \<Rightarrow> ('s \<times> 'w) auth_gateway" where
  "gateway_on_snd gw =
     \<lparr>gw_start_otp = (\<lambda>e. on_snd (gw_start_otp gw e)), gw_verify_otp = (\<lambda>e c. on_snd (gw_verify_otp gw e c))\<rparr>"

definition production_otp_service ::
    "(uuid \<Rightarrow> bool) \<Rightarrow> (bytes \<Rightarrow> bytes \<Rightarrow> bytes) \<Rightarrow> bytes \<Rightarrow> 'w http_client \<Rightarrow> supabase_gateway \<Rightarrow> (db \<times> 'w) otp_service" where
  "production_otp_service known hmac secret http g =
     \<lparr>os_gateway = gateway_on_snd (supabase_auth_gateway http g),
      os_accounts = accounts_on_fst (repository_accounts known),
      os_allow_many = (\<lambda>now rs. on_fst (persistent_allow_many hmac secret now rs))\<rparr>"

definition test_otp_service ::
    "(bytes \<Rightarrow> bytes) \<Rightarrow> (bytes \<Rightarrow> bytes \<Rightarrow> bytes) \<Rightarrow> ((memory_accounts \<times> buckets) \<times> fake_gateway) otp_service" where
  "test_otp_service sha256 hmac =
     \<lparr>os_gateway = gateway_on_snd (fake_auth_gateway sha256),
      os_accounts = accounts_on_fst (accounts_on_fst memory_account_port),
      os_allow_many = (\<lambda>now rs. on_fst (on_snd (rl_allow_many hmac (lit ''test-rate-limit-secret'') now rs)))\<rparr>"

section \<open>Contracts\<close>

text \<open>What the services rely on in an account store: \<open>accounts s\<close> are the accounts it can return.\<close>

locale account_store =
  fixes port :: "'s account_port" and inv :: "'s \<Rightarrow> bool" and accounts :: "'s \<Rightarrow> account set"
  assumes created: "inv s \<Longrightarrow> ap_get_or_create port now fresh u e t s = (Inr a, s') \<Longrightarrow>
      inv s' \<and> accounts s \<subseteq> accounts s' \<and> a \<in> accounts s' \<and> ac_supabase_user_id a = u \<and> ac_email_normalized a = e"
    and found: "inv s \<Longrightarrow> ap_get_by_id port i s = Some a \<Longrightarrow> a \<in> accounts s \<and> ac_id a = i"

locale otp_login = account_store "os_accounts sv" inv accounts
  for sv :: "'s otp_service" and inv :: "'s \<Rightarrow> bool" and accounts :: "'s \<Rightarrow> account set" +
  assumes limiter_keeps: "inv s \<Longrightarrow> os_allow_many sv now rs s = (r, s') \<Longrightarrow> inv s' \<and> accounts s' = accounts s"
    and gateway_keeps: "inv s \<Longrightarrow> gw_verify_otp (os_gateway sv) e c s = (r', s') \<Longrightarrow> inv s' \<and> accounts s' = accounts s"
begin

lemma verified:
  assumes "inv s" and "service_verify_otp un sv sha256 random clk fresh email otp net (s, st) = (Inr b, (s', st'))"
  shows "\<exists>normalized identity u a s1 s2.
    normalize_email un email = Inr normalized \<and>
    os_allow_many sv (clk 0) (otp_requests normalized net True) s = (Inr True, s1) \<and>
    gw_verify_otp (os_gateway sv) normalized (py_strip otp) s1 = (Inr identity, s2) \<and>
    uuid_parse (ai_user_id identity) = Some u \<and> normalize_email un (ai_email identity) = Inr normalized \<and>
    a \<in> accounts s' \<and> accounts s \<subseteq> accounts s' \<and> ac_supabase_user_id a = u \<and> ac_email_normalized a = normalized \<and>
    bootstrap_issue sha256 random (fresh 1) a (clk 1) st = (Inr b, st')"
proof -
  obtain normalized s1 answer s2 u a where
    n: "normalize_email un email = Inr normalized"
    and l: "os_allow_many sv (clk 0) (otp_requests normalized net True) s = (Inr True, s1)"
    and g: "gw_verify_otp (os_gateway sv) normalized (py_strip otp) s1 = (answer, s2)"
    and i: "accepted_identity un normalized answer = Inr u"
    and c: "ap_get_or_create (os_accounts sv) (clk 2) (fresh 0) u normalized (clk 1) s2 = (Inr a, s')"
    and b: "bootstrap_issue sha256 random (fresh 1) a (clk 1) st = (Inr b, st')"
    using assms(2)
    by (auto simp: service_verify_otp_def otp_allow_def split: sum.splits if_splits prod.splits bool.splits)
  obtain identity where id: "answer = Inr identity" "uuid_parse (ai_user_id identity) = Some u"
      "normalize_email un (ai_email identity) = Inr normalized"
    using i by (cases answer) (auto simp: accepted_identity_def bind_res_Inr split: option.splits if_splits sum.splits)
  have "inv s2" "accounts s2 = accounts s"
    using limiter_keeps [OF assms(1) l] gateway_keeps [OF _ g] by auto
  then show ?thesis using created [OF _ c] n l g id b by metis
qed

end

subsection \<open>The repository\<close>

lemma on_fst_eq: "on_fst f s = (r, s') \<longleftrightarrow> f (fst s) = (r, fst s') \<and> snd s' = snd s"
  by (cases s; cases s') (auto simp: on_fst_def split: prod.splits)

lemma on_snd_eq: "on_snd f s = (r, s') \<longleftrightarrow> f (snd s) = (r, snd s') \<and> fst s' = fst s"
  by (cases s; cases s') (auto simp: on_snd_def split: prod.splits)

definition live_accounts :: "db \<Rightarrow> account set" where
  "live_accounts d = {a \<in> set (app_users d). ac_deleted_at a = None}"

lemma acc_lookup:
  "acc_get_by_id i d = Some a \<Longrightarrow> a \<in> live_accounts d \<and> ac_id a = i"
  "acc_get_by_supabase_user_id u d = Some a \<Longrightarrow> a \<in> live_accounts d \<and> ac_supabase_user_id a = u"
  "acc_get_by_email e d = Some a \<Longrightarrow> a \<in> live_accounts d \<and> ac_email_normalized a = e"
  by (auto simp: acc_get_by_id_def acc_get_by_supabase_user_id_def acc_get_by_email_def live_accounts_def sql_select_def
      dest: first_row_SomeD)

lemma repository_get_or_create_law:
  assumes "repository_get_or_create known now fresh u e t d = (Inr a, d')"
  shows "live_accounts d \<subseteq> live_accounts d' \<and> a \<in> live_accounts d' \<and> ac_supabase_user_id a = u \<and> ac_email_normalized a = e"
proof (cases "acc_get_by_supabase_user_id u d")
  case (Some x)
  then show ?thesis using assms acc_lookup(2) [OF Some] by (auto simp: repository_get_or_create_def split: if_splits)
next
  case None
  show ?thesis
  proof (cases "acc_get_by_email e d")
    case (Some x)
    then show ?thesis using assms None acc_lookup(3) [OF Some] by (auto simp: repository_get_or_create_def split: if_splits)
  next
    case email: None
    then have "acc_create known now fresh u e d = (Inr a, d')"
      using assms None by (simp add: repository_get_or_create_def)
    then have "a = new_account now fresh u e" "app_users d' = app_users d @ [a]"
      by (auto simp: acc_create_def required_Inr tbl_insert_Inr)
    then show ?thesis by (auto simp: live_accounts_def new_account_def)
  qed
qed

lemma same_buckets [simp]: "\<exists>t. d = d\<lparr>rate_limit_buckets := t\<rparr>" for d :: db
  by (rule exI [of _ "rate_limit_buckets d"]) simp

lemma bucket_upsert_tables: "\<exists>t. snd (bucket_upsert new f d) = d\<lparr>rate_limit_buckets := t\<rparr>"
  unfolding bucket_upsert_def Let_def by (auto split: prod.split sum.split)

lemma consume_write_tables: "\<exists>t. snd (consume_write now w d) = d\<lparr>rate_limit_buckets := t\<rparr>"
proof -
  have up: "\<exists>t. d' = d\<lparr>rate_limit_buckets := t\<rparr>" if "bucket_upsert new f d = (r, d')" for new f r d'
    using bucket_upsert_tables [of new f d] that by simp
  show ?thesis
    using up unfolding consume_write_def by (auto split: prod.splits option.splits sum.splits)
qed

lemma consume_writes_tables: "\<exists>t. snd (consume_writes now ws d) = d\<lparr>rate_limit_buckets := t\<rparr>"
proof (induction ws arbitrary: d)
  case (Cons w ws)
  obtain r d1 where w: "consume_write now w d = (r, d1)" by fastforce
  obtain t where t: "d1 = d\<lparr>rate_limit_buckets := t\<rparr>" using consume_write_tables [of now w d] w by auto
  obtain u where "snd (consume_writes now ws d1) = d1\<lparr>rate_limit_buckets := u\<rparr>" using Cons.IH by blast
  then show ?case using w t by (auto split: sum.split)
qed simp

text \<open>The persistent limiter writes to its own table only.\<close>

lemma persistent_allow_many_tables:
  assumes "persistent_allow_many hmac secret now rs d = (r, d')"
  obtains t where "d' = d\<lparr>rate_limit_buckets := t\<rparr>"
proof -
  have "\<exists>t. d1 = d\<lparr>rate_limit_buckets := t\<rparr>" if "consume_writes now ws d = (x, d1)" for ws x d1
    using consume_writes_tables [of now ws d] that by simp
  then have "\<exists>t. d' = d\<lparr>rate_limit_buckets := t\<rparr>"
    using assms unfolding persistent_allow_many_def consume_many_def
    by (auto split: if_splits sum.splits option.splits prod.splits)
  then show thesis using that by blast
qed

interpretation sqla: account_store "repository_accounts known" "\<lambda>_. True" live_accounts for known
proof unfold_locales
  fix now fresh u e t and s s' :: db and a
  assume "ap_get_or_create (repository_accounts known) now fresh u e t s = (Inr a, s')"
  then show "True \<and> live_accounts s \<subseteq> live_accounts s' \<and> a \<in> live_accounts s' \<and> ac_supabase_user_id a = u \<and>
      ac_email_normalized a = e"
    using repository_get_or_create_law by (simp add: repository_accounts_def)
qed (use acc_lookup(1) in \<open>simp_all add: repository_accounts_def\<close>)

interpretation prodl: otp_login "production_otp_service known hmac secret http g" "\<lambda>_. True" "\<lambda>s. live_accounts (fst s)"
  for known hmac secret http g
proof unfold_locales
  fix s s' :: "db \<times> 'a" and now rs r
  assume "os_allow_many (production_otp_service known hmac secret http g) now rs s = (r, s')"
  then have "persistent_allow_many hmac secret now rs (fst s) = (r, fst s')"
    by (simp add: production_otp_service_def on_fst_eq)
  then obtain t where "fst s' = (fst s)\<lparr>rate_limit_buckets := t\<rparr>" by (rule persistent_allow_many_tables)
  then show "True \<and> live_accounts (fst s') = live_accounts (fst s)" by (simp add: live_accounts_def)
next
  fix s s' :: "db \<times> 'a" and now fresh u e t a
  assume "ap_get_or_create (os_accounts (production_otp_service known hmac secret http g)) now fresh u e t s = (Inr a, s')"
  then show "True \<and> live_accounts (fst s) \<subseteq> live_accounts (fst s') \<and> a \<in> live_accounts (fst s') \<and>
      ac_supabase_user_id a = u \<and> ac_email_normalized a = e"
    using repository_get_or_create_law [of known now fresh u e t "fst s" a "fst s'"]
    by (simp add: production_otp_service_def accounts_on_fst_def repository_accounts_def on_fst_eq)
qed (use acc_lookup(1) in
      \<open>auto simp: production_otp_service_def accounts_on_fst_def repository_accounts_def gateway_on_snd_def on_fst_eq on_snd_eq\<close>)

subsection \<open>The store in memory\<close>

definition memory_accounts_ok :: "memory_accounts \<Rightarrow> bool" where
  "memory_accounts_ok st \<longleftrightarrow>
     dict_ok (ma_by_identity st) \<and>
     (\<forall>k a. dict_get (ma_by_identity st) k = Some a \<longrightarrow> ac_supabase_user_id a = k) \<and>
     (\<forall>k a. dict_get (ma_by_email st) k = Some a \<longrightarrow>
        ac_email_normalized a = k \<and> dict_get (ma_by_identity st) (ac_supabase_user_id a) = Some a)"

definition memory_account_set :: "memory_accounts \<Rightarrow> account set" where
  "memory_account_set st = ran (dict_get (ma_by_identity st))"

lemma memory_created:
  assumes "memory_accounts_ok st" and "memory_get_or_create now fresh u e t st = (Inr a, st')"
  shows "memory_accounts_ok st' \<and> memory_account_set st \<subseteq> memory_account_set st' \<and> a \<in> memory_account_set st' \<and>
    ac_supabase_user_id a = u \<and> ac_email_normalized a = e"
proof (cases "dict_get (ma_by_identity st) u")
  case (Some x)
  then have "a = x" "st' = st" "ac_email_normalized a = e" using assms(2) by (auto simp: memory_get_or_create_def split: if_splits)
  then show ?thesis using assms(1) Some by (auto simp: memory_accounts_ok_def memory_account_set_def ran_def)
next
  case None
  show ?thesis
  proof (cases "dict_get (ma_by_email st) e")
    case (Some x)
    then have "a = x" "st' = st" "ac_supabase_user_id a = u"
      using assms(2) None by (auto simp: memory_get_or_create_def split: if_splits)
    moreover have "dict_get (ma_by_identity st) (ac_supabase_user_id x) = Some x"
      using assms(1) Some by (simp add: memory_accounts_ok_def)
    ultimately show ?thesis using None by simp
  next
    case email: None
    then have a: "a = new_account t fresh u e" "st' = memory_store a st"
      using assms(2) None by (auto simp: memory_get_or_create_def Let_def)
    then have f: "ac_supabase_user_id a = u" "ac_email_normalized a = e" by (simp_all add: new_account_def)
    have d: "dict_get (ma_by_identity st') = (dict_get (ma_by_identity st))(u \<mapsto> a)"
      "dict_get (ma_by_email st') = (dict_get (ma_by_email st))(e \<mapsto> a)"
      using a(2) f by (simp_all add: memory_store_def)
    have "dict_ok (ma_by_identity st')" using assms(1) a(2) by (simp add: memory_store_def memory_accounts_ok_def)
    then have "memory_accounts_ok st'"
      using assms(1) None f unfolding memory_accounts_ok_def d by (auto, metis option.distinct(1))
    moreover have "memory_account_set st \<subseteq> memory_account_set st'" "a \<in> memory_account_set st'"
      using None unfolding memory_account_set_def d by (simp_all add: subset_insertI)
    ultimately show ?thesis using f by blast
  qed
qed

lemma memory_found:
  assumes "memory_accounts_ok st" and "memory_get_by_id i st = Some a"
  shows "a \<in> memory_account_set st \<and> ac_id a = i"
proof -
  have "a \<in> set (dict_values (ma_by_identity st))" "ac_id a = i"
    using assms(2) by (auto simp: memory_get_by_id_def find_Some_iff)
  moreover from this(1) obtain k where "(k, a) \<in> set (ma_by_identity st)" by (auto simp: dict_values_def)
  then have "dict_get (ma_by_identity st) k = Some a"
    using assms(1) by (simp add: memory_accounts_ok_def dict_get_iff)
  ultimately show ?thesis by (auto simp: memory_account_set_def ran_def)
qed

interpretation mema: account_store memory_account_port memory_accounts_ok memory_account_set
  using memory_created memory_found by unfold_locales (simp_all add: memory_account_port_def)

interpretation testl: otp_login "test_otp_service sha256 hmac" "\<lambda>s. memory_accounts_ok (fst (fst s))"
  "\<lambda>s. memory_account_set (fst (fst s))" for sha256 hmac
proof unfold_locales
  fix s s' :: "(memory_accounts \<times> buckets) \<times> fake_gateway" and now fresh u e t a
  assume "memory_accounts_ok (fst (fst s))"
    "ap_get_or_create (os_accounts (test_otp_service sha256 hmac)) now fresh u e t s = (Inr a, s')"
  then show "memory_accounts_ok (fst (fst s')) \<and> memory_account_set (fst (fst s)) \<subseteq> memory_account_set (fst (fst s')) \<and>
      a \<in> memory_account_set (fst (fst s')) \<and> ac_supabase_user_id a = u \<and> ac_email_normalized a = e"
    using memory_created [of "fst (fst s)" now fresh u e t a "fst (fst s')"]
    by (simp add: test_otp_service_def accounts_on_fst_def memory_account_port_def on_fst_eq)
qed (use memory_found in
      \<open>auto simp: test_otp_service_def accounts_on_fst_def memory_account_port_def gateway_on_snd_def on_fst_eq on_snd_eq\<close>)

section \<open>Bootstrap tokens\<close>

text \<open>A history of the bootstrap store: issuing, consuming and reading, under the digest of the token.\<close>

datatype bootstrap_op =
    BsIssue "nat \<Rightarrow> bytes" uuid account instant
  | BsConsume instant pystr
  | BsPeek instant pystr

fun bootstrap_step :: "(bytes \<Rightarrow> bytes) \<Rightarrow> bootstrap_op \<Rightarrow> bootstrap_store \<Rightarrow> bytes option \<times> bootstrap_store" where
  "bootstrap_step sha256 (BsIssue random fresh account t) st = (None, snd (bootstrap_issue sha256 random fresh account t st))"
| "bootstrap_step sha256 (BsConsume now token) st =
     (case bootstrap_consume sha256 now token st of
        (Inr (Some b), st') \<Rightarrow> (Some (sha256 token), st')
      | (_, st') \<Rightarrow> (None, st'))"
| "bootstrap_step sha256 (BsPeek now token) st = (None, st)"

fun bootstrap_made :: "(bytes \<Rightarrow> bytes) \<Rightarrow> bootstrap_op \<Rightarrow> bytes list" where
  "bootstrap_made sha256 (BsIssue random fresh account t) = [sha256 (encode_base64url (random 32))]"
| "bootstrap_made sha256 _ = []"

definition open_bootstraps :: "bootstrap_store \<Rightarrow> bytes set" where
  "open_bootstraps st = dom (dict_get st)"

lemma bootstrap_issue_Inr:
  assumes "bootstrap_issue sha256 random fresh a t st = (Inr b, st')"
  shows "bc_token b = encode_base64url (random 32)" and "bc_bootstrap_id b = fresh" and "bc_account_id b = ac_id a"
    and "bc_email_normalized b = ac_email_normalized a" and "bc_device_epoch b = ac_device_epoch a"
    and "bc_expires_at b = t + BOOTSTRAP_LIFETIME"
    and "\<exists>x. b = bootstrap_credentials_of (bc_token b) x \<and> bs_expires_at x = bc_expires_at b \<and>
           hash_secret sha256 (bc_token b) = Inr (sha256 (bc_token b)) \<and> st' = dict_set (sha256 (bc_token b)) x st"
  using assms
  by (auto simp: bootstrap_issue_def bind_res_Inr new_opaque_token_def SESSION_TOKEN_BYTES_def bootstrap_credentials_of_def
      hash_secret_def encode_ascii_def split: sum.splits if_splits)

lemma bootstrap_consume_issued:
  assumes "bootstrap_issue sha256 random fresh a t st = (Inr b, st')"
  shows "\<exists>st''. bootstrap_consume sha256 now (bc_token b) st' = (Inr (if now < bc_expires_at b then Some b else None), st'') \<and>
           bootstrap_consume sha256 now' (bc_token b) st'' = (Inr None, st'')"
proof -
  obtain x where "b = bootstrap_credentials_of (bc_token b) x" "bs_expires_at x = bc_expires_at b"
      "hash_secret sha256 (bc_token b) = Inr (sha256 (bc_token b))" "st' = dict_set (sha256 (bc_token b)) x st"
    using bootstrap_issue_Inr(7) [OF assms] by blast
  then show ?thesis by (auto simp: bootstrap_consume_def)
qed

interpretation boot: single_use "bootstrap_step sha256" "bootstrap_made sha256" open_bootstraps "\<lambda>_. True" for sha256
proof unfold_locales
  fix s op i s'
  assume "bootstrap_step sha256 op s = (Some i, s')"
  then show "i \<in> open_bootstraps s \<and> open_bootstraps s' \<subseteq> open_bootstraps s - {i}"
    by (cases op)
       (auto simp: bootstrap_consume_def open_bootstraps_def hash_secret_Inr split: prod.splits sum.splits option.splits if_splits)
next
  fix s op s'
  assume *: "bootstrap_step sha256 op s = (None, s')"
  show "open_bootstraps s' \<subseteq> open_bootstraps s \<union> set (bootstrap_made sha256 op)"
  proof (cases op)
    case (BsIssue random fresh account t)
    obtain r where r: "bootstrap_issue sha256 random fresh account t s = (r, s')" using * BsIssue by (metis bootstrap_step.simps(1) prod.collapse snd_conv)
    show ?thesis
    proof (cases r)
      case (Inl e)
      then show ?thesis using r by (auto simp: bootstrap_issue_def split: sum.splits)
    next
      case (Inr b)
      then show ?thesis using bootstrap_issue_Inr(1,7) [of sha256 random fresh account t s b s'] r BsIssue
        by (auto simp: open_bootstraps_def split: if_splits)
    qed
  qed (use * in \<open>auto simp: bootstrap_consume_def open_bootstraps_def split: prod.splits sum.splits option.splits if_splits\<close>)
qed simp

section \<open>Properties\<close>

text \<open>
  C15.  A verified email code yields bootstrap state for exactly that address.  When \<open>verify_otp\<close> answers,
  in production, Supabase confirmed the code for the normalised address, inside the limits, and its
  identity has that address; the credentials name a live account bound to that identity and that
  address, and no other account is lost; they carry the account's epoch and ten minutes of life;
  their token can be consumed once, before the deadline, and never again.
\<close>

theorem otp_verification_sound:
  assumes "service_verify_otp un (production_otp_service known hmac secret http g) sha256 random clk fresh email otp net
      ((d, w), st) = (Inr b, ((d', w'), st'))"
  shows "\<exists>normalized identity a d1 w1.
    normalize_email un email = Inr normalized \<and>
    persistent_allow_many hmac secret (clk 0) (otp_requests normalized net True) d = (Inr True, d1) \<and>
    supabase_verify_otp http g normalized (py_strip otp) w = (Inr identity, w1) \<and>
    normalize_email un (ai_email identity) = Inr normalized \<and> uuid_parse (ai_user_id identity) = Some (ac_supabase_user_id a) \<and>
    a \<in> live_accounts d' \<and> live_accounts d \<subseteq> live_accounts d' \<and> ac_email_normalized a = normalized \<and>
    bc_account_id b = ac_id a \<and> bc_device_epoch b = ac_device_epoch a \<and> bc_expires_at b = clk 1 + minutes 10 \<and>
    (\<forall>now now'. \<exists>st''.
       bootstrap_consume sha256 now (bc_token b) st' = (Inr (if now < bc_expires_at b then Some b else None), st'') \<and>
       bootstrap_consume sha256 now' (bc_token b) st'' = (Inr None, st''))"
proof -
  let ?sv = "production_otp_service known hmac secret http g"
  obtain normalized identity u a s1 s2 where v: "normalize_email un email = Inr normalized"
    "os_allow_many ?sv (clk 0) (otp_requests normalized net True) (d, w) = (Inr True, s1)"
    "gw_verify_otp (os_gateway ?sv) normalized (py_strip otp) s1 = (Inr identity, s2)"
    "uuid_parse (ai_user_id identity) = Some u" "normalize_email un (ai_email identity) = Inr normalized"
    "a \<in> live_accounts d'" "live_accounts d \<subseteq> live_accounts d'" "ac_supabase_user_id a = u" "ac_email_normalized a = normalized"
    and i: "bootstrap_issue sha256 random (fresh 1) a (clk 1) st = (Inr b, st')"
    using prodl.verified [OF TrueI assms] by auto
  have "persistent_allow_many hmac secret (clk 0) (otp_requests normalized net True) d = (Inr True, fst s1)" "snd s1 = w"
    using v(2) by (simp_all add: production_otp_service_def on_fst_eq)
  moreover have "supabase_verify_otp http g normalized (py_strip otp) (snd s1) = (Inr identity, snd s2)"
    using v(3) by (simp add: production_otp_service_def gateway_on_snd_def supabase_auth_gateway_def on_snd_eq)
  ultimately show ?thesis
    using v(1,4-9) bootstrap_issue_Inr(3,5,6) [OF i] bootstrap_consume_issued [OF i]
    unfolding BOOTSTRAP_LIFETIME_def by blast
qed

text \<open>
  A provider that confirms every code, on tables without Unicode rules for the ASCII address of the
  sample account.
\<close>

definition ascii_tables :: unicode_tables where
  "ascii_tables = \<lparr>un_nfkc = (\<lambda>s. s), un_casefold = map ascii_lower\<rparr>"

definition confirming_http :: "pystr list http_client" where
  "confirming_http url headers body seen =
     (Some (200, Some (JObj [(lit ''user'', JObj [(lit ''id'', JStr (uuid_str 2)), (lit ''email'', JStr (lit ''Ann@relay.example''))])])),
      seen @ [url])"

definition sample_login ::
    "bootstrap_credentials res \<times> ((db \<times> pystr list) \<times> bootstrap_store)" where
  "sample_login =
     service_verify_otp ascii_tables
       (production_otp_service (\<lambda>_. True) toy_hmac [7] confirming_http (new_supabase_gateway (lit ''https://s.example/'') [1]))
       sample_sha (sample_random 0) (\<lambda>_. 5) (\<lambda>i. 20 + i) (lit '' ann@Relay.example'') (lit ''123456'') (lit ''host'')
       ((empty_db, []), [])"

lemma sample_login_answers: "\<not> isl (fst sample_login)"
  unfolding sample_login_def by code_simp

theorem otp_verification_sound_witness:
  "\<exists>b d' w' st'. sample_login = (Inr b, ((d', w'), st')) \<and>
     (\<exists>st''. bootstrap_consume sample_sha 6 (bc_token b) st' = (Inr (Some b), st'') \<and>
        bootstrap_consume sample_sha 7 (bc_token b) st'' = (Inr None, st''))"
proof -
  obtain b d' w' st' where r: "sample_login = (Inr b, ((d', w'), st'))"
    using sample_login_answers by (metis prod.collapse sum.collapse(2))
  note sound = otp_verification_sound [OF r [unfolded sample_login_def]]
  have "bc_expires_at b = 5 + minutes 10"
    and c: "\<forall>now now'. \<exists>st''. bootstrap_consume sample_sha now (bc_token b) st' =
        (Inr (if now < bc_expires_at b then Some b else None), st'') \<and>
      bootstrap_consume sample_sha now' (bc_token b) st'' = (Inr None, st'')"
    using sound by blast+
  then have "6 < bc_expires_at b" by (simp add: time_defs)
  then have "\<exists>st''. bootstrap_consume sample_sha 6 (bc_token b) st' = (Inr (Some b), st'') \<and>
        bootstrap_consume sample_sha 7 (bc_token b) st'' = (Inr None, st'')"
    using c [rule_format, of 6 7] by simp
  then show ?thesis using r by blast
qed

text \<open>
  C16.  Bootstrap tokens work once.  Over any history of issuing, reading and consuming, no token is
  accepted twice and none is accepted that was not issued, as long as the digests of the issued
  tokens are new.
\<close>

theorem bootstrap_single_use:
  assumes "distinct (concat (map (bootstrap_made sha256) ops))"
    and "open_bootstraps st \<inter> set (concat (map (bootstrap_made sha256) ops)) = {}"
  shows "distinct (handed_out (bootstrap_step sha256) ops st) \<and>
    set (handed_out (bootstrap_step sha256) ops st) \<subseteq> open_bootstraps st \<union> set (concat (map (bootstrap_made sha256) ops))"
  by (rule boot.handed_out_once [OF TrueI assms])

definition sample_bootstrap_ops :: "bootstrap_op list" where
  "sample_bootstrap_ops =
     (let token = encode_base64url (sample_random 0 32)
      in [BsIssue (sample_random 0) 8 sample_account 0, BsPeek 1 token, BsConsume 2 token, BsConsume 3 token])"

theorem bootstrap_single_use_witness:
  "length (handed_out (bootstrap_step sample_sha) sample_bootstrap_ops []) = 1 \<and>
   distinct (handed_out (bootstrap_step sample_sha) sample_bootstrap_ops [])"
proof -
  have "concat (map (bootstrap_made sample_sha) sample_bootstrap_ops) = [sample_sha (encode_base64url (sample_random 0 32))]"
    by (simp add: sample_bootstrap_ops_def Let_def)
  moreover have "length (handed_out (bootstrap_step sample_sha) sample_bootstrap_ops []) = 1" by code_simp
  ultimately show ?thesis
    using bootstrap_single_use [of sample_sha sample_bootstrap_ops "[]"] by (simp add: open_bootstraps_def dom_def)
qed

end
