(* ===== verification/DeviceAuth.thy ===== *)
theory DeviceAuth
  imports SecurityEvents EmailAuth
begin

text \<open>
  Device registration, linking and login, \<open>app/device_auth.py\<close>: the store of registration challenges and
  \<open>DeviceAuthService\<close> over the ports of its stores.  Codes, nonces and identifiers come from the inputs of
  a call; the store \<open>'s\<close> behind the ports is shared by the repositories, the limiter and the audit log.
\<close>

section \<open>Inputs and ports\<close>

text \<open>
  What one call draws from its environment: the readings of the clock, the identifiers that
  \<open>uuid4\<close> and the database generated, \<open>secrets.token_bytes\<close> and \<open>secrets.randbelow\<close>.
\<close>

record 'k inputs =
  in_crypto :: "'k crypto"
  in_unicode :: unicode_tables
  in_hmac :: "bytes \<Rightarrow> bytes \<Rightarrow> bytes"
  in_clock :: clock
  in_fresh :: "nat \<Rightarrow> uuid"
  in_random :: "nat \<Rightarrow> nat \<Rightarrow> bytes"
  in_below :: nat

abbreviation in_sha256 :: "'k inputs \<Rightarrow> bytes \<Rightarrow> bytes" where
  "in_sha256 i \<equiv> cr_sha256 (in_crypto i)"

record 's device_service =
  da_accounts :: "'s account_port"
  da_get_device :: "uuid \<Rightarrow> uuid \<Rightarrow> 's \<Rightarrow> device option"
  da_list_devices :: "uuid \<Rightarrow> 's \<Rightarrow> device list"
  da_register_for_email :: "clock \<Rightarrow> uuid \<Rightarrow> int \<Rightarrow> pystr \<Rightarrow> bytes \<Rightarrow> bytes \<Rightarrow> uuid \<Rightarrow> 's \<Rightarrow> device res \<times> 's"
  da_touch_device :: "instant \<Rightarrow> uuid \<Rightarrow> uuid \<Rightarrow> 's \<Rightarrow> device option res \<times> 's"
  da_rename_device :: "uuid \<Rightarrow> uuid \<Rightarrow> pystr \<Rightarrow> 's \<Rightarrow> device option res \<times> 's"
  da_logout_device :: "clock \<Rightarrow> uuid \<Rightarrow> uuid \<Rightarrow> pystr \<Rightarrow> 's \<Rightarrow> device option res \<times> 's"
  da_get_challenge :: "uuid \<Rightarrow> uuid \<Rightarrow> 's \<Rightarrow> device_challenge option"
  da_create_challenge :: "instant \<Rightarrow> uuid \<Rightarrow> uuid \<Rightarrow> uuid \<Rightarrow> bytes \<Rightarrow> pystr \<Rightarrow> instant \<Rightarrow> 's \<Rightarrow> device_challenge res \<times> 's"
  da_consume_challenge :: "instant \<Rightarrow> uuid \<Rightarrow> uuid \<Rightarrow> 's \<Rightarrow> device_challenge option res \<times> 's"
  da_fail_challenge :: "instant \<Rightarrow> uuid \<Rightarrow> uuid \<Rightarrow> 's \<Rightarrow> device_challenge option res \<times> 's"
  da_sessions :: "'s session_port"
  da_create_otp :: "instant \<Rightarrow> uuid \<Rightarrow> uuid \<Rightarrow> uuid \<Rightarrow> bytes \<Rightarrow> instant \<Rightarrow> 's \<Rightarrow> device_linking_otp res \<times> 's"
  da_active_otp :: "instant \<Rightarrow> bytes \<Rightarrow> 's \<Rightarrow> device_linking_otp option res"
  da_fail_otp :: "instant \<Rightarrow> uuid \<Rightarrow> 's \<Rightarrow> device_linking_otp option res \<times> 's"
  da_consume_and_register ::
    "clock \<Rightarrow> uuid \<Rightarrow> uuid \<Rightarrow> uuid \<Rightarrow> int \<Rightarrow> uuid \<Rightarrow> pystr \<Rightarrow> bytes \<Rightarrow> bytes \<Rightarrow> 's \<Rightarrow> device option res \<times> 's"
  da_rate_limiter :: "('s limiter \<times> bytes) option"
  da_security_events ::
    "(instant \<Rightarrow> uuid \<Rightarrow> pystr \<Rightarrow> pystr \<Rightarrow> instant \<Rightarrow> uuid option \<Rightarrow> uuid option \<Rightarrow> bytes option \<Rightarrow> json \<Rightarrow> 's \<Rightarrow>
      security_event res \<times> 's) option"
  da_bootstrap_consumer ::
    "(instant \<Rightarrow> pystr \<Rightarrow> bootstrap_store \<Rightarrow> bootstrap_credentials option res \<times> bootstrap_store) option"
  da_bootstrap_peeker :: "(instant \<Rightarrow> pystr \<Rightarrow> bootstrap_store \<Rightarrow> bootstrap_credentials option res) option"

section \<open>Labels and nonces\<close>

definition MAX_DEVICE_LABEL_LENGTH :: nat where "MAX_DEVICE_LABEL_LENGTH = 100"

definition normalize_device_label :: "pystr \<Rightarrow> pystr res" where
  "normalize_device_label value =
     (let label = py_strip value
      in if \<not> (1 \<le> length label \<and> length label \<le> MAX_DEVICE_LABEL_LENGTH) then Inl ValueError
         else if \<not> printable label then Inl ValueError
         else Inr label)"

definition hash_nonce :: "(bytes \<Rightarrow> bytes) \<Rightarrow> bytes \<Rightarrow> bytes res" where
  "hash_nonce sha256 nonce = (if length nonce \<noteq> 32 then Inl DeviceAuthFailure else Inr (sha256 nonce))"

section \<open>Registration challenges\<close>

definition DEVICE_CHALLENGE_LIFETIME :: int where "DEVICE_CHALLENGE_LIFETIME = minutes 5"

definition REGISTRATION_CHALLENGE_LIFETIME :: int where "REGISTRATION_CHALLENGE_LIFETIME = minutes 10"

record registration_challenge =
  rc_challenge_id :: uuid
  rc_account_id :: uuid
  rc_device_id :: uuid
  rc_epoch :: int
  rc_nonce :: bytes
  rc_origin :: pystr
  rc_issued_at :: instant
  rc_expires_at :: instant
  rc_fingerprint :: bytes
  rc_fallback :: bool
  rc_enrollment_method :: pystr
  rc_linking_otp_id :: "uuid option"
  rc_linked_by_device_id :: "uuid option"

definition rc_payload :: "registration_challenge \<Rightarrow> json res" where
  "rc_payload c =
     registration_payload (uuid_str (rc_challenge_id c)) (uuid_str (rc_account_id c)) (uuid_str (rc_device_id c))
       (rc_epoch c) (rc_nonce c) (rc_origin c) (rc_issued_at c) (rc_expires_at c) (rc_fingerprint c) (rc_fallback c)
       (rc_enrollment_method c)"

record registration_state =
  rs_challenge :: registration_challenge
  rs_public_key_spki :: bytes
  rs_label :: pystr
  rs_attempts :: nat

type_synonym registration_store = "(uuid, registration_state) dict"

definition registration_issue ::
    "'k crypto \<Rightarrow> uuid \<Rightarrow> bytes \<Rightarrow> account \<Rightarrow> uuid \<Rightarrow> bytes \<Rightarrow> pystr \<Rightarrow> pystr \<Rightarrow> bool \<Rightarrow> string \<Rightarrow> uuid option \<Rightarrow> uuid option \<Rightarrow>
     instant \<Rightarrow> registration_store \<Rightarrow> registration_challenge res \<times> registration_store" where
  "registration_issue cr fresh nonce account device_id spki label origin fallback enrollment_method linking_otp_id
       linked_by_device_id issued_at st =
     (case fingerprint_public_key cr spki of
        Inl e \<Rightarrow> (Inl e, st)
      | Inr digest \<Rightarrow>
          let challenge =
            \<lparr>rc_challenge_id = fresh, rc_account_id = ac_id account, rc_device_id = device_id,
             rc_epoch = ac_device_epoch account, rc_nonce = nonce, rc_origin = origin, rc_issued_at = issued_at,
             rc_expires_at = issued_at + REGISTRATION_CHALLENGE_LIFETIME, rc_fingerprint = digest,
             rc_fallback = fallback, rc_enrollment_method = lit enrollment_method, rc_linking_otp_id = linking_otp_id,
             rc_linked_by_device_id = linked_by_device_id\<rparr>
          in (Inr challenge,
              dict_set fresh \<lparr>rs_challenge = challenge, rs_public_key_spki = spki, rs_label = label, rs_attempts = 0\<rparr> st))"

definition registration_get ::
    "instant \<Rightarrow> uuid \<Rightarrow> registration_store \<Rightarrow> registration_state option \<times> registration_store" where
  "registration_get now challenge_id st =
     (case dict_get st challenge_id of
        None \<Rightarrow> (None, st)
      | Some state \<Rightarrow>
          if rc_expires_at (rs_challenge state) \<le> now then (None, dict_del challenge_id st) else (Some state, st))"

definition registration_mark_failed :: "instant \<Rightarrow> uuid \<Rightarrow> registration_store \<Rightarrow> registration_store" where
  "registration_mark_failed now challenge_id st =
     (case dict_get st challenge_id of
        None \<Rightarrow> dict_del challenge_id st
      | Some state \<Rightarrow>
          if rc_expires_at (rs_challenge state) \<le> now then dict_del challenge_id st
          else dict_set challenge_id (state\<lparr>rs_attempts := min (rs_attempts state + 1) 10\<rparr>) st)"

definition registration_consume ::
    "instant \<Rightarrow> uuid \<Rightarrow> registration_store \<Rightarrow> registration_state option \<times> registration_store" where
  "registration_consume now challenge_id st =
     (case dict_get st challenge_id of
        None \<Rightarrow> (None, dict_del challenge_id st)
      | Some state \<Rightarrow>
          (if rc_expires_at (rs_challenge state) \<le> now then None else Some state, dict_del challenge_id st))"

section \<open>The service\<close>

text \<open>The store behind the ports, the registration challenges and the bootstrap state.\<close>

record 's auth_state =
  au_store :: 's
  au_registrations :: registration_store
  au_bootstraps :: bootstrap_store

record device_auth_result =
  ar_account :: account
  ar_device :: device
  ar_session :: created_session
  ar_fallback :: bool

text \<open>\<open>_audit_device_event\<close>: a failure to record is ignored.\<close>

definition DEVICE_LINKING_SECURITY_EVENT_RETENTION :: int where "DEVICE_LINKING_SECURITY_EVENT_RETENTION = days 30"

definition audit_fingerprint :: "'k inputs \<Rightarrow> 's device_service \<Rightarrow> pystr option \<Rightarrow> bytes option" where
  "audit_fingerprint i sv network =
     (case (network, da_rate_limiter sv) of
        (Some net, Some (_, secret)) \<Rightarrow>
          if net = [] then None
          else (case network_fingerprint (in_unicode i) (in_hmac i) net secret of Inl _ \<Rightarrow> None | Inr fp \<Rightarrow> Some fp)
      | _ \<Rightarrow> None)"

definition audit_device_event ::
    "'k inputs \<Rightarrow> 's device_service \<Rightarrow> instant \<Rightarrow> uuid \<Rightarrow> string \<Rightarrow> string \<Rightarrow> instant \<Rightarrow> uuid \<Rightarrow> uuid \<Rightarrow> pystr option \<Rightarrow>
     (pystr \<times> json) list \<Rightarrow> 's \<Rightarrow> 's" where
  "audit_device_event i sv db_now fresh event_type outcome now user_id device_id network details s =
     (case da_security_events sv of
        None \<Rightarrow> s
      | Some create \<Rightarrow>
          snd (create db_now fresh (lit event_type) (lit outcome) (now + DEVICE_LINKING_SECURITY_EVENT_RETENTION)
            (Some user_id) (Some device_id) (audit_fingerprint i sv network) (JObj details) s))"

definition service_allow ::
    "'s device_service \<Rightarrow> (pystr \<times> pystr \<times> int \<times> int) list \<Rightarrow> instant \<Rightarrow> 's \<Rightarrow> bool res \<times> 's" where
  "service_allow sv requests now s =
     (case da_rate_limiter sv of None \<Rightarrow> (Inr True, s) | Some (allow_many, _) \<Rightarrow> allow_many now requests s)"

text \<open>A device that may act for its account: active, at the account's epoch.\<close>

definition active_pair :: "account option \<Rightarrow> device option \<Rightarrow> (account \<times> device) option" where
  "active_pair account device =
     (case (account, device) of
        (Some a, Some v) \<Rightarrow> if dv_status v \<noteq> Active \<or> dv_epoch v \<noteq> ac_device_epoch a then None else Some (a, v)
      | _ \<Rightarrow> None)"

text \<open>\<open>except (DeviceCryptoError, TypeError, ValueError)\<close> around the key and the label.\<close>

definition registration_values :: "'k crypto \<Rightarrow> bytes \<Rightarrow> pystr \<Rightarrow> pystr res" where
  "registration_values cr spki label =
     (case bind_res (fingerprint_public_key cr spki) (\<lambda>_. normalize_device_label label) of
        Inl _ \<Rightarrow> Inl DeviceAuthFailure
      | Inr normalized_label \<Rightarrow> Inr normalized_label)"

definition chosen_id :: "uuid option \<Rightarrow> uuid \<Rightarrow> uuid" where
  "chosen_id device_id fresh = (case device_id of None \<Rightarrow> fresh | Some i \<Rightarrow> i)"

definition issue_registration_challenge ::
    "'k inputs \<Rightarrow> 's device_service \<Rightarrow> pystr \<Rightarrow> bytes \<Rightarrow> pystr \<Rightarrow> pystr \<Rightarrow> uuid option \<Rightarrow> 's auth_state \<Rightarrow>
     registration_challenge res \<times> 's auth_state" where
  "issue_registration_challenge i sv bootstrap_token spki label origin device_id st =
     (case da_bootstrap_consumer sv of
        None \<Rightarrow> (Inl DeviceAuthFailure, st)
      | Some consumer \<Rightarrow>
          (case (case da_bootstrap_peeker sv of
                   Some peeker \<Rightarrow> (peeker (in_clock i 0) bootstrap_token (au_bootstraps st), au_bootstraps st)
                 | None \<Rightarrow> consumer (in_clock i 0) bootstrap_token (au_bootstraps st)) of
             (Inl e, bs) \<Rightarrow> (Inl e, st\<lparr>au_bootstraps := bs\<rparr>)
           | (Inr None, bs) \<Rightarrow> (Inl DeviceAuthFailure, st\<lparr>au_bootstraps := bs\<rparr>)
           | (Inr (Some bootstrap), bs) \<Rightarrow>
               (case ap_get_by_id (da_accounts sv) (bc_account_id bootstrap) (au_store st) of
                  None \<Rightarrow> (Inl DeviceAuthFailure, st\<lparr>au_bootstraps := bs\<rparr>)
                | Some account \<Rightarrow>
                    if ac_device_epoch account \<noteq> bc_device_epoch bootstrap
                    then (Inl DeviceAuthFailure, st\<lparr>au_bootstraps := bs\<rparr>)
                    else (case registration_values (in_crypto i) spki label of
                        Inl e \<Rightarrow> (Inl e, st\<lparr>au_bootstraps := bs\<rparr>)
                      | Inr normalized_label \<Rightarrow>
                          let existing = da_list_devices sv (ac_id account) (au_store st)
                          in case (case da_bootstrap_peeker sv of
                                     Some _ \<Rightarrow> consumer (in_clock i 1) bootstrap_token bs
                                   | None \<Rightarrow> (Inr (Some bootstrap), bs)) of
                               (Inl e, bs') \<Rightarrow> (Inl e, st\<lparr>au_bootstraps := bs'\<rparr>)
                             | (Inr None, bs') \<Rightarrow> (Inl DeviceAuthFailure, st\<lparr>au_bootstraps := bs'\<rparr>)
                             | (Inr (Some _), bs') \<Rightarrow>
                                 (case registration_issue (in_crypto i) (in_fresh i 1) (in_random i 0 32) account
                                         (chosen_id device_id (in_fresh i 0)) spki normalized_label origin (existing \<noteq> [])
                                         ''email'' None None (in_clock i 2) (au_registrations st) of
                                    (out, regs) \<Rightarrow>
                                      (out, st\<lparr>au_registrations := regs, au_bootstraps := bs'\<rparr>))))))"

definition DEVICE_LINKING_RATE_LIMIT_WINDOW :: int where "DEVICE_LINKING_RATE_LIMIT_WINDOW = minutes 10"

definition DEVICE_LINKING_OTP_LIFETIME :: int where "DEVICE_LINKING_OTP_LIFETIME = minutes 10"

definition issue_linking_otp ::
    "'k inputs \<Rightarrow> 's device_service \<Rightarrow> uuid \<Rightarrow> uuid \<Rightarrow> pystr \<Rightarrow> 's auth_state \<Rightarrow>
     (pystr \<times> device_linking_otp) res \<times> 's auth_state" where
  "issue_linking_otp i sv account_id issuing_device_id network st =
     (let s = au_store st; now = in_clock i 0
      in case active_pair (ap_get_by_id (da_accounts sv) account_id s) (da_get_device sv account_id issuing_device_id s) of
           None \<Rightarrow> (Inl DeviceAuthFailure, st)
         | Some _ \<Rightarrow>
             (case service_allow sv
                     [(lit ''device-linking:create:account'', uuid_str account_id, 10, DEVICE_LINKING_RATE_LIMIT_WINDOW),
                      (lit ''device-linking:create:device'', uuid_str issuing_device_id, 5, DEVICE_LINKING_RATE_LIMIT_WINDOW)]
                     now s of
                (Inl e, s1) \<Rightarrow> (Inl e, st\<lparr>au_store := s1\<rparr>)
              | (Inr False, s1) \<Rightarrow>
                  (Inl DeviceLinkingRateLimited,
                   st\<lparr>au_store := audit_device_event i sv (in_clock i 1) (in_fresh i 0) ''rate_limited'' ''blocked'' now
                        account_id issuing_device_id (Some network)
                        [(lit ''scope'', JStr (lit ''device_linking_creation''))] s1\<rparr>)
              | (Inr True, s1) \<Rightarrow>
                  let code = dec_pad 6 (in_below i)
                  in case da_create_otp sv (in_clock i 1) (in_fresh i 0) account_id issuing_device_id (in_sha256 i code)
                            (now + DEVICE_LINKING_OTP_LIFETIME) s1 of
                       (Inl e, s2) \<Rightarrow> (Inl e, st\<lparr>au_store := s2\<rparr>)
                     | (Inr record, s2) \<Rightarrow>
                         (Inr (code, record),
                          st\<lparr>au_store := audit_device_event i sv (in_clock i 2) (in_fresh i 1) ''device_linking_otp_created''
                               ''success'' now account_id issuing_device_id (Some network) [] s2\<rparr>)))"

text \<open>\<open>^[0-9]{6}$\<close>, as \<open>fullmatch\<close> reads it.\<close>

definition linking_code :: "pystr \<Rightarrow> bool" where
  "linking_code s \<longleftrightarrow> length s = 6 \<and> list_all (\<lambda>c. 48 \<le> c \<and> c \<le> 57) s"

definition issue_linking_challenge ::
    "'k inputs \<Rightarrow> 's device_service \<Rightarrow> pystr \<Rightarrow> bytes \<Rightarrow> pystr \<Rightarrow> pystr \<Rightarrow> uuid option \<Rightarrow> pystr \<Rightarrow> 's auth_state \<Rightarrow>
     registration_challenge res \<times> 's auth_state" where
  "issue_linking_challenge i sv code spki label origin device_id network st =
     (let s = au_store st; now = in_clock i 0; normalized_code = py_strip code; code_hash = in_sha256 i normalized_code
      in if \<not> linking_code normalized_code then (Inl DeviceAuthFailure, st)
         else case service_allow sv
                [(lit ''device-linking:redeem:network'', network, 30, DEVICE_LINKING_RATE_LIMIT_WINDOW),
                 (lit ''device-linking:redeem:code'', encode_base64url code_hash, 10, DEVICE_LINKING_RATE_LIMIT_WINDOW)]
                now s of
           (Inl e, s1) \<Rightarrow> (Inl e, st\<lparr>au_store := s1\<rparr>)
         | (Inr False, s1) \<Rightarrow> (Inl DeviceLinkingRateLimited, st\<lparr>au_store := s1\<rparr>)
         | (Inr True, s1) \<Rightarrow>
             (let st1 = st\<lparr>au_store := s1\<rparr>
              in case da_active_otp sv (in_clock i 1) code_hash s1 of
                   Inl e \<Rightarrow> (Inl e, st1)
                 | Inr None \<Rightarrow> (Inl DeviceAuthFailure, st1)
                 | Inr (Some record) \<Rightarrow>
                     if ot_attempt_count record \<ge> 10 then (Inl DeviceAuthFailure, st1)
                     else (case active_pair (ap_get_by_id (da_accounts sv) (ot_user_id record) s1)
                                  (da_get_device sv (ot_user_id record) (ot_issuing_device_id record) s1) of
                         None \<Rightarrow> (Inl DeviceAuthFailure, st1)
                       | Some (account, issuer) \<Rightarrow>
                           (case registration_values (in_crypto i) spki label of
                              Inl e \<Rightarrow> (Inl e, st1)
                            | Inr normalized_label \<Rightarrow>
                                (case registration_issue (in_crypto i) (in_fresh i 1) (in_random i 0 32) account
                                        (chosen_id device_id (in_fresh i 0)) spki normalized_label origin False
                                        ''device_link'' (Some (ot_id record)) (Some (ot_issuing_device_id record)) now
                                        (au_registrations st1) of
                                   (out, regs) \<Rightarrow> (out, st1\<lparr>au_registrations := regs\<rparr>))))))"

text \<open>The last part of both proofs: the session of the proven device.\<close>

definition open_session ::
    "'k inputs \<Rightarrow> 's device_service \<Rightarrow> instant \<Rightarrow> uuid \<Rightarrow> uuid \<Rightarrow> int \<Rightarrow> instant \<Rightarrow> 's \<Rightarrow> created_session res \<times> 's" where
  "open_session i sv db_now account_id device_id epoch issued_at s =
     service_create (da_sessions sv) (in_sha256 i) (in_random i) db_now (in_fresh i 0) account_id device_id epoch issued_at
       None s"

text \<open>
  The device a claimed registration yields, with its fallback flag and the event to record.  No stored
  code has an absent issuer, so \<open>consume_and_register\<close> finds none for it.
\<close>

definition register_claimed ::
    "'k inputs \<Rightarrow> 's device_service \<Rightarrow> registration_state \<Rightarrow> account \<Rightarrow> instant \<Rightarrow> 's \<Rightarrow>
     (device \<times> bool \<times> string) res \<times> 's" where
  "register_claimed i sv claimed account now s =
     (let c = rs_challenge claimed
      in case rc_linking_otp_id c of
           Some otp_id \<Rightarrow>
             (case rc_linked_by_device_id c of
                None \<Rightarrow> (Inl DeviceAuthFailure, s)
              | Some issuing_device_id \<Rightarrow>
                  (case da_consume_and_register sv (\<lambda>n. in_clock i (1 + n)) otp_id (ac_id account) issuing_device_id
                          (ac_device_epoch account) (rc_device_id c) (rs_label claimed) (rs_public_key_spki claimed)
                          (rc_fingerprint c) s of
                     (Inl e, s1) \<Rightarrow> (Inl e, s1)
                   | (Inr None, s1) \<Rightarrow> (Inl DeviceAuthFailure, s1)
                   | (Inr (Some device), s1) \<Rightarrow> (Inr (device, False, ''device_linked''), s1)))
         | None \<Rightarrow>
             bind_st (da_register_for_email sv (\<lambda>n. in_clock i (1 + n)) (ac_id account) (ac_device_epoch account)
                        (rs_label claimed) (rs_public_key_spki claimed) (rc_fingerprint c) (rc_device_id c) s)
               (\<lambda>device s1.
                  if rc_fallback c
                  then bind_st (ap_mark_email_fallback (da_accounts sv) (ac_id account) now s1)
                         (\<lambda>_ s2. (Inr (device, True, ''email_fallback_completed''), s2))
                  else (Inr (device, False, ''device_registered''), s1)))"

definition finish_registration ::
    "'k inputs \<Rightarrow> 's device_service \<Rightarrow> registration_state \<Rightarrow> instant \<Rightarrow> 's \<Rightarrow> device_auth_result res \<times> 's" where
  "finish_registration i sv claimed now s =
     (case ap_get_by_id (da_accounts sv) (rc_account_id (rs_challenge claimed)) s of
        None \<Rightarrow> (Inl DeviceAuthFailure, s)
      | Some account \<Rightarrow>
          if ac_device_epoch account \<noteq> rc_epoch (rs_challenge claimed) then (Inl DeviceAuthFailure, s)
          else bind_st (register_claimed i sv claimed account now s) (\<lambda>(device, fallback, event_type) s1.
            bind_st (open_session i sv (in_clock i 4) (ac_id account) (dv_id device) (ac_device_epoch account) now s1)
              (\<lambda>session s2.
                 (Inr \<lparr>ar_account = account, ar_device = device, ar_session = session, ar_fallback = fallback\<rparr>,
                  audit_device_event i sv (in_clock i 5) (in_fresh i 1) event_type ''success'' now (ac_id account)
                    (dv_id device) None [] s2))))"

definition complete_registration ::
    "'k inputs \<Rightarrow> 's device_service \<Rightarrow> uuid \<Rightarrow> bytes \<Rightarrow> pystr \<Rightarrow> 's auth_state \<Rightarrow>
     device_auth_result res \<times> 's auth_state" where
  "complete_registration i sv challenge_id signature origin st =
     (let now = in_clock i 0
      in case registration_get now challenge_id (au_registrations st) of
           (None, regs) \<Rightarrow> (Inl DeviceAuthFailure, st\<lparr>au_registrations := regs\<rparr>)
         | (Some state, regs) \<Rightarrow>
             (let st1 = st\<lparr>au_registrations := regs\<rparr>; c = rs_challenge state
              in if rc_origin c \<noteq> origin \<or> rs_attempts state \<ge> 10 then (Inl DeviceAuthFailure, st1)
                 else case bind_res (rc_payload c) signed_message of
                     Inl e \<Rightarrow> (Inl e, st1)
                   | Inr message \<Rightarrow>
                       if \<not> verify_p1363_signature (in_crypto i) (rs_public_key_spki state) signature message
                       then (let st2 = st1\<lparr>au_registrations := registration_mark_failed now challenge_id regs\<rparr>
                             in case rc_linking_otp_id c of
                                  None \<Rightarrow> (Inl DeviceAuthFailure, st2)
                                | Some otp_id \<Rightarrow>
                                    (case da_fail_otp sv (in_clock i 1) otp_id (au_store st2) of
                                       (Inl e, s) \<Rightarrow> (Inl e, st2\<lparr>au_store := s\<rparr>)
                                     | (Inr _, s) \<Rightarrow> (Inl DeviceAuthFailure, st2\<lparr>au_store := s\<rparr>)))
                       else (case registration_consume now challenge_id regs of
                           (None, regs') \<Rightarrow> (Inl DeviceAuthFailure, st1\<lparr>au_registrations := regs'\<rparr>)
                         | (Some claimed, regs') \<Rightarrow>
                             (case finish_registration i sv claimed now (au_store st1) of
                                (out, s) \<Rightarrow> (out, st1\<lparr>au_registrations := regs', au_store := s\<rparr>)))))"

record device_login_challenge =
  lc_challenge :: device_challenge
  lc_account :: account
  lc_device :: device
  lc_nonce :: bytes

definition issue_login_challenge ::
    "'k inputs \<Rightarrow> 's device_service \<Rightarrow> uuid \<Rightarrow> uuid \<Rightarrow> pystr \<Rightarrow> 's \<Rightarrow> device_login_challenge res \<times> 's" where
  "issue_login_challenge i sv account_id device_id origin s =
     (case active_pair (ap_get_by_id (da_accounts sv) account_id s) (da_get_device sv account_id device_id s) of
        None \<Rightarrow> (Inl DeviceAuthFailure, s)
      | Some (account, device) \<Rightarrow>
          let nonce = in_random i 0 32
          in case hash_nonce (in_sha256 i) nonce of
               Inl e \<Rightarrow> (Inl e, s)
             | Inr nonce_hash \<Rightarrow>
                 bind_st (da_create_challenge sv (in_clock i 1) (in_fresh i 0) account_id device_id nonce_hash origin
                            (in_clock i 0 + DEVICE_CHALLENGE_LIFETIME) s)
                   (\<lambda>challenge s1.
                      (Inr \<lparr>lc_challenge = challenge, lc_account = account, lc_device = device, lc_nonce = nonce\<rparr>, s1)))"

text \<open>A failed proof is counted before it is reported.\<close>

definition fail_login ::
    "'s device_service \<Rightarrow> instant \<Rightarrow> uuid \<Rightarrow> uuid \<Rightarrow> 's \<Rightarrow> device_auth_result res \<times> 's" where
  "fail_login sv now account_id challenge_id s =
     bind_st (da_fail_challenge sv now account_id challenge_id s) (\<lambda>_ s1. (Inl DeviceAuthFailure, s1))"

definition finish_login ::
    "'k inputs \<Rightarrow> 's device_service \<Rightarrow> uuid \<Rightarrow> uuid \<Rightarrow> account \<Rightarrow> device \<Rightarrow> 's \<Rightarrow> device_auth_result res \<times> 's" where
  "finish_login i sv account_id challenge_id account device s =
     bind_st (da_consume_challenge sv (in_clock i 1) account_id challenge_id s) (\<lambda>consumed s1.
       if consumed = None then (Inl DeviceAuthFailure, s1)
       else bind_st (da_touch_device sv (in_clock i 2) account_id (dv_id device) s1) (\<lambda>touched_device s2.
         bind_st (open_session i sv (in_clock i 3) account_id (dv_id device) (ac_device_epoch account) (in_clock i 0) s2)
           (\<lambda>session s3.
              (Inr \<lparr>ar_account = account,
                    ar_device = (case touched_device of None \<Rightarrow> device | Some v \<Rightarrow> v),
                    ar_session = session, ar_fallback = False\<rparr>, s3))))"

definition complete_login_challenge ::
    "'k inputs \<Rightarrow> 's device_service \<Rightarrow> uuid \<Rightarrow> uuid \<Rightarrow> bytes \<Rightarrow> bytes \<Rightarrow> pystr \<Rightarrow> 's \<Rightarrow> device_auth_result res \<times> 's" where
  "complete_login_challenge i sv account_id challenge_id nonce signature origin s =
     (case da_get_challenge sv account_id challenge_id s of
        None \<Rightarrow> (Inl DeviceAuthFailure, s)
      | Some challenge \<Rightarrow>
          if ch_origin challenge \<noteq> origin then (Inl DeviceAuthFailure, s)
          else (case active_pair (ap_get_by_id (da_accounts sv) account_id s)
                       (da_get_device sv account_id (ch_device_id challenge) s) of
              None \<Rightarrow> fail_login sv (in_clock i 1) account_id challenge_id s
            | Some (account, device) \<Rightarrow>
                if ch_expires_at challenge \<le> in_clock i 0 \<or> ch_consumed_at challenge \<noteq> None
                then fail_login sv (in_clock i 1) account_id challenge_id s
                else (case hash_nonce (in_sha256 i) nonce of
                    Inl e \<Rightarrow> (Inl e, s)
                  | Inr nonce_hash \<Rightarrow>
                      if ch_nonce_hash challenge \<noteq> nonce_hash
                      then fail_login sv (in_clock i 1) account_id challenge_id s
                      else (case bind_res (challenge_payload challenge account device nonce) signed_message of
                          Inl e \<Rightarrow> (Inl e, s)
                        | Inr message \<Rightarrow>
                            if \<not> verify_p1363_signature (in_crypto i) (dv_signing_public_key_spki device) signature message
                            then fail_login sv (in_clock i 1) account_id challenge_id s
                            else finish_login i sv account_id challenge_id account device s))))"

section \<open>Wiring\<close>

text \<open>The services \<open>lifespan\<close> of \<open>app/main.py\<close> builds on the database and for the test application.\<close>

definition sql_device_service ::
    "(uuid \<Rightarrow> bool) \<Rightarrow> (json \<Rightarrow> nat) \<Rightarrow> (bytes \<Rightarrow> bytes \<Rightarrow> bytes) \<Rightarrow> bytes \<Rightarrow> (bytes \<Rightarrow> bytes) \<Rightarrow> db device_service" where
  "sql_device_service known octets hmac secret sha256 =
     \<lparr>da_accounts = repository_accounts known, da_get_device = dev_get_by_id, da_list_devices = dev_list_for_account,
      da_register_for_email = (\<lambda>clk. register_for_email (clk 0)), da_touch_device = dev_touch_last_seen,
      da_rename_device = dev_rename, da_logout_device = (\<lambda>clk. logout_with_sessions (clk 0)),
      da_get_challenge = ch_get_by_id, da_create_challenge = ch_create, da_consume_challenge = ch_consume,
      da_fail_challenge = ch_mark_failed, da_sessions = sql_sessions, da_create_otp = otp_create,
      da_active_otp = otp_get_active_by_hash, da_fail_otp = otp_mark_failed,
      da_consume_and_register = (\<lambda>clk. consume_and_register (clk 0)),
      da_rate_limiter = Some (persistent_allow_many hmac secret, secret), da_security_events = Some (ev_create octets),
      da_bootstrap_consumer = Some (bootstrap_consume sha256), da_bootstrap_peeker = Some (bootstrap_peek sha256)\<rparr>"

record test_state =
  tt_accounts :: memory_accounts
  tt_devices :: mem_devices
  tt_challenges :: challenge_store
  tt_otps :: otp_store
  tt_buckets :: buckets
  tt_events :: "security_event list"

definition via :: "('s \<Rightarrow> 'x) \<Rightarrow> (('x \<Rightarrow> 'x) \<Rightarrow> 's \<Rightarrow> 's) \<Rightarrow> ('x \<Rightarrow> 'a \<times> 'x) \<Rightarrow> 's \<Rightarrow> 'a \<times> 's" where
  "via get put f s = (case f (get s) of (r, x) \<Rightarrow> (r, put (\<lambda>_. x) s))"

definition on_devices :: "(mem_devices \<Rightarrow> 'a \<times> mem_devices) \<Rightarrow> test_state \<Rightarrow> 'a \<times> test_state" where
  "on_devices = via tt_devices tt_devices_update"

definition on_sessions :: "(session_store \<Rightarrow> 'a \<times> session_store) \<Rightarrow> test_state \<Rightarrow> 'a \<times> test_state" where
  "on_sessions f = on_devices (via md_sessions md_sessions_update f)"

definition on_challenges :: "(challenge_store \<Rightarrow> 'a \<times> challenge_store) \<Rightarrow> test_state \<Rightarrow> 'a \<times> test_state" where
  "on_challenges = via tt_challenges tt_challenges_update"

definition test_sessions :: "test_state session_port" where
  "test_sessions =
     \<lparr>sp_find_by_token_hash = (\<lambda>now h s. sp_find_by_token_hash mem_sessions now h (md_sessions (tt_devices s))),
      sp_find_current_by_id = (\<lambda>now i s. sp_find_current_by_id mem_sessions now i (md_sessions (tt_devices s))),
      sp_list_for_account = (\<lambda>a s. sp_list_for_account mem_sessions a (md_sessions (tt_devices s))),
      sp_create = (\<lambda>now fresh a v th ch ep idle hard. on_sessions (sp_create mem_sessions now fresh a v th ch ep idle hard)),
      sp_touch_last_seen = (\<lambda>now a i. on_sessions (sp_touch_last_seen mem_sessions now a i)),
      sp_replace_csrf_hash = (\<lambda>now a i h. on_sessions (sp_replace_csrf_hash mem_sessions now a i h)),
      sp_revoke = (\<lambda>now a i r. on_sessions (sp_revoke mem_sessions now a i r))\<rparr>"

definition test_accounts :: "test_state account_port" where
  "test_accounts =
     \<lparr>ap_get_or_create = (\<lambda>now fresh u e t. via tt_accounts tt_accounts_update (memory_get_or_create now fresh u e t)),
      ap_get_by_id = (\<lambda>i s. memory_get_by_id i (tt_accounts s)),
      ap_get_by_email = (\<lambda>e s. memory_get_by_email e (tt_accounts s)),
      ap_mark_email_fallback = (\<lambda>i t. via tt_accounts tt_accounts_update (memory_mark_email_fallback i t))\<rparr>"

text \<open>\<open>get_by_id\<close> of the device repository, as the challenge repository calls it.\<close>

definition test_finder :: "test_state \<Rightarrow> device_finder" where
  "test_finder s = (\<lambda>a v. md_get_by_id a v (tt_devices s))"

definition memory_device_service :: "(bytes \<Rightarrow> bytes \<Rightarrow> bytes) \<Rightarrow> (bytes \<Rightarrow> bytes) \<Rightarrow> test_state device_service" where
  "memory_device_service hmac sha256 =
     \<lparr>da_accounts = test_accounts, da_get_device = (\<lambda>a v s. md_get_by_id a v (tt_devices s)),
      da_list_devices = (\<lambda>a s. md_list_for_account a (tt_devices s)),
      da_register_for_email = (\<lambda>clk a ep l k fp w. on_devices (md_register_for_email (clk 0) (clk 1) a ep l k fp w)),
      da_touch_device = (\<lambda>now a v. on_devices (\<lambda>x. returning (md_touch_last_seen now a v x))),
      da_rename_device = (\<lambda>a v l. on_devices (\<lambda>x. returning (md_rename a v l x))),
      da_logout_device = (\<lambda>clk a v r. on_devices (\<lambda>x. returning (md_logout_with_sessions (clk 0) a v r x))),
      da_get_challenge = (\<lambda>a i s. mc_get_by_id (test_finder s) a i (tt_challenges s)),
      da_create_challenge = (\<lambda>now fresh a v h og ex s. on_challenges (mc_create (test_finder s) now fresh a v h og ex) s),
      da_consume_challenge = (\<lambda>now a i s. on_challenges (\<lambda>x. returning (mc_consume (test_finder s) (test_finder s) now a i x)) s),
      da_fail_challenge = (\<lambda>now a i s. on_challenges (\<lambda>x. returning (mc_mark_failed (test_finder s) now a i x)) s),
      da_sessions = test_sessions,
      da_create_otp = (\<lambda>now fresh a v h ex. via tt_otps tt_otps_update (\<lambda>x. returning (mo_create now fresh a v h ex x))),
      da_active_otp = (\<lambda>now h s. Inr (mo_get_active_by_hash now h (tt_otps s))),
      da_fail_otp = (\<lambda>now i. via tt_otps tt_otps_update (\<lambda>x. returning (mo_mark_failed now i x))),
      da_consume_and_register = (\<lambda>clk i a v ep w l k fp s.
        case mo_consume_and_register (clk 0) (clk 1) (clk 2) i a v ep w l k fp (tt_otps s, tt_devices s) of
          (r, (o', ds')) \<Rightarrow> (r, s\<lparr>tt_otps := o', tt_devices := ds'\<rparr>)),
      da_rate_limiter = Some (\<lambda>now rs. via tt_buckets tt_buckets_update
        (rl_allow_many hmac (lit ''test-rate-limit-secret'') now rs), lit ''test-rate-limit-secret''),
      da_security_events = Some (\<lambda>now fresh ty oc ex u v fp details.
        via tt_events tt_events_update (me_create now fresh ty oc ex u v fp details)),
      da_bootstrap_consumer = Some (bootstrap_consume sha256), da_bootstrap_peeker = Some (bootstrap_peek sha256)\<rparr>"

section \<open>What the two proofs go through\<close>

lemma active_pair_Some:
  "active_pair x y = Some (a, v) \<longleftrightarrow> x = Some a \<and> y = Some v \<and> dv_status v = Active \<and> dv_epoch v = ac_device_epoch a"
  by (auto simp: active_pair_def split: option.splits if_splits)

lemma fail_login_raises: "fail_login sv now a i s \<noteq> (Inr r, s')"
  by (auto simp: fail_login_def bind_st_Inr)

lemma login_steps:
  assumes "complete_login_challenge i sv a cid nonce sg origin s = (Inr r, s')"
  obtains c v p m x s1 y s2 where "da_get_challenge sv a cid s = Some c" and "ch_origin c = origin"
    and "ap_get_by_id (da_accounts sv) a s = Some (ar_account r)" and "da_get_device sv a (ch_device_id c) s = Some v"
    and "dv_status v = Active" and "dv_epoch v = ac_device_epoch (ar_account r)" and "in_clock i 0 < ch_expires_at c"
    and "ch_consumed_at c = None" and "ch_nonce_hash c = in_sha256 i nonce"
    and "challenge_payload c (ar_account r) v nonce = Inr p" and "signed_message p = Inr m"
    and "verify_p1363_signature (in_crypto i) (dv_signing_public_key_spki v) sg m"
    and "da_consume_challenge sv (in_clock i 1) a cid s = (Inr (Some x), s1)"
    and "da_touch_device sv (in_clock i 2) a (dv_id v) s1 = (Inr y, s2)"
    and "open_session i sv (in_clock i 3) a (dv_id v) (ac_device_epoch (ar_account r)) (in_clock i 0) s2 = (Inr (ar_session r), s')"
    and "ar_device r = (case y of None \<Rightarrow> v | Some w \<Rightarrow> w)"
proof -
  obtain c acct v where 1: "da_get_challenge sv a cid s = Some c" "ch_origin c = origin"
      "ap_get_by_id (da_accounts sv) a s = Some acct" "da_get_device sv a (ch_device_id c) s = Some v"
      "dv_status v = Active" "dv_epoch v = ac_device_epoch acct" "in_clock i 0 < ch_expires_at c" "ch_consumed_at c = None"
      "ch_nonce_hash c = in_sha256 i nonce"
    and 2: "\<exists>m. bind_res (challenge_payload c acct v nonce) signed_message = Inr m \<and>
        verify_p1363_signature (in_crypto i) (dv_signing_public_key_spki v) sg m"
    and 3: "finish_login i sv a cid acct v s = (Inr r, s')"
    using assms
    by (auto simp: complete_login_challenge_def fail_login_raises active_pair_Some hash_nonce_def
        split: option.splits if_splits sum.splits prod.splits)
  obtain x s1 y s2 where 4: "da_consume_challenge sv (in_clock i 1) a cid s = (Inr (Some x), s1)"
      "da_touch_device sv (in_clock i 2) a (dv_id v) s1 = (Inr y, s2)"
      "open_session i sv (in_clock i 3) a (dv_id v) (ac_device_epoch acct) (in_clock i 0) s2 = (Inr (ar_session r), s')"
      "ar_device r = (case y of None \<Rightarrow> v | Some w \<Rightarrow> w)" "ar_account r = acct"
    using 3 by (auto simp: finish_login_def bind_st_Inr split: if_splits)
  show thesis using 2 that [OF 1(1,2) 1(3) [folded 4(5)] 1(4,5) 1(6) [folded 4(5)] 1(7-9) _ _ _ 4(1,2) _ 4(4)] 4(3,5)
    by (auto simp: bind_res_Inr)
qed

lemma registration_steps:
  assumes "complete_registration i sv cid sg origin st = (Inr r, st')"
  obtains x m where "dict_get (au_registrations st) cid = Some x" and "rc_origin (rs_challenge x) = origin"
    and "in_clock i 0 < rc_expires_at (rs_challenge x)" and "rs_attempts x < 10"
    and "bind_res (rc_payload (rs_challenge x)) signed_message = Inr m"
    and "verify_p1363_signature (in_crypto i) (rs_public_key_spki x) sg m"
    and "au_registrations st' = dict_del cid (au_registrations st)" and "au_bootstraps st' = au_bootstraps st"
    and "finish_registration i sv x (in_clock i 0) (au_store st) = (Inr r, au_store st')"
  using assms
  by (auto simp: complete_registration_def registration_get_def registration_consume_def Let_def
      split: option.splits if_splits sum.splits prod.splits)

lemma finish_registration_steps:
  assumes "finish_registration i sv x now s = (Inr r, s')"
  obtains ev s1 s2 where "ap_get_by_id (da_accounts sv) (rc_account_id (rs_challenge x)) s = Some (ar_account r)"
    and "ac_device_epoch (ar_account r) = rc_epoch (rs_challenge x)"
    and "register_claimed i sv x (ar_account r) now s = (Inr (ar_device r, ar_fallback r, ev), s1)"
    and "open_session i sv (in_clock i 4) (ac_id (ar_account r)) (dv_id (ar_device r)) (ac_device_epoch (ar_account r)) now s1 =
           (Inr (ar_session r), s2)"
    and "s' = audit_device_event i sv (in_clock i 5) (in_fresh i 1) ev ''success'' now (ac_id (ar_account r))
           (dv_id (ar_device r)) None [] s2"
  using assms by (auto simp: finish_registration_def bind_st_Inr split: option.splits if_splits)

section \<open>The contract of the stores\<close>

text \<open>
  \<open>devs\<close> are the stored devices, \<open>chs\<close> the unconsumed challenges, \<open>codes\<close> the active linking codes and
  \<open>sess\<close> the sessions.  Opening a session, marking an account and recording an event leave devices,
  challenges and codes alone.
\<close>

locale device_stores =
  fixes sv :: "'s device_service" and inv :: "'s \<Rightarrow> bool" and devs :: "'s \<Rightarrow> device set" and chs :: "'s \<Rightarrow> uuid set"
    and codes :: "'s \<Rightarrow> uuid set" and sess :: "'s \<Rightarrow> session set"
  assumes account_found: "ap_get_by_id (da_accounts sv) a s = Some acct \<Longrightarrow> ac_id acct = a"
    and device_found: "inv s \<Longrightarrow> da_get_device sv a v s = Some dv \<Longrightarrow> dv_user_id dv = a \<and> dv_id dv = v \<and> dv \<in> devs s"
    and challenge_found: "inv s \<Longrightarrow> da_get_challenge sv a i s = Some c \<Longrightarrow> ch_id c = i"
    and challenge_taken: "inv s \<Longrightarrow> da_consume_challenge sv now a i s = (Inr (Some c), s') \<Longrightarrow>
      inv s' \<and> i \<in> chs s \<and> i \<notin> chs s'"
    and device_touched: "inv s \<Longrightarrow> da_touch_device sv now a v s = (Inr seen, s') \<Longrightarrow>
      inv s' \<and> chs s' = chs s \<and> (\<forall>dv. seen = Some dv \<longrightarrow> dv_user_id dv = a \<and> dv_id dv = v)"
    and session_opened: "inv s \<Longrightarrow> sp_create (da_sessions sv) now fresh a v th ch ep idle hard s = (Inr x, s') \<Longrightarrow>
      inv s' \<and> devs s' = devs s \<and> chs s' = chs s \<and> codes s' = codes s \<and>
      x = new_session now fresh a v th ch ep idle hard \<and> x \<in> sess s'"
    and fallback_marked: "inv s \<Longrightarrow> ap_mark_email_fallback (da_accounts sv) a now s = (Inr mk, s') \<Longrightarrow>
      inv s' \<and> devs s' = devs s \<and> codes s' = codes s"
    and event_recorded: "inv s \<Longrightarrow> da_security_events sv = Some create \<Longrightarrow>
      create now fresh ty oc ex ou ov ofp details s = (ev, s') \<Longrightarrow>
      inv s' \<and> devs s' = devs s \<and> chs s' = chs s \<and> codes s' = codes s \<and> sess s' = sess s"
    and email_registered: "inv s \<Longrightarrow> da_register_for_email sv clk a ep l k fp v s = (Inr dv, s') \<Longrightarrow>
      inv s' \<and> codes s' = codes s \<and> dv \<in> devs s' \<and> dv_user_id dv = a \<and> dv_epoch dv = ep \<and> dv_fingerprint dv = fp \<and>
      dv_status dv = Active"
    and link_registered: "inv s \<Longrightarrow> da_consume_and_register sv clk i a u ep v l k fp s = (Inr (Some dv), s') \<Longrightarrow>
      inv s' \<and> i \<in> codes s \<and> i \<notin> codes s' \<and> dv \<in> devs s' \<and> dv_id dv = v \<and> dv_user_id dv = a \<and> dv_epoch dv = ep \<and>
      dv_signing_public_key_spki dv = k \<and> dv_fingerprint dv = fp \<and> dv_status dv = Active \<and>
      dv_linked_by_device_id dv = Some u \<and>
      (\<exists>iss\<in>devs s. dv_id iss = u \<and> dv_user_id iss = a \<and> dv_status iss = Active \<and> dv_epoch iss = ep)"
begin

lemma session_of:
  assumes "inv s" and "open_session i sv now a v ep issued s = (Inr c, s')"
  shows "inv s' \<and> devs s' = devs s \<and> chs s' = chs s \<and> codes s' = codes s \<and> cs_record c \<in> sess s' \<and>
    se_user_id (cs_record c) = a \<and> se_device_id (cs_record c) = v \<and> se_epoch (cs_record c) = ep \<and>
    se_token_hash (cs_record c) = in_sha256 i (sx_token (cs_secrets c))"
proof -
  obtain idle hard where prep: "prepare (in_sha256 i) (in_random i) issued None = Inr (cs_secrets c, idle, hard)"
    and cr: "sp_create (da_sessions sv) now (in_fresh i 0) a v (sx_token_hash (cs_secrets c))
      (sx_csrf_hash (cs_secrets c)) ep idle hard s = (Inr (cs_record c), s')"
    using service_create_Inr [OF assms(2) [unfolded open_session_def]] by blast
  note law = session_opened [OF assms(1) cr]
  then have "se_token_hash (cs_record c) = sx_token_hash (cs_secrets c)" by (simp add: new_session_def)
  moreover have "sx_token_hash (cs_secrets c) = in_sha256 i (sx_token (cs_secrets c))"
    using prepare_Inr [OF prep] make_secrets_Inr(3) by blast
  moreover from law have "se_user_id (cs_record c) = a" "se_device_id (cs_record c) = v" "se_epoch (cs_record c) = ep"
    by (simp_all add: new_session_def)
  ultimately show ?thesis using law by metis
qed

lemma audited:
  assumes "inv s"
  shows "inv (audit_device_event i sv t f ty oc now u v net details s) \<and>
    devs (audit_device_event i sv t f ty oc now u v net details s) = devs s \<and>
    codes (audit_device_event i sv t f ty oc now u v net details s) = codes s \<and>
    sess (audit_device_event i sv t f ty oc now u v net details s) = sess s"
proof (cases "da_security_events sv")
  case (Some create)
  then show ?thesis
    using event_recorded [OF assms Some] unfolding audit_device_event_def Some option.case by (metis prod.collapse)
qed (use assms in \<open>simp add: audit_device_event_def\<close>)

lemma login_sound:
  assumes "inv s" and "complete_login_challenge i sv a cid nonce sg origin s = (Inr r, s')"
  shows "inv s' \<and> (\<exists>c v p m. da_get_challenge sv a cid s = Some c \<and> ch_id c = cid \<and> ch_origin c = origin \<and>
    in_clock i 0 < ch_expires_at c \<and> ch_nonce_hash c = in_sha256 i nonce \<and>
    ac_id (ar_account r) = a \<and> v \<in> devs s \<and> dv_id v = ch_device_id c \<and> dv_user_id v = a \<and> dv_status v = Active \<and>
    dv_epoch v = ac_device_epoch (ar_account r) \<and> challenge_payload c (ar_account r) v nonce = Inr p \<and>
    signed_message p = Inr m \<and> verify_p1363_signature (in_crypto i) (dv_signing_public_key_spki v) sg m \<and>
    cid \<in> chs s \<and> cid \<notin> chs s' \<and> dv_id (ar_device r) = dv_id v \<and>
    cs_record (ar_session r) \<in> sess s' \<and> se_user_id (cs_record (ar_session r)) = a \<and>
    se_device_id (cs_record (ar_session r)) = dv_id v \<and>
    se_epoch (cs_record (ar_session r)) = ac_device_epoch (ar_account r) \<and>
    se_token_hash (cs_record (ar_session r)) = in_sha256 i (sx_token (cs_secrets (ar_session r))))"
proof -
  from assms(2) obtain c v p m x s1 y s2 where st: "da_get_challenge sv a cid s = Some c" "ch_origin c = origin"
    "ap_get_by_id (da_accounts sv) a s = Some (ar_account r)" "da_get_device sv a (ch_device_id c) s = Some v"
    "dv_status v = Active" "dv_epoch v = ac_device_epoch (ar_account r)" "in_clock i 0 < ch_expires_at c"
    "ch_consumed_at c = None" "ch_nonce_hash c = in_sha256 i nonce"
    "challenge_payload c (ar_account r) v nonce = Inr p" "signed_message p = Inr m"
    "verify_p1363_signature (in_crypto i) (dv_signing_public_key_spki v) sg m"
    "da_consume_challenge sv (in_clock i 1) a cid s = (Inr (Some x), s1)"
    "da_touch_device sv (in_clock i 2) a (dv_id v) s1 = (Inr y, s2)"
    "open_session i sv (in_clock i 3) a (dv_id v) (ac_device_epoch (ar_account r)) (in_clock i 0) s2 = (Inr (ar_session r), s')"
    "ar_device r = (case y of None \<Rightarrow> v | Some w \<Rightarrow> w)"
    by (rule login_steps)
  note taken = challenge_taken [OF assms(1) st(13)]
  note touched = device_touched [OF taken [THEN conjunct1] st(14)]
  note opened = session_of [OF touched [THEN conjunct1] st(15)]
  have "dv_id (ar_device r) = dv_id v" using touched st(16) by (cases y) simp_all
  then show ?thesis
    by (intro conjI [OF opened [THEN conjunct1]] exI [of _ c] exI [of _ v] exI [of _ p] exI [of _ m])
       (use st(1,2,5-7,9-12) account_found [OF st(3)] device_found [OF assms(1) st(4)] challenge_found [OF assms(1) st(1)] taken touched
          opened assms(1) in simp)
qed

lemma login_not_replayed:
  assumes "inv s" and "complete_login_challenge i sv a cid nonce sg origin s = (Inr r, s')"
  shows "complete_login_challenge j sv b cid nonce' sg' origin' s' \<noteq> (Inr r', s'')"
proof
  assume replay: "complete_login_challenge j sv b cid nonce' sg' origin' s' = (Inr r', s'')"
  from login_sound [OF assms] have "inv s'" "cid \<notin> chs s'" by blast+
  with login_sound [OF _ replay] show False by blast
qed

lemma registered:
  assumes "inv s" and "register_claimed i sv x acct now s = (Inr (v, fb, ev), s')"
  shows "inv s' \<and> v \<in> devs s' \<and> dv_user_id v = ac_id acct \<and> dv_epoch v = ac_device_epoch acct \<and>
    dv_fingerprint v = rc_fingerprint (rs_challenge x) \<and> dv_status v = Active \<and>
    (case rc_linking_otp_id (rs_challenge x) of
       None \<Rightarrow> fb = rc_fallback (rs_challenge x)
     | Some otp_id \<Rightarrow> \<not> fb \<and> otp_id \<in> codes s \<and> otp_id \<notin> codes s' \<and> dv_id v = rc_device_id (rs_challenge x) \<and>
         dv_signing_public_key_spki v = rs_public_key_spki x \<and>
         (\<exists>u\<in>devs s. rc_linked_by_device_id (rs_challenge x) = Some (dv_id u) \<and> dv_user_id u = ac_id acct \<and>
            dv_status u = Active \<and> dv_epoch u = ac_device_epoch acct))"
proof (cases "rc_linking_otp_id (rs_challenge x)")
  case None
  let ?reg = "da_register_for_email sv (\<lambda>n. in_clock i (1 + n)) (ac_id acct) (ac_device_epoch acct) (rs_label x)
    (rs_public_key_spki x) (rc_fingerprint (rs_challenge x)) (rc_device_id (rs_challenge x)) s"
  obtain s1 where r: "?reg = (Inr v, s1)" and fb: "fb = rc_fallback (rs_challenge x)"
    and m: "s' = s1 \<or> (\<exists>y. ap_mark_email_fallback (da_accounts sv) (ac_id acct) now s1 = (Inr y, s'))"
    using assms(2) None by (auto simp: register_claimed_def Let_def bind_st_Inr split: if_splits)
  note reg = email_registered [OF assms(1) r]
  have "inv s' \<and> devs s' = devs s1" using m reg fallback_marked [of s1] by auto
  then show ?thesis using reg None fb by simp
next
  case (Some otp_id)
  obtain u where u: "rc_linked_by_device_id (rs_challenge x) = Some u" "\<not> fb"
    and r: "da_consume_and_register sv (\<lambda>n. in_clock i (1 + n)) otp_id (ac_id acct) u (ac_device_epoch acct)
      (rc_device_id (rs_challenge x)) (rs_label x) (rs_public_key_spki x) (rc_fingerprint (rs_challenge x)) s = (Inr (Some v), s')"
    using assms(2) Some by (auto simp: register_claimed_def Let_def split: option.splits prod.splits sum.splits)
  from link_registered [OF assms(1) r] show ?thesis using u Some by auto
qed

lemma registration_sound:
  assumes "inv (au_store st)" and "complete_registration i sv cid sg origin st = (Inr r, st')"
  shows "\<exists>x m. dict_get (au_registrations st) cid = Some x \<and> rc_origin (rs_challenge x) = origin \<and>
    in_clock i 0 < rc_expires_at (rs_challenge x) \<and> rs_attempts x < 10 \<and>
    bind_res (rc_payload (rs_challenge x)) signed_message = Inr m \<and>
    verify_p1363_signature (in_crypto i) (rs_public_key_spki x) sg m \<and>
    dict_get (au_registrations st') cid = None \<and>
    ac_id (ar_account r) = rc_account_id (rs_challenge x) \<and> ac_device_epoch (ar_account r) = rc_epoch (rs_challenge x) \<and>
    ar_device r \<in> devs (au_store st') \<and> dv_user_id (ar_device r) = ac_id (ar_account r) \<and>
    dv_epoch (ar_device r) = ac_device_epoch (ar_account r) \<and> dv_status (ar_device r) = Active \<and>
    dv_fingerprint (ar_device r) = rc_fingerprint (rs_challenge x) \<and>
    (case rc_linking_otp_id (rs_challenge x) of
       None \<Rightarrow> ar_fallback r = rc_fallback (rs_challenge x)
     | Some otp_id \<Rightarrow> \<not> ar_fallback r \<and> otp_id \<in> codes (au_store st) \<and> otp_id \<notin> codes (au_store st') \<and>
         dv_id (ar_device r) = rc_device_id (rs_challenge x) \<and>
         dv_signing_public_key_spki (ar_device r) = rs_public_key_spki x \<and>
         (\<exists>u\<in>devs (au_store st). rc_linked_by_device_id (rs_challenge x) = Some (dv_id u) \<and>
            dv_user_id u = ac_id (ar_account r) \<and> dv_status u = Active \<and> dv_epoch u = ac_device_epoch (ar_account r))) \<and>
    cs_record (ar_session r) \<in> sess (au_store st') \<and> se_user_id (cs_record (ar_session r)) = ac_id (ar_account r) \<and>
    se_device_id (cs_record (ar_session r)) = dv_id (ar_device r) \<and>
    se_epoch (cs_record (ar_session r)) = ac_device_epoch (ar_account r) \<and>
    se_token_hash (cs_record (ar_session r)) = in_sha256 i (sx_token (cs_secrets (ar_session r)))"
proof -
  from assms(2) obtain x m where x: "dict_get (au_registrations st) cid = Some x" "rc_origin (rs_challenge x) = origin"
    "in_clock i 0 < rc_expires_at (rs_challenge x)" "rs_attempts x < 10"
    "bind_res (rc_payload (rs_challenge x)) signed_message = Inr m"
    "verify_p1363_signature (in_crypto i) (rs_public_key_spki x) sg m"
    "au_registrations st' = dict_del cid (au_registrations st)" "au_bootstraps st' = au_bootstraps st"
    "finish_registration i sv x (in_clock i 0) (au_store st) = (Inr r, au_store st')"
    by (rule registration_steps)
  from x(9) obtain ev s1 s2 where f: "ap_get_by_id (da_accounts sv) (rc_account_id (rs_challenge x)) (au_store st) = Some (ar_account r)"
    "ac_device_epoch (ar_account r) = rc_epoch (rs_challenge x)"
    "register_claimed i sv x (ar_account r) (in_clock i 0) (au_store st) = (Inr (ar_device r, ar_fallback r, ev), s1)"
    "open_session i sv (in_clock i 4) (ac_id (ar_account r)) (dv_id (ar_device r)) (ac_device_epoch (ar_account r)) (in_clock i 0) s1 =
       (Inr (ar_session r), s2)"
    "au_store st' = audit_device_event i sv (in_clock i 5) (in_fresh i 1) ev ''success'' (in_clock i 0) (ac_id (ar_account r))
       (dv_id (ar_device r)) None [] s2"
    by (rule finish_registration_steps)
  note reg = registered [OF assms(1) f(3)]
  note opened = session_of [OF reg [THEN conjunct1] f(4)]
  note audit = audited [OF opened [THEN conjunct1], of i "in_clock i 5" "in_fresh i 1" ev "''success''" "in_clock i 0"
      "ac_id (ar_account r)" "dv_id (ar_device r)" None "[]", folded f(5)]
  have same: "devs (au_store st') = devs s1" "codes (au_store st') = codes s1" "sess (au_store st') = sess s2"
    using opened audit by blast+
  have gone: "dict_get (au_registrations st') cid = None" by (simp add: x(7))
  show ?thesis
    by (rule exI [of _ x], rule exI [of _ m], unfold same)
       (use x(1-6) gone f(1,2) account_found [OF f(1)] reg opened in simp)
qed

lemma registration_not_replayed:
  assumes "inv (au_store st)" and "complete_registration i sv cid sg origin st = (Inr r, st')"
  shows "complete_registration j sv cid sg' origin' st' \<noteq> (Inr r', st'')"
  using registration_sound [OF assms] by (auto elim: registration_steps)

end

section \<open>The stores of the application\<close>

subsection \<open>The database\<close>

definition credentials_inv :: "db \<Rightarrow> bool" where
  "credentials_inv d \<longleftrightarrow> chl.inv d \<and> otp.inv d"

lemma credentials_inv_cong:
  "device_challenges d' = device_challenges d \<Longrightarrow> device_linking_otps d' = device_linking_otps d \<Longrightarrow>
     credentials_inv d' = credentials_inv d"
  by (simp add: credentials_inv_def chl.inv_def otp.inv_def)

lemma open_cong:
  "device_challenges d' = device_challenges d \<Longrightarrow> open_challenges d' = open_challenges d"
  "device_linking_otps d' = device_linking_otps d \<Longrightarrow> open_otps d' = open_otps d"
  by (simp_all add: open_challenges_def open_otps_def)

lemma sql_challenge_taken:
  assumes "credentials_inv d" and "ch_consume now a i d = (Inr (Some c), d')"
  shows "credentials_inv d' \<and> i \<in> open_challenges d \<and> i \<notin> open_challenges d'"
proof -
  let ?p = "\<lambda>c. ch_id c = i \<and> challenge_open now c" and ?f = "\<lambda>c. c\<lparr>ch_consumed_at := Some now\<rparr>"
  have out: "answered_id ch_id (one_row (transaction (ch_update a ?p ?f) d)) = (Some (ch_id c), d')"
    using assms(2) by (simp add: ch_consume_def answered_id_def)
  have step: "chl.inv d' \<and> ch_id c \<in> open_challenges d \<and> open_challenges d' \<subseteq> open_challenges d - {ch_id c}"
    using ch_consume_step [OF _ out] assms(1) by (auto simp: challenge_open_def credentials_inv_def)
  obtain rows where "ch_update a ?p ?f d = (Inr rows, d')" "first_row rows = Some c"
    using assms(2) by (auto simp: ch_consume_def one_row_def transaction_def split: prod.splits sum.splits)
  then have "c \<in> set rows" "rows = map ?f (filter (\<lambda>c. ?p c \<and> active_device d a (ch_device_id c)) (device_challenges d))"
    "device_linking_otps d' = device_linking_otps d"
    unfolding ch_update_def
    by (cases rule: tbl_update_cases [of "\<lambda>c. ?p c \<and> active_device d a (ch_device_id c)" challenge_check ?f device_challenges d
          device_challenges_update]; auto dest: first_row_SomeD)+
  then have "ch_id c = i" "otp.inv d' = otp.inv d" by (auto simp: otp.inv_def)
  then show ?thesis using step assms(1) by (auto simp: credentials_inv_def)
qed

lemma new_device_simps [simp]:
  "dv_id (new_device now w a ep l k fp lk) = w" "dv_user_id (new_device now w a ep l k fp lk) = a"
  "dv_epoch (new_device now w a ep l k fp lk) = ep" "dv_signing_public_key_spki (new_device now w a ep l k fp lk) = k"
  "dv_fingerprint (new_device now w a ep l k fp lk) = fp" "dv_status (new_device now w a ep l k fp lk) = Active"
  "dv_linked_by_device_id (new_device now w a ep l k fp lk) = lk"
  by (simp_all add: new_device_def)

lemma dev_inserted:
  assumes "required (dev_insert rows d) = (Inr v, d')"
  shows "v \<in> set rows" and "d' = d\<lparr>devices := devices d @ rows\<rparr>"
proof -
  obtain rs where "dev_insert rows d = (Inr (v # rs), d')" using assms unfolding required_Inr by blast
  then have "v # rs = rows" "d' = d\<lparr>devices := devices d @ rows\<rparr>" unfolding dev_insert_def tbl_insert_Inr by simp_all
  then show "v \<in> set rows" "d' = d\<lparr>devices := devices d @ rows\<rparr>" by auto
qed

lemma new_device_row:
  "v \<in> set [new_device now w (ac_id x) ep l k fp lk. x \<leftarrow> us, ac_id x = a \<and> ac_deleted_at x = None \<and> ac_device_epoch x = ep] \<Longrightarrow>
     v = new_device now w a ep l k fp lk"
  by (auto split: if_splits)

lemma sql_link_registered:
  assumes "credentials_inv d" and "consume_and_register now i a u ep w l k fp d = (Inr (Some v), d')"
  shows "credentials_inv d' \<and> i \<in> open_otps d \<and> i \<notin> open_otps d' \<and> v \<in> set (devices d') \<and>
    v = new_device now w a ep l k fp (Some u) \<and>
    (\<exists>x\<in>set (devices d). dv_id x = u \<and> dv_user_id x = a \<and> dv_status x = Active \<and> dv_epoch x = ep)"
proof -
  let ?new = "\<lambda>d1. [new_device now w (ac_id x) ep l k fp (Some u). x \<leftarrow> app_users d1,
      ac_id x = a \<and> ac_deleted_at x = None \<and> ac_device_epoch x = ep]"
  from assms(2) obtain consumed d1 where 0: "otp_update (otp_redeemable now i a u ep d)
      (\<lambda>x. x\<lparr>ot_status := OtpConsumed, ot_consumed_at := Some now\<rparr>) d = (Inr consumed, d1)"
    "case Some v of None \<Rightarrow> consumed = [] \<and> d' = d1
     | Some device \<Rightarrow> consumed \<noteq> [] \<and> required (dev_insert (?new d1) d1) = (Inr device, d')"
    by (rule consume_and_register_Inr)
  then have 1: "otp_update (otp_redeemable now i a u ep d)
      (\<lambda>x. x\<lparr>ot_status := OtpConsumed, ot_consumed_at := Some now\<rparr>) d = (Inr consumed, d1)" "consumed \<noteq> []"
    "required (dev_insert (?new d1) d1) = (Inr v, d')" by (simp_all only: option.case simp_thms)
  have oinv: "otp.inv d" using assms(1) by (simp add: credentials_inv_def)
  note rows = otp_redeem_rows [OF oinv 1(1)]
  have c: "consumed = map (\<lambda>x. x\<lparr>ot_status := OtpConsumed, ot_consumed_at := Some now\<rparr>)
      (filter (otp_redeemable now i a u ep d) (device_linking_otps d))" "device_challenges d1 = device_challenges d"
    using 1(1) unfolding otp_update_def
    by (cases rule: tbl_update_cases [of "otp_redeemable now i a u ep d" otp_check
        "\<lambda>x. x\<lparr>ot_status := OtpConsumed, ot_consumed_at := Some now\<rparr>" device_linking_otps d device_linking_otps_update]; auto)+
  obtain x where x: "x \<in> set (device_linking_otps d)" "otp_redeemable now i a u ep d x"
    using 1(2) c(1) by (metis filter_empty_conv map_is_Nil_conv)
  have "i \<in> ot_id ` set consumed" using 1(2) rows(3) by (cases consumed) auto
  then have i: "i \<in> open_otps d" "i \<notin> open_otps d1" using rows(1,2) by auto
  note ins = dev_inserted [OF 1(3)]
  have "credentials_inv d'" "i \<notin> open_otps d'"
    using rows(4) assms(1) i(2) c(2) unfolding ins(2)
    by (auto simp: credentials_inv_def chl.inv_def otp.inv_def open_otps_def)
  moreover have "v = new_device now w a ep l k fp (Some u)" "v \<in> set (devices d')"
    using new_device_row [OF ins(1)] ins(1) unfolding ins(2) by simp_all
  moreover have "\<exists>y\<in>set (devices d). dv_id y = u \<and> dv_user_id y = a \<and> dv_status y = Active \<and> dv_epoch y = ep"
    using x(2) unfolding otp_redeemable_def list_ex_iff by metis
  ultimately show ?thesis using i(1) by blast
qed

lemma sql_email_registered:
  assumes "register_for_email now a ep l k fp w d = (Inr v, d')"
  shows "device_challenges d' = device_challenges d \<and> device_linking_otps d' = device_linking_otps d \<and>
    v \<in> set (devices d') \<and> dv_user_id v = a \<and> dv_epoch v = ep \<and> dv_fingerprint v = fp \<and> dv_status v = Active"
proof (cases "first_row (sql_select (\<lambda>v. dv_user_id v = a \<and> dv_fingerprint v = fp) (devices d))")
  case None
  let ?new = "[new_device now w (ac_id x) ep l k fp None. x \<leftarrow> app_users d,
      ac_id x = a \<and> ac_deleted_at x = None \<and> ac_device_epoch x = ep]"
  have "required (dev_insert ?new d) = (Inr v, d')"
    using assms None unfolding register_for_email_def transaction_Inr by simp
  note ins = dev_inserted [OF this]
  have "dv_user_id v = a \<and> dv_epoch v = ep \<and> dv_fingerprint v = fp \<and> dv_status v = Active"
    using new_device_row [OF ins(1)] by simp
  then show ?thesis using ins(1) unfolding ins(2) by simp
next
  case (Some x)
  let ?p = "\<lambda>v. dv_user_id v = a \<and> dv_fingerprint v = fp \<and> dv_epoch v = ep"
  let ?f = "\<lambda>v. v\<lparr>dv_status := Active, dv_label := l, dv_last_seen_at := now\<rparr>"
  obtain rs where u: "dev_update ?p ?f d = (Inr (v # rs), d')"
    using assms Some unfolding register_for_email_def transaction_Inr by (auto simp: required_Inr split: if_splits)
  have "v # rs = map ?f (filter ?p (devices d))" "devices d' = map (\<lambda>v. if ?p v then ?f v else v) (devices d)"
    using dev_update_rows [OF u] by blast+
  moreover have "v \<in> set (map ?f (filter ?p (devices d)))" using calculation(1) by (metis list.set_intros(1))
  then obtain y where "y \<in> set (devices d)" "?p y" "v = ?f y" by auto
  moreover have "device_challenges d' = device_challenges d" "device_linking_otps d' = device_linking_otps d"
    using u by (auto simp: dev_update_def tbl_update_def split: prod.splits sum.splits)
  ultimately show ?thesis using \<open>devices d' = _\<close> by auto
qed

interpretation sqld: device_stores "sql_device_service known octets hmac secret sha256" credentials_inv "\<lambda>d. set (devices d)"
  open_challenges open_otps "\<lambda>d. set (app_sessions d)" for known octets hmac secret sha256
proof unfold_locales
  fix a s acct
  assume "ap_get_by_id (da_accounts (sql_device_service known octets hmac secret sha256)) a s = Some acct"
  then show "ac_id acct = a" using acc_lookup(1) by (simp add: sql_device_service_def repository_accounts_def)
next
  fix s a v dv
  assume "da_get_device (sql_device_service known octets hmac secret sha256) a v s = Some dv"
  then show "dv_user_id dv = a \<and> dv_id dv = v \<and> dv \<in> set (devices s)"
    by (auto simp: sql_device_service_def dev_get_by_id_def sql_select_def dest!: first_row_SomeD)
next
  fix s a i c
  assume "da_get_challenge (sql_device_service known octets hmac secret sha256) a i s = Some c"
  then have "c \<in> set (challenge_rows a (\<lambda>c. ch_id c = i) s)"
    by (auto simp: sql_device_service_def ch_get_by_id_def dest!: first_row_SomeD)
  then show "ch_id c = i" by (auto simp: challenge_rows_def split: if_splits)
next
  fix s now a i c s'
  assume "credentials_inv s" "da_consume_challenge (sql_device_service known octets hmac secret sha256) now a i s = (Inr (Some c), s')"
  then show "credentials_inv s' \<and> i \<in> open_challenges s \<and> i \<notin> open_challenges s'"
    using sql_challenge_taken by (simp add: sql_device_service_def)
next
  fix s now a v seen s'
  assume inv: "credentials_inv s" and "da_touch_device (sql_device_service known octets hmac secret sha256) now a v s = (Inr seen, s')"
  then obtain rows where u: "dev_update (\<lambda>x. dv_user_id x = a \<and> dv_id x = v \<and> dv_status x = Active)
      (\<lambda>x. x\<lparr>dv_last_seen_at := now\<rparr>) s = (Inr rows, s')" "seen = first_row rows"
    by (auto simp: sql_device_service_def dev_touch_last_seen_def one_row_def bind_res_Inr split: prod.splits)
  have "device_challenges s' = device_challenges s" "device_linking_otps s' = device_linking_otps s"
    using u(1) by (auto simp: dev_update_def tbl_update_def split: prod.splits sum.splits)
  moreover have "dv_user_id dv = a \<and> dv_id dv = v" if "seen = Some dv" for dv
    using first_row_SomeD [of rows dv] that u(2) dev_update_rows [OF u(1)] by auto
  ultimately show "credentials_inv s' \<and> open_challenges s' = open_challenges s \<and>
      (\<forall>dv. seen = Some dv \<longrightarrow> dv_user_id dv = a \<and> dv_id dv = v)"
    using inv credentials_inv_cong open_cong by blast
next
  fix s now fresh a v th ch ep idle hard x s'
  assume inv: "credentials_inv s" and
    "sp_create (da_sessions (sql_device_service known octets hmac secret sha256)) now fresh a v th ch ep idle hard s = (Inr x, s')"
  then have "sess_create now fresh a v th ch ep idle hard s = (Inr x, s')" by (simp add: sql_device_service_def sql_sessions_def)
  then have "x = new_session now fresh a v th ch ep idle hard" "s' = s\<lparr>app_sessions := app_sessions s @ [x]\<rparr>"
    by (cases rule: sess_create_cases [of now fresh a v th ch ep idle hard s]; simp)+
  then show "credentials_inv s' \<and> set (devices s') = set (devices s) \<and> open_challenges s' = open_challenges s \<and>
      open_otps s' = open_otps s \<and> x = new_session now fresh a v th ch ep idle hard \<and> x \<in> set (app_sessions s')"
    using inv by (simp add: credentials_inv_def chl.inv_def otp.inv_def open_challenges_def open_otps_def)
next
  fix s a now mk s'
  assume inv: "credentials_inv s" and
    "ap_mark_email_fallback (da_accounts (sql_device_service known octets hmac secret sha256)) a now s = (Inr mk, s')"
  then have "devices s' = devices s" "device_challenges s' = device_challenges s" "device_linking_otps s' = device_linking_otps s"
    by (auto simp: sql_device_service_def repository_accounts_def mark_email_fallback_def one_row_def tbl_update_def
        split: prod.splits sum.splits)
  then show "credentials_inv s' \<and> set (devices s') = set (devices s) \<and> open_otps s' = open_otps s"
    using inv credentials_inv_cong open_cong by metis
next
  fix s create now fresh ty oc ex ou ov ofp details ev s'
  assume inv: "credentials_inv s" and "da_security_events (sql_device_service known octets hmac secret sha256) = Some create"
    "create now fresh ty oc ex ou ov ofp details s = (ev, s')"
  then have "ev_create octets now fresh ty oc ex ou ov ofp details s = (ev, s')" by (simp add: sql_device_service_def)
  note tables = ev_create_tables [OF this]
  show "credentials_inv s' \<and> set (devices s') = set (devices s) \<and> open_challenges s' = open_challenges s \<and>
      open_otps s' = open_otps s \<and> set (app_sessions s') = set (app_sessions s)"
    using inv credentials_inv_cong [OF tables(4,5)] open_cong(1) [OF tables(4)] open_cong(2) [OF tables(5)] tables(2,3) by simp
next
  fix s clk a ep l k fp v dv s'
  assume inv: "credentials_inv s" and
    "da_register_for_email (sql_device_service known octets hmac secret sha256) clk a ep l k fp v s = (Inr dv, s')"
  then have "register_for_email (clk 0) a ep l k fp v s = (Inr dv, s')" by (simp add: sql_device_service_def)
  from sql_email_registered [OF this]
  show "credentials_inv s' \<and> open_otps s' = open_otps s \<and> dv \<in> set (devices s') \<and> dv_user_id dv = a \<and> dv_epoch dv = ep \<and>
      dv_fingerprint dv = fp \<and> dv_status dv = Active"
    using inv credentials_inv_cong open_cong by blast
next
  fix s clk i a u ep v l k fp dv s'
  assume "credentials_inv s"
    "da_consume_and_register (sql_device_service known octets hmac secret sha256) clk i a u ep v l k fp s = (Inr (Some dv), s')"
  then show "credentials_inv s' \<and> i \<in> open_otps s \<and> i \<notin> open_otps s' \<and> dv \<in> set (devices s') \<and> dv_id dv = v \<and>
      dv_user_id dv = a \<and> dv_epoch dv = ep \<and> dv_signing_public_key_spki dv = k \<and> dv_fingerprint dv = fp \<and>
      dv_status dv = Active \<and> dv_linked_by_device_id dv = Some u \<and>
      (\<exists>iss\<in>set (devices s). dv_id iss = u \<and> dv_user_id iss = a \<and> dv_status iss = Active \<and> dv_epoch iss = ep)"
    using sql_link_registered [of s "clk 0" i a u ep v l k fp dv s'] by (auto simp: sql_device_service_def)
qed

subsection \<open>The in-memory stores\<close>

definition test_inv :: "test_state \<Rightarrow> bool" where
  "test_inv s \<longleftrightarrow> keyed_challenges (tt_challenges s) \<and>
     (\<forall>k v. dict_get (md_records (tt_devices s)) k = Some v \<longrightarrow> dv_id v = k)"

definition test_devices :: "test_state \<Rightarrow> device set" where
  "test_devices s = ran (dict_get (md_records (tt_devices s)))"

definition test_challenges :: "test_state \<Rightarrow> uuid set" where
  "test_challenges s = open_mem_challenges (tt_challenges s)"

definition test_codes :: "test_state \<Rightarrow> uuid set" where
  "test_codes s = open_mem_otps (tt_otps s, tt_devices s)"

definition test_session_set :: "test_state \<Rightarrow> session set" where
  "test_session_set s = ran (dict_get (ss_records (md_sessions (tt_devices s))))"

lemmas test_defs = test_inv_def test_devices_def test_challenges_def test_codes_def test_session_set_def
  memory_device_service_def via_def on_devices_def on_challenges_def on_sessions_def returning_def

lemma md_get_by_id_Some: "md_get_by_id a v ds = Some x \<longleftrightarrow> dict_get (md_records ds) v = Some x \<and> dv_user_id x = a"
  by (auto simp: md_get_by_id_def split: option.splits if_splits)

lemma md_replace_keyed:
  assumes "md_replace a v p f ds = (r, ds')" and "\<And>x. dv_id (f x) = dv_id x" and "\<And>x. dv_user_id (f x) = dv_user_id x"
    and "\<forall>k x. dict_get (md_records ds) k = Some x \<longrightarrow> dv_id x = k"
  shows "(\<forall>k x. dict_get (md_records ds') k = Some x \<longrightarrow> dv_id x = k) \<and> (\<forall>x. r = Some x \<longrightarrow> dv_user_id x = a \<and> dv_id x = v)"
  using assms by (auto simp: md_replace_def md_get_by_id_Some split: option.splits if_splits)

lemma mem_email_registered:
  assumes "md_register_for_email t1 t2 a ep l k fp w ds = (Inr v, ds')"
    and "\<forall>k x. dict_get (md_records ds) k = Some x \<longrightarrow> dv_id x = k"
  shows "(\<forall>k x. dict_get (md_records ds') k = Some x \<longrightarrow> dv_id x = k) \<and> v \<in> ran (dict_get (md_records ds')) \<and>
    dv_user_id v = a \<and> dv_epoch v = ep \<and> dv_fingerprint v = fp \<and> dv_status v = Active"
proof (cases "md_get_by_fingerprint a fp ds")
  case None
  then have v: "v = (new_device t1 w a ep l k fp None)\<lparr>dv_last_seen_at := t2\<rparr>" "md_records ds' = dict_set w v (md_records ds)"
    using assms(1) by (auto simp: md_register_for_email_def Let_def split: if_splits)
  then have "dv_id v = w" "dv_user_id v = a" "dv_epoch v = ep" "dv_fingerprint v = fp" "dv_status v = Active"
    by simp_all
  then show ?thesis using assms(2) unfolding v(2) by (auto simp: ran_def)
next
  case (Some x)
  let ?v = "x\<lparr>dv_epoch := ep, dv_label := l, dv_status := Active, dv_last_seen_at := t1\<rparr>"
  have v: "v = ?v" "md_records ds' = dict_set (dv_id x) ?v (md_records ds)"
    using assms(1) Some by (auto simp: md_register_for_email_def Let_def split: if_splits)
  have "dv_user_id x = a" "dv_fingerprint x = fp" using Some by (auto simp: md_get_by_fingerprint_def find_Some_iff)
  then show ?thesis using assms(2) unfolding v by (auto simp: ran_def)
qed

lemma mem_link_registered:
  assumes "mo_consume_and_register t1 t2 t3 i a u ep w l k fp (st, ds) = (Inr (Some v), (st', ds'))"
    and "\<forall>k x. dict_get (md_records ds) k = Some x \<longrightarrow> dv_id x = k"
  shows "(\<forall>k x. dict_get (md_records ds') k = Some x \<longrightarrow> dv_id x = k) \<and> v = new_device t2 w a ep l k fp (Some u) \<and>
    v \<in> ran (dict_get (md_records ds')) \<and> i \<in> open_mem_otps (st, ds) \<and> i \<notin> open_mem_otps (st', ds') \<and>
    (\<exists>x\<in>ran (dict_get (md_records ds)). dv_id x = u \<and> dv_user_id x = a \<and> dv_status x = Active \<and> dv_epoch x = ep)"
proof -
  obtain x y where x: "md_get_by_id a u ds = Some x" "dv_status x = Active" "dv_epoch x = ep"
    and c: "md_create t2 0 a ep l k fp (Some u) (Some w) ds = (Inr v, ds')"
    and y: "dict_get st i = Some y" "ot_status y = OtpActive"
      "st' = dict_set i (y\<lparr>ot_status := OtpConsumed, ot_consumed_at := Some t3\<rparr>) st"
    using assms(1)
    by (auto simp: mo_consume_and_register_def split: option.splits if_splits prod.splits sum.splits)
  have v: "v = new_device t2 w a ep l k fp (Some u)" "md_records ds' = dict_set w v (md_records ds)"
    using c by (auto simp: md_create_def Let_def split: if_splits)
  then have "dv_id v = w" by simp
  then have "(\<forall>k x. dict_get (md_records ds') k = Some x \<longrightarrow> dv_id x = k) \<and> v \<in> ran (dict_get (md_records ds'))"
    using assms(2) unfolding v(2) by (auto simp: ran_def)
  moreover have "x \<in> ran (dict_get (md_records ds))" "dv_id x = u" "dv_user_id x = a"
    using x(1) assms(2) by (auto simp: md_get_by_id_Some ran_def)
  moreover have "i \<in> open_mem_otps (st, ds)" "i \<notin> open_mem_otps (st', ds')" using y by (auto simp: open_mem_otps_def)
  ultimately show ?thesis using v(1) x(2,3) by blast
qed

interpretation memd: device_stores "memory_device_service hmac sha256" test_inv test_devices test_challenges test_codes
  test_session_set for hmac sha256
proof unfold_locales
  fix a s acct
  assume "ap_get_by_id (da_accounts (memory_device_service hmac sha256)) a s = Some acct"
  then show "ac_id acct = a"
    by (auto simp: memory_device_service_def test_accounts_def memory_get_by_id_def find_Some_iff)
next
  fix s a v dv
  assume "test_inv s" "da_get_device (memory_device_service hmac sha256) a v s = Some dv"
  then show "dv_user_id dv = a \<and> dv_id dv = v \<and> dv \<in> test_devices s"
    by (auto simp: memory_device_service_def md_get_by_id_Some test_inv_def test_devices_def ran_def)
next
  fix s a i c
  assume "test_inv s" "da_get_challenge (memory_device_service hmac sha256) a i s = Some c"
  then show "ch_id c = i"
    by (auto simp: memory_device_service_def mc_get_by_id_def test_inv_def keyed_challenges_def split: option.splits if_splits)
next
  fix s now a i c s'
  assume *: "test_inv s" "da_consume_challenge (memory_device_service hmac sha256) now a i s = (Inr (Some c), s')"
  let ?r = "mc_consume (test_finder s) (test_finder s) now a i (tt_challenges s)"
  have r: "fst ?r = Some c" "s' = s\<lparr>tt_challenges := snd ?r\<rparr>"
    using *(2) by (auto simp: test_defs)
  have "closes_one (tt_challenges s) (named ch_id ?r)"
    using mem_challenge_step_closes [of "tt_challenges s" "McConsume (test_finder s) (test_finder s) now a i"] *(1)
    by (simp add: test_inv_def)
  moreover have "ch_id c = i"
    using r(1) *(1)
    by (auto simp: mc_consume_def mc_take_def test_inv_def keyed_challenges_def split: option.splits if_splits)
  ultimately show "test_inv s' \<and> i \<in> test_challenges s \<and> i \<notin> test_challenges s'"
    using r *(1) by (auto simp: closes_one_def named_def test_inv_def test_challenges_def)
next
  fix s now a v seen s'
  assume *: "test_inv s" "da_touch_device (memory_device_service hmac sha256) now a v s = (Inr seen, s')"
  obtain ds' where ds: "md_touch_last_seen now a v (tt_devices s) = (seen, ds')" "s' = s\<lparr>tt_devices := ds'\<rparr>"
    using *(2) by (cases "md_touch_last_seen now a v (tt_devices s)") (auto simp: test_defs)
  show "test_inv s' \<and> test_challenges s' = test_challenges s \<and> (\<forall>dv. seen = Some dv \<longrightarrow> dv_user_id dv = a \<and> dv_id dv = v)"
  proof -
    note *(1) [unfolded test_inv_def]
    note law = md_replace_keyed [OF ds(1) [unfolded md_touch_last_seen_def], simplified, OF this [THEN conjunct2]]
    have "test_inv s'" unfolding test_inv_def ds(2) using law *(1) [unfolded test_inv_def] by simp
    moreover have "test_challenges s' = test_challenges s" unfolding ds(2) by (simp add: test_challenges_def)
    ultimately show ?thesis using law by blast
  qed
next
  fix s now fresh a v th ch ep idle hard x s'
  assume "test_inv s"
    "sp_create (da_sessions (memory_device_service hmac sha256)) now fresh a v th ch ep idle hard s = (Inr x, s')"
  then show "test_inv s' \<and> test_devices s' = test_devices s \<and> test_challenges s' = test_challenges s \<and>
      test_codes s' = test_codes s \<and> x = new_session now fresh a v th ch ep idle hard \<and> x \<in> test_session_set s'"
    by (auto simp: test_defs test_sessions_def mem_sessions_def ms_create_def Let_def open_mem_otps_def ran_def)
next
  fix s a now mk s'
  assume "test_inv s" "ap_mark_email_fallback (da_accounts (memory_device_service hmac sha256)) a now s = (Inr mk, s')"
  then show "test_inv s' \<and> test_devices s' = test_devices s \<and> test_codes s' = test_codes s"
    by (auto simp: test_defs test_accounts_def split: prod.splits)
next
  fix s create now fresh ty oc ex ou ov ofp details ev s'
  assume "test_inv s" "da_security_events (memory_device_service hmac sha256) = Some create"
    "create now fresh ty oc ex ou ov ofp details s = (ev, s')"
  then show "test_inv s' \<and> test_devices s' = test_devices s \<and> test_challenges s' = test_challenges s \<and>
      test_codes s' = test_codes s \<and> test_session_set s' = test_session_set s"
    by (auto simp: test_defs me_create_def Let_def)
next
  fix s clk a ep l k fp v dv s'
  assume *: "test_inv s" "da_register_for_email (memory_device_service hmac sha256) clk a ep l k fp v s = (Inr dv, s')"
  obtain ds' where ds: "md_register_for_email (clk 0) (clk 1) a ep l k fp v (tt_devices s) = (Inr dv, ds')"
      "s' = s\<lparr>tt_devices := ds'\<rparr>"
    using *(2) by (auto simp: test_defs split: prod.splits)
  show "test_inv s' \<and> test_codes s' = test_codes s \<and> dv \<in> test_devices s' \<and> dv_user_id dv = a \<and> dv_epoch dv = ep \<and>
      dv_fingerprint dv = fp \<and> dv_status dv = Active"
  proof -
    note keyed = *(1) [unfolded test_inv_def]
    note law = mem_email_registered [OF ds(1) keyed [THEN conjunct2]]
    have "test_inv s'" unfolding test_inv_def ds(2) using law keyed by simp
    moreover have "test_codes s' = test_codes s" unfolding ds(2) by (simp add: test_codes_def open_mem_otps_def)
    moreover have "dv \<in> test_devices s'" unfolding ds(2) test_devices_def using law by simp
    ultimately show ?thesis using law by blast
  qed
next
  fix s clk i a u ep v l k fp dv s'
  assume *: "test_inv s" "da_consume_and_register (memory_device_service hmac sha256) clk i a u ep v l k fp s = (Inr (Some dv), s')"
  obtain st' ds' where r: "mo_consume_and_register (clk 0) (clk 1) (clk 2) i a u ep v l k fp (tt_otps s, tt_devices s) =
      (Inr (Some dv), (st', ds'))" "s' = s\<lparr>tt_otps := st', tt_devices := ds'\<rparr>"
    using *(2) by (auto simp: memory_device_service_def split: prod.splits)
  note keyed = *(1) [unfolded test_inv_def]
  note law = mem_link_registered [OF r(1) keyed [THEN conjunct2]]
  show "test_inv s' \<and> i \<in> test_codes s \<and> i \<notin> test_codes s' \<and> dv \<in> test_devices s' \<and> dv_id dv = v \<and> dv_user_id dv = a \<and>
      dv_epoch dv = ep \<and> dv_signing_public_key_spki dv = k \<and> dv_fingerprint dv = fp \<and> dv_status dv = Active \<and>
      dv_linked_by_device_id dv = Some u \<and>
      (\<exists>iss\<in>test_devices s. dv_id iss = u \<and> dv_user_id iss = a \<and> dv_status iss = Active \<and> dv_epoch iss = ep)"
  proof -
    have "test_inv s'" unfolding test_inv_def r(2) using law keyed by simp
    moreover have "i \<in> test_codes s" "i \<notin> test_codes s'" unfolding r(2) test_codes_def using law by simp_all
    moreover have "dv \<in> ran (dict_get (md_records ds'))" using law by blast
    then have "dv \<in> test_devices s'" unfolding r(2) test_devices_def by simp
    moreover have "\<exists>iss\<in>test_devices s. dv_id iss = u \<and> dv_user_id iss = a \<and> dv_status iss = Active \<and> dv_epoch iss = ep"
      unfolding test_devices_def using law by blast
    moreover have "dv_id dv = v" "dv_user_id dv = a" "dv_epoch dv = ep" "dv_signing_public_key_spki dv = k"
      "dv_fingerprint dv = fp" "dv_status dv = Active" "dv_linked_by_device_id dv = Some u"
      using law by simp_all
    ultimately show ?thesis by blast
  qed
qed

section \<open>Properties\<close>

text \<open>A library whose keys are their own encodings and whose signature check compares with a tag, for the witnesses.\<close>

definition tag_crypto :: "bytes crypto" where
  "tag_crypto = \<lparr>cr_sha256 = sample_sha, cr_load_der_public_key = Some, cr_is_p256 = (\<lambda>_. True),
     cr_is_ec = (\<lambda>_. True), cr_public_bytes = (\<lambda>k. k), cr_encode_dss_signature = (\<lambda>r s. [r, s]),
     cr_decode_dss_signature = (\<lambda>b. if length b = 2 then Some (hd b, last b) else None),
     cr_verify = (\<lambda>k sg m. sg = [from_bytes (replicate 32 (hd k)), length m])\<rparr>"

definition sample_inputs :: "bytes inputs" where
  "sample_inputs = \<lparr>in_crypto = tag_crypto, in_unicode = ascii_tables, in_hmac = (\<lambda>k m. m), in_clock = (\<lambda>n. 3 + int n),
     in_fresh = (\<lambda>n. 50 + n), in_random = sample_random, in_below = 7\<rparr>"

abbreviation sample_device_service :: "db device_service" where
  "sample_device_service \<equiv> sql_device_service (\<lambda>_. True) (\<lambda>_. 2) (\<lambda>k m. m) [] sample_sha"

definition login_signature :: bytes where
  "login_signature = replicate 32 10 @ to_bytes 32 426"

definition login_db :: db where
  "login_db = onetime_db\<lparr>device_challenges := [new_challenge 1 30 10 (sample_sha (replicate 32 7)) (lit ''https://a'') 60]\<rparr>"

definition linking_state :: registration_state where
  "linking_state =
     \<lparr>rs_challenge = \<lparr>rc_challenge_id = 70, rc_account_id = 1, rc_device_id = 12, rc_epoch = 0, rc_nonce = replicate 32 7,
        rc_origin = lit ''https://a'', rc_issued_at = 1, rc_expires_at = 60, rc_fingerprint = replicate 32 9,
        rc_fallback = False, rc_enrollment_method = lit ''device_link'', rc_linking_otp_id = Some 40,
        rc_linked_by_device_id = Some 10\<rparr>,
      rs_public_key_spki = [12], rs_label = lit ''phone'', rs_attempts = 0\<rparr>"

definition linking_signature :: bytes where
  "linking_signature = replicate 32 12 @ to_bytes 32 544"

definition linking_auth :: "db auth_state" where
  "linking_auth = \<lparr>au_store = onetime_db, au_registrations = [(70, linking_state)], au_bootstraps = []\<rparr>"

lemma sample_credentials: "credentials_inv login_db" "credentials_inv onetime_db"
  unfolding credentials_inv_def chl.inv_def otp.inv_def by code_simp+

text \<open>
  C3.  A login by device proof is sound.  When \<open>complete_login_challenge\<close> returns on the database, the
  challenge was stored for this account and this origin, was open and not expired, and its nonce is
  the one the caller sent; the device it names is a trusted device of the account's current epoch, and
  the signature verifies, under that device's stored key, over the canonical payload of exactly this
  challenge.  The session that was opened is stored for the same account, device and epoch.  The
  challenge is closed afterwards, so no later call answers it again.
\<close>

theorem login_proof_sound:
  assumes "credentials_inv d"
    and "complete_login_challenge i (sql_device_service known octets hmac secret sha256) a cid nonce sg origin d = (Inr r, d')"
  shows "(\<exists>c v p m. ch_get_by_id a cid d = Some c \<and> ch_id c = cid \<and> ch_origin c = origin \<and>
      in_clock i 0 < ch_expires_at c \<and> ch_nonce_hash c = in_sha256 i nonce \<and>
      ac_id (ar_account r) = a \<and> v \<in> set (devices d) \<and> dv_id v = ch_device_id c \<and> dv_user_id v = a \<and>
      dv_status v = Active \<and> dv_epoch v = ac_device_epoch (ar_account r) \<and>
      challenge_payload c (ar_account r) v nonce = Inr p \<and> signed_message p = Inr m \<and>
      verify_p1363_signature (in_crypto i) (dv_signing_public_key_spki v) sg m \<and>
      cid \<in> open_challenges d \<and> cid \<notin> open_challenges d' \<and> dv_id (ar_device r) = dv_id v \<and>
      cs_record (ar_session r) \<in> set (app_sessions d') \<and> se_user_id (cs_record (ar_session r)) = a \<and>
      se_device_id (cs_record (ar_session r)) = dv_id v \<and>
      se_epoch (cs_record (ar_session r)) = ac_device_epoch (ar_account r) \<and>
    se_token_hash (cs_record (ar_session r)) = in_sha256 i (sx_token (cs_secrets (ar_session r)))) \<and>
    complete_login_challenge j (sql_device_service known octets hmac secret sha256) b cid nonce' sg' origin' d' \<noteq>
      (Inr r', d'')"
  using sqld.login_sound [OF assms] sqld.login_not_replayed [OF assms] by (simp add: sql_device_service_def)

lemma sample_login:
  obtains r d' where "complete_login_challenge sample_inputs sample_device_service 1 30 (replicate 32 7) login_signature
    (lit ''https://a'') login_db = (Inr r, d')"
proof -
  let ?r = "complete_login_challenge sample_inputs sample_device_service 1 30 (replicate 32 7) login_signature
    (lit ''https://a'') login_db"
  have "\<not> isl (fst ?r)" by code_simp
  then show thesis using that by (metis prod.collapse sum.collapse(2))
qed

theorem login_proof_sound_witness:
  "\<exists>r d'. complete_login_challenge sample_inputs sample_device_service 1 30 (replicate 32 7) login_signature (lit ''https://a'')
       login_db = (Inr r, d') \<and>
     30 \<in> open_challenges login_db \<and> 30 \<notin> open_challenges d' \<and> cs_record (ar_session r) \<in> set (app_sessions d')"
proof -
  let ?r = "complete_login_challenge sample_inputs sample_device_service 1 30 (replicate 32 7) login_signature (lit ''https://a'') login_db"
  obtain r d' where "?r = (Inr r, d')" by (rule sample_login)
  with login_proof_sound [OF sample_credentials(1) this] show ?thesis by blast
qed

text \<open>
  C7.  Registering a device is sound.  When \<open>complete_registration\<close> returns on the database, the pending
  registration was stored under this identifier for this origin, was not expired and had fewer than
  ten failed attempts, and the signature verifies under the very key it was issued for.  The device of
  the answer is stored as an active device of the account and epoch it was issued for, with the
  fingerprint that was signed, and the new session is stored for it.  A linked device needs a
  linking code that was open before and is spent afterwards, and a trusted device of the same account
  and epoch that issued it; an enrolment by e-mail keeps the fallback mark it was issued with.  The
  registration is gone, so no later call completes it again.
\<close>

theorem registration_proof_sound:
  assumes "credentials_inv (au_store st)"
    and "complete_registration i (sql_device_service known octets hmac secret sha256) cid sg origin st = (Inr r, st')"
  shows "(\<exists>x m. dict_get (au_registrations st) cid = Some x \<and> rc_origin (rs_challenge x) = origin \<and>
      in_clock i 0 < rc_expires_at (rs_challenge x) \<and> rs_attempts x < 10 \<and>
      bind_res (rc_payload (rs_challenge x)) signed_message = Inr m \<and>
      verify_p1363_signature (in_crypto i) (rs_public_key_spki x) sg m \<and>
      dict_get (au_registrations st') cid = None \<and>
      ac_id (ar_account r) = rc_account_id (rs_challenge x) \<and> ac_device_epoch (ar_account r) = rc_epoch (rs_challenge x) \<and>
      ar_device r \<in> set (devices (au_store st')) \<and> dv_user_id (ar_device r) = ac_id (ar_account r) \<and>
      dv_epoch (ar_device r) = ac_device_epoch (ar_account r) \<and> dv_status (ar_device r) = Active \<and>
      dv_fingerprint (ar_device r) = rc_fingerprint (rs_challenge x) \<and>
      (case rc_linking_otp_id (rs_challenge x) of
         None \<Rightarrow> ar_fallback r = rc_fallback (rs_challenge x)
       | Some otp_id \<Rightarrow> \<not> ar_fallback r \<and> otp_id \<in> open_otps (au_store st) \<and> otp_id \<notin> open_otps (au_store st') \<and>
           dv_id (ar_device r) = rc_device_id (rs_challenge x) \<and>
           dv_signing_public_key_spki (ar_device r) = rs_public_key_spki x \<and>
           (\<exists>u\<in>set (devices (au_store st)). rc_linked_by_device_id (rs_challenge x) = Some (dv_id u) \<and>
              dv_user_id u = ac_id (ar_account r) \<and> dv_status u = Active \<and> dv_epoch u = ac_device_epoch (ar_account r))) \<and>
      cs_record (ar_session r) \<in> set (app_sessions (au_store st')) \<and>
      se_user_id (cs_record (ar_session r)) = ac_id (ar_account r) \<and>
      se_device_id (cs_record (ar_session r)) = dv_id (ar_device r) \<and>
      se_epoch (cs_record (ar_session r)) = ac_device_epoch (ar_account r) \<and>
    se_token_hash (cs_record (ar_session r)) = in_sha256 i (sx_token (cs_secrets (ar_session r)))) \<and>
    complete_registration j (sql_device_service known octets hmac secret sha256) cid sg' origin' st' \<noteq> (Inr r', st'')"
  using sqld.registration_sound [OF assms] sqld.registration_not_replayed [OF assms] by (rule conjI)

theorem registration_proof_sound_witness:
  "\<exists>r st'. complete_registration sample_inputs sample_device_service 70 linking_signature (lit ''https://a'') linking_auth = (Inr r, st') \<and>
     ar_device r \<in> set (devices (au_store st')) \<and> dv_status (ar_device r) = Active"
proof -
  let ?r = "complete_registration sample_inputs sample_device_service 70 linking_signature (lit ''https://a'') linking_auth"
  have "\<not> isl (fst ?r)" by code_simp
  then obtain r st' where r: "?r = (Inr r, st')" by (metis prod.collapse sum.collapse(2))
  have "credentials_inv (au_store linking_auth)" using sample_credentials(2) by (simp add: linking_auth_def)
  from registration_proof_sound [OF this r] r show ?thesis by blast
qed

end
