(* ===== verification/TransferService.thy ===== *)
theory TransferService
  imports PresenceSafety
begin

text \<open>
  \<open>TransferService\<close> of \<open>app/transfers.py\<close>: the transfer control operations over a repository port
  and the presence manager.  The state is the manager with the repository; the manager's metrics
  are the ones \<open>main.py\<close> shares between the two objects.  A call takes its clock readings from a
  \<open>readings\<close> record: those of the service's own clock, of each repository call, and of the
  presence manager.  The methods are total functions: their only loop is over the listed records.
\<close>

section \<open>Constants and messages\<close>

definition TRANSFER_PROTOCOL_VERSION :: int where "TRANSFER_PROTOCOL_VERSION = 1"

definition TRANSFER_REQUEST_LIFETIME :: int where "TRANSFER_REQUEST_LIFETIME = minutes 10"

definition TRANSFER_ACTIVE_STATUSES :: "transfer_status list" where
  "TRANSFER_ACTIVE_STATUSES = [Offered, Accepted, Negotiating, Connected, Transferring]"

definition TRANSFER_PEER_KEY_STATUSES :: "transfer_status list" where
  "TRANSFER_PEER_KEY_STATUSES = [Offered, Accepted, Negotiating]"

definition MAX_ACTIVE_TRANSFERS_PER_ACCOUNT :: nat where "MAX_ACTIVE_TRANSFERS_PER_ACCOUNT = 8"

definition MAX_ACTIVE_TRANSFERS_PER_DEVICE :: nat where "MAX_ACTIVE_TRANSFERS_PER_DEVICE = 4"

definition transfer_notification :: "transfer_request \<Rightarrow> string \<Rightarrow> message" where
  "transfer_notification r message_type =
     [(lit ''type'', JStr (lit message_type)),
      (lit ''v'', JInt (tr_protocol_version r)),
      (lit ''transfer_id'', JStr (uuid_str (tr_id r))),
      (lit ''sender_device_id'', JStr (uuid_str (tr_sender_device_id r))),
      (lit ''recipient_device_id'', JStr (uuid_str (tr_recipient_device_id r))),
      (lit ''created_at'', JStr (isoformat (tr_created_at r))),
      (lit ''expires_at'', JStr (isoformat (tr_expires_at r)))]"

section \<open>The service\<close>

record 's transfer_service =
  sv_repository :: "'s transfer_port"
  sv_has_presence :: bool
  sv_devices :: "device_lookup option"
  sv_lifetime :: int

definition new_transfer_service ::
    "'s transfer_port \<Rightarrow> bool \<Rightarrow> device_lookup option \<Rightarrow> int \<Rightarrow> 's transfer_service res" where
  "new_transfer_service repository has_presence devs lifetime =
     (if lifetime \<le> 0 then Inl ValueError
      else Inr \<lparr>sv_repository = repository, sv_has_presence = has_presence, sv_devices = devs,
                sv_lifetime = lifetime\<rparr>)"

record readings =
  rd_now :: clock
  rd_repository :: "nat \<Rightarrow> clock"
  rd_presence :: clock

type_synonym ('a, 's) outcome = "'a res \<times> manager \<times> 's"

definition service_notify ::
    "'s transfer_service \<Rightarrow> instant \<Rightarrow> uuid \<Rightarrow> uuid \<Rightarrow> message \<Rightarrow> manager \<Rightarrow> manager" where
  "service_notify sv now a device_id payload m =
     (if sv_has_presence sv then snd (send_to_device now a device_id payload m) else m)"

definition notify_participants ::
    "'s transfer_service \<Rightarrow> clock \<Rightarrow> uuid \<Rightarrow> transfer_request \<Rightarrow> message \<Rightarrow> manager \<Rightarrow> manager" where
  "notify_participants sv clk a r payload m =
     (let m1 = service_notify sv (clk 0) a (tr_sender_device_id r) payload m
      in if tr_recipient_device_id r \<noteq> tr_sender_device_id r
         then service_notify sv (clk 1) a (tr_recipient_device_id r) payload m1 else m1)"

definition service_release :: "'s transfer_service \<Rightarrow> uuid \<Rightarrow> manager \<Rightarrow> manager" where
  "service_release sv t m =
     (if sv_has_presence sv then pm_count ''transfer_state_released'' (release_transfer t m) else m)"

definition validate_devices ::
    "'s transfer_service \<Rightarrow> uuid \<Rightarrow> uuid \<Rightarrow> uuid \<Rightarrow> unit res" where
  "validate_devices sv a sender_device_id recipient_device_id =
     (case sv_devices sv of
        None \<Rightarrow> Inr ()
      | Some get \<Rightarrow>
          (case (get a sender_device_id, get a recipient_device_id) of
             (Some sender, Some recipient) \<Rightarrow>
               if dv_status sender \<noteq> Active \<or> dv_status recipient \<noteq> Active \<or>
                  dv_epoch sender \<noteq> dv_epoch recipient
               then Inl TransferError else Inr ()
           | _ \<Rightarrow> Inl TransferError))"

definition is_active :: "instant \<Rightarrow> transfer_request \<Rightarrow> bool" where
  "is_active now r \<longleftrightarrow> tr_status r \<in> set TRANSFER_ACTIVE_STATUSES \<and> tr_expires_at r > now"

definition involves :: "uuid \<Rightarrow> transfer_request \<Rightarrow> bool" where
  "involves v r \<longleftrightarrow> v \<in> {tr_sender_device_id r, tr_recipient_device_id r}"

definition ensure_capacity ::
    "'s transfer_service \<Rightarrow> uuid \<Rightarrow> uuid \<Rightarrow> uuid \<Rightarrow> instant \<Rightarrow> manager \<times> 's \<Rightarrow> (unit, 's) outcome" where
  "ensure_capacity sv a sender_device_id recipient_device_id now ms =
     (case ms of (m, s) \<Rightarrow>
      let active = filter (is_active now) (tp_list_for_account (sv_repository sv) a s);
          sender_count = length (filter (involves sender_device_id) active);
          recipient_count = length (filter (involves recipient_device_id) active)
      in if length active \<ge> MAX_ACTIVE_TRANSFERS_PER_ACCOUNT \<or>
            sender_count \<ge> MAX_ACTIVE_TRANSFERS_PER_DEVICE \<or>
            recipient_count \<ge> MAX_ACTIVE_TRANSFERS_PER_DEVICE
         then (Inl TransferCapacityError, pm_count ''transfer_capacity_rejected'' m, s)
         else (Inr (), m, s))"

text \<open>\<open>create_offer\<close>; \<open>fresh\<close> is the identifier the repository gives the new row.\<close>

definition create_offer ::
    "'s transfer_service \<Rightarrow> readings \<Rightarrow> uuid \<Rightarrow> uuid \<Rightarrow> uuid \<Rightarrow> uuid \<Rightarrow> int \<Rightarrow> manager \<times> 's \<Rightarrow>
     (transfer_request, 's) outcome" where
  "create_offer sv rd fresh a sender_device_id recipient_device_id protocol_version ms =
     (if protocol_version \<noteq> TRANSFER_PROTOCOL_VERSION then (Inl TransferError, ms)
      else if sender_device_id = recipient_device_id then (Inl TransferError, ms)
      else case validate_devices sv a sender_device_id recipient_device_id of
             Inl e \<Rightarrow> (Inl e, ms)
           | Inr _ \<Rightarrow>
               let now = rd_now rd 0
               in case ensure_capacity sv a sender_device_id recipient_device_id now ms of
                    (Inl e, ms1) \<Rightarrow> (Inl e, ms1)
                  | (Inr _, m1, s1) \<Rightarrow>
                      (case tp_create (sv_repository sv) (rd_repository rd 0) fresh a sender_device_id
                              recipient_device_id protocol_version (now + sv_lifetime sv) s1 of
                         (Inl e, s2) \<Rightarrow> (Inl e, m1, s2)
                       | (Inr r, s2) \<Rightarrow>
                           (Inr r,
                            service_notify sv (rd_presence rd 0) a recipient_device_id
                              (transfer_notification r ''transfer_offer'') m1, s2)))"

text \<open>\<open>expire\<close>; \<open>rclk\<close> are the readings of its repository call.\<close>

definition service_expire ::
    "'s transfer_service \<Rightarrow> clock \<Rightarrow> clock \<Rightarrow> uuid \<Rightarrow> uuid \<Rightarrow> manager \<times> 's \<Rightarrow>
     (transfer_request, 's) outcome" where
  "service_expire sv rclk pclk a t ms =
     (case ms of (m, s) \<Rightarrow>
      case tp_expire (sv_repository sv) rclk a t s of
        (Inl e, s1) \<Rightarrow> (Inl e, m, s1)
      | (Inr None, s1) \<Rightarrow> (Inl TransferError, m, s1)
      | (Inr (Some expired), s1) \<Rightarrow>
          (Inr expired,
           notify_participants sv pclk a expired (transfer_notification expired ''transfer_expired'')
             (service_release sv t m), s1))"

definition current_or_expire ::
    "'s transfer_service \<Rightarrow> readings \<Rightarrow> uuid \<Rightarrow> uuid \<Rightarrow> manager \<times> 's \<Rightarrow>
     (transfer_request option, 's) outcome" where
  "current_or_expire sv rd a t ms =
     (case ms of (m, s) \<Rightarrow>
      case tp_get_by_id (sv_repository sv) a t s of
        None \<Rightarrow> (Inr None, m, s)
      | Some r \<Rightarrow>
          if tr_status r \<notin> set TRANSFER_ACTIVE_STATUSES then (Inr (Some r), m, s)
          else if tr_expires_at r > rd_now rd 0 then (Inr (Some r), m, s)
          else case service_expire sv (rd_repository rd 0) (rd_presence rd) a t (m, s) of
                 (Inr expired, m1, s1) \<Rightarrow> (Inr (Some expired), m1, s1)
               | (Inl e, m1, s1) \<Rightarrow>
                   if is_TransferError e
                   then (Inr (tp_get_by_id (sv_repository sv) a t s1), m1, s1)
                   else (Inl e, m1, s1))"

definition service_accept ::
    "'s transfer_service \<Rightarrow> readings \<Rightarrow> uuid \<Rightarrow> uuid \<Rightarrow> uuid \<Rightarrow> manager \<times> 's \<Rightarrow>
     (transfer_request, 's) outcome" where
  "service_accept sv rd a t recipient_device_id ms =
     (case current_or_expire sv rd a t ms of
        (Inl e, ms1) \<Rightarrow> (Inl e, ms1)
      | (Inr None, ms1) \<Rightarrow> (Inl TransferError, ms1)
      | (Inr (Some current), m1, s1) \<Rightarrow>
          if tr_status current \<noteq> Offered then (Inl TransferError, m1, s1)
          else case tp_accept (sv_repository sv) (rd_repository rd 1) a t recipient_device_id s1 of
                 (Inl e, s2) \<Rightarrow> (Inl e, m1, s2)
               | (Inr None, s2) \<Rightarrow> (Inl TransferError, m1, s2)
               | (Inr (Some accepted), s2) \<Rightarrow>
                   (Inr accepted,
                    service_notify sv (rd_presence rd 2) a (tr_sender_device_id accepted)
                      (transfer_notification accepted ''transfer_accepted'') m1, s2))"

definition service_reject ::
    "'s transfer_service \<Rightarrow> readings \<Rightarrow> uuid \<Rightarrow> uuid \<Rightarrow> uuid \<Rightarrow> manager \<times> 's \<Rightarrow>
     (transfer_request, 's) outcome" where
  "service_reject sv rd a t recipient_device_id ms =
     (case current_or_expire sv rd a t ms of
        (Inl e, ms1) \<Rightarrow> (Inl e, ms1)
      | (Inr None, ms1) \<Rightarrow> (Inl TransferError, ms1)
      | (Inr (Some current), m1, s1) \<Rightarrow>
          if tr_status current \<noteq> Offered then (Inl TransferError, m1, s1)
          else case tp_reject (sv_repository sv) (rd_repository rd 1) a t recipient_device_id s1 of
                 (Inl e, s2) \<Rightarrow> (Inl e, m1, s2)
               | (Inr None, s2) \<Rightarrow> (Inl TransferError, m1, s2)
               | (Inr (Some rejected), s2) \<Rightarrow>
                   (Inr rejected,
                    service_notify sv (rd_presence rd 2) a (tr_sender_device_id rejected)
                      (transfer_notification rejected ''transfer_rejected'')
                      (service_release sv t m1), s2))"

definition service_cancel ::
    "'s transfer_service \<Rightarrow> readings \<Rightarrow> uuid \<Rightarrow> uuid \<Rightarrow> uuid \<Rightarrow> manager \<times> 's \<Rightarrow>
     (transfer_request, 's) outcome" where
  "service_cancel sv rd a t actor_device_id ms =
     (case current_or_expire sv rd a t ms of
        (Inl e, ms1) \<Rightarrow> (Inl e, ms1)
      | (Inr None, ms1) \<Rightarrow> (Inl TransferError, ms1)
      | (Inr (Some current), m1, s1) \<Rightarrow>
          if tr_status current \<notin> set TRANSFER_ACTIVE_STATUSES then (Inl TransferError, m1, s1)
          else case tp_cancel (sv_repository sv) (rd_repository rd 1) a t actor_device_id s1 of
                 (Inl e, s2) \<Rightarrow> (Inl e, m1, s2)
               | (Inr None, s2) \<Rightarrow> (Inl TransferError, m1, s2)
               | (Inr (Some cancelled), s2) \<Rightarrow>
                   (Inr cancelled,
                    notify_participants sv (\<lambda>i. rd_presence rd (i + 2)) a cancelled
                      (transfer_notification cancelled ''transfer_cancelled'')
                      (service_release sv t m1), s2))"

definition service_get ::
    "'s transfer_service \<Rightarrow> readings \<Rightarrow> uuid \<Rightarrow> uuid \<Rightarrow> manager \<times> 's \<Rightarrow>
     (transfer_request, 's) outcome" where
  "service_get sv rd a t ms =
     (case current_or_expire sv rd a t ms of
        (Inl e, ms1) \<Rightarrow> (Inl e, ms1)
      | (Inr None, ms1) \<Rightarrow> (Inl TransferError, ms1)
      | (Inr (Some r), ms1) \<Rightarrow> (Inr r, ms1))"

text \<open>The device checks of \<open>get_peer_device_key\<close>, after the transfer itself was found eligible.\<close>

definition peer_device ::
    "device_lookup \<Rightarrow> uuid \<Rightarrow> transfer_request \<Rightarrow> uuid \<Rightarrow> int option \<Rightarrow> device res" where
  "peer_device get a current actor_device_id epoch =
     (let peer_device_id = (if actor_device_id = tr_sender_device_id current
                            then tr_recipient_device_id current else tr_sender_device_id current)
      in case (get a actor_device_id, get a peer_device_id) of
           (Some actor, Some peer) \<Rightarrow>
             if dv_user_id actor \<noteq> a \<or> dv_user_id peer \<noteq> a \<or>
                dv_status actor \<noteq> Active \<or> dv_status peer \<noteq> Active \<or>
                dv_epoch actor \<noteq> dv_epoch peer \<or>
                (case epoch of None \<Rightarrow> False | Some n \<Rightarrow> dv_epoch actor \<noteq> n \<or> dv_epoch peer \<noteq> n)
             then Inl TransferError else Inr peer
         | _ \<Rightarrow> Inl TransferError)"

definition get_peer_device_key ::
    "'s transfer_service \<Rightarrow> readings \<Rightarrow> uuid \<Rightarrow> uuid \<Rightarrow> uuid \<Rightarrow> int option \<Rightarrow> manager \<times> 's \<Rightarrow>
     (device, 's) outcome" where
  "get_peer_device_key sv rd a t actor_device_id epoch ms =
     (case current_or_expire sv rd a t ms of
        (Inl e, ms1) \<Rightarrow> (Inl e, ms1)
      | (Inr None, ms1) \<Rightarrow> (Inl TransferError, ms1)
      | (Inr (Some current), ms1) \<Rightarrow>
          if tr_status current \<notin> set TRANSFER_PEER_KEY_STATUSES then (Inl TransferError, ms1)
          else if \<not> involves actor_device_id current then (Inl TransferError, ms1)
          else case sv_devices sv of
                 None \<Rightarrow> (Inl TransferError, ms1)
               | Some get \<Rightarrow> (peer_device get a current actor_device_id epoch, ms1))"

text \<open>
  The loop of \<open>list\<close>: \<open>rds i\<close> are the readings of its \<open>i\<close>-th turn.
\<close>

fun list_loop ::
    "'s transfer_service \<Rightarrow> (nat \<Rightarrow> readings) \<Rightarrow> uuid \<Rightarrow> nat \<Rightarrow> transfer_request list \<Rightarrow>
     manager \<times> 's \<Rightarrow> (transfer_request list, 's) outcome" where
  "list_loop sv rds a i [] ms = (Inr [], ms)"
| "list_loop sv rds a i (r # rs) (m, s) =
     (let (out, m1, s1) =
        (if tr_status r \<in> set TRANSFER_ACTIVE_STATUSES \<and> tr_expires_at r \<le> rd_now (rds i) 0
         then case service_expire sv (rd_repository (rds i) 0) (rd_presence (rds i)) a (tr_id r) (m, s) of
                (Inr expired, m1, s1) \<Rightarrow> (Inr expired, m1, s1)
              | (Inl e, m1, s1) \<Rightarrow>
                  if is_TransferError e
                  then (Inr (case tp_get_by_id (sv_repository sv) a (tr_id r) s1 of
                               None \<Rightarrow> r | Some refreshed \<Rightarrow> refreshed), m1, s1)
                  else (Inl e, m1, s1)
         else (Inr r, m, s))
      in case out of
           Inl e \<Rightarrow> (Inl e, m1, s1)
         | Inr r' \<Rightarrow>
             (case list_loop sv rds a (Suc i) rs (m1, s1) of
                (Inl e, ms2) \<Rightarrow> (Inl e, ms2)
              | (Inr rs', ms2) \<Rightarrow> (Inr (r' # rs'), ms2)))"

definition service_list ::
    "'s transfer_service \<Rightarrow> (nat \<Rightarrow> readings) \<Rightarrow> uuid \<Rightarrow> manager \<times> 's \<Rightarrow>
     (transfer_request list, 's) outcome" where
  "service_list sv rds a ms =
     list_loop sv rds a 0 (tp_list_for_account (sv_repository sv) a (snd ms)) ms"

section \<open>Facts about one call\<close>

lemma active_statuses_eq: "TRANSFER_ACTIVE_STATUSES = ACTIVE_STATUSES"
  by (simp add: TRANSFER_ACTIVE_STATUSES_def ACTIVE_STATUSES_def)

lemma service_notify_safe:
  "presence_ok own m \<Longrightarrow> safe own m (service_notify sv now a v p m)"
  by (simp add: service_notify_def safe_send safe_refl)

lemma notify_participants_safe:
  "presence_ok own m \<Longrightarrow> safe own m (notify_participants sv clk a r p m)"
  by (auto simp: notify_participants_def Let_def intro: safe_trans service_notify_safe)

lemma service_release_safe: "presence_ok own m \<Longrightarrow> safe own m (service_release sv t m)"
  by (auto simp: service_release_def release_transfer_def safe_refl
      intro: safe_count safe_step presence_step.released)

text \<open>Signaling state that is gone does not come back with a notification.\<close>

lemma release_none: "dict_get (pm_signaling m) t = None \<Longrightarrow> dict_get (pm_signaling (snd (release_signaling u m))) t = None"
  by (auto simp: release_signaling_def Let_def split: option.splits)

lemma fold_release_none:
  "dict_get (pm_signaling m) t = None \<Longrightarrow>
     dict_get (pm_signaling (fold (\<lambda>u m. snd (release_signaling u m)) us m)) t = None"
  by (induction us arbitrary: m) (simp_all add: release_none)

lemma prune_none:
  assumes "dict_get (pm_signaling m) t = None"
  shows "dict_get (pm_signaling (prune_expired now b m)) t = None"
proof -
  obtain cs m1 where p: "prune_sockets now b m = (cs, m1)" by fastforce
  have "pm_signaling (snd (prune_account now a (es, n))) = pm_signaling n" for a es n
    by (simp add: prune_account_def Let_def split: option.split)
  then have "pm_signaling (snd (fold (prune_account now) as (es, n))) = pm_signaling n" for as es n
    by (induction as arbitrary: es n) (simp, metis fold_simps(2) prod.collapse)
  then have "pm_signaling m1 = pm_signaling m"
    using p unfolding prune_sockets_def by (metis snd_conv)
  moreover have "pm_signaling (fold expire_socket cs n) = pm_signaling n" for n
    by (induction cs arbitrary: n) (simp_all add: expire_socket_def)
  ultimately show ?thesis
    using assms by (simp add: prune_expired_def p prune_signaling_state_def Let_def fold_release_none)
qed

lemma notify_none:
  "dict_get (pm_signaling m) t = None \<Longrightarrow> dict_get (pm_signaling (service_notify sv now a v p m)) t = None"
  using prune_none [of m t now "Some a"]
  by (auto simp: service_notify_def send_to_device_def connection_for_def Let_def split: option.split)

lemma notify_participants_none:
  "dict_get (pm_signaling m) t = None \<Longrightarrow> dict_get (pm_signaling (notify_participants sv clk a r p m)) t = None"
  by (simp add: notify_participants_def Let_def notify_none)

lemma released_none: "sv_has_presence sv \<Longrightarrow> dict_get (pm_signaling (service_release sv t m)) t = None"
  by (auto simp: service_release_def release_transfer_def clear_signaling_state_def release_signaling_def
      Let_def split: option.splits)

text \<open>One call of an updating method of a repository, at any time and by any caller.\<close>

inductive port_update :: "'s transfer_port \<Rightarrow> 's \<Rightarrow> 's \<Rightarrow> bool" for port where
  "f \<in> {tp_accept port clk a t v, tp_reject port clk a t v, tp_cancel port clk a t v,
        tp_expire port clk a t, tp_mark_negotiating port clk a t, tp_mark_relay_used port clk a t} \<Longrightarrow>
   f s = (res, s') \<Longrightarrow> port_update port s s'"

text \<open>
  What an operation of the service may do to the table of transfers: move rows along the state
  machine, any number of steps.
\<close>

definition moved :: "transfer_request list \<Rightarrow> transfer_request list \<Rightarrow> bool" where
  "moved t t' \<longleftrightarrow> list_all2 evolves\<^sup>*\<^sup>* t t'"

lemma moved_refl [simp]: "moved t t"
  by (simp add: moved_def list.rel_refl)

lemma moved_evolves: "moved t t' \<Longrightarrow> list_all2 evolves t' t'' \<Longrightarrow> moved t t''"
  unfolding moved_def by (rule list_all2_rtranclp_into)

lemma moved_into: "list_all2 evolves t t' \<Longrightarrow> moved t t'"
  by (rule moved_evolves [OF moved_refl])

lemma moved_trans: "moved t t' \<Longrightarrow> moved t' t'' \<Longrightarrow> moved t t''"
  unfolding moved_def by (rule list_all2_trans [of "evolves\<^sup>*\<^sup>*"]) auto

text \<open>Where a moved row came from.\<close>

lemma moved_from:
  assumes "moved t t'" and "r \<in> set t'"
  obtains q where "q \<in> set t" and "evolves\<^sup>*\<^sup>* q r"
  using assms unfolding moved_def by (metis in_set_conv_nth list_all2_conv_all_nth)

lemma moved_to:
  assumes "moved t t'" and "q \<in> set t"
  obtains r where "r \<in> set t'" and "tr_id r = tr_id q" and "tr_user_id r = tr_user_id q"
proof -
  obtain r where "r \<in> set t'" "evolves\<^sup>*\<^sup>* q r"
    using assms unfolding moved_def by (metis in_set_conv_nth list_all2_conv_all_nth)
  then show ?thesis
    using evolves_star [of q r] that by (auto simp: same_offer_def)
qed

lemma count_antimono:
  assumes "list_all2 R t t'" and "\<And>q r. R q r \<Longrightarrow> P r \<Longrightarrow> Q q"
  shows "length (filter P t') \<le> length (filter Q t)"
  using assms(1) by induction (auto dest: assms(2) le_SucI)

text \<open>
  The limits on active transfers, as a predicate on the table at a time \<open>T\<close>.
\<close>

definition within_capacity :: "instant \<Rightarrow> transfer_request list \<Rightarrow> bool" where
  "within_capacity T t \<longleftrightarrow>
     (\<forall>a. length (filter (\<lambda>r. tr_user_id r = a \<and> is_active T r) t) \<le> MAX_ACTIVE_TRANSFERS_PER_ACCOUNT \<and>
          (\<forall>v. length (filter (\<lambda>r. tr_user_id r = a \<and> is_active T r \<and> involves v r) t)
                \<le> MAX_ACTIVE_TRANSFERS_PER_DEVICE))"

text \<open>
  Histories of a repository under one service: updates by anyone, and creations under the capacity
  lock.  Between the check and the creation other tasks may update the table, but not create; the
  service reads its clock before it waits for the lock, so \<open>now\<close> may be older than the readings
  of earlier creations.  \<open>T\<close> bounds all readings.
\<close>

inductive offer_step :: "'s transfer_service \<Rightarrow> ('s \<Rightarrow> transfer_request list) \<Rightarrow> instant \<Rightarrow> 's \<Rightarrow> 's \<Rightarrow> bool"
  for sv rows T where
  updated: "port_update (sv_repository sv) s s' \<Longrightarrow> offer_step sv rows T s s'"
| offered: "now \<le> T \<Longrightarrow> ensure_capacity sv a x y now (m, s) = (Inr (), m, s) \<Longrightarrow>
     (port_update (sv_repository sv))\<^sup>*\<^sup>* s s1 \<Longrightarrow> fresh \<notin> tr_id ` set (rows s1) \<Longrightarrow>
     tp_create (sv_repository sv) clk fresh a x y ver e s1 = (out, s') \<Longrightarrow> offer_step sv rows T s s'"

lemma evolves_star_active:
  "evolves\<^sup>*\<^sup>* q r \<Longrightarrow> is_active T r \<Longrightarrow> now \<le> T \<Longrightarrow> is_active now q"
  using evolves_star [of q r]
  by (auto simp: is_active_def active_statuses_eq same_offer_def terminal_def)

lemma offered_from:
  assumes "next_status\<^sup>*\<^sup>* s Offered"
  shows "s = Offered"
  using assms by (cases rule: rtranclp.cases) (auto simp: next_status_iff FAILABLE_STATUSES_def)

lemma evolves_star_offer: "evolves\<^sup>*\<^sup>* q r \<Longrightarrow> tr_user_id r = tr_user_id q \<and> involves v r = involves v q"
  using evolves_star [of q r] by (auto simp: same_offer_def involves_def)

lemma moved_count:
  assumes "moved t t'" and "now \<le> T"
  shows "length (filter (\<lambda>r. tr_user_id r = a \<and> is_active T r) t') \<le>
           length (filter (\<lambda>r. tr_user_id r = a \<and> is_active now r) t)"
    and "length (filter (\<lambda>r. tr_user_id r = a \<and> is_active T r \<and> involves v r) t') \<le>
           length (filter (\<lambda>r. tr_user_id r = a \<and> is_active now r \<and> involves v r) t)"
  using assms
  by (auto simp: moved_def intro!: count_antimono dest: evolves_star_active evolves_star_offer)

lemma moved_capacity: "moved t t' \<Longrightarrow> within_capacity T t \<Longrightarrow> within_capacity T t'"
  unfolding within_capacity_def
  using moved_count [of t t' T T] by (meson order_refl order_trans)

lemma length_filter_mset: "mset xs = mset ys \<Longrightarrow> length (filter P xs) = length (filter P ys)"
  by (metis mset_filter size_mset)

context transfer_repository
begin

text \<open>What every operation keeps, on the repository and on the manager.\<close>

definition kept :: "manager \<times> 's \<Rightarrow> manager \<times> 's \<Rightarrow> bool" where
  "kept ms ms' \<longleftrightarrow>
     inv (snd ms') \<and> (port_update port)\<^sup>*\<^sup>* (snd ms) (snd ms') \<and>
     (\<forall>own. presence_ok own (fst ms) \<longrightarrow> safe own (fst ms) (fst ms'))"

lemma port_updates:
  assumes "(port_update port)\<^sup>*\<^sup>* s s'" and "inv s"
  shows "inv s' \<and> moved (rows s) (rows s') \<and> (\<forall>b. visible b s' = visible b s)"
  using assms
proof (induction rule: rtranclp_induct)
  case (step y z)
  from step.hyps(2) obtain f clk a t v res where
    f: "f \<in> {tp_accept port clk a t v, tp_reject port clk a t v, tp_cancel port clk a t v,
          tp_expire port clk a t, tp_mark_negotiating port clk a t, tp_mark_relay_used port clk a t}"
      "f y = (res, z)"
    by cases
  then show ?case
    using step.IH step.prems update_law [of y f clk a t v, OF _ f] by (auto intro: moved_evolves)
qed simp

lemma kept_refl: "inv s \<Longrightarrow> kept (m, s) (m, s)"
  by (simp add: kept_def safe_refl)

lemma kept_trans: "kept ms ms' \<Longrightarrow> kept ms' ms'' \<Longrightarrow> kept ms ms''"
  by (auto simp: kept_def intro: rtranclp_trans safe_trans)

lemma kept_manager:
  "kept ms (m, s) \<Longrightarrow> (\<And>own. presence_ok own m \<Longrightarrow> safe own m m') \<Longrightarrow> kept ms (m', s)"
  by (auto simp: kept_def intro: safe_trans)

lemma kept_update:
  assumes "kept ms (m, s)" and "f s = (res, s')"
    and "f \<in> {tp_accept port clk a t v, tp_reject port clk a t v, tp_cancel port clk a t v,
            tp_expire port clk a t, tp_mark_negotiating port clk a t, tp_mark_relay_used port clk a t}"
  shows "kept ms (m, s')"
  using assms(1) update_law [of s f clk a t v, OF _ assms(3,2)] port_update.intros [OF assms(3,2)]
  by (auto simp: kept_def intro: rtranclp.rtrancl_into_rtrancl)

lemma kept_inv: "kept ms (m, s) \<Longrightarrow> inv s"
  by (simp add: kept_def)

lemma expire_kept:
  assumes "sv_repository sv = port" and "inv s"
    and "service_expire sv rclk pclk a t (m, s) = (out, m', s')"
  shows "kept (m, s) (m', s')"
    and "out = Inr r \<Longrightarrow> r \<in> set (rows s') \<and> tr_user_id r = a \<and> tr_id r = t \<and> tr_status r = Expired"
proof -
  obtain res s1 where e: "tp_expire port rclk a t s = (res, s1)" by fastforce
  have k: "kept (m, s) (m, s1)"
    using kept_refl [OF assms(2)] e by (rule kept_update) blast
  have "s' = s1" using assms(1,3) e
    by (auto simp: service_expire_def split: sum.splits option.splits)
  then show "kept (m, s) (m', s')"
    using assms(3) e k
    by (auto simp: service_expire_def assms(1) split: sum.splits option.splits
        intro: kept_manager service_release_safe safe_trans notify_participants_safe)
  show "out = Inr r \<Longrightarrow> r \<in> set (rows s') \<and> tr_user_id r = a \<and> tr_id r = t \<and> tr_status r = Expired"
    using assms(1,3) e update_law [where f = "tp_expire port rclk a t", OF assms(2) _ e, of rclk a t] expire_law [OF assms(2), of rclk a t]
    by (auto simp: service_expire_def split: sum.splits option.splits)
qed

lemma current_kept:
  assumes "sv_repository sv = port" and "inv s"
    and "current_or_expire sv rd a t (m, s) = (out, m', s')"
  shows "kept (m, s) (m', s')"
    and "out = Inr (Some r) \<Longrightarrow> r \<in> set (rows s') \<and> tr_user_id r = a \<and> tr_id r = t"
proof -
  obtain x m1 s1 where e: "service_expire sv (rd_repository rd 0) (rd_presence rd) a t (m, s) = (x, m1, s1)"
    by (metis prod_cases3)
  note k = expire_kept [OF assms(1,2) e]
  show "kept (m, s) (m', s')"
    using assms e k(1) kept_refl [OF assms(2), of m]
    by (auto simp: current_or_expire_def split: option.splits if_splits sum.splits)
  show "out = Inr (Some r) \<Longrightarrow> r \<in> set (rows s') \<and> tr_user_id r = a \<and> tr_id r = t"
    using assms e k(2) get_law [OF assms(2), of a t] get_law [of s1 a t, OF kept_inv [OF k(1)]]
    by (auto simp: current_or_expire_def split: option.splits if_splits sum.splits)
qed

text \<open>
  A transfer that comes back active is not stale, provided the clock of the repository is not
  behind the service's.
\<close>

lemma current_not_stale:
  assumes "sv_repository sv = port" and "inv s"
    and "current_or_expire sv rd a t (m, s) = (Inr (Some r), m', s')"
    and "\<forall>i. rd_now rd 0 \<le> rd_repository rd 0 i" and "tr_status r \<in> set ACTIVE_STATUSES"
  shows "tr_expires_at r > rd_now rd 0" and "(m', s') = (m, s)"
proof -
  have "service_expire sv (rd_repository rd 0) (rd_presence rd) a t (m, s) = (Inr e, m1, s1) \<Longrightarrow>
      tr_status e = Expired" for e m1 s1
    using expire_kept(2) [OF assms(1,2)] by blast
  moreover have "\<exists>e s1. tp_expire port (rd_repository rd 0) a t s = (Inr (Some e), s1)"
    if "tp_get_by_id port a t s = Some q" "tr_status q \<in> set ACTIVE_STATUSES"
      "\<not> rd_now rd 0 < tr_expires_at q" for q
    using expire_live [OF assms(2) that(1,2), of "rd_repository rd 0"] that(3) assms(4)
    by (meson order_trans not_less)
  moreover have "Expired \<notin> set ACTIVE_STATUSES" by (simp add: ACTIVE_STATUSES_def)
  ultimately show "tr_expires_at r > rd_now rd 0" and "(m', s') = (m, s)"
    using assms(1,3,5)
    by (fastforce simp: current_or_expire_def active_statuses_eq service_expire_def
        split: option.splits if_splits sum.splits prod.splits)+
qed

lemma accept_kept:
  assumes "sv_repository sv = port" and "inv s"
    and "service_accept sv rd a t v (m, s) = (out, m', s')"
  shows "kept (m, s) (m', s')"
    and "out = Inr r \<Longrightarrow> \<exists>q m1 s1. current_or_expire sv rd a t (m, s) = (Inr (Some q), m1, s1) \<and>
           tr_status q = Offered \<and> tp_accept port (rd_repository rd 1) a t v s1 = (Inr (Some r), s')"
proof -
  obtain x m1 s1 where c: "current_or_expire sv rd a t (m, s) = (x, m1, s1)" by (metis prod_cases3)
  obtain res s2 where u: "tp_accept port (rd_repository rd 1) a t v s1 = (res, s2)" by fastforce
  note k = current_kept(1) [OF assms(1,2) c]
  have k2: "kept (m, s) (m1, s2)" using k u by (rule kept_update) blast
  show "kept (m, s) (m', s')"
    using assms(3) c u k k2
    by (auto simp: service_accept_def assms(1) split: sum.splits option.splits if_splits
        intro: kept_manager service_notify_safe)
  show "out = Inr r \<Longrightarrow> \<exists>q m1 s1. current_or_expire sv rd a t (m, s) = (Inr (Some q), m1, s1) \<and>
      tr_status q = Offered \<and> tp_accept port (rd_repository rd 1) a t v s1 = (Inr (Some r), s')"
    using assms(1,3) c u by (auto simp: service_accept_def split: sum.splits option.splits if_splits)
qed

lemma reject_kept:
  assumes "sv_repository sv = port" and "inv s"
    and "service_reject sv rd a t v (m, s) = (out, m', s')"
  shows "kept (m, s) (m', s')"
    and "out = Inr r \<Longrightarrow> \<exists>q m1 s1. current_or_expire sv rd a t (m, s) = (Inr (Some q), m1, s1) \<and>
           tr_status q = Offered \<and> tp_reject port (rd_repository rd 1) a t v s1 = (Inr (Some r), s')"
proof -
  obtain x m1 s1 where c: "current_or_expire sv rd a t (m, s) = (x, m1, s1)" by (metis prod_cases3)
  obtain res s2 where u: "tp_reject port (rd_repository rd 1) a t v s1 = (res, s2)" by fastforce
  note k = current_kept(1) [OF assms(1,2) c]
  have k2: "kept (m, s) (m1, s2)" using k u by (rule kept_update) blast
  show "kept (m, s) (m', s')"
    using assms(3) c u k k2
    by (auto simp: service_reject_def assms(1) split: sum.splits option.splits if_splits
        intro: kept_manager service_release_safe service_notify_safe safe_trans)
  show "out = Inr r \<Longrightarrow> \<exists>q m1 s1. current_or_expire sv rd a t (m, s) = (Inr (Some q), m1, s1) \<and>
      tr_status q = Offered \<and> tp_reject port (rd_repository rd 1) a t v s1 = (Inr (Some r), s')"
    using assms(1,3) c u by (auto simp: service_reject_def split: sum.splits option.splits if_splits)
qed

lemma cancel_kept:
  assumes "sv_repository sv = port" and "inv s"
    and "service_cancel sv rd a t v (m, s) = (out, m', s')"
  shows "kept (m, s) (m', s')"
    and "out = Inr r \<Longrightarrow> \<exists>q m1 s1. current_or_expire sv rd a t (m, s) = (Inr (Some q), m1, s1) \<and>
           tr_status q \<in> set ACTIVE_STATUSES \<and>
           tp_cancel port (rd_repository rd 1) a t v s1 = (Inr (Some r), s')"
proof -
  obtain x m1 s1 where c: "current_or_expire sv rd a t (m, s) = (x, m1, s1)" by (metis prod_cases3)
  obtain res s2 where u: "tp_cancel port (rd_repository rd 1) a t v s1 = (res, s2)" by fastforce
  note k = current_kept(1) [OF assms(1,2) c]
  have k2: "kept (m, s) (m1, s2)" using k u by (rule kept_update) blast
  show "kept (m, s) (m', s')"
    using assms(3) c u k k2
    by (auto simp: service_cancel_def assms(1) split: sum.splits option.splits if_splits
        intro: kept_manager service_release_safe notify_participants_safe safe_trans)
  show "out = Inr r \<Longrightarrow> \<exists>q m1 s1. current_or_expire sv rd a t (m, s) = (Inr (Some q), m1, s1) \<and>
      tr_status q \<in> set ACTIVE_STATUSES \<and>
      tp_cancel port (rd_repository rd 1) a t v s1 = (Inr (Some r), s')"
    using assms(1,3) c u
    by (auto simp: service_cancel_def active_statuses_eq split: sum.splits option.splits if_splits)
qed

lemma get_kept:
  assumes "sv_repository sv = port" and "inv s"
  shows "service_get sv rd a t (m, s) = (out, m', s') \<Longrightarrow> kept (m, s) (m', s')"
    and "get_peer_device_key sv rd a t v ep (m, s) = (out', m', s') \<Longrightarrow> kept (m, s) (m', s')"
  using current_kept(1) [OF assms, of rd a t m]
  by (auto simp: service_get_def get_peer_device_key_def
      split: prod.splits sum.splits option.splits if_splits)

lemma list_loop_kept:
  assumes "sv_repository sv = port"
  shows "inv s \<Longrightarrow> list_loop sv rds a i rs (m, s) = (out, m', s') \<Longrightarrow> kept (m, s) (m', s')"
proof (induction rs arbitrary: i m s out m' s')
  case (Cons r rs)
  obtain x m1 s1 where
    e: "service_expire sv (rd_repository (rds i) 0) (rd_presence (rds i)) a (tr_id r) (m, s) = (x, m1, s1)"
    by (metis prod_cases3)
  note k = expire_kept(1) [OF assms Cons.prems(1) e]
  obtain y m2 s2 where y: "list_loop sv rds a (Suc i) rs (m1, s1) = (y, m2, s2)" by (metis prod_cases3)
  obtain z m3 s3 where z: "list_loop sv rds a (Suc i) rs (m, s) = (z, m3, s3)" by (metis prod_cases3)
  have "kept (m, s) (m2, s2)" and "kept (m, s) (m3, s3)"
    using kept_trans [OF k Cons.IH [OF kept_inv [OF k] y]] Cons.IH [OF Cons.prems(1) z] by auto
  then show ?case
    using Cons.prems(2) e y z k by (auto split: if_splits sum.splits)
qed (simp add: kept_refl)

lemma list_kept:
  "sv_repository sv = port \<Longrightarrow> inv s \<Longrightarrow> service_list sv rds a (m, s) = (out, m', s') \<Longrightarrow>
     kept (m, s) (m', s')"
  unfolding service_list_def by (rule list_loop_kept)

lemma capacity_offer:
  assumes "sv_repository sv = port" and "inv s" and "within_capacity T (rows s)" and "now \<le> T"
    and "ensure_capacity sv a x y now (m, s) = (Inr (), m, s)"
    and "(port_update port)\<^sup>*\<^sup>* s s1" and "fresh \<notin> tr_id ` set (rows s1)"
    and "tp_create port clk fresh a x y ver e s1 = (out, s')"
  shows "inv s'" and "within_capacity T (rows s')"
proof -
  note u = port_updates [OF assms(6,2)]
  note c = create_law [OF _ assms(7,8)]
  show "inv s'" using c u by blast
  have cap: "within_capacity T (rows s1)" using u assms(3) moved_capacity by blast
  show "within_capacity T (rows s')"
  proof (cases out)
    case (Inl e)
    then show ?thesis using c u cap by simp
  next
    case (Inr r)
    have vis: "visible a s" and rows: "rows s' = rows s1 @ [r]"
      and r: "tr_user_id r = a" "\<And>v. involves v r \<longleftrightarrow> v \<in> {x, y}"
      using c u Inr by (auto simp: involves_def)
    let ?l = "tp_list_for_account port a s"
    have l: "length (filter P ?l) = length (filter (\<lambda>q. tr_user_id q = a \<and> P q) (rows s))" for P
      using length_filter_mset [OF list_complete [OF assms(2) vis], of P] by (simp add: conj_commute)
    have "length (filter (is_active now) ?l) < MAX_ACTIVE_TRANSFERS_PER_ACCOUNT"
      and "v \<in> {x, y} \<Longrightarrow>
        length (filter (\<lambda>q. is_active now q \<and> involves v q) ?l) < MAX_ACTIVE_TRANSFERS_PER_DEVICE" for v
      using assms(5)
      by (auto simp: ensure_capacity_def Let_def assms(1) conj_commute not_le split: if_splits)
    moreover have "length (filter (\<lambda>q. tr_user_id q = a \<and> is_active T q) (rows s1)) \<le>
        length (filter (is_active now) ?l)"
      and "length (filter (\<lambda>q. tr_user_id q = a \<and> is_active T q \<and> involves v q) (rows s1)) \<le>
        length (filter (\<lambda>q. is_active now q \<and> involves v q) ?l)" for v
      using u moved_count [of "rows s" "rows s1" now T a] assms(4) by (simp_all add: l)
    ultimately have
      less: "length (filter (\<lambda>q. tr_user_id q = a \<and> is_active T q) (rows s1))
        < MAX_ACTIVE_TRANSFERS_PER_ACCOUNT"
      "\<And>v. v \<in> {x, y} \<Longrightarrow>
        length (filter (\<lambda>q. tr_user_id q = a \<and> is_active T q \<and> involves v q) (rows s1))
        < MAX_ACTIVE_TRANSFERS_PER_DEVICE"
      by (meson le_less_trans)+
    have "length (filter (\<lambda>q. tr_user_id q = b \<and> is_active T q) (rows s')) \<le> MAX_ACTIVE_TRANSFERS_PER_ACCOUNT"
      for b
      using cap less(1) r by (auto simp: within_capacity_def rows)
    moreover have "length (filter (\<lambda>q. tr_user_id q = b \<and> is_active T q \<and> involves v q) (rows s'))
        \<le> MAX_ACTIVE_TRANSFERS_PER_DEVICE" for b v
      using cap less(2) [of v] r by (auto simp: within_capacity_def rows)
    ultimately show ?thesis by (simp add: within_capacity_def)
  qed
qed

lemma capacity_steps:
  assumes "(offer_step sv rows T)\<^sup>*\<^sup>* s s'" and "sv_repository sv = port" and "inv s"
    and "within_capacity T (rows s)"
  shows "inv s' \<and> within_capacity T (rows s')"
  using assms(1)
proof (induction rule: rtranclp_induct)
  case (step y z)
  from step.hyps(2) show ?case
  proof cases
    case updated
    then show ?thesis
      using step.IH port_updates [of y z] moved_capacity assms(2) by blast
  next
    case (offered now a x w m s1 fresh clk ver e out)
    then show ?thesis
      using step.IH capacity_offer [of sv y T now a x w m s1 fresh clk ver e out z] assms(2) by simp
  qed
qed (use assms in simp)

lemma ensure_capacity_cases:
  obtains "ensure_capacity sv a x y now (m, s) = (Inr (), m, s)"
  | "ensure_capacity sv a x y now (m, s) =
       (Inl TransferCapacityError, pm_count ''transfer_capacity_rejected'' m, s)"
  by (simp add: ensure_capacity_def Let_def) meson

lemma create_steps:
  assumes "sv_repository sv = port" and "inv s" and "rd_now rd 0 \<le> T" and "fresh \<notin> tr_id ` set (rows s)"
    and "create_offer sv rd fresh a x y ver (m, s) = (out, m', s')"
  shows "(offer_step sv rows T)\<^sup>*\<^sup>* s s'" and "presence_ok own m \<Longrightarrow> safe own m m'"
proof -
  obtain res s2 where
    k: "tp_create port (rd_repository rd 0) fresh a x y ver (rd_now rd 0 + sv_lifetime sv) s = (res, s2)"
    by fastforce
  show "(offer_step sv rows T)\<^sup>*\<^sup>* s s'"
  proof (cases rule: ensure_capacity_cases [of sv a x y "rd_now rd 0" m s])
    case 1
    then have "offer_step sv rows T s s2"
      using offer_step.offered [of "rd_now rd 0" T sv a x y m s s fresh rows] assms(1,3,4) k by simp
    then show ?thesis
      using assms(5) k 1
      by (auto simp: create_offer_def Let_def assms(1) split: if_splits sum.splits)
  next
    case 2
    then show ?thesis
      using assms(5) by (auto simp: create_offer_def Let_def split: if_splits sum.splits)
  qed
  assume ok: "presence_ok own m"
  have "safe own m m1" if "ensure_capacity sv a x y (rd_now rd 0) (m, s) = (c, m1, s1)" for c m1 s1
    using that ok safe_count [OF safe_refl [OF ok]] safe_refl [OF ok]
    by (cases rule: ensure_capacity_cases [of sv a x y "rd_now rd 0" m s]) auto
  then show "safe own m m'"
    using assms(5) safe_refl [OF ok]
    by (auto simp: create_offer_def Let_def split: if_splits sum.splits prod.splits
        intro: safe_trans service_notify_safe)
qed

text \<open>The row an update returns comes from the row that was looked up.\<close>

lemma updated_row_from:
  assumes "inv s" and "list_all2 evolves (rows s) (rows s')" and "inv s'"
    and "q \<in> set (rows s)" and "r \<in> set (rows s')" and "tr_id r = tr_id q"
  shows "evolves q r"
proof -
  obtain u where u: "u \<in> set (rows s)" "evolves u r"
    using assms(2,5) by (metis in_set_conv_nth list_all2_conv_all_nth)
  then have "tr_id u = tr_id q" using assms(6) by (auto simp: evolves_def same_offer_def)
  then show ?thesis
    using distinct_key_eq [OF distinct_law [OF assms(1)] u(1) assms(4)] u(2) by simp
qed

text \<open>
  The common part of \<open>accept\<close>, \<open>reject\<close> and \<open>cancel\<close>: the returned row is one of the account, and
  in the table before the call the same transfer was active.
\<close>

lemma control_from:
  assumes "sv_repository sv = port" and "inv s"
    and "current_or_expire sv rd a t (m, s) = (Inr (Some q), m1, s1)"
    and "f \<in> {tp_accept port clk a t v, tp_reject port clk a t v, tp_cancel port clk a t v}"
    and "f s1 = (Inr (Some r), s')"
  shows "r \<in> set (rows s')" and "tr_user_id r = a" and "tr_id r = t"
    and "\<exists>q0\<in>set (rows s). same_offer q0 r \<and> next_status\<^sup>*\<^sup>* (tr_status q0) (tr_status q)"
proof -
  note c = current_kept [OF assms(1,2,3)]
  have i1: "inv s1" using c(1) by (rule kept_inv)
  have u: "inv s' \<and> list_all2 evolves (rows s1) (rows s') \<and> r \<in> set (rows s') \<and> tr_user_id r = a \<and> tr_id r = t"
    using update_law [where f = f, OF i1 _ assms(5), of clk a t v] assms(4) by blast
  then show "r \<in> set (rows s')" "tr_user_id r = a" "tr_id r = t" by auto
  have q: "q \<in> set (rows s1)" "tr_id q = t" using c(2) by auto
  have "same_offer q r"
    using updated_row_from [OF i1 _ _ q(1), of s' r] u q(2) by (simp add: evolves_same_offer)
  moreover obtain q0 where "q0 \<in> set (rows s)" "evolves\<^sup>*\<^sup>* q0 q"
    using c(1) port_updates [of s s1] assms(2) moved_from [OF _ q(1)] by (auto simp: kept_def)
  ultimately show "\<exists>q0\<in>set (rows s). same_offer q0 r \<and> next_status\<^sup>*\<^sup>* (tr_status q0) (tr_status q)"
    using evolves_star [of q0 q] by (blast intro: same_offer_trans)
qed

lemma accept_result:
  assumes "sv_repository sv = port" and "inv s" and "service_accept sv rd a t v (m, s) = (Inr r, m', s')"
  shows "r \<in> set (rows s') \<and> tr_user_id r = a \<and> tr_id r = t \<and> tr_status r = Accepted \<and>
    tr_recipient_device_id r = v \<and> (\<exists>q\<in>set (rows s). same_offer q r \<and> tr_status q = Offered)"
proof -
  from accept_kept(2) [OF assms refl] obtain q m1 s1 where
    q: "current_or_expire sv rd a t (m, s) = (Inr (Some q), m1, s1)" "tr_status q = Offered"
      "tp_accept port (rd_repository rd 1) a t v s1 = (Inr (Some r), s')" by blast
  show ?thesis
    using control_from [where f = "tp_accept port (rd_repository rd 1) a t v", OF assms(1,2) q(1) _ q(3),
        of "rd_repository rd 1" v] offered_from
      accept_law [OF current_kept(1) [OF assms(1,2) q(1), THEN kept_inv] q(3)] q(2)
    by (metis insertCI)
qed

lemma reject_result:
  assumes "sv_repository sv = port" and "inv s" and "service_reject sv rd a t v (m, s) = (Inr r, m', s')"
  shows "r \<in> set (rows s') \<and> tr_user_id r = a \<and> tr_id r = t \<and> tr_status r = Rejected \<and>
    tr_recipient_device_id r = v \<and> (\<exists>q\<in>set (rows s). same_offer q r \<and> tr_status q = Offered)"
proof -
  from reject_kept(2) [OF assms refl] obtain q m1 s1 where
    q: "current_or_expire sv rd a t (m, s) = (Inr (Some q), m1, s1)" "tr_status q = Offered"
      "tp_reject port (rd_repository rd 1) a t v s1 = (Inr (Some r), s')" by blast
  show ?thesis
    using control_from [where f = "tp_reject port (rd_repository rd 1) a t v", OF assms(1,2) q(1) _ q(3),
        of "rd_repository rd 1" v] offered_from
      reject_law [OF current_kept(1) [OF assms(1,2) q(1), THEN kept_inv] q(3)] q(2)
    by (metis insertCI)
qed

lemma cancel_result:
  assumes "sv_repository sv = port" and "inv s" and "service_cancel sv rd a t v (m, s) = (Inr r, m', s')"
  shows "r \<in> set (rows s') \<and> tr_user_id r = a \<and> tr_id r = t \<and> tr_status r = Cancelled \<and>
    involves v r \<and> (\<exists>q\<in>set (rows s). same_offer q r \<and> \<not> terminal (tr_status q))"
proof -
  from cancel_kept(2) [OF assms refl] obtain q m1 s1 where
    q: "current_or_expire sv rd a t (m, s) = (Inr (Some q), m1, s1)" "tr_status q \<in> set ACTIVE_STATUSES"
      "tp_cancel port (rd_repository rd 1) a t v s1 = (Inr (Some r), s')" by blast
  have "\<not> terminal x" if "next_status\<^sup>*\<^sup>* x (tr_status q)" for x
    using that q(2) next_status_active by (metis converse_rtranclpE terminal_def)
  then show ?thesis
    using control_from [where f = "tp_cancel port (rd_repository rd 1) a t v", OF assms(1,2) q(1) _ q(3),
        of "rd_repository rd 1" v]
      cancel_law [OF current_kept(1) [OF assms(1,2) q(1), THEN kept_inv] q(3)]
    unfolding involves_def by (metis insertCI)
qed

lemma gettable:
  assumes "(port_update port)\<^sup>*\<^sup>* s s1" and "inv s" and "visible a s" and "q \<in> set (rows s)"
    and "tr_user_id q = a"
  shows "\<exists>g. tp_get_by_id port a (tr_id q) s1 = Some g"
proof -
  note u = port_updates [OF assms(1,2)]
  obtain g where "g \<in> set (rows s1)" "tr_id g = tr_id q" "tr_user_id g = tr_user_id q"
    using u assms(4) moved_to by blast
  then show ?thesis
    using get_complete [of s1 a g] u assms(3,5) by auto
qed

lemma get_fresh:
  assumes "sv_repository sv = port" and "inv s" and "service_get sv rd a t (m, s) = (Inr r, m', s')"
    and "\<forall>i. rd_now rd 0 \<le> rd_repository rd 0 i"
  shows "tr_status r \<in> set ACTIVE_STATUSES \<longrightarrow> tr_expires_at r > rd_now rd 0"
  using assms(3) current_not_stale(1) [OF assms(1,2) _ assms(4), of a t m r m' s']
  by (auto simp: service_get_def split: prod.splits sum.splits option.splits)

text \<open>Every record of \<open>list\<close> that is active is not stale.\<close>

lemma list_turn_fresh:
  assumes "sv_repository sv = port" and "inv s" and "visible a s"
    and "q \<in> set (rows s)" "tr_id q = t" "tr_user_id q = a"
    and "service_expire sv rclk pclk a t (m, s) = (Inl e, m1, s1)" and "is_TransferError e"
    and "\<forall>i. now \<le> rclk i" and "tp_get_by_id port a t s1 = Some r" and "tr_status r \<in> set ACTIVE_STATUSES"
  shows "tr_expires_at r > now"
proof (rule ccontr)
  assume stale: "\<not> tr_expires_at r > now"
  note k = expire_kept(1) [OF assms(1,2,7)]
  have none: "tp_expire port rclk a t s = (Inr None, s1) \<or> (\<exists>e'. tp_expire port rclk a t s = (Inl e', s1))"
    using assms(7) by (auto simp: service_expire_def assms(1) split: prod.splits sum.splits option.splits)
  note u = update_law [where f = "tp_expire port rclk a t", OF assms(2) _ , of rclk a t]
  have r: "r \<in> set (rows s1)" "tr_id r = t"
    using get_law [OF kept_inv [OF k] assms(10)] by auto
  have ev: "list_all2 evolves (rows s) (rows s1)" using none u by blast
  have "evolves q r"
    using updated_row_from [OF assms(2) ev kept_inv [OF k] assms(4) r(1)] assms(5) r(2) by simp
  then have "tr_status q \<in> set ACTIVE_STATUSES" "tr_expires_at q \<le> now"
    using assms(11) stale by (auto simp: evolves_def same_offer_def)
  then show False
    using expire_live [OF assms(2) _ , of a t q rclk] get_complete [OF assms(2,3,4,6)] assms(5,9) none
    by (metis Inl_Inr_False Inr_inject fst_conv option.distinct(1) order_trans)
qed

lemma list_loop_fresh:
  assumes "sv_repository sv = port" and "\<forall>k i. rd_now (rds k) 0 \<le> rd_repository (rds k) 0 i"
  shows "inv s \<Longrightarrow> visible a s \<Longrightarrow>
     \<forall>r\<in>set rs. \<exists>q\<in>set (rows s). tr_id q = tr_id r \<and> tr_user_id q = a \<Longrightarrow>
     list_loop sv rds a k rs (m, s) = (Inr rs', m', s') \<Longrightarrow>
     length rs' = length rs \<and>
     (\<forall>i<length rs'. tr_status (rs' ! i) \<in> set ACTIVE_STATUSES \<longrightarrow>
        tr_expires_at (rs' ! i) > rd_now (rds (k + i)) 0)"
proof (induction rs arbitrary: k m s rs')
  case (Cons r rs)
  obtain x m1 s1 where
    e: "service_expire sv (rd_repository (rds k) 0) (rd_presence (rds k)) a (tr_id r) (m, s) = (x, m1, s1)"
    by (metis prod_cases3)
  note kp = expire_kept [OF assms(1) Cons.prems(1) e]
  obtain q where q: "q \<in> set (rows s)" "tr_id q = tr_id r" "tr_user_id q = a"
    using Cons.prems(3) by auto
  have rest: ?case
    if "inv s2" "(port_update port)\<^sup>*\<^sup>* s s2" "list_loop sv rds a (Suc k) rs (m2, s2) = (Inr rs2, m', s')"
      "rs' = r2 # rs2" "tr_status r2 \<in> set ACTIVE_STATUSES \<longrightarrow> tr_expires_at r2 > rd_now (rds k) 0"
    for m2 s2 r2 rs2
  proof -
    have "visible a s2" and "moved (rows s) (rows s2)"
      using port_updates [OF that(2) Cons.prems(1)] Cons.prems(2) by auto
    moreover from this have "\<forall>u\<in>set rs. \<exists>q\<in>set (rows s2). tr_id q = tr_id u \<and> tr_user_id q = a"
      using Cons.prems(3) moved_to by (metis list.set_intros(2))
    ultimately have "length rs2 = length rs \<and> (\<forall>i<length rs2. tr_status (rs2 ! i) \<in> set ACTIVE_STATUSES \<longrightarrow>
        tr_expires_at (rs2 ! i) > rd_now (rds (Suc k + i)) 0)"
      using Cons.IH [OF that(1) _ _ that(3)] by blast
    then show ?thesis
      using that(4,5) by (auto simp: nth_Cons split: nat.split)
  qed
  have i1: "inv s1" and u1: "(port_update port)\<^sup>*\<^sup>* s s1"
    using kp(1) by (simp_all add: kept_def)
  show ?case
  proof (cases "tr_status r \<in> set TRANSFER_ACTIVE_STATUSES \<and> tr_expires_at r \<le> rd_now (rds k) 0")
    case False
    then show ?thesis
      using Cons.prems(1,4) rest [of s m]
      by (auto simp: active_statuses_eq split: prod.splits sum.splits)
  next
    case stale: True
    show ?thesis
    proof (cases x)
      case (Inr ex)
      then have "tr_status ex \<notin> set ACTIVE_STATUSES"
        using kp(2) [of ex] by (simp add: ACTIVE_STATUSES_def)
      then show ?thesis
        using Cons.prems(4) rest [OF i1 u1] e stale Inr
        by (auto split: prod.splits sum.splits)
    next
      case (Inl ex)
      obtain g where g: "tp_get_by_id port a (tr_id r) s1 = Some g"
        using gettable [OF u1 Cons.prems(1,2) q(1,3)] q(2) by auto
      have "tr_status g \<in> set ACTIVE_STATUSES \<longrightarrow> tr_expires_at g > rd_now (rds k) 0"
        if "is_TransferError ex"
        using list_turn_fresh [OF assms(1) Cons.prems(1,2) q, of _ _ m ex m1 s1 "rd_now (rds k) 0" g]
          e g assms(2) Inl that by auto
      then show ?thesis
        using Cons.prems(4) rest [OF i1 u1] e stale Inl g
        by (auto simp: assms(1) split: prod.splits sum.splits if_splits)
    qed
  qed
qed simp

lemma list_fresh:
  assumes "sv_repository sv = port" and "\<forall>k i. rd_now (rds k) 0 \<le> rd_repository (rds k) 0 i" and "inv s"
    and "service_list sv rds a (m, s) = (Inr rs, m', s')"
  shows "\<forall>i<length rs. tr_status (rs ! i) \<in> set ACTIVE_STATUSES \<longrightarrow> tr_expires_at (rs ! i) > rd_now (rds i) 0"
proof (cases "tp_list_for_account port a s")
  case Nil
  then show ?thesis using assms(4) by (simp add: service_list_def assms(1))
next
  case (Cons r l)
  have "visible a s" and "\<forall>r\<in>set (tp_list_for_account port a s). \<exists>q\<in>set (rows s). tr_id q = tr_id r \<and> tr_user_id q = a"
    using list_law [OF assms(3), of _ a] Cons by (metis list.set_intros(1), blast)
  then show ?thesis
    using list_loop_fresh [OF assms(1,2,3), of a "tp_list_for_account port a s" 0 m rs m' s'] assms(4)
    by (simp add: service_list_def assms(1))
qed


end

section \<open>Properties\<close>

text \<open>A service over the SQL repository with the sample devices, and one moment for all clocks.\<close>

definition sample_lookup :: device_lookup where
  "sample_lookup a v = (if a = 1 \<and> v \<in> {10, 11} then Some (sample_device v) else None)"

definition sample_service :: "db transfer_service" where
  "sample_service =
     \<lparr>sv_repository = sql_port, sv_has_presence = True, sv_devices = Some sample_lookup,
      sv_lifetime = TRANSFER_REQUEST_LIFETIME\<rparr>"

definition at_time :: "instant \<Rightarrow> readings" where
  "at_time now = \<lparr>rd_now = \<lambda>_. now, rd_repository = \<lambda>_ _. now, rd_presence = \<lambda>_. now\<rparr>"

lemma within_capacity_Nil [simp]: "within_capacity T []"
  by (simp add: within_capacity_def)

text \<open>
  C25.  The limits on active transfers hold for every account and device at every moment: after
  any history of updates and creations of a service over the SQL repository, where other requests
  may update the table between the capacity check and the insertion, and after one more call of
  \<open>create_offer\<close>, no account has more than 8 and no device of it more than 4 active unexpired
  transfers, at any time not before the clock readings of the creations.
\<close>

theorem active_transfer_capacity:
  assumes "sv_repository sv = sql_port" and "sql_inv d0" and "within_capacity T (transfer_requests d0)"
    and "(offer_step sv transfer_requests T)\<^sup>*\<^sup>* d0 d"
    and "rd_now rd 0 \<le> T" and "fresh \<notin> tr_id ` set (transfer_requests d)"
    and "create_offer sv rd fresh a x y ver (m, d) = (out, m', d')"
  shows "within_capacity T (transfer_requests d) \<and> within_capacity T (transfer_requests d')"
proof -
  have i: "sql_inv d \<and> within_capacity T (transfer_requests d)"
    using sqlr.capacity_steps [OF assms(4,1,2,3)] .
  have "(offer_step sv transfer_requests T)\<^sup>*\<^sup>* d d'"
    using sqlr.create_steps(1) [OF assms(1) _ assms(5,6,7)] i by blast
  then show ?thesis
    using sqlr.capacity_steps [of sv T d d'] i assms(1) by blast
qed

lemma sample_inv: "sql_inv (sample_db Offered)"
  by (simp add: sql_inv_def transfer_check_def sample_defs)

theorem active_transfer_capacity_witness:
  "within_capacity 3 (transfer_requests
     (snd (snd (create_offer sample_service (at_time 3) 8 1 10 11 1 (sample_manager, sample_db Offered)))))"
proof -
  let ?r = "create_offer sample_service (at_time 3) 8 1 10 11 1 (sample_manager, sample_db Offered)"
  have "within_capacity 3 (transfer_requests (sample_db Offered))"
    by (auto simp: within_capacity_def sample_defs MAX_ACTIVE_TRANSFERS_PER_ACCOUNT_def
        MAX_ACTIVE_TRANSFERS_PER_DEVICE_def)
  then show ?thesis
    using active_transfer_capacity [of sample_service "sample_db Offered" 3 "sample_db Offered"
        "at_time 3" 8 1 10 11 1 sample_manager "fst ?r" "fst (snd ?r)" "snd (snd ?r)"] sample_inv
    by (simp add: sample_service_def at_time_def sample_defs)
qed

text \<open>
  Who may decide a transfer.  When \<open>accept\<close> or \<open>reject\<close> returns, the transfer is the account's
  own one that was asked for, it is now accepted or rejected in the table, its recipient is the
  calling device, and it was an open offer in the table before the call; when \<open>cancel\<close> returns, the
  caller is one of its two parties and it was not finished before.
\<close>

theorem control_requires_party:
  assumes "sv_repository sv = sql_port" and "sql_inv d"
  shows "(service_accept sv rd a t v (m, d) = (Inr r, m', d') \<longrightarrow>
      r \<in> set (transfer_requests d') \<and> tr_user_id r = a \<and> tr_id r = t \<and> tr_status r = Accepted \<and>
      tr_recipient_device_id r = v \<and>
      (\<exists>q\<in>set (transfer_requests d). same_offer q r \<and> tr_status q = Offered)) \<and>
    (service_reject sv rd a t v (m, d) = (Inr r, m', d') \<longrightarrow>
      r \<in> set (transfer_requests d') \<and> tr_user_id r = a \<and> tr_id r = t \<and> tr_status r = Rejected \<and>
      tr_recipient_device_id r = v \<and>
      (\<exists>q\<in>set (transfer_requests d). same_offer q r \<and> tr_status q = Offered)) \<and>
    (service_cancel sv rd a t v (m, d) = (Inr r, m', d') \<longrightarrow>
      r \<in> set (transfer_requests d') \<and> tr_user_id r = a \<and> tr_id r = t \<and> tr_status r = Cancelled \<and>
      involves v r \<and>
      (\<exists>q\<in>set (transfer_requests d). same_offer q r \<and> \<not> terminal (tr_status q)))"
  using sqlr.accept_result [OF assms, of rd a t v m r m' d'] sqlr.reject_result [OF assms, of rd a t v m r m' d']
    sqlr.cancel_result [OF assms, of rd a t v m r m' d'] by blast

theorem control_requires_party_witness:
  "\<exists>r m' d'. service_accept sample_service (at_time 3) 1 7 11 (sample_manager, sample_db Offered) = (Inr r, m', d') \<and>
     tr_status r = Accepted \<and> tr_recipient_device_id r = 11 \<and> r \<in> set (transfer_requests d')"
proof -
  let ?r = "service_accept sample_service (at_time 3) 1 7 11 (sample_manager, sample_db Offered)"
  have "\<not> isl (fst ?r)"
    by code_simp
  then obtain r m' d' where "?r = (Inr r, m', d')" by (metis prod.collapse sum.collapse(2))
  then show ?thesis
    using control_requires_party [of sample_service "sample_db Offered" "at_time 3" 1 7 11 sample_manager r m' d']
      sample_inv by (simp add: sample_service_def)
qed

text \<open>
  Nothing stale is reported as active.  With a repository whose clock is not behind the
  service's, over either repository: the transfer that \<open>get\<close> returns, if it is in an active status,
  expires after the moment of the call; and so does every active transfer of the answer of
  \<open>list\<close>, at the moment the loop reached it.
\<close>

theorem active_results_unexpired:
  assumes "\<forall>k i. rd_now (rds k) 0 \<le> rd_repository (rds k) 0 i"
    and "sv_repository sv = sql_port" and "sql_inv d" and "sv_repository sv' = mem_port lk" and "mem_inv st"
  shows "(\<forall>r m' d'. service_get sv (rds 0) a t (m, d) = (Inr r, m', d') \<longrightarrow>
            tr_status r \<in> set TRANSFER_ACTIVE_STATUSES \<longrightarrow> tr_expires_at r > rd_now (rds 0) 0) \<and>
         (\<forall>rs m' d' i. service_list sv rds a (m, d) = (Inr rs, m', d') \<longrightarrow> i < length rs \<longrightarrow>
            tr_status (rs ! i) \<in> set TRANSFER_ACTIVE_STATUSES \<longrightarrow> tr_expires_at (rs ! i) > rd_now (rds i) 0) \<and>
         (\<forall>r m' st'. service_get sv' (rds 0) a t (m, st) = (Inr r, m', st') \<longrightarrow>
            tr_status r \<in> set TRANSFER_ACTIVE_STATUSES \<longrightarrow> tr_expires_at r > rd_now (rds 0) 0) \<and>
         (\<forall>rs m' st' i. service_list sv' rds a (m, st) = (Inr rs, m', st') \<longrightarrow> i < length rs \<longrightarrow>
            tr_status (rs ! i) \<in> set TRANSFER_ACTIVE_STATUSES \<longrightarrow> tr_expires_at (rs ! i) > rd_now (rds i) 0)"
proof -
  have now: "\<forall>i. rd_now (rds 0) 0 \<le> rd_repository (rds 0) 0 i" using assms(1) by blast
  show ?thesis
    unfolding active_statuses_eq
    by (intro conjI allI impI)
       (auto dest: sqlr.get_fresh [OF assms(2,3) _ now] sqlr.list_fresh [OF assms(2,1,3)]
          memr.get_fresh [OF assms(4,5) _ now] memr.list_fresh [OF assms(4,1,5)])
qed

theorem active_results_unexpired_witness:
  "\<exists>r m' d'. service_get sample_service (at_time 3) 1 7 (sample_manager, sample_db Offered) = (Inr r, m', d') \<and>
     tr_status r \<in> set TRANSFER_ACTIVE_STATUSES \<and> tr_expires_at r > 3"
proof -
  let ?r = "service_get sample_service (at_time 3) 1 7 (sample_manager, sample_db Offered)"
  have 1: "\<not> isl (fst ?r) \<and> tr_status (projr (fst ?r)) \<in> set TRANSFER_ACTIVE_STATUSES"
    by code_simp
  then obtain r m' d' where r: "?r = (Inr r, m', d')" by (metis prod.collapse sum.collapse(2))
  have "tr_expires_at r > rd_now (at_time 3) 0"
    using active_results_unexpired [of "\<lambda>_. at_time 3" sample_service "sample_db Offered"
        "\<lparr>sv_repository = mem_port None, sv_has_presence = True, sv_devices = None, sv_lifetime = 1\<rparr>"
        None "[]" 1 7 sample_manager]
      sample_inv 1 r by (simp add: sample_service_def at_time_def mem_inv_def)
  then show ?thesis using r 1 by (simp add: at_time_def)
qed

text \<open>
  C28.  Peer keys.  \<open>get_peer_device_key\<close> returns a device only to a party of one of the account's
  own transfers that is offered, accepted or negotiating, and then the other party: an active
  device of the same account and of the caller's epoch, the caller being active too; where the
  caller gave its session's epoch, both devices have it.
\<close>

theorem peer_key_confined:
  assumes "sv_repository sv = sql_port" and "sql_inv d"
    and "get_peer_device_key sv rd a t v ep (m, d) = (Inr peer, m', d')"
  shows "\<exists>r get actor. r \<in> set (transfer_requests d') \<and> tr_user_id r = a \<and> tr_id r = t \<and>
           tr_status r \<in> {Offered, Accepted, Negotiating} \<and> involves v r \<and>
           sv_devices sv = Some get \<and> get a v = Some actor \<and>
           get a (if v = tr_sender_device_id r then tr_recipient_device_id r else tr_sender_device_id r) = Some peer \<and>
           dv_user_id actor = a \<and> dv_user_id peer = a \<and> dv_status actor = Active \<and> dv_status peer = Active \<and>
           dv_epoch actor = dv_epoch peer \<and> (ep = None \<or> ep = Some (dv_epoch peer))"
proof -
  obtain x m1 d1 where c: "current_or_expire sv rd a t (m, d) = (x, m1, d1)" by (metis prod_cases3)
  obtain r where x: "x = Inr (Some r)" "d1 = d'" "tr_status r \<in> set TRANSFER_PEER_KEY_STATUSES" "involves v r"
    using assms(3) c
    by (auto simp: get_peer_device_key_def split: sum.splits option.splits if_splits)
  have r: "r \<in> set (transfer_requests d')" "tr_user_id r = a" "tr_id r = t"
    using sqlr.current_kept(2) [OF assms(1,2) c x(1)] x(2) by auto
  obtain get where get: "sv_devices sv = Some get" "peer_device get a r v ep = Inr peer"
    using assms(3) c x by (auto simp: get_peer_device_key_def split: option.splits)
  then obtain actor where "get a v = Some actor"
    "get a (if v = tr_sender_device_id r then tr_recipient_device_id r else tr_sender_device_id r) = Some peer"
    "dv_user_id actor = a" "dv_user_id peer = a" "dv_status actor = Active" "dv_status peer = Active"
    "dv_epoch actor = dv_epoch peer" "ep = None \<or> ep = Some (dv_epoch peer)"
    by (auto simp: peer_device_def Let_def split: option.splits if_splits)
  then show ?thesis
    using r x(3,4) get(1) by (auto simp: TRANSFER_PEER_KEY_STATUSES_def)
qed

theorem peer_key_confined_witness:
  "\<exists>peer m' d'. get_peer_device_key sample_service (at_time 3) 1 7 10 (Some 0) (sample_manager, sample_db Offered) =
       (Inr peer, m', d') \<and> dv_status peer = Active \<and> sample_lookup 1 11 = Some peer"
proof -
  let ?r = "get_peer_device_key sample_service (at_time 3) 1 7 10 (Some 0) (sample_manager, sample_db Offered)"
  have "\<not> isl (fst ?r)" by code_simp
  then obtain p m' d' where r: "?r = (Inr p, m', d')" by (metis prod.collapse sum.collapse(2))
  moreover have "dv_status p = Active"
    using peer_key_confined [OF _ _ r] sample_inv by (auto simp: sample_service_def)
  moreover have "sample_lookup 1 11 = Some (projr (fst ?r))" by code_simp
  ultimately show ?thesis by simp
qed

text \<open>
  A finished transfer leaves no signaling state behind: when \<open>reject\<close>, \<open>cancel\<close> or \<open>expire\<close>
  returns on a service with a presence manager, the manager holds no signaling budget for that
  transfer any more.
\<close>

theorem terminal_releases_signaling:
  assumes "sv_has_presence sv"
  shows "(service_reject sv rd a t v (m, s) = (Inr r, m', s') \<or>
          service_cancel sv rd a t v (m, s) = (Inr r, m', s') \<or>
          service_expire sv rclk pclk a t (m, s) = (Inr r, m', s')) \<longrightarrow>
         dict_get (pm_signaling m') t = None"
  using assms released_none [of sv t] unfolding service_reject_def service_cancel_def service_expire_def
  by (auto split: prod.splits sum.splits option.splits if_splits intro!: notify_none notify_participants_none)

theorem terminal_releases_signaling_witness:
  "\<exists>m r m' d'. dict_get (pm_signaling m) 7 \<noteq> None \<and>
     service_cancel sample_service (at_time 3) 1 7 10 (m, sample_db Accepted) = (Inr r, m', d') \<and>
     dict_get (pm_signaling m') 7 = None"
proof -
  define m where "m = snd (record_signaling_use 1 1 7 (sample_conn 10) (lit ''ice_candidate'') sample_manager)"
  let ?r = "service_cancel sample_service (at_time 3) 1 7 10 (m, sample_db Accepted)"
  have "\<not> isl (fst ?r)" and 1: "dict_get (pm_signaling m) 7 \<noteq> None"
    unfolding m_def by code_simp+
  then obtain r m' d' where r: "?r = (Inr r, m', d')" by (metis prod.collapse sum.collapse(2))
  then have "dict_get (pm_signaling m') 7 = None"
    using terminal_releases_signaling [of sample_service "at_time 3" 1 7 10 m "sample_db Accepted" r m' d']
    by (simp add: sample_service_def)
  then show ?thesis using 1 r by blast
qed

end
