(* ===== verification/TransferRoutes.thy ===== *)
theory TransferRoutes
  imports TransferService SessionApi
begin

text \<open>
  The transfer routes of \<open>app/transfers.py\<close>: the request dependencies, then the service, with the
  exceptions of the service turned into responses.  The repositories of sessions and transfers live
  in one state \<open>'s\<close>.  The body of a creation request is what the schema of \<open>TransferCreateRequest\<close>
  let through.
\<close>

section \<open>Bodies and responses\<close>

record transfer_create_request =
  tc_recipient_device_id :: "uuid option"
  tc_recipient_id :: "uuid option"
  tc_device_id :: "uuid option"
  tc_protocol_version :: int
  tc_v :: "int option"

definition resolved_recipient :: "transfer_create_request \<Rightarrow> uuid res" where
  "resolved_recipient payload =
     (case remdups (concat (map (case_option [] (\<lambda>x. [x]))
              [tc_recipient_device_id payload, tc_recipient_id payload, tc_device_id payload])) of
        [recipient] \<Rightarrow>
          if tc_v payload \<noteq> None \<and> tc_v payload \<noteq> Some (tc_protocol_version payload) then Inl ValueError
          else Inr recipient
      | _ \<Rightarrow> Inl ValueError)"

fun status_text :: "transfer_status \<Rightarrow> string" where
  "status_text Offered = ''offered''"
| "status_text Accepted = ''accepted''"
| "status_text Negotiating = ''negotiating''"
| "status_text Connected = ''connected''"
| "status_text Transferring = ''transferring''"
| "status_text Completed = ''completed''"
| "status_text Rejected = ''rejected''"
| "status_text Expired = ''expired''"
| "status_text Cancelled = ''cancelled''"
| "status_text Failed = ''failed''"

definition public_transfer :: "transfer_request \<Rightarrow> (pystr, pyval) dict" where
  "public_transfer r =
     [(lit ''v'', PyInt (tr_protocol_version r)),
      (lit ''transfer_id'', PyStr (uuid_str (tr_id r))),
      (lit ''sender_device_id'', PyStr (uuid_str (tr_sender_device_id r))),
      (lit ''recipient_device_id'', PyStr (uuid_str (tr_recipient_device_id r))),
      (lit ''status'', PyStr (lit (status_text (tr_status r)))),
      (lit ''created_at'', PyTime (tr_created_at r)),
      (lit ''expires_at'', PyTime (tr_expires_at r))]"

definition public_response :: "transfer_request \<Rightarrow> string \<Rightarrow> pyval" where
  "public_response r action =
     (let public = public_transfer r
      in PyDict (dict_set (lit action) (PyBool True)
           (dict_set (lit ''status'') (PyStr (lit (status_text (tr_status r))))
             (dict_set (lit ''transfer'') (PyDict public) public))))"

definition public_peer_device_key :: "device \<Rightarrow> pyval" where
  "public_peer_device_key v =
     PyDict [(lit ''device_id'', PyStr (uuid_str (dv_id v))),
             (lit ''public_key_spki'', PyStr (encode_base64url (dv_signing_public_key_spki v)))]"

section \<open>Exceptions\<close>

text \<open>\<open>except (TransferError, RuntimeError, TypeError, ValueError)\<close>.\<close>

definition caught :: "exc \<Rightarrow> bool" where
  "caught e \<longleftrightarrow> is_TransferError e \<or> is_RuntimeError e \<or> e = TypeError \<or> is_ValueError e"

definition create_error :: "exc \<Rightarrow> exc" where
  "create_error e =
     (if e = TransferCapacityError then HTTPException 429 else if caught e then HTTPException 400 else e)"

definition unavailable :: "exc \<Rightarrow> exc" where
  "unavailable e = (if caught e then HTTPException 409 else e)"

definition read_error :: "exc \<Rightarrow> exc" where
  "read_error e = (if is_TransferError e then HTTPException 409 else e)"

definition respond :: "('a \<Rightarrow> pyval) \<Rightarrow> (exc \<Rightarrow> exc) \<Rightarrow> ('a, 's) outcome \<Rightarrow> (pyval, 's) outcome" where
  "respond f err out = (case out of (Inl e, ms) \<Rightarrow> (Inl (err e), ms) | (Inr x, ms) \<Rightarrow> (Inr (f x), ms))"

section \<open>The routes\<close>

text \<open>
  The session a route is called with: \<open>require_session_csrf\<close> for the routes that change something,
  \<open>get_authenticated_session\<close> followed by the optional origin check for those that read.
\<close>

definition as_writer ::
    "'s request \<Rightarrow> (bytes \<Rightarrow> bytes) \<Rightarrow> clock \<Rightarrow> (session \<Rightarrow> manager \<times> 's \<Rightarrow> (pyval, 's) outcome) \<Rightarrow>
     manager \<times> 's \<Rightarrow> (pyval, 's) outcome" where
  "as_writer rq sha256 clk body ms =
     (case ms of (m, s) \<Rightarrow>
      case require_session_csrf rq sha256 clk s of
        (Inl e, s1) \<Rightarrow> (Inl e, m, s1)
      | (Inr session, s1) \<Rightarrow> body session (m, s1))"

definition as_reader ::
    "'s request \<Rightarrow> (bytes \<Rightarrow> bytes) \<Rightarrow> clock \<Rightarrow> (session \<Rightarrow> manager \<times> 's \<Rightarrow> (pyval, 's) outcome) \<Rightarrow>
     manager \<times> 's \<Rightarrow> (pyval, 's) outcome" where
  "as_reader rq sha256 clk body ms =
     (case ms of (m, s) \<Rightarrow>
      case get_authenticated_session rq sha256 clk s of
        (Inl e, s1) \<Rightarrow> (Inl e, m, s1)
      | (Inr session, s1) \<Rightarrow>
          (case check_optional_origin rq of
             Inl e \<Rightarrow> (Inl e, m, s1)
           | Inr _ \<Rightarrow> body session (m, s1)))"

text \<open>\<open>_service_from_request\<close>: \<open>None\<close> when the application has no transfer service.\<close>

definition with_service ::
    "'s transfer_service option \<Rightarrow> ('s transfer_service \<Rightarrow> manager \<times> 's \<Rightarrow> ('a, 's) outcome) \<Rightarrow>
     manager \<times> 's \<Rightarrow> ('a, 's) outcome" where
  "with_service service f ms = (case service of None \<Rightarrow> (Inl RuntimeError, ms) | Some sv \<Rightarrow> f sv ms)"

definition create_transfer_offer ::
    "'s request \<Rightarrow> 's transfer_service option \<Rightarrow> (bytes \<Rightarrow> bytes) \<Rightarrow> clock \<Rightarrow> readings \<Rightarrow> uuid \<Rightarrow>
     transfer_create_request \<Rightarrow> manager \<times> 's \<Rightarrow> (pyval, 's) outcome" where
  "create_transfer_offer rq service sha256 clk rd fresh payload =
     as_writer rq sha256 clk (\<lambda>session ms.
       respond (\<lambda>r. public_response r ''offered'') create_error
         (case resolved_recipient payload of
            Inl e \<Rightarrow> (Inl e, ms)
          | Inr recipient \<Rightarrow>
              with_service service (\<lambda>sv. create_offer sv rd fresh (se_user_id session) (se_device_id session)
                recipient (tc_protocol_version payload)) ms))"

definition list_transfers ::
    "'s request \<Rightarrow> 's transfer_service option \<Rightarrow> (bytes \<Rightarrow> bytes) \<Rightarrow> clock \<Rightarrow> (nat \<Rightarrow> readings) \<Rightarrow>
     manager \<times> 's \<Rightarrow> (pyval, 's) outcome" where
  "list_transfers rq service sha256 clk rds =
     as_reader rq sha256 clk (\<lambda>session ms.
       respond (\<lambda>rs. PyDict [(lit ''transfers'', PyList (map (PyDict \<circ> public_transfer) rs))]) (\<lambda>e. e)
         (with_service service (\<lambda>sv. service_list sv rds (se_user_id session)) ms))"

definition get_transfer ::
    "'s request \<Rightarrow> 's transfer_service option \<Rightarrow> (bytes \<Rightarrow> bytes) \<Rightarrow> clock \<Rightarrow> readings \<Rightarrow> uuid \<Rightarrow>
     manager \<times> 's \<Rightarrow> (pyval, 's) outcome" where
  "get_transfer rq service sha256 clk rd transfer_id =
     as_reader rq sha256 clk (\<lambda>session ms.
       respond (PyDict \<circ> public_transfer) read_error
         (with_service service (\<lambda>sv. service_get sv rd (se_user_id session) transfer_id) ms))"

definition get_transfer_peer_key ::
    "'s request \<Rightarrow> 's transfer_service option \<Rightarrow> (bytes \<Rightarrow> bytes) \<Rightarrow> clock \<Rightarrow> readings \<Rightarrow> uuid \<Rightarrow>
     manager \<times> 's \<Rightarrow> (pyval, 's) outcome" where
  "get_transfer_peer_key rq service sha256 clk rd transfer_id =
     as_reader rq sha256 clk (\<lambda>session ms.
       respond public_peer_device_key read_error
         (with_service service (\<lambda>sv. get_peer_device_key sv rd (se_user_id session) transfer_id
            (se_device_id session) (Some (se_epoch session))) ms))"

definition accept_transfer ::
    "'s request \<Rightarrow> 's transfer_service option \<Rightarrow> (bytes \<Rightarrow> bytes) \<Rightarrow> clock \<Rightarrow> readings \<Rightarrow> uuid \<Rightarrow>
     manager \<times> 's \<Rightarrow> (pyval, 's) outcome" where
  "accept_transfer rq service sha256 clk rd transfer_id =
     as_writer rq sha256 clk (\<lambda>session ms.
       respond (\<lambda>r. public_response r ''accepted'') unavailable
         (with_service service (\<lambda>sv. service_accept sv rd (se_user_id session) transfer_id (se_device_id session)) ms))"

definition reject_transfer ::
    "'s request \<Rightarrow> 's transfer_service option \<Rightarrow> (bytes \<Rightarrow> bytes) \<Rightarrow> clock \<Rightarrow> readings \<Rightarrow> uuid \<Rightarrow>
     manager \<times> 's \<Rightarrow> (pyval, 's) outcome" where
  "reject_transfer rq service sha256 clk rd transfer_id =
     as_writer rq sha256 clk (\<lambda>session ms.
       respond (\<lambda>r. public_response r ''rejected'') unavailable
         (with_service service (\<lambda>sv. service_reject sv rd (se_user_id session) transfer_id (se_device_id session)) ms))"

definition cancel_transfer ::
    "'s request \<Rightarrow> 's transfer_service option \<Rightarrow> (bytes \<Rightarrow> bytes) \<Rightarrow> clock \<Rightarrow> readings \<Rightarrow> uuid \<Rightarrow>
     manager \<times> 's \<Rightarrow> (pyval, 's) outcome" where
  "cancel_transfer rq service sha256 clk rd transfer_id =
     as_writer rq sha256 clk (\<lambda>session ms.
       respond (\<lambda>r. public_response r ''cancelled'') unavailable
         (with_service service (\<lambda>sv. service_cancel sv rd (se_user_id session) transfer_id (se_device_id session)) ms))"

definition expire_transfer ::
    "'s request \<Rightarrow> 's transfer_service option \<Rightarrow> (bytes \<Rightarrow> bytes) \<Rightarrow> clock \<Rightarrow> readings \<Rightarrow> uuid \<Rightarrow>
     manager \<times> 's \<Rightarrow> (pyval, 's) outcome" where
  "expire_transfer rq service sha256 clk rd transfer_id =
     as_writer rq sha256 clk (\<lambda>session ms.
       respond (\<lambda>r. public_response r ''expired'') unavailable
         (with_service service (\<lambda>sv. service_expire sv (rd_repository rd 0) (rd_presence rd) (se_user_id session) transfer_id) ms))"

section \<open>Facts about one route\<close>

lemma as_writer_cases:
  assumes "as_writer rq sha256 clk body (m, s) = (out, m', s')"
  obtains (refused) e where "require_session_csrf rq sha256 clk s = (Inl e, s')" "out = Inl e" "m' = m"
  | (admitted) x s1 where "require_session_csrf rq sha256 clk s = (Inr x, s1)" "body x (m, s1) = (out, m', s')"
  using assms by (auto simp: as_writer_def split: prod.splits sum.splits)

lemma respond_Inr: "respond f err out = (Inr v, ms) \<longleftrightarrow> (\<exists>x. out = (Inr x, ms) \<and> v = f x)"
  by (auto simp: respond_def split: prod.split sum.split)

lemma respond_Inl: "respond f err out = (Inl e, ms) \<longleftrightarrow> (\<exists>e'. out = (Inl e', ms) \<and> e = err e')"
  by (auto simp: respond_def split: prod.split sum.split)

text \<open>The dependencies only write to the session table.\<close>

lemma authenticate_tables:
  assumes "authenticate sql_sessions sha256 clk token d = (out, d')"
  shows "transfer_requests d' = transfer_requests d \<and> app_users d' = app_users d \<and> devices d' = devices d \<and>
    websocket_tickets d' = websocket_tickets d"
  using assms
  by (auto simp: authenticate_def sql_sessions_def touch_last_seen_def one_row_def sess_update_def
      split: option.splits if_splits prod.splits sum.splits)

lemma require_session_csrf_tables:
  assumes "require_session_csrf rq sha256 clk d = (out, d')" "rq_session_repository rq = Some sql_sessions"
  shows "transfer_requests d' = transfer_requests d \<and> app_users d' = app_users d \<and> devices d' = devices d"
  using assms authenticate_tables
  by (fastforce simp: require_session_csrf_def get_authenticated_session_def
      split: option.splits if_splits prod.splits sum.splits)


text \<open>The session dependency at most refreshes the session it found.\<close>

lemma require_session_csrf_refreshes:
  assumes "require_session_csrf rq sha256 clk d = (out, d')" "rq_session_repository rq = Some sql_sessions"
  shows "d' = d \<or> (\<exists>a i. d' = snd (touch_last_seen (clk 2) a i d))"
proof -
  have "d1 = d \<or> (\<exists>a i. d1 = snd (touch_last_seen (clk 2) a i d))"
    if "authenticate sql_sessions sha256 clk token d = (x, d1)" for x d1 token
    using that unfolding authenticate_def sql_sessions_def
    by (auto split: option.splits if_splits prod.splits sum.splits) (metis snd_conv)+
  then have "d1 = d \<or> (\<exists>a i. d1 = snd (touch_last_seen (clk 2) a i d))"
    if "get_authenticated_session rq sha256 clk d = (x, d1)" for x d1
    using that assms(2) unfolding get_authenticated_session_def
    by (auto split: option.splits prod.splits sum.splits)
  then show ?thesis
    using assms(1) unfolding require_session_csrf_def by (auto split: option.splits prod.splits sum.splits if_splits)
qed

text \<open>What the statements of the SQL repository, and so the service on top of them, can raise.\<close>

lemma run_update_raises: "run_update p f d = (Inl e, d') \<Longrightarrow> e = BackendUnavailableError"
  by (auto simp: run_update_def sql_update_def split: if_splits)

lemma sql_transition_raises: "sql_transition now a t x y d = (Inl e, d') \<Longrightarrow> e = BackendUnavailableError"
  by (auto simp: sql_transition_def sql_do_transition_def split: option.splits if_splits dest: run_update_raises)

lemma sql_create_raises: "sql_create now fresh a x y v ex d = (Inl e, d') \<Longrightarrow> e = BackendUnavailableError \<or> e = RuntimeError"
  by (auto simp: sql_create_def sql_insert_def Let_def required_row_def split: if_splits option.splits)

lemma sql_port_raises:
  "tp_accept sql_port clk a t v d = (Inl e, d') \<Longrightarrow> caught e"
  "tp_reject sql_port clk a t v d = (Inl e, d') \<Longrightarrow> caught e"
  "tp_cancel sql_port clk a t v d = (Inl e, d') \<Longrightarrow> caught e"
  "tp_expire sql_port clk a t d = (Inl e, d') \<Longrightarrow> caught e"
  "tp_create sql_port clk fresh a x y ver ex d = (Inl e, d') \<Longrightarrow> caught e"
  by (auto simp: sql_port_def sql_accept_def sql_reject_def sql_cancel_def sql_expire_def sql_do_transition_def caught_def
      dest!: run_update_raises sql_create_raises)

lemma caught_TransferError [simp]: "caught TransferError" "caught TransferCapacityError" "caught RuntimeError" "caught ValueError"
  by (simp_all add: caught_def)

lemma service_expire_raises:
  assumes "sv_repository sv = sql_port" "service_expire sv rclk pclk a t ms = (Inl e, ms')"
  shows "caught e"
  using assms
  by (auto simp: service_expire_def split: prod.splits sum.splits option.splits dest: sql_port_raises)

lemma current_or_expire_raises:
  assumes "sv_repository sv = sql_port" "current_or_expire sv rd a t ms = (Inl e, ms')"
  shows "caught e"
  using assms
  by (auto simp: current_or_expire_def split: prod.splits sum.splits option.splits if_splits
      dest: service_expire_raises [OF assms(1)])

lemma service_raises:
  assumes "sv_repository sv = sql_port"
  shows "service_accept sv rd a t v ms = (Inl e, ms') \<Longrightarrow> caught e"
    and "service_reject sv rd a t v ms = (Inl e, ms') \<Longrightarrow> caught e"
    and "service_cancel sv rd a t v ms = (Inl e, ms') \<Longrightarrow> caught e"
    and "create_offer sv rd fresh a v w ver ms = (Inl e, ms') \<Longrightarrow> caught e"
  using assms
  by (auto simp: service_accept_def service_reject_def service_cancel_def create_offer_def validate_devices_def
      ensure_capacity_def Let_def
      split: prod.splits sum.splits option.splits if_splits
      dest: current_or_expire_raises [OF assms] sql_port_raises)

end
