(* ===== verification/DeviceRoutes.thy ===== *)
theory DeviceRoutes
  imports DeviceAuth TransferRoutes
begin

text \<open>
  The routes of \<open>app/device_auth.py\<close> and the logout route of \<open>app/session_api.py\<close>: the request
  dependencies, then the service or the device repository, with the exceptions turned into responses.
  The bodies are what the schemas let through.  An answer is the JSON body with the session cookie it
  sets, if any.
\<close>

section \<open>Responses\<close>

text \<open>JSON payloads as response values; the device payloads hold no fractions and no arrays.\<close>

fun py_of_json :: "json \<Rightarrow> pyval" where
  "py_of_json (JBool b) = PyBool b"
| "py_of_json (JInt n) = PyInt n"
| "py_of_json (JStr s) = PyStr s"
| "py_of_json (JArr xs) = PyList (map py_of_json xs)"
| "py_of_json (JObj ms) = PyDict (map (\<lambda>(k, v). (k, py_of_json v)) ms)"
| "py_of_json _ = PyNone"

fun device_status_text :: "device_status \<Rightarrow> string" where
  "device_status_text Active = ''active''"
| "device_status_text Inactive = ''inactive''"
| "device_status_text Revoked = ''revoked''"

definition public_device :: "device \<Rightarrow> pyval" where
  "public_device device =
     PyDict [(lit ''device_id'', PyStr (uuid_str (dv_id device))),
             (lit ''epoch'', PyInt (dv_epoch device)),
             (lit ''label'', PyStr (dv_label device)),
             (lit ''fingerprint'', PyStr (encode_base64url (dv_fingerprint device))),
             (lit ''status'', PyStr (lit (device_status_text (dv_status device)))),
             (lit ''created_at'', PyTime (dv_created_at device)),
             (lit ''last_seen_at'', PyTime (dv_last_seen_at device)),
             (lit ''revoked_at'', py_option PyTime (dv_revoked_at device)),
             (lit ''linked_by_device_id'', py_option (PyStr \<circ> uuid_str) (dv_linked_by_device_id device))]"

definition public_auth_result :: "device_auth_result \<Rightarrow> pyval" where
  "public_auth_result result =
     PyDict [(lit ''authenticated'', PyBool True),
             (lit ''account_id'', PyStr (uuid_str (ac_id (ar_account result)))),
             (lit ''device'', public_device (ar_device result)),
             (lit ''session'', PyDict (public_session (cs_record (ar_session result)))),
             (lit ''csrf_token'', PyStr (sx_csrf_secret (cs_secrets (ar_session result)))),
             (lit ''fallback'', PyBool (ar_fallback result))]"

definition challenge_response :: "registration_challenge \<Rightarrow> pyval res" where
  "challenge_response c =
     bind_res (rc_payload c) (\<lambda>payload. Inr (PyDict
       [(lit ''challenge_id'', PyStr (uuid_str (rc_challenge_id c))),
        (lit ''account_id'', PyStr (uuid_str (rc_account_id c))),
        (lit ''device_id'', PyStr (uuid_str (rc_device_id c))),
        (lit ''device_epoch'', PyInt (rc_epoch c)),
        (lit ''nonce'', PyStr (encode_base64url (rc_nonce c))),
        (lit ''origin'', PyStr (rc_origin c)),
        (lit ''issued_at'', PyTime (rc_issued_at c)),
        (lit ''expires_at'', PyTime (rc_expires_at c)),
        (lit ''fingerprint'', PyStr (encode_base64url (rc_fingerprint c))),
        (lit ''protocol_version'', PyInt DEVICE_PROTOCOL_VERSION),
        (lit ''challenge_version'', PyInt DEVICE_CHALLENGE_VERSION),
        (lit ''fallback'', PyBool (rc_fallback c)),
        (lit ''enrollment_method'', PyStr (rc_enrollment_method c)),
        (lit ''payload'', py_of_json payload)]))"

definition lc_payload :: "device_login_challenge \<Rightarrow> json res" where
  "lc_payload c = challenge_payload (lc_challenge c) (lc_account c) (lc_device c) (lc_nonce c)"

definition login_challenge_response :: "device_login_challenge \<Rightarrow> pyval res" where
  "login_challenge_response c =
     bind_res (lc_payload c) (\<lambda>payload. Inr (PyDict
       [(lit ''challenge_id'', PyStr (uuid_str (ch_id (lc_challenge c)))),
        (lit ''account_id'', PyStr (uuid_str (ac_id (lc_account c)))),
        (lit ''device_id'', PyStr (uuid_str (dv_id (lc_device c)))),
        (lit ''device_epoch'', PyInt (ac_device_epoch (lc_account c))),
        (lit ''nonce'', PyStr (encode_base64url (lc_nonce c))),
        (lit ''origin'', PyStr (ch_origin (lc_challenge c))),
        (lit ''issued_at'', PyTime (ch_created_at (lc_challenge c))),
        (lit ''expires_at'', PyTime (ch_expires_at (lc_challenge c))),
        (lit ''protocol_version'', PyInt DEVICE_PROTOCOL_VERSION),
        (lit ''challenge_version'', PyInt DEVICE_CHALLENGE_VERSION),
        (lit ''payload'', py_of_json payload)]))"

text \<open>\<open>clear_session_cookie\<close>: the cookie of \<open>Response.delete_cookie\<close>.\<close>

definition clear_session_cookie :: cookie where
  "clear_session_cookie =
     \<lparr>ck_key = SESSION_COOKIE_NAME, ck_value = [], ck_max_age = 0, ck_path = lit ''/'', ck_secure = True,
      ck_httponly = True, ck_samesite = lit ''lax''\<rparr>"

section \<open>Bodies\<close>

record registration_challenge_request =
  rr_bootstrap_token :: pystr
  rr_public_key_spki :: "pystr option"
  rr_public_key :: "pystr option"
  rr_label :: pystr
  rr_device_id :: "uuid option"

record registration_complete_request =
  rp_challenge_id :: uuid
  rp_signature :: pystr

record linking_challenge_request =
  lr_otp :: "pystr option"
  lr_linking_otp :: "pystr option"
  lr_public_key_spki :: "pystr option"
  lr_public_key :: "pystr option"
  lr_label :: pystr
  lr_device_id :: "uuid option"

record challenge_complete_request =
  cp_account_id :: uuid
  cp_challenge_id :: uuid
  cp_nonce :: pystr
  cp_signature :: pystr

text \<open>\<open>x or y or ""\<close> of optional texts.\<close>

definition text_or :: "pystr option \<Rightarrow> pystr option \<Rightarrow> pystr" where
  "text_or x y =
     (case x of Some (c # cs) \<Rightarrow> c # cs | _ \<Rightarrow> (case y of Some (c # cs) \<Rightarrow> c # cs | _ \<Rightarrow> []))"

definition decode_signature :: "pystr \<Rightarrow> bytes res" where
  "decode_signature value = decode_base64url 512 value"

definition decode_key :: "pystr \<Rightarrow> bytes res" where
  "decode_key value = decode_base64url 1024 value"

definition origin_of :: "'s request \<Rightarrow> pystr res" where
  "origin_of rq = (case rq_origin rq of None \<Rightarrow> Inl (HTTPException 403) | Some origin \<Rightarrow> Inr origin)"

section \<open>Guards and exceptions\<close>

text \<open>\<open>Depends(require_exact_origin)\<close> and \<open>_service_from_request\<close>.\<close>

definition from_origin :: "'s request \<Rightarrow> ('x \<Rightarrow> 'a res \<times> 'x) \<Rightarrow> 'x \<Rightarrow> 'a res \<times> 'x" where
  "from_origin rq body x = (case require_exact_origin rq of Inl e \<Rightarrow> (Inl e, x) | Inr _ \<Rightarrow> body x)"

definition with_device_service ::
    "'s device_service option \<Rightarrow> ('s device_service \<Rightarrow> 'x \<Rightarrow> 'a res \<times> 'x) \<Rightarrow> 'x \<Rightarrow> 'a res \<times> 'x" where
  "with_device_service service f x = (case service of None \<Rightarrow> (Inl RuntimeError, x) | Some sv \<Rightarrow> f sv x)"

text \<open>A value of the request that is computed before the call, and may raise.\<close>

definition given :: "'b res \<Rightarrow> ('b \<Rightarrow> 'x \<Rightarrow> 'a res \<times> 'x) \<Rightarrow> 'x \<Rightarrow> 'a res \<times> 'x" where
  "given v f x = (case v of Inl e \<Rightarrow> (Inl e, x) | Inr y \<Rightarrow> f y x)"

text \<open>The exception a \<open>try\<close> block turns into a response, and the response of what it returns.\<close>

definition catching :: "(exc \<Rightarrow> exc) \<Rightarrow> 'a res \<times> 'x \<Rightarrow> 'a res \<times> 'x" where
  "catching err out = (case out of (Inl e, x) \<Rightarrow> (Inl (err e), x) | (Inr y, x) \<Rightarrow> (Inr y, x))"

definition answering :: "('a \<Rightarrow> 'b res) \<Rightarrow> 'a res \<times> 'x \<Rightarrow> 'b res \<times> 'x" where
  "answering f out = (case out of (Inl e, x) \<Rightarrow> (Inl e, x) | (Inr y, x) \<Rightarrow> (f y, x))"

definition value_error :: "nat \<Rightarrow> exc \<Rightarrow> exc" where
  "value_error code e = (if is_ValueError e then HTTPException code else e)"

definition linking_error :: "nat \<Rightarrow> exc \<Rightarrow> exc" where
  "linking_error code e = (if e = DeviceLinkingRateLimited then HTTPException 429 else value_error code e)"

definition signed_in :: "device_auth_result \<Rightarrow> (pyval \<times> cookie) res" where
  "signed_in result =
     Inr (public_auth_result result, set_session_cookie (sx_token (cs_secrets (ar_session result))))"

section \<open>The routes\<close>

definition registration_challenge_route ::
    "'k inputs \<Rightarrow> 's request \<Rightarrow> 's device_service option \<Rightarrow> registration_challenge_request \<Rightarrow> 's auth_state \<Rightarrow>
     pyval res \<times> 's auth_state" where
  "registration_challenge_route i rq service payload =
     from_origin rq (\<lambda>st. answering challenge_response (catching (value_error 400)
       (with_device_service service (\<lambda>sv.
          given (decode_key (text_or (rr_public_key_spki payload) (rr_public_key payload))) (\<lambda>key.
          given (origin_of rq) (\<lambda>origin.
            issue_registration_challenge i sv (rr_bootstrap_token payload) key (rr_label payload) origin
              (rr_device_id payload)))) st)))"

definition completing_registration ::
    "'k inputs \<Rightarrow> 's request \<Rightarrow> 's device_service option \<Rightarrow> registration_complete_request \<Rightarrow> 's auth_state \<Rightarrow>
     (pyval \<times> cookie) res \<times> 's auth_state" where
  "completing_registration i rq service payload =
     from_origin rq (\<lambda>st. answering signed_in (catching (value_error 401)
       (with_device_service service (\<lambda>sv.
          given (decode_signature (rp_signature payload)) (\<lambda>signature.
          given (origin_of rq) (\<lambda>origin.
            complete_registration i sv (rp_challenge_id payload) signature origin))) st)))"

definition complete_registration_route ::
    "'k inputs \<Rightarrow> 's request \<Rightarrow> 's device_service option \<Rightarrow> registration_complete_request \<Rightarrow> 's auth_state \<Rightarrow>
     (pyval \<times> cookie) res \<times> 's auth_state" where
  "complete_registration_route = completing_registration"

definition complete_linking_route ::
    "'k inputs \<Rightarrow> 's request \<Rightarrow> 's device_service option \<Rightarrow> registration_complete_request \<Rightarrow> 's auth_state \<Rightarrow>
     (pyval \<times> cookie) res \<times> 's auth_state" where
  "complete_linking_route = completing_registration"

definition create_linking_otp_route ::
    "'k inputs \<Rightarrow> 's request \<Rightarrow> pystr option \<Rightarrow> 's device_service option \<Rightarrow> clock \<Rightarrow> 's auth_state \<Rightarrow>
     pyval res \<times> 's auth_state" where
  "create_linking_otp_route i rq host service clk st =
     (case require_session_csrf rq (in_sha256 i) clk (au_store st) of
        (Inl e, s) \<Rightarrow> (Inl e, st\<lparr>au_store := s\<rparr>)
      | (Inr session, s) \<Rightarrow>
          answering (\<lambda>(code, record). Inr (PyDict
              [(lit ''message'', PyStr (lit ''A device-linking code was created.'')),
               (lit ''otp'', PyStr code), (lit ''expires_at'', PyTime (ot_expires_at record))]))
            (catching (linking_error 403)
              (with_device_service service (\<lambda>sv.
                 issue_linking_otp i sv (se_user_id session) (se_device_id session) (network_identifier host))
                 (st\<lparr>au_store := s\<rparr>))))"

definition linking_challenge_route ::
    "'k inputs \<Rightarrow> 's request \<Rightarrow> pystr option \<Rightarrow> 's device_service option \<Rightarrow> linking_challenge_request \<Rightarrow> 's auth_state \<Rightarrow>
     pyval res \<times> 's auth_state" where
  "linking_challenge_route i rq host service payload =
     from_origin rq (\<lambda>st. answering challenge_response (catching (linking_error 401)
       (with_device_service service (\<lambda>sv.
          given (decode_key (text_or (lr_public_key_spki payload) (lr_public_key payload))) (\<lambda>key.
          given (origin_of rq) (\<lambda>origin.
            issue_linking_challenge i sv (text_or (lr_otp payload) (lr_linking_otp payload)) key (lr_label payload) origin
              (lr_device_id payload) (network_identifier host)))) st)))"

definition issue_login_challenge_route ::
    "'k inputs \<Rightarrow> 's request \<Rightarrow> 's device_service option \<Rightarrow> uuid \<Rightarrow> uuid \<Rightarrow> 's \<Rightarrow> pyval res \<times> 's" where
  "issue_login_challenge_route i rq service account_id device_id =
     from_origin rq (\<lambda>s. answering login_challenge_response (catching (value_error 401)
       (with_device_service service (\<lambda>sv.
          given (origin_of rq) (\<lambda>origin. issue_login_challenge i sv account_id device_id origin)) s)))"

definition complete_login_challenge_route ::
    "'k inputs \<Rightarrow> 's request \<Rightarrow> 's device_service option \<Rightarrow> challenge_complete_request \<Rightarrow> 's \<Rightarrow>
     (pyval \<times> cookie) res \<times> 's" where
  "complete_login_challenge_route i rq service payload =
     from_origin rq (\<lambda>s. answering signed_in (catching (value_error 401)
       (with_device_service service (\<lambda>sv.
          given (decode_base64url 64 (cp_nonce payload)) (\<lambda>nonce.
          given (decode_signature (cp_signature payload)) (\<lambda>signature.
          given (origin_of rq) (\<lambda>origin.
            complete_login_challenge i sv (cp_account_id payload) (cp_challenge_id payload) nonce signature origin)))) s)))"

text \<open>The management routes, with the presence manager beside the repositories.\<close>

definition list_devices ::
    "'s request \<Rightarrow> 's device_service option \<Rightarrow> (bytes \<Rightarrow> bytes) \<Rightarrow> clock \<Rightarrow> manager \<times> 's \<Rightarrow> (pyval, 's) outcome" where
  "list_devices rq service sha256 clk =
     as_reader rq sha256 clk (\<lambda>session. with_device_service service (\<lambda>sv (m, s).
       (Inr (PyDict [(lit ''devices'', PyList (map public_device (da_list_devices sv (se_user_id session) s)))]), m, s)))"

definition rename_device ::
    "'s request \<Rightarrow> 's device_service option \<Rightarrow> (bytes \<Rightarrow> bytes) \<Rightarrow> clock \<Rightarrow> uuid \<Rightarrow> pystr \<Rightarrow> manager \<times> 's \<Rightarrow>
     (pyval, 's) outcome" where
  "rename_device rq service sha256 clk device_id label =
     as_writer rq sha256 clk (\<lambda>session ms.
       answering (\<lambda>device. case device of
            None \<Rightarrow> Inl (HTTPException 404)
          | Some v \<Rightarrow> Inr (PyDict [(lit ''device'', public_device v)]))
         (catching (value_error 400)
           (with_device_service service (\<lambda>sv.
              given (normalize_device_label label) (\<lambda>normalized (m, s).
                case da_rename_device sv (se_user_id session) device_id normalized s of (out, s') \<Rightarrow> (out, m, s'))) ms)))"

text \<open>
  \<open>disconnect_device\<close> of the manager, when the application has one: \<open>presence\<close> is how it looks devices
  up in the repository state.
\<close>

definition disconnecting ::
    "('s \<Rightarrow> device_lookup option) option \<Rightarrow> clock \<Rightarrow> uuid \<Rightarrow> uuid \<Rightarrow> manager \<times> 's \<Rightarrow> manager" where
  "disconnecting presence clk a v = (\<lambda>(m, s).
     case presence of None \<Rightarrow> m | Some lookup \<Rightarrow> disconnect_device (lookup s) (clk 4) (clk 5) a v m)"

definition logout_device_route ::
    "'s request \<Rightarrow> 's device_service option \<Rightarrow> ('s \<Rightarrow> device_lookup option) option \<Rightarrow> (bytes \<Rightarrow> bytes) \<Rightarrow> clock \<Rightarrow> uuid \<Rightarrow>
     manager \<times> 's \<Rightarrow> (pyval \<times> cookie option) res \<times> manager \<times> 's" where
  "logout_device_route rq service presence sha256 clk device_id ms =
     (case ms of (m, s) \<Rightarrow>
      case require_session_csrf rq sha256 clk s of
        (Inl e, s1) \<Rightarrow> (Inl e, m, s1)
      | (Inr session, s1) \<Rightarrow>
          (case service of
             None \<Rightarrow> (Inl RuntimeError, m, s1)
           | Some sv \<Rightarrow>
               (case da_logout_device sv (\<lambda>n. clk (3 + n)) (se_user_id session) device_id (lit ''logout'') s1 of
                  (Inl e, s2) \<Rightarrow> (Inl e, m, s2)
                | (Inr None, s2) \<Rightarrow> (Inl (HTTPException 404), m, s2)
                | (Inr (Some device), s2) \<Rightarrow>
                    (Inr (PyDict [(lit ''device'', public_device device), (lit ''logged_out'', PyBool True)],
                          if device_id = se_device_id session then Some clear_session_cookie else None),
                     disconnecting presence clk (se_user_id session) device_id (m, s2), s2))))"

section \<open>Logging out\<close>

definition revoking_session ::
    "'s request \<Rightarrow> instant \<Rightarrow> session \<Rightarrow> 's \<Rightarrow> session option res \<times> 's" where
  "revoking_session rq now session s =
     (case rq_session_repository rq of
        None \<Rightarrow> (Inl RuntimeError, s)
      | Some port \<Rightarrow>
          if \<not> rq_has_session_service rq then (Inl RuntimeError, s)
          else service_revoke port now (se_user_id session) (se_id session) (lit ''logout'') s)"

text \<open>\<open>logout\<close>: \<open>logout_device\<close> is the device repository's \<open>logout_with_sessions\<close>, where there is one.\<close>

definition logout ::
    "'s request \<Rightarrow> (clock \<Rightarrow> uuid \<Rightarrow> uuid \<Rightarrow> pystr \<Rightarrow> 's \<Rightarrow> device option res \<times> 's) option \<Rightarrow>
     ('s \<Rightarrow> device_lookup option) option \<Rightarrow> (bytes \<Rightarrow> bytes) \<Rightarrow> clock \<Rightarrow> manager \<times> 's \<Rightarrow>
     (pyval \<times> cookie) res \<times> manager \<times> 's" where
  "logout rq logout_device presence sha256 clk ms =
     (case ms of (m, s) \<Rightarrow>
      case require_session_csrf rq sha256 clk s of
        (Inl e, s1) \<Rightarrow> (Inl e, m, s1)
      | (Inr session, s1) \<Rightarrow>
          (let response = (PyDict [(lit ''message'', PyStr (lit ''Logged out.'')),
                                   (lit ''logged_out'', PyBool True)], clear_session_cookie)
           in case logout_device of
                None \<Rightarrow>
                  (case revoking_session rq (clk 3) session s1 of
                     (Inl e, s2) \<Rightarrow> (Inl e, m, s2)
                   | (Inr _, s2) \<Rightarrow> (Inr response, m, s2))
              | Some f \<Rightarrow>
                  (case f (\<lambda>n. clk (3 + n)) (se_user_id session) (se_device_id session) (lit ''logout'') s1 of
                     (Inl e, s2) \<Rightarrow> (Inl e, m, s2)
                   | (Inr logged_out, s2) \<Rightarrow>
                       (case (if logged_out = None then revoking_session rq (clk 6) session s2 else (Inr None, s2)) of
                          (Inl e, s3) \<Rightarrow> (Inl e, m, s3)
                        | (Inr _, s3) \<Rightarrow>
                            (Inr response,
                             disconnecting presence clk (se_user_id session) (se_device_id session) (m, s3), s3)))))"

section \<open>Sockets of a device that is disconnected\<close>

text \<open>Sections that keep the registry well formed and only take sockets away.\<close>

definition shrinks :: "manager \<Rightarrow> manager \<Rightarrow> bool" where
  "shrinks m m' \<longleftrightarrow> (conns_ok (pm_connections m) \<longrightarrow> conns_ok (pm_connections m') \<and> subconns m' m)"

lemma shrinks_trans: "shrinks m m' \<Longrightarrow> shrinks m' m'' \<Longrightarrow> shrinks m m''"
  by (auto simp: shrinks_def intro: subconns_trans)

lemma shrinks_same: "pm_connections m' = pm_connections m \<Longrightarrow> shrinks m m'"
  by (simp add: shrinks_def subconns_same)

lemma shrinks_fold: "(\<And>x m. shrinks m (f x m)) \<Longrightarrow> shrinks m (fold f xs m)"
proof (induction xs arbitrary: m)
  case (Cons x xs)
  show ?case unfolding fold_Cons o_apply by (rule shrinks_trans [OF Cons.prems Cons.IH [OF Cons.prems]])
qed (simp add: shrinks_same)

lemma shrinks_drop_socket: "shrinks m (drop_socket c m)"
proof -
  have "snd (pm_remove c m) = m \<or> snd (pm_remove c m) = pop_outbound (co_id c) (drop_device (co_account_id c) (co_device_id c) m)"
    by (auto simp: pm_remove_def split: option.split)
  moreover have "subconns (pop_outbound i (drop_device a v m)) m" for i a v
    using subconns_same [of "pop_outbound i (drop_device a v m)" "drop_device a v m"] subconns_drop_device
    by (auto simp: pop_outbound_def intro: subconns_trans)
  ultimately have "subconns (drop_socket c m) m"
    using subconns_same [of "drop_socket c m" "snd (pm_remove c m)"]
    by (auto simp: drop_socket_def ws_close_def intro: subconns_trans)
  then show ?thesis by (simp add: shrinks_def conns_ok_drop_socket)
qed

lemma shrinks_enqueue: "shrinks m (snd (enqueue_outbound c p m))"
proof (cases rule: enqueue_connections [of c p m])
  case 1
  then show ?thesis by (rule shrinks_same)
next
  case (2 m1)
  then show ?thesis
    using shrinks_trans [OF shrinks_same shrinks_trans [OF shrinks_drop_socket shrinks_same]] by metis
qed

lemma shrinks_prune: "shrinks m (prune_expired now account_id m)"
proof -
  obtain ex m1 where pr: "prune_sockets now account_id m = (ex, m1)" by fastforce
  have "shrinks m m1"
    using prune_sockets_keeps [of m now account_id] unfolding shrinks_def pr by simp
  moreover have "shrinks m (expire_socket c m)" for c m
    by (rule shrinks_same) (simp add: expire_socket_def ws_close_def pm_count_def pop_outbound_def)
  then have "shrinks m1 (fold expire_socket ex m1)" by (rule shrinks_fold)
  moreover have "shrinks (fold expire_socket ex m1) (prune_signaling_state now (fold expire_socket ex m1))"
    by (rule shrinks_same) simp
  ultimately show ?thesis unfolding prune_expired_def pr prod.case by (metis shrinks_trans)
qed

lemma shrinks_broadcast: "shrinks m (broadcast_presence get t1 t2 a m)"
proof -
  let ?m2 = "prune_expired t2 (Some a) (prune_expired t1 (Some a) m)"
  have "shrinks m ?m2" by (rule shrinks_trans [OF shrinks_prune shrinks_prune])
  moreover have "shrinks ?m2 (fold (\<lambda>c m. snd (enqueue_outbound c p m)) cs ?m2)" for p cs
    by (rule shrinks_fold, rule shrinks_enqueue)
  ultimately show ?thesis
    by (auto simp: broadcast_presence_def online_devices_def online_connections_def Let_def intro: shrinks_trans)
qed

lemma disconnected_gone:
  assumes "conns_ok (pm_connections m)"
  shows "conn_at (disconnect_device get t1 t2 a v m) a v = None"
proof (cases "dict_get (conns m a) v")
  case None
  then show ?thesis by (simp add: disconnect_device_def conn_at_def)
next
  case (Some c)
  let ?m = "ws_close (co_websocket c) 1008 (pop_outbound (co_id c) (drop_device a v m))"
  have same: "pm_connections ?m = pm_connections (drop_device a v m)" by (simp add: ws_close_def pop_outbound_def)
  have "conns_ok (pm_connections ?m)" unfolding same by (rule conns_ok_drop_device [OF assms])
  then have "subconns (broadcast_presence get t1 t2 a ?m) ?m"
    using shrinks_broadcast unfolding shrinks_def by blast
  moreover have "conn_at ?m a v = None"
    unfolding conn_at_cong [OF same] by (simp add: conn_at_def drop_device_def)
  ultimately have "conn_at (broadcast_presence get t1 t2 a ?m) a v = None"
    unfolding subconns_def by (metis not_Some_eq)
  then show ?thesis by (simp add: disconnect_device_def Some)
qed

section \<open>Sessions that are ended\<close>

text \<open>The guard refreshes the session it finds, and writes nothing else.\<close>

lemma guard_steps:
  assumes "require_session_csrf rq sha256 clk d = (out, d')" and "rq_session_repository rq = Some sql_sessions"
  shows "trust_step\<^sup>*\<^sup>* d d'"
proof -
  have touch: "trust_step\<^sup>*\<^sup>* d (snd (touch_last_seen now a i d))" for now a i
    by (intro r_into_rtranclp) (simp add: trust_step_def session_step.intros)
  have "d' = d \<or> (\<exists>now a i. d' = snd (touch_last_seen now a i d))"
    using assms
    by (auto simp: require_session_csrf_def get_authenticated_session_def authenticate_def sql_sessions_def
        split: option.splits if_splits prod.splits sum.splits) (metis snd_conv)+
  then show ?thesis using touch by auto
qed

lemma revoke_ends:
  assumes "session_inv d" and "sess_revoke now a i r d = (Inr out, d')"
    and "s \<in> set (app_sessions d)" and "se_user_id s = a" and "se_id s = i"
  shows "\<exists>s1\<in>set (app_sessions d'). session_evolves s s1 \<and> se_revoked_at s1 \<noteq> None"
proof -
  let ?q = "\<lambda>s. se_user_id s = a \<and> se_id s = i \<and> se_revoked_at s = None"
  obtain rows where "sess_update ?q (revoked now r) d = (Inr rows, d')"
    using assms(2) by (auto simp: sess_revoke_def one_row_def bind_res_Inr split: prod.splits)
  from sess_update_rows [OF this] assms(3)
  have "(if ?q s then revoked now r s else s) \<in> set (app_sessions d')" by auto
  moreover have "session_evolves s (if ?q s then revoked now r s else s)"
    by (simp add: session_evolves_def revoked_def)
  moreover have "se_revoked_at (if ?q s then revoked now r s else s) \<noteq> None"
    using assms(4,5) by (simp add: revoked_def)
  ultimately show ?thesis by blast
qed

lemma logout_ends:
  assumes "session_inv d" and "logout_with_sessions now a i r d = (Inr (Some x), d')"
    and "s \<in> set (app_sessions d)" and "se_user_id s = a" and "se_device_id s = i"
  shows "\<exists>s1\<in>set (app_sessions d'). session_evolves s s1 \<and> se_revoked_at s1 \<noteq> None"
proof -
  note res = end_device_result [OF assms(2) [unfolded logout_with_sessions_def] device_updates_evolve(2)]
  then have "rows_evolve session_evolves (app_sessions d) (app_sessions d')" by (simp add: trust_evolves_def)
  then obtain s1 where s1: "s1 \<in> set (app_sessions d')" "session_evolves s s1"
    using assms(3) unfolding rows_evolve_def by blast
  then have "se_user_id s1 = a" "se_device_id s1 = i" using assms(4,5) by (simp_all add: session_evolves_def)
  then show ?thesis using res s1 by blast
qed

text \<open>An ended session stays unusable: neither its identifier nor its cookie finds it.\<close>

lemma ended_cookie_rejected:
  assumes "session_inv d1" and "trust_step\<^sup>*\<^sup>* d1 d2" and "s \<in> set (app_sessions d1)" and "se_revoked_at s \<noteq> None"
    and "se_token_hash s = sha256 cookie"
  shows "authenticate sql_sessions sha256 clk (Some cookie) d2 = (Inr None, d2)"
proof -
  have "find_by_token_hash (clk 0) (sha256 cookie) d2 = None"
    using ended_sessions_lost [OF assms(1-4)] assms(5) by metis
  then show ?thesis
    by (auto simp: authenticate_def digest_of_cookie_def hash_secret_def encode_ascii_def sql_sessions_def
        split: option.splits)
qed

section \<open>What an answered route went through\<close>

lemma from_origin_Inr:
  assumes "from_origin rq body x = (Inr y, x')"
  obtains origin where "rq_app_origin rq = Some origin" and "rq_origin rq = Some origin" and "body x = (Inr y, x')"
  using assms require_exact_origin_Inr [of rq]
  by (cases "require_exact_origin rq") (auto simp: from_origin_def)

lemma answering_Inr: "answering f out = (Inr y, x') \<longleftrightarrow> (\<exists>v. out = (Inr v, x') \<and> f v = Inr y)"
  by (auto simp: answering_def split: prod.split sum.split)

lemma catching_Inr [simp]: "catching err out = (Inr y, x') \<longleftrightarrow> out = (Inr y, x')"
  by (auto simp: catching_def split: prod.split sum.split)

lemma given_Inr: "given v f x = (Inr y, x') \<longleftrightarrow> (\<exists>w. v = Inr w \<and> f w x = (Inr y, x'))"
  by (auto simp: given_def split: sum.split)

lemmas route_defs = with_device_service_def given_Inr answering_Inr signed_in_def origin_of_def

lemma login_route_steps:
  assumes "complete_login_challenge_route i rq (Some sv) payload s = (Inr (body, ck), s')"
  obtains origin nonce sg r where "rq_app_origin rq = Some origin" and "rq_origin rq = Some origin"
    and "decode_base64url 64 (cp_nonce payload) = Inr nonce" and "decode_signature (cp_signature payload) = Inr sg"
    and "complete_login_challenge i sv (cp_account_id payload) (cp_challenge_id payload) nonce sg origin s = (Inr r, s')"
    and "body = public_auth_result r" and "ck = set_session_cookie (sx_token (cs_secrets (ar_session r)))"
  using assms unfolding complete_login_challenge_route_def
  by (elim from_origin_Inr) (auto simp: route_defs)

lemma logout_steps:
  assumes "logout rq (Some f) (Some lookup) sha256 clk (m, s) = (Inr (body, ck), m', s')"
  obtains x s1 v s2 out where "require_session_csrf rq sha256 clk s = (Inr x, s1)"
    and "f (\<lambda>n. clk (3 + n)) (se_user_id x) (se_device_id x) (lit ''logout'') s1 = (Inr v, s2)"
    and "v = None \<and> revoking_session rq (clk 6) x s2 = (Inr out, s') \<or> v \<noteq> None \<and> s' = s2"
    and "m' = disconnect_device (lookup s') (clk 4) (clk 5) (se_user_id x) (se_device_id x) m"
    and "ck = clear_session_cookie"
  using assms
  by (auto simp: logout_def Let_def disconnecting_def split: prod.splits sum.splits if_splits)

lemma logout_device_steps:
  assumes "logout_device_route rq (Some sv) (Some lookup) sha256 clk i (m, s) = (Inr (body, ck), m', s')"
  obtains x s1 v where "require_session_csrf rq sha256 clk s = (Inr x, s1)"
    and "da_logout_device sv (\<lambda>n. clk (3 + n)) (se_user_id x) i (lit ''logout'') s1 = (Inr (Some v), s')"
    and "m' = disconnect_device (lookup s') (clk 4) (clk 5) (se_user_id x) i m"
    and "ck = (if i = se_device_id x then Some clear_session_cookie else None)"
  using assms
  by (auto simp: logout_device_route_def disconnecting_def split: prod.splits sum.splits option.splits)

text \<open>The session of the request, before and after the guard.\<close>

lemma guarded_session:
  assumes "session_inv d" and "rq_session rq = None" and "rq_session_repository rq = Some sql_sessions"
    and "require_session_csrf rq sha256 clk d = (Inr x, d1)"
  obtains cookie csrf y where "rq_cookie rq = Some cookie" and "y \<in> set (app_sessions d)"
    and "se_token_hash y = sha256 cookie" and "session_usable (clk 0) y" and "rq_csrf_token rq = Some csrf"
    and "sha256 csrf = se_csrf_hash y" and "session_evolves y x" and "session_inv d1"
    and "rows_evolve session_evolves (app_sessions d) (app_sessions d1)" and "devices d1 = devices d"
proof -
  note s = trust_steps_sessions [OF guard_steps [OF assms(4,3)] assms(1)]
  note t = require_session_csrf_tables [OF assms(4,3)]
  show thesis using write_request_session [OF assms] s t that by blast
qed

text \<open>After the logout the session of the request is revoked in the table.\<close>

lemma logout_revokes:
  assumes "session_inv d1" and "y \<in> set (app_sessions d1)" and "rq_session_repository rq = Some sql_sessions"
    and "se_user_id x = se_user_id y" and "se_device_id x = se_device_id y" and "se_id x = se_id y"
    and "logout_with_sessions now (se_user_id x) (se_device_id x) r d1 = (Inr v, d2)"
    and "v = None \<and> revoking_session rq t x d2 = (Inr out, d3) \<or> v \<noteq> None \<and> d3 = d2"
  shows "session_inv d3 \<and> (\<exists>z\<in>set (app_sessions d3). session_evolves y z \<and> se_revoked_at z \<noteq> None)"
proof -
  have "trust_step\<^sup>*\<^sup>* d1 d2"
    using device_step.intros(6) [of d1 now "se_user_id x" "se_device_id x" r] assms(7)
    by (intro r_into_rtranclp) (simp add: trust_step_def)
  note d2 = trust_steps_sessions [OF this assms(1)]
  then obtain y2 where y2: "y2 \<in> set (app_sessions d2)" "session_evolves y y2"
    using assms(2) unfolding rows_evolve_def by blast
  from assms(8) show ?thesis
  proof
    assume "v \<noteq> None \<and> d3 = d2"
    then show ?thesis using logout_ends [OF assms(1) _ assms(2)] assms(4,5,7) d2 by auto
  next
    assume r: "v = None \<and> revoking_session rq t x d2 = (Inr out, d3)"
    then have rev: "sess_revoke t (se_user_id x) (se_id x) (lit ''logout'') d2 = (Inr out, d3)"
      using assms(3) by (auto simp: revoking_session_def service_revoke_def sql_sessions_def split: if_splits)
    have "trust_step\<^sup>*\<^sup>* d2 d3"
      using session_step.intros(4) [of d2 t "se_user_id x" "se_id x" "lit ''logout''"] rev
      by (intro r_into_rtranclp) (simp add: trust_step_def)
    then have "session_inv d3" using trust_steps_sessions d2 by blast
    moreover have "se_user_id y2 = se_user_id x" "se_id y2 = se_id x"
      using y2(2) assms(4,6) by (simp_all add: session_evolves_def)
    then obtain z where "z \<in> set (app_sessions d3)" "session_evolves y2 z" "se_revoked_at z \<noteq> None"
      using revoke_ends [OF _ rev y2(1)] d2 by blast
    ultimately show ?thesis using session_evolves_trans [OF y2(2)] by blast
  qed
qed

section \<open>Properties\<close>

text \<open>
  C13.  The login route opens a session only for a proven device.  When it answers on the database, the
  request came from the application's origin, which is the origin the challenge was issued for; the
  signature in the body verifies under the stored key of an active device of the account over the
  payload of that challenge; and the cookie the response sets is the token of a stored session of
  exactly that account and device, sent only over TLS and not readable by scripts.
\<close>

theorem login_route_sound:
  assumes "credentials_inv d"
    and "complete_login_challenge_route i rq (Some (sql_device_service known octets hmac secret sha256)) payload d =
      (Inr (body, ck), d')"
  shows "\<exists>origin nonce sg c v acct p m x. rq_app_origin rq = Some origin \<and> rq_origin rq = Some origin \<and>
    decode_base64url 64 (cp_nonce payload) = Inr nonce \<and> decode_signature (cp_signature payload) = Inr sg \<and>
    ch_get_by_id (cp_account_id payload) (cp_challenge_id payload) d = Some c \<and> ch_origin c = origin \<and>
    in_clock i 0 < ch_expires_at c \<and> ch_nonce_hash c = in_sha256 i nonce \<and>
    v \<in> set (devices d) \<and> dv_id v = ch_device_id c \<and> dv_user_id v = cp_account_id payload \<and> dv_status v = Active \<and>
    challenge_payload c acct v nonce = Inr p \<and> signed_message p = Inr m \<and>
    verify_p1363_signature (in_crypto i) (dv_signing_public_key_spki v) sg m \<and>
    x \<in> set (app_sessions d') \<and> se_user_id x = cp_account_id payload \<and> se_device_id x = dv_id v \<and>
    se_token_hash x = in_sha256 i (ck_value ck) \<and> ck_key ck = lit ''__Host-session'' \<and> ck_secure ck \<and> ck_httponly ck"
proof -
  from assms(2) obtain origin nonce sg r where r: "rq_app_origin rq = Some origin" "rq_origin rq = Some origin"
    "decode_base64url 64 (cp_nonce payload) = Inr nonce" "decode_signature (cp_signature payload) = Inr sg"
    "complete_login_challenge i (sql_device_service known octets hmac secret sha256) (cp_account_id payload)
       (cp_challenge_id payload) nonce sg origin d = (Inr r, d')"
    "ck = set_session_cookie (sx_token (cs_secrets (ar_session r)))"
    by (rule login_route_steps)
  have ck: "ck_value ck = sx_token (cs_secrets (ar_session r))" "ck_key ck = lit ''__Host-session''" "ck_secure ck" "ck_httponly ck"
    by (simp_all add: r(6) set_session_cookie_def SESSION_COOKIE_NAME_def)
  have get: "da_get_challenge (sql_device_service known octets hmac secret sha256) = ch_get_by_id"
    by (simp add: sql_device_service_def)
  show ?thesis
    using sqld.login_sound [OF assms(1) r(5), unfolded get] r(1-4) ck(2-4) unfolding ck(1) [symmetric] by metis
qed

definition login_request :: "db request" where
  "login_request = sample_request\<lparr>rq_origin := Some (lit ''https://a''), rq_app_origin := Some (lit ''https://a'')\<rparr>"

definition login_body :: challenge_complete_request where
  "login_body = \<lparr>cp_account_id = 1, cp_challenge_id = 30, cp_nonce = encode_base64url (replicate 32 7),
     cp_signature = encode_base64url login_signature\<rparr>"

theorem login_route_sound_witness:
  "\<exists>body ck d' x. complete_login_challenge_route sample_inputs login_request (Some sample_device_service) login_body login_db =
       (Inr (body, ck), d') \<and>
     x \<in> set (app_sessions d') \<and> se_user_id x = 1 \<and> se_token_hash x = sample_sha (ck_value ck)"
proof -
  let ?r = "complete_login_challenge_route sample_inputs login_request (Some sample_device_service) login_body login_db"
  have dec: "decode_base64url 64 (cp_nonce login_body) = Inr (replicate 32 7)"
    "decode_signature (cp_signature login_body) = Inr login_signature"
    by code_simp+
  obtain x d' where "complete_login_challenge sample_inputs sample_device_service 1 30 (replicate 32 7) login_signature
      (lit ''https://a'') login_db = (Inr x, d')"
    by (rule sample_login)
  with dec obtain body ck where r: "?r = (Inr (body, ck), d')"
    by (simp add: complete_login_challenge_route_def from_origin_def require_exact_origin_def request_origin_is_allowed_def
        configured_settings_def login_request_def route_defs catching_def answering_def given_def login_body_def)
  have "in_sha256 sample_inputs = sample_sha" "cp_account_id login_body = 1"
    by (simp_all add: sample_inputs_def tag_crypto_def login_body_def)
  then show ?thesis using login_route_sound [OF sample_credentials(1) r] r by metis
qed

text \<open>
  C12.  Logging out is final.  When the logout route answers on the database, the response clears the
  cookie, the request carried the cookie of a stored session, no socket of the session's device is
  left, and that cookie never authenticates again, whatever statements on sessions and devices
  follow: also when the device is enrolled or logs in again.
\<close>

theorem logout_route_final:
  assumes "session_inv d" and "rq_session rq = None" and "rq_session_repository rq = Some sql_sessions"
    and "conns_ok (pm_connections m)"
    and "logout rq (Some (\<lambda>clk. logout_with_sessions (clk 0))) (Some lookup) sha256 clk (m, d) = (Inr (body, ck), m', d')"
    and "trust_step\<^sup>*\<^sup>* d' d''"
  shows "\<exists>cookie y. rq_cookie rq = Some cookie \<and> y \<in> set (app_sessions d) \<and> se_token_hash y = sha256 cookie \<and>
    ck = clear_session_cookie \<and> conn_at m' (se_user_id y) (se_device_id y) = None \<and>
    authenticate sql_sessions sha256 clk' (Some cookie) d'' = (Inr None, d'')"
proof -
  from assms(5) obtain x d1 v d2 out where st: "require_session_csrf rq sha256 clk d = (Inr x, d1)"
    "logout_with_sessions (clk 3) (se_user_id x) (se_device_id x) (lit ''logout'') d1 = (Inr v, d2)"
    "v = None \<and> revoking_session rq (clk 6) x d2 = (Inr out, d') \<or> v \<noteq> None \<and> d' = d2"
    "m' = disconnect_device (lookup d') (clk 4) (clk 5) (se_user_id x) (se_device_id x) m" "ck = clear_session_cookie"
    by (rule logout_steps) simp
  from assms(1-3) st(1) obtain cookie y where y: "rq_cookie rq = Some cookie" "y \<in> set (app_sessions d)"
    "se_token_hash y = sha256 cookie" "session_evolves y x" "session_inv d1"
    "rows_evolve session_evolves (app_sessions d) (app_sessions d1)"
    by (rule guarded_session)
  obtain y1 where y1: "y1 \<in> set (app_sessions d1)" "session_evolves y y1" using y(2,6) unfolding rows_evolve_def by blast
  have same: "se_user_id x = se_user_id y1" "se_device_id x = se_device_id y1" "se_id x = se_id y1"
    "se_user_id x = se_user_id y" "se_device_id x = se_device_id y"
    using y(4) y1(2) by (simp_all add: session_evolves_def)
  obtain z where z: "session_inv d'" "z \<in> set (app_sessions d')" "session_evolves y1 z" "se_revoked_at z \<noteq> None"
    using logout_revokes [OF y(5) y1(1) assms(3) same(1-3) st(2,3)] by blast
  have "se_token_hash z = sha256 cookie" using z(3) y1(2) y(3) by (simp add: session_evolves_def)
  note rejected = ended_cookie_rejected [of d' d'' z sha256 cookie, OF z(1) assms(6) z(2,4) this]
  have "conn_at m' (se_user_id y) (se_device_id y) = None"
    using disconnected_gone [OF assms(4)] unfolding st(4) same(4,5) by simp
  then show ?thesis using y(1-3) st(5) rejected by blast
qed

lemma sample_logout_facts:
  "rq_session sample_request = None" "rq_session_repository sample_request = Some sql_sessions"
  "conns_ok (pm_connections empty_manager)"
  by (simp_all add: sample_request_def empty_manager_def)

abbreviation db_lookup :: "db \<Rightarrow> device_lookup option" where
  "db_lookup d \<equiv> Some (\<lambda>a v. dev_get_by_id a v d)"

theorem logout_route_final_witness:
  "\<exists>body ck m' d'. logout sample_request (Some (\<lambda>clk. logout_with_sessions (clk 0))) (Some db_lookup) id (\<lambda>_. 9)
       (empty_manager, device_db) = (Inr (body, ck), m', d') \<and>
     authenticate sql_sessions id (\<lambda>_. 9) (Some (replicate 32 1)) d' = (Inr None, d')"
proof -
  let ?r = "logout sample_request (Some (\<lambda>clk. logout_with_sessions (clk 0))) (Some db_lookup) id (\<lambda>_. 9)
    (empty_manager, device_db)"
  have "\<not> isl (fst ?r)" by code_simp
  then obtain out m' d' where "?r = (Inr out, m', d')" by (metis prod.collapse sum.collapse(2))
  then obtain body ck where r: "?r = (Inr (body, ck), m', d')" by (cases out) simp
  have "rq_cookie sample_request = Some (replicate 32 1)" by (simp add: sample_request_def)
  then show ?thesis
    using logout_route_final [OF device_db_inv(2) sample_logout_facts r rtranclp.rtrancl_refl, of "\<lambda>_. 9"] r by auto
qed

text \<open>
  C14.  A trusted device can end another one, and only within its account.  When the device logout route
  answers on the database, the request was an authenticated write of a stored session; the device
  belongs to that session's account; no socket of the device is left; and no session the device had
  is found again under its identifier or its token, whatever statements follow.  The cookie is
  cleared exactly when the device is the caller's own.
\<close>

theorem device_logout_confined:
  assumes "session_inv d" and "rq_session rq = None" and "rq_session_repository rq = Some sql_sessions"
    and "conns_ok (pm_connections m)"
    and "logout_device_route rq (Some (sql_device_service known octets hmac secret sha256)) (Some lookup) sha clk i (m, d) =
      (Inr (body, ck), m', d')"
    and "trust_step\<^sup>*\<^sup>* d' d''"
  shows "\<exists>cookie csrf y v. rq_cookie rq = Some cookie \<and> y \<in> set (app_sessions d) \<and> se_token_hash y = sha cookie \<and>
    session_usable (clk 0) y \<and> rq_csrf_token rq = Some csrf \<and> sha csrf = se_csrf_hash y \<and>
    v \<in> set (devices d) \<and> dv_id v = i \<and> dv_user_id v = se_user_id y \<and>
    (ck \<noteq> None) = (i = se_device_id y) \<and> conn_at m' (se_user_id y) i = None \<and>
    (\<forall>s\<in>set (app_sessions d). se_user_id s = se_user_id y \<longrightarrow> se_device_id s = i \<longrightarrow>
       find_current_by_id t (se_id s) d'' = None \<and> find_by_token_hash t (se_token_hash s) d'' = None)"
proof -
  from assms(5) obtain x d1 v where st: "require_session_csrf rq sha clk d = (Inr x, d1)"
    "logout_with_sessions (clk 3) (se_user_id x) i (lit ''logout'') d1 = (Inr (Some v), d')"
    "m' = disconnect_device (lookup d') (clk 4) (clk 5) (se_user_id x) i m"
    "ck = (if i = se_device_id x then Some clear_session_cookie else None)"
    by (rule logout_device_steps) (simp add: sql_device_service_def)
  from assms(1-3) st(1) obtain cookie csrf y where y: "rq_cookie rq = Some cookie" "y \<in> set (app_sessions d)"
    "se_token_hash y = sha cookie" "session_usable (clk 0) y" "rq_csrf_token rq = Some csrf" "sha csrf = se_csrf_hash y"
    "session_evolves y x" "session_inv d1" "rows_evolve session_evolves (app_sessions d) (app_sessions d1)" "devices d1 = devices d"
    by (rule guarded_session)
  have same: "se_user_id x = se_user_id y" "se_device_id x = se_device_id y" using y(7) by (simp_all add: session_evolves_def)
  note res = end_device_result [OF st(2) [unfolded logout_with_sessions_def] device_updates_evolve(2)]
  then have inv: "session_inv d'" using y(8) by (simp add: trust_evolves_def)
  have lost: "find_current_by_id t (se_id s) d'' = None \<and> find_by_token_hash t (se_token_hash s) d'' = None"
    if s: "s \<in> set (app_sessions d)" "se_user_id s = se_user_id y" "se_device_id s = i" for s
  proof -
    obtain s1 where s1: "s1 \<in> set (app_sessions d1)" "session_evolves s s1" using s(1) y(9) unfolding rows_evolve_def by blast
    then have "se_user_id s1 = se_user_id x" "se_device_id s1 = i" using s(2,3) same by (simp_all add: session_evolves_def)
    with logout_ends [OF y(8) st(2) s1(1)] obtain s2 where s2: "s2 \<in> set (app_sessions d')" "session_evolves s1 s2" "se_revoked_at s2 \<noteq> None"
      by blast
    then have "se_id s2 = se_id s" "se_token_hash s2 = se_token_hash s" using s1(2) by (simp_all add: session_evolves_def)
    then show ?thesis using ended_sessions_lost [OF inv assms(6) s2(1,3), of t] by simp
  qed
  have gone: "conn_at m' (se_user_id y) i = None" using disconnected_gone [OF assms(4)] unfolding st(3) same(1) by simp
  from res obtain w where w: "w \<in> set (devices d)" "dv_id w = i" "dv_user_id w = se_user_id y" unfolding y(10) same(1) by blast
  have "(ck \<noteq> None) = (i = se_device_id y)" by (simp add: st(4) same(2))
  then show ?thesis using y(1-6) w gone lost by blast
qed

text \<open>The guard and the statement behind it, evaluated.\<close>

lemma sample_guard:
  obtains x d1 where "require_session_csrf sample_request id (\<lambda>_. 9) device_db = (Inr x, d1)" and "se_user_id x = 1"
    and "\<exists>v d2. logout_with_sessions 9 1 11 (lit ''logout'') d1 = (Inr (Some v), d2)"
proof -
  let ?r = "require_session_csrf sample_request id (\<lambda>_. 9) device_db"
  have ok: "\<not> isl (fst ?r)" "se_user_id (projr (fst ?r)) = 1" by code_simp+
  let ?l = "logout_with_sessions 9 1 11 (lit ''logout'') (snd ?r)"
  have "\<not> isl (fst ?l)" "projr (fst ?l) \<noteq> None" by code_simp+
  then have "\<exists>v d2. ?l = (Inr (Some v), d2)" by (metis option.exhaust prod.collapse sum.collapse(2))
  with ok show thesis using that by (metis prod.collapse sum.collapse(2))
qed

theorem device_logout_confined_witness:
  "\<exists>body ck m' d' v. logout_device_route sample_request (Some sample_device_service) (Some db_lookup) id (\<lambda>_. 9) 11
       (empty_manager, device_db) = (Inr (body, ck), m', d') \<and>
     v \<in> set (devices device_db) \<and> dv_id v = 11 \<and> dv_user_id v = 1 \<and> conn_at m' 1 11 = None"
proof -
  let ?r = "logout_device_route sample_request (Some sample_device_service) (Some db_lookup) id (\<lambda>_. 9) 11
    (empty_manager, device_db)"
  obtain x d1 where g: "require_session_csrf sample_request id (\<lambda>_. 9) device_db = (Inr x, d1)" and x: "se_user_id x = 1"
    and l: "\<exists>v d2. logout_with_sessions 9 1 11 (lit ''logout'') d1 = (Inr (Some v), d2)"
    by (rule sample_guard)
  then obtain v d' where "logout_with_sessions 9 1 11 (lit ''logout'') d1 = (Inr (Some v), d')" by blast
  with g x obtain body ck m' where r: "?r = (Inr (body, ck), m', d')"
    by (simp add: logout_device_route_def sql_device_service_def)
  from device_logout_confined [where t = 9, OF device_db_inv(2) sample_logout_facts r rtranclp.rtrancl_refl]
  obtain y v where y: "y \<in> set (app_sessions device_db)" "v \<in> set (devices device_db)" "dv_id v = 11"
    "dv_user_id v = se_user_id y" "conn_at m' (se_user_id y) 11 = None" by blast
  have "se_user_id y = 1" using y(1) by (simp add: device_db_def session_db_def sample_session_def new_session_def)
  then show ?thesis using y r by auto
qed

end
