(* ===== verification/Turn.thy ===== *)
theory Turn
  imports DeviceRoutes
begin

text \<open>
  \<open>app/turn.py\<close>: the credentials of the TURN relay, for a party of one of the account's transfers.
  \<open>'s\<close> is the state of the repositories, \<open>'w\<close> that of the provider.  The service counts in the metrics
  \<open>main.py\<close> gives it, which are those of the presence manager.
\<close>

section \<open>The service\<close>

definition TURN_CREDENTIAL_TTL_SECONDS :: int where "TURN_CREDENTIAL_TTL_SECONDS = 5 * 60"
definition TURN_CREDENTIAL_ISSUE_WINDOW :: int where "TURN_CREDENTIAL_ISSUE_WINDOW = minutes 10"
definition TURN_CREDENTIAL_ACCOUNT_LIMIT :: int where "TURN_CREDENTIAL_ACCOUNT_LIMIT = 20"
definition TURN_CREDENTIAL_DEVICE_LIMIT :: int where "TURN_CREDENTIAL_DEVICE_LIMIT = 10"
definition TURN_CREDENTIAL_TRANSFER_LIMIT :: int where "TURN_CREDENTIAL_TRANSFER_LIMIT = 6"
definition TURN_CREDENTIAL_NETWORK_LIMIT :: int where "TURN_CREDENTIAL_NETWORK_LIMIT = 30"

definition TURN_CREDENTIAL_ELIGIBLE_STATUSES :: "transfer_status list" where
  "TURN_CREDENTIAL_ELIGIBLE_STATUSES = TRANSFER_ACTIVE_STATUSES"

definition turn_network_identifier :: "pystr \<Rightarrow> pystr" where
  "turn_network_identifier value =
     (let normalized = take 256 (py_strip value) in if normalized = [] then lit ''unknown'' else normalized)"

record ('s, 'w) turn_service =
  tn_provider :: "'w turn_provider"
  tn_transfers :: "'s transfer_service"
  tn_devices :: "uuid \<Rightarrow> uuid \<Rightarrow> 's \<Rightarrow> device option"
  tn_limiter :: "'s limiter"

definition transfer_is_eligible :: "transfer_request \<Rightarrow> instant \<Rightarrow> uuid \<Rightarrow> bool" where
  "transfer_is_eligible transfer current device_id \<longleftrightarrow>
     tr_status transfer \<in> set TURN_CREDENTIAL_ELIGIBLE_STATUSES \<and> tr_expires_at transfer > current \<and>
     device_id \<in> {tr_sender_device_id transfer, tr_recipient_device_id transfer}"

definition device_is_eligible :: "device option \<Rightarrow> session \<Rightarrow> bool" where
  "device_is_eligible device session =
     (case device of
        None \<Rightarrow> False
      | Some v \<Rightarrow> dv_user_id v = se_user_id session \<and> dv_id v = se_device_id session \<and> dv_status v = Active \<and>
          dv_epoch v = se_epoch session)"

definition peer_is_eligible :: "device option \<Rightarrow> device option \<Rightarrow> bool" where
  "peer_is_eligible peer actor =
     (case (peer, actor) of
        (Some p, Some v) \<Rightarrow> dv_user_id p = dv_user_id v \<and> dv_status p = Active \<and> dv_epoch p = dv_epoch v
      | _ \<Rightarrow> False)"

definition turn_peer :: "transfer_request \<Rightarrow> uuid \<Rightarrow> uuid" where
  "turn_peer transfer device_id =
     (if tr_sender_device_id transfer = device_id then tr_recipient_device_id transfer else tr_sender_device_id transfer)"

definition turn_requests :: "session \<Rightarrow> transfer_request \<Rightarrow> pystr \<Rightarrow> (pystr \<times> pystr \<times> int \<times> int) list" where
  "turn_requests session transfer network =
     [(lit ''turn:credential:account'', uuid_str (se_user_id session), TURN_CREDENTIAL_ACCOUNT_LIMIT, TURN_CREDENTIAL_ISSUE_WINDOW),
      (lit ''turn:credential:device'', uuid_str (se_device_id session), TURN_CREDENTIAL_DEVICE_LIMIT, TURN_CREDENTIAL_ISSUE_WINDOW),
      (lit ''turn:credential:transfer'', uuid_str (tr_id transfer), TURN_CREDENTIAL_TRANSFER_LIMIT, TURN_CREDENTIAL_ISSUE_WINDOW),
      (lit ''turn:credential:network'', turn_network_identifier network, TURN_CREDENTIAL_NETWORK_LIMIT, TURN_CREDENTIAL_ISSUE_WINDOW)]"

definition turn_request :: "session \<Rightarrow> transfer_request \<Rightarrow> turn_credential_request" where
  "turn_request session transfer =
     \<lparr>tq_account_id = uuid_str (se_user_id session), tq_device_id = uuid_str (se_device_id session),
      tq_transfer_id = uuid_str (tr_id transfer), tq_ttl_seconds = TURN_CREDENTIAL_TTL_SECONDS\<rparr>"

definition turn_issue ::
    "('s, 'w) turn_service \<Rightarrow> instant \<Rightarrow> readings \<Rightarrow> session \<Rightarrow> uuid \<Rightarrow> pystr \<Rightarrow> manager \<times> 's \<times> 'w \<Rightarrow>
     turn_credentials res \<times> manager \<times> 's \<times> 'w" where
  "turn_issue sv current rd session transfer_id network = (\<lambda>(m, s, w).
     case service_get (tn_transfers sv) rd (se_user_id session) transfer_id (m, s) of
       (Inl e, m1, s1) \<Rightarrow>
         if is_TransferError e then (Inl TurnAuthorizationError, pm_count ''turn_credential_denied'' m1, s1, w)
         else (Inl e, m1, s1, w)
     | (Inr transfer, m1, s1) \<Rightarrow>
         if \<not> transfer_is_eligible transfer current (se_device_id session)
         then (Inl TurnAuthorizationError, pm_count ''turn_credential_denied'' m1, s1, w)
         else let actor = tn_devices sv (se_user_id session) (se_device_id session) s1;
                  peer = tn_devices sv (se_user_id session) (turn_peer transfer (se_device_id session)) s1
              in if \<not> device_is_eligible actor session \<or> \<not> peer_is_eligible peer actor
                 then (Inl TurnAuthorizationError, pm_count ''turn_credential_denied'' m1, s1, w)
                 else case tn_limiter sv current (turn_requests session transfer network) s1 of
                        (Inl e, s2) \<Rightarrow> (Inl e, m1, s2, w)
                      | (Inr False, s2) \<Rightarrow>
                          (Inl TurnCredentialRateLimitedError, pm_count ''turn_credential_rate_limited'' m1, s2, w)
                      | (Inr True, s2) \<Rightarrow>
                          (case tn_provider sv (turn_request session transfer) w of
                             (Inl e, w') \<Rightarrow>
                               if e = TurnCredentialProviderError
                               then (Inl TurnProviderUnavailableError, pm_count ''turn_provider_failed'' m1, s2, w')
                               else (Inl e, m1, s2, w')
                           | (Inr credentials, w') \<Rightarrow>
                               (Inr credentials, pm_count ''turn_credential_issued'' m1, s2, w')))"

section \<open>The route\<close>

definition public_turn_credentials :: "turn_credentials \<Rightarrow> pyval" where
  "public_turn_credentials credentials =
     PyDict [(lit ''ice_servers'', PyList [PyDict
                [(lit ''urls'', PyList (map PyStr (tu_urls credentials))),
                 (lit ''username'', PyStr (tu_username credentials)),
                 (lit ''credential'', PyStr (tu_credential credentials))]]),
             (lit ''expires_at'', PyInt (tu_expires_at credentials))]"

definition turn_error :: "exc \<Rightarrow> exc" where
  "turn_error e =
     (if e = TurnCredentialRateLimitedError then HTTPException 429
      else if e = TurnAuthorizationError then HTTPException 409
      else if e = TurnProviderUnavailableError then HTTPException 503
      else e)"

definition issue_turn_credentials ::
    "'s request \<Rightarrow> pystr option \<Rightarrow> ('s, 'w) turn_service option \<Rightarrow> (bytes \<Rightarrow> bytes) \<Rightarrow> clock \<Rightarrow> readings \<Rightarrow> uuid \<Rightarrow>
     manager \<times> 's \<times> 'w \<Rightarrow> pyval res \<times> manager \<times> 's \<times> 'w" where
  "issue_turn_credentials rq host service sha256 clk rd transfer_id = (\<lambda>(m, s, w).
     case require_session_csrf rq sha256 clk s of
       (Inl e, s1) \<Rightarrow> (Inl e, m, s1, w)
     | (Inr session, s1) \<Rightarrow>
         answering (\<lambda>c. Inr (public_turn_credentials c)) (catching turn_error
           (case service of
              None \<Rightarrow> (Inl RuntimeError, m, s1, w)
            | Some sv \<Rightarrow> turn_issue sv (clk 3) rd session transfer_id (network_identifier host) (m, s1, w))))"

section \<open>What an issued credential implies\<close>

lemma turn_issue_steps:
  assumes "turn_issue sv current rd session t network (m, s, w) = (Inr c, m', s', w')"
  obtains r m1 s1 v p where "service_get (tn_transfers sv) rd (se_user_id session) t (m, s) = (Inr r, m1, s1)"
    and "transfer_is_eligible r current (se_device_id session)"
    and "tn_devices sv (se_user_id session) (se_device_id session) s1 = Some v"
    and "tn_devices sv (se_user_id session) (turn_peer r (se_device_id session)) s1 = Some p"
    and "device_is_eligible (Some v) session" and "peer_is_eligible (Some p) (Some v)"
    and "tn_limiter sv current (turn_requests session r network) s1 = (Inr True, s')"
    and "tn_provider sv (turn_request session r) w = (Inr c, w')"
proof -
  have "\<not> device_is_eligible None session" "\<not> peer_is_eligible None x" for x
    by (simp_all add: device_is_eligible_def peer_is_eligible_def)
  then show thesis using assms that
    by (auto simp: turn_issue_def Let_def split: prod.splits sum.splits if_splits bool.splits)
       (metis not_None_eq)+
qed

lemma turn_route_steps:
  assumes "issue_turn_credentials rq host (Some sv) sha256 clk rd t (m, s, w) = (Inr response, m', s', w')"
  obtains x s1 c where "require_session_csrf rq sha256 clk s = (Inr x, s1)"
    and "turn_issue sv (clk 3) rd x t (network_identifier host) (m, s1, w) = (Inr c, m', s', w')"
    and "response = public_turn_credentials c"
  using assms by (auto simp: issue_turn_credentials_def answering_Inr split: prod.splits sum.splits)

lemma dev_get_by_id_SomeD:
  "dev_get_by_id a i d = Some v \<Longrightarrow> v \<in> set (devices d) \<and> dv_user_id v = a \<and> dv_id v = i"
  by (auto simp: dev_get_by_id_def sql_select_def dest!: first_row_SomeD)

section \<open>Properties\<close>

text \<open>
  C24.  Relay credentials are issued only to a party of a live transfer.  When the route answers on the
  database, the request was an authenticated write of a stored, usable session; the transfer belongs
  to the session's account, is active and not expired, and the session's device is one of its two
  parties; both parties are active devices of the account and of the session's epoch; the limiter
  admitted the request; and what the response holds is what the provider gave for five minutes under
  exactly this account, device and transfer.
\<close>

theorem turn_credentials_authorized:
  assumes "session_inv d" and "sql_inv d" and "rq_session rq = None" and "rq_session_repository rq = Some sql_sessions"
    and "sv_repository (tn_transfers sv) = sql_port" and "tn_devices sv = dev_get_by_id"
    and "tn_limiter sv = persistent_allow_many hmac secret"
    and "issue_turn_credentials rq host (Some sv) sha256 clk rd t (m, d, w) = (Inr response, m', d', w')"
  shows "\<exists>cookie csrf y r v p c d1. rq_cookie rq = Some cookie \<and> y \<in> set (app_sessions d) \<and> se_token_hash y = sha256 cookie \<and>
    session_usable (clk 0) y \<and> rq_csrf_token rq = Some csrf \<and> sha256 csrf = se_csrf_hash y \<and>
    r \<in> set (transfer_requests d') \<and> tr_id r = t \<and> tr_user_id r = se_user_id y \<and>
    tr_status r \<in> set ACTIVE_STATUSES \<and> clk 3 < tr_expires_at r \<and>
    se_device_id y \<in> {tr_sender_device_id r, tr_recipient_device_id r} \<and>
    v \<in> set (devices d') \<and> dv_id v = se_device_id y \<and> p \<in> set (devices d') \<and> dv_id p = turn_peer r (se_device_id y) \<and>
    dv_user_id v = se_user_id y \<and> dv_user_id p = se_user_id y \<and> dv_status v = Active \<and> dv_status p = Active \<and>
    dv_epoch v = se_epoch y \<and> dv_epoch p = se_epoch y \<and>
    persistent_allow_many hmac secret (clk 3) (turn_requests y r (network_identifier host)) d1 = (Inr True, d') \<and>
    tn_provider sv \<lparr>tq_account_id = uuid_str (se_user_id y), tq_device_id = uuid_str (se_device_id y),
      tq_transfer_id = uuid_str t, tq_ttl_seconds = 300\<rparr> w = (Inr c, w') \<and> response = public_turn_credentials c"
proof -
  from assms(8) obtain x d1 c where st: "require_session_csrf rq sha256 clk d = (Inr x, d1)"
    "turn_issue sv (clk 3) rd x t (network_identifier host) (m, d1, w) = (Inr c, m', d', w')"
    "response = public_turn_credentials c"
    by (rule turn_route_steps)
  from assms(1,3,4) st(1) obtain cookie csrf y where y: "rq_cookie rq = Some cookie" "y \<in> set (app_sessions d)"
    "se_token_hash y = sha256 cookie" "session_usable (clk 0) y" "rq_csrf_token rq = Some csrf" "sha256 csrf = se_csrf_hash y"
    "session_evolves y x"
    by (rule guarded_session)
  have x: "se_user_id x = se_user_id y" "se_device_id x = se_device_id y" "se_epoch x = se_epoch y"
    using y(7) by (simp_all add: session_evolves_def)
  from st(2) obtain r m1 d2 v p where i: "service_get (tn_transfers sv) rd (se_user_id x) t (m, d1) = (Inr r, m1, d2)"
    "transfer_is_eligible r (clk 3) (se_device_id x)" "tn_devices sv (se_user_id x) (se_device_id x) d2 = Some v"
    "tn_devices sv (se_user_id x) (turn_peer r (se_device_id x)) d2 = Some p" "device_is_eligible (Some v) x"
    "peer_is_eligible (Some p) (Some v)" "tn_limiter sv (clk 3) (turn_requests x r (network_identifier host)) d2 = (Inr True, d')"
    "tn_provider sv (turn_request x r) w = (Inr c, w')"
    by (rule turn_issue_steps)
  have inv: "sql_inv d1" using assms(2) require_session_csrf_tables [OF st(1) assms(4)] by (simp add: sql_inv_def)
  have get: "current_or_expire (tn_transfers sv) rd (se_user_id x) t (m, d1) = (Inr (Some r), m1, d2)"
    using i(1) by (auto simp: service_get_def split: prod.splits sum.splits option.splits)
  from i(7) [unfolded assms(7)] obtain bs where "d' = d2\<lparr>rate_limit_buckets := bs\<rparr>" by (rule persistent_allow_many_tables)
  then have same: "transfer_requests d' = transfer_requests d2" "devices d' = devices d2" by simp_all
  have r: "r \<in> set (transfer_requests d2)" "tr_user_id r = se_user_id x" "tr_id r = t"
    using sqlr.current_kept(2) [OF assms(5) inv get refl] by simp_all
  note dv = dev_get_by_id_SomeD [OF i(3) [unfolded assms(6)]] dev_get_by_id_SomeD [OF i(4) [unfolded assms(6)]]
  have el: "tr_status r \<in> set ACTIVE_STATUSES" "clk 3 < tr_expires_at r" "se_device_id x \<in> {tr_sender_device_id r, tr_recipient_device_id r}"
    using i(2) by (simp_all add: transfer_is_eligible_def TURN_CREDENTIAL_ELIGIBLE_STATUSES_def active_statuses_eq)
  have dev: "dv_status v = Active" "dv_status p = Active" "dv_epoch v = se_epoch x" "dv_epoch p = se_epoch x"
    using i(5,6) by (simp_all add: device_is_eligible_def peer_is_eligible_def)
  have rqs: "turn_requests x r (network_identifier host) = turn_requests y r (network_identifier host)"
    by (simp add: turn_requests_def x)
  have tq: "turn_request x r = \<lparr>tq_account_id = uuid_str (se_user_id y), tq_device_id = uuid_str (se_device_id y),
      tq_transfer_id = uuid_str t, tq_ttl_seconds = 300\<rparr>"
    by (simp add: turn_request_def TURN_CREDENTIAL_TTL_SECONDS_def x r(3))
  show ?thesis
    using y(1-6) r el dv dev i(7) [unfolded assms(7) rqs] i(8) [unfolded tq] st(3) unfolding x same by blast
qed

definition sample_turn_service :: "(db, turn_credential_request list) turn_service" where
  "sample_turn_service = \<lparr>tn_provider = fake_issue_credentials sample_sha, tn_transfers = sample_service,
     tn_devices = dev_get_by_id, tn_limiter = persistent_allow_many toy_hmac [1]\<rparr>"

theorem turn_credentials_authorized_witness:
  "\<exists>response m' d' w' r. issue_turn_credentials sample_request None (Some sample_turn_service) id (\<lambda>_. 9) (at_time 9) 7
       (empty_manager, session_db [sample_session], []) = (Inr response, m', d', w') \<and>
     r \<in> set (transfer_requests d') \<and> tr_id r = 7 \<and> tr_status r \<in> set ACTIVE_STATUSES"
proof -
  let ?r = "issue_turn_credentials sample_request None (Some sample_turn_service) id (\<lambda>_. 9) (at_time 9) 7
    (empty_manager, session_db [sample_session], [])"
  have "\<not> isl (fst ?r)" by code_simp
  then obtain response m' d' w' where r: "?r = (Inr response, m', d', w')" by (metis prod.collapse sum.collapse(2))
  have inv: "session_inv (session_db [sample_session])" "sql_inv (session_db [sample_session])" by code_simp+
  have sv: "rq_session sample_request = None" "rq_session_repository sample_request = Some sql_sessions"
    "sv_repository (tn_transfers sample_turn_service) = sql_port" "tn_devices sample_turn_service = dev_get_by_id"
    "tn_limiter sample_turn_service = persistent_allow_many toy_hmac [1]"
    by (simp_all add: sample_request_def sample_turn_service_def sample_service_def)
  from turn_credentials_authorized [OF inv sv r] show ?thesis using r by blast
qed

end
