(* ===== verification/HttpBoundary.thy ===== *)
theory HttpBoundary
  imports EmailAuth Presence DeviceCrypto
begin

text \<open>
  The outermost layer of the HTTP application: the middlewares of \<open>app/security.py\<close>, the operator
  endpoints of \<open>app/operator_metrics.py\<close> and \<open>app/availability\<close>, the connection state of
  \<open>app/database.py\<close>, and the exception handlers and the health route of \<open>app/main.py\<close>.  Header values
  are texts of Latin-1 characters, as Starlette decodes them.
\<close>

section \<open>Request bodies\<close>




definition MAX_HTTP_REQUEST_BYTES :: int where "MAX_HTTP_REQUEST_BYTES = 64 * 1024"










definition new_body_limit :: "int \<Rightarrow> int res" where
  "new_body_limit max_body_bytes = (if max_body_bytes \<le> 0 then Inl ValueError else Inr max_body_bytes)"

section \<open>Cross-origin requests\<close>

text \<open>\<open>str.upper\<close> on Latin-1 text.\<close>

definition latin1_upper :: "nat \<Rightarrow> pystr" where
  "latin1_upper c =
     (if 97 \<le> c \<and> c \<le> 122 \<or> 224 \<le> c \<and> c \<le> 254 \<and> c \<noteq> 247 then [c - 32]
      else if c = 223 then [83, 83] else if c = 181 then [924] else if c = 255 then [376] else [c])"

record browser_request =
  br_method :: pystr
  br_origin :: "pystr option"
  br_requested_method :: "pystr option"

record http_response =
  hr_status :: nat
  hr_headers :: "(pystr, pystr) dict"

definition ALLOWED_METHODS :: pystr where "ALLOWED_METHODS = lit ''GET, POST, OPTIONS''"

definition ALLOWED_HEADERS :: pystr where "ALLOWED_HEADERS = lit ''Content-Type, X-CSRF-Token''"

definition add_cors_headers :: "pystr \<Rightarrow> http_response \<Rightarrow> http_response" where
  "add_cors_headers allowed_origin response =
     response\<lparr>hr_headers := fold (\<lambda>(k, v). dict_set (lit k) v)
       [(''access-control-allow-origin'', allowed_origin), (''access-control-allow-credentials'', lit ''true''),
        (''access-control-allow-methods'', ALLOWED_METHODS), (''access-control-allow-headers'', ALLOWED_HEADERS),
        (''vary'', lit ''Origin'')] (hr_headers response)\<rparr>"

text \<open>
  \<open>dispatch\<close>, with \<open>call_next\<close> the rest of the application.  Starlette keeps header names in lower case.
\<close>

definition cors_dispatch ::
    "pystr option \<Rightarrow> ('s \<Rightarrow> http_response \<times> 's) \<Rightarrow> browser_request \<Rightarrow> 's \<Rightarrow> http_response \<times> 's" where
  "cors_dispatch app_origin call_next rq s =
     (case app_origin of
        None \<Rightarrow> call_next s
      | Some configured \<Rightarrow>
          let allowed = (br_origin rq = Some configured)
          in case (if br_method rq = lit ''OPTIONS'' then br_requested_method rq else None) of
               Some requested \<Rightarrow>
                 if \<not> allowed \<or> concat (map latin1_upper requested) \<notin> {lit ''GET'', lit ''POST''}
                 then (\<lparr>hr_status = 400, hr_headers = []\<rparr>, s)
                 else (add_cors_headers configured \<lparr>hr_status = 204, hr_headers = []\<rparr>, s)
             | None \<Rightarrow>
                 (case call_next s of (response, s') \<Rightarrow>
                    (if allowed then add_cors_headers configured response else response, s')))"

section \<open>The operator endpoints\<close>

text \<open>\<open>text.partition(" ")\<close>.\<close>

definition partition_blank :: "pystr \<Rightarrow> pystr \<times> pystr \<times> pystr" where
  "partition_blank text =
     (let before = takeWhile (\<lambda>c. c \<noteq> 32) text
      in if length before = length text then (text, [], []) else (before, [32], drop (Suc (length before)) text))"

definition supplied_bearer_token :: "(pystr \<Rightarrow> pystr) \<Rightarrow> pystr list \<Rightarrow> pystr option" where
  "supplied_bearer_token casefold authorizations =
     (case authorizations of
        [authorization] \<Rightarrow>
          (case partition_blank authorization of (scheme, separator, token) \<Rightarrow>
             if casefold scheme \<noteq> lit ''bearer'' \<or> separator = [] \<or> token = [] \<or> 32 \<in> set token then None
             else Some token)
      | _ \<Rightarrow> None)"

definition tokens_match :: "pystr option \<Rightarrow> pystr option \<Rightarrow> bool" where
  "tokens_match expected supplied =
     (case (expected, supplied) of
        (Some e, Some s) \<Rightarrow>
          (case (encode_utf8 e, encode_utf8 s) of (Inr e', Inr s') \<Rightarrow> e' = s' | _ \<Rightarrow> False)
      | _ \<Rightarrow> False)"

definition require_operator_auth :: "(pystr \<Rightarrow> pystr) \<Rightarrow> pystr option \<Rightarrow> pystr list \<Rightarrow> unit res" where
  "require_operator_auth casefold operator_token authorizations =
     (if \<not> tokens_match operator_token (supplied_bearer_token casefold authorizations)
      then Inl (HTTPException 401) else Inr ())"

definition resource_metrics ::
    "(pystr \<Rightarrow> pystr) \<Rightarrow> pystr option \<Rightarrow> pystr list \<Rightarrow> manager option \<Rightarrow> (pystr, int) dict res" where
  "resource_metrics casefold operator_token authorizations presence =
     bind_res (require_operator_auth casefold operator_token authorizations) (\<lambda>_.
       case presence of None \<Rightarrow> Inl RuntimeError | Some m \<Rightarrow> Inr (resource_snapshot m))"

section \<open>The database connection and availability\<close>

text \<open>
  The connection pool: \<open>dp_connected\<close> whether there is one.  \<open>dr_create_pool\<close> and \<open>dr_fetch\<close> say whether
  asyncpg answers within the timeout; every failure is the same exception to the callers.
\<close>

record 'w database =
  dp_connected :: bool
  dp_world :: 'w

record 'w driver =
  dr_create_pool :: "'w \<Rightarrow> bool \<times> 'w"
  dr_fetch :: "'w \<Rightarrow> bool \<times> 'w"
  dr_close :: "'w \<Rightarrow> 'w"

definition db_connect :: "'w driver \<Rightarrow> 'w database \<Rightarrow> unit res \<times> 'w database" where
  "db_connect dr db =
     (if dp_connected db then (Inr (), db)
      else case dr_create_pool dr (dp_world db) of
             (True, w) \<Rightarrow> (Inr (), \<lparr>dp_connected = True, dp_world = w\<rparr>)
           | (False, w) \<Rightarrow> (Inl BackendUnavailableError, db\<lparr>dp_world := w\<rparr>))"

definition db_close :: "'w driver \<Rightarrow> 'w database \<Rightarrow> 'w database" where
  "db_close dr db = (if dp_connected db then \<lparr>dp_connected = False, dp_world = dr_close dr (dp_world db)\<rparr> else db)"

definition db_fetch :: "'w driver \<Rightarrow> 'w database \<Rightarrow> unit res \<times> 'w database" where
  "db_fetch dr db =
     (if \<not> dp_connected db then (Inl BackendUnavailableError, db)
      else case dr_fetch dr (dp_world db) of
             (True, w) \<Rightarrow> (Inr (), db\<lparr>dp_world := w\<rparr>)
           | (False, w) \<Rightarrow> (Inl BackendUnavailableError, db\<lparr>dp_world := w\<rparr>))"

text \<open>\<open>_database_is_available\<close>; \<open>in_time\<close> whether the check ends before its own timeout.\<close>

definition database_is_available :: "'w driver \<Rightarrow> bool \<Rightarrow> 'w database option \<Rightarrow> bool \<times> 'w database option" where
  "database_is_available dr in_time database =
     (case database of
        None \<Rightarrow> (False, None)
      | Some db \<Rightarrow>
          (case db_connect dr db of
             (Inl _, db1) \<Rightarrow> (False, Some db1)
           | (Inr _, db1) \<Rightarrow>
               (case db_fetch dr db1 of (out, db2) \<Rightarrow> (\<not> isl out \<and> in_time, Some db2))))"

definition unavailable_response :: "nat \<times> pyval" where
  "unavailable_response = (503, PyDict [(lit ''status'', PyStr (lit ''unavailable''))])"

definition wake :: "nat \<times> pyval" where
  "wake = (200, PyDict [(lit ''status'', PyStr (lit ''ok''))])"

definition readiness :: "'w driver \<Rightarrow> bool \<Rightarrow> 'w database option \<Rightarrow> (nat \<times> pyval) \<times> 'w database option" where
  "readiness dr in_time database =
     (case database_is_available dr in_time database of
        (ok, db) \<Rightarrow> (if \<not> ok then unavailable_response else (200, PyDict [(lit ''status'', PyStr (lit ''ready''))]), db))"

definition probe ::
    "(pystr \<Rightarrow> pystr) \<Rightarrow> pystr option \<Rightarrow> pystr list \<Rightarrow> 'w driver \<Rightarrow> bool \<Rightarrow> 'w database option \<Rightarrow>
     (nat \<times> pyval) res \<times> 'w database option" where
  "probe casefold operator_token authorizations dr in_time database =
     (case require_operator_auth casefold operator_token authorizations of
        Inl e \<Rightarrow> (Inl e, database)
      | Inr _ \<Rightarrow>
          (case database_is_available dr in_time database of
             (ok, db) \<Rightarrow> (Inr (if \<not> ok then unavailable_response else (200, PyDict [(lit ''status'', PyStr (lit ''ok''))])), db)))"

section \<open>Exceptions and health\<close>

text \<open>
  \<open>_backend_unavailable\<close>, installed for the failures of the provider; the driver's own exceptions are
  \<open>BackendUnavailableError\<close> in this model.  FastAPI answers an \<open>HTTPException\<close> with its status and any
  other exception with 500.
\<close>

definition backend_unavailable :: "manager \<Rightarrow> (nat \<times> pyval) \<times> manager" where
  "backend_unavailable m =
     ((503, PyDict [(lit ''detail'', PyStr (lit ''The secure transfer service is temporarily unavailable.''))]),
      pm_count ''backend_unavailable'' m)"

definition exception_status :: "exc \<Rightarrow> nat" where
  "exception_status e = (case e of HTTPException code \<Rightarrow> code | BackendUnavailableError \<Rightarrow> 503 | _ \<Rightarrow> 500)"

definition health :: "'w driver \<Rightarrow> 'w database \<Rightarrow> (nat \<times> pyval) \<times> 'w database" where
  "health dr db =
     (if dp_connected db then (wake, db)
      else case db_connect dr db of
             (Inl _, db1) \<Rightarrow> (unavailable_response, db1)
           | (Inr _, db1) \<Rightarrow> (wake, db1))"

section \<open>Buffered bodies\<close>






section \<open>Properties\<close>






text \<open>
  Preflights for the methods PATCH and DELETE of the device routes are refused from every origin, also
  the configured one.
\<close>

lemma preflight_refuses_device_methods:
  assumes "br_method rq = lit ''OPTIONS''" "br_requested_method rq = Some requested" "requested \<in> {lit ''PATCH'', lit ''DELETE''}"
  shows "cors_dispatch (Some origin) call_next rq s = (\<lparr>hr_status = 400, hr_headers = []\<rparr>, s)"
proof -
  have "concat (map latin1_upper (lit ''PATCH'')) \<notin> {lit ''GET'', lit ''POST''}"
    "concat (map latin1_upper (lit ''DELETE'')) \<notin> {lit ''GET'', lit ''POST''}"
    by code_simp+
  then show ?thesis using assms by (auto simp: cors_dispatch_def)
qed

text \<open>
  C37.  The operator endpoints are open exactly to the holder of the configured token: authorization
  succeeds if and only if the request has a single authorization header, made of a scheme that folds
  to \<open>bearer\<close>, one blank, and the configured token, which is not empty and has no blank and no
  surrogate.  Without a configured token nobody is let in.
\<close>

theorem operator_auth_exact:
  "require_operator_auth casefold expected headers = Inr u \<longleftrightarrow>
     (\<exists>scheme token. headers = [scheme @ [32] @ token] \<and> 32 \<notin> set scheme \<and> casefold scheme = lit ''bearer'' \<and>
        token \<noteq> [] \<and> 32 \<notin> set token \<and> expected = Some token \<and> \<not> list_ex surrogate token)"
proof -
  have parts: "partition_blank (scheme @ 32 # token) = (scheme, [32], token)" if "32 \<notin> set scheme" for scheme token
    using that by (simp add: partition_blank_def Let_def takeWhile_append takeWhile_eq_all_conv)
  have whole: "h = scheme @ 32 # token \<and> 32 \<notin> set scheme" if "partition_blank h = (scheme, sep, token)" "sep \<noteq> []" for h scheme sep token
  proof -
    let ?b = "takeWhile (\<lambda>c. c \<noteq> 32) h"
    have ne: "length ?b \<noteq> length h" "scheme = ?b" "token = drop (Suc (length ?b)) h"
      using that by (auto simp: partition_blank_def Let_def split: if_splits)
    have h: "?b @ dropWhile (\<lambda>c. c \<noteq> 32) h = h" by (rule takeWhile_dropWhile_id)
    have "dropWhile (\<lambda>c. c \<noteq> 32) h \<noteq> []"
    proof
      assume "dropWhile (\<lambda>c. c \<noteq> 32) h = []"
      with h have "?b = h" by simp
      with ne(1) show False by simp
    qed
    then obtain rest where "dropWhile (\<lambda>c. c \<noteq> 32) h = 32 # rest"
      using hd_dropWhile [of "\<lambda>c. c \<noteq> 32" h] by (cases "dropWhile (\<lambda>c. c \<noteq> 32) h") auto
    with h have h': "h = ?b @ 32 # rest" by simp
    have "drop (Suc (length ?b)) (?b @ 32 # rest) = rest" by simp
    with h' have "token = rest" using ne(3) by metis
    moreover have "32 \<notin> set ?b" by (auto dest: set_takeWhileD)
    ultimately show ?thesis using h' ne(2) by simp
  qed
  have supplied: "supplied_bearer_token casefold headers = Some token \<longleftrightarrow>
      (\<exists>scheme. headers = [scheme @ [32] @ token] \<and> 32 \<notin> set scheme \<and> casefold scheme = lit ''bearer'' \<and>
         token \<noteq> [] \<and> 32 \<notin> set token)" for token
    using parts whole by (fastforce simp: supplied_bearer_token_def split: list.splits prod.splits if_splits)
  have "tokens_match expected (Some token) \<longleftrightarrow> expected = Some token \<and> \<not> list_ex surrogate token" for token
    using encode_utf8_inj by (auto simp: tokens_match_def encode_utf8_def split: option.splits if_splits)
  then have "tokens_match expected x \<longleftrightarrow> (\<exists>token. x = Some token \<and> expected = Some token \<and> \<not> list_ex surrogate token)" for x
    by (cases x) (simp_all add: tokens_match_def split: option.split)
  then show ?thesis unfolding require_operator_auth_def using supplied by auto
qed

end
