(* ===== verification/Config.thy ===== *)
theory Config
  imports Adapters
begin

text \<open>
  \<open>app/config.py\<close>: the settings of the application, read from the environment.  \<open>casefold\<close> and
  \<open>upper\<close> are the methods of \<open>str\<close>, \<open>netloc_ok\<close> what \<open>urlsplit\<close> checks of the brackets and of the
  characters of a network location.
\<close>

section \<open>Parts of a URL\<close>

text \<open>\<open>urlsplit\<close> and the attributes of its result; an attribute that raises is \<open>Inl ValueError\<close>.\<close>

record split_url =
  sl_scheme :: pystr
  sl_netloc :: pystr
  sl_path :: pystr
  sl_query :: pystr
  sl_fragment :: pystr

definition cut_at :: "nat \<Rightarrow> pystr \<Rightarrow> pystr \<times> pystr" where
  "cut_at c s = (takeWhile (\<lambda>x. x \<noteq> c) s, drop (Suc (length (takeWhile (\<lambda>x. x \<noteq> c) s))) s)"

definition urlsplit :: "(pystr \<Rightarrow> bool) \<Rightarrow> pystr \<Rightarrow> split_url res" where
  "urlsplit netloc_ok url =
     (case split_scheme (urlsplit_clean url) of (scheme, rest) \<Rightarrow>
      let slashes = (take 2 rest = [47, 47]);
          netloc = (if slashes then takeWhile (\<lambda>c. c \<notin> {47, 63, 35}) (drop 2 rest) else []);
          after = (if slashes then drop (length netloc) (drop 2 rest) else rest);
          (before_fragment, fragment) = cut_at 35 after;
          (path, query) = cut_at 63 before_fragment
      in if slashes \<and> \<not> netloc_ok netloc then Inl ValueError
         else Inr \<lparr>sl_scheme = scheme, sl_netloc = netloc, sl_path = path, sl_query = query, sl_fragment = fragment\<rparr>)"

text \<open>\<open>netloc.rpartition("@")\<close>: whether there is user information, and what follows it.\<close>

definition has_userinfo :: "split_url \<Rightarrow> bool" where
  "has_userinfo u \<longleftrightarrow> 64 \<in> set (sl_netloc u)"

definition hostinfo_text :: "split_url \<Rightarrow> pystr" where
  "hostinfo_text u = rev (takeWhile (\<lambda>c. c \<noteq> 64) (rev (sl_netloc u)))"

definition hostinfo :: "split_url \<Rightarrow> pystr \<times> pystr" where
  "hostinfo u =
     (let text = hostinfo_text u
      in if 91 \<in> set text
         then (case cut_at 93 (snd (cut_at 91 text)) of (hostname, rest) \<Rightarrow> (hostname, snd (cut_at 58 rest)))
         else cut_at 58 text)"

definition hostname_missing :: "split_url \<Rightarrow> bool" where
  "hostname_missing u \<longleftrightarrow> fst (hostinfo u) = []"

definition url_port :: "split_url \<Rightarrow> nat option res" where
  "url_port u =
     (let port = snd (hostinfo u)
      in if port = [] then Inr None
         else if \<not> list_all (\<lambda>c. 48 \<le> c \<and> c \<le> 57) port \<or> length port > 4300 then Inl ValueError
         else let n = foldl (\<lambda>n c. 10 * n + (c - 48)) 0 port in if n \<le> 65535 then Inr (Some n) else Inl ValueError)"

section \<open>Values of the environment\<close>

type_synonym environment = "(pystr, pystr) dict"

definition env_value :: "environment \<Rightarrow> string \<Rightarrow> pystr \<Rightarrow> pystr res" where
  "env_value environ name fallback =
     (case dict_get environ (lit name) of
        None \<Rightarrow> Inr fallback
      | Some raw_value \<Rightarrow> let value = py_strip raw_value in if value = [] then Inl ConfigurationError else Inr value)"

definition optional_value :: "environment \<Rightarrow> string \<Rightarrow> pystr option res" where
  "optional_value environ name =
     (case dict_get environ (lit name) of
        None \<Rightarrow> Inr None
      | Some raw_value \<Rightarrow> let value = py_strip raw_value in if value = [] then Inl ConfigurationError else Inr (Some value))"

definition env_choice ::
    "(pystr \<Rightarrow> pystr) \<Rightarrow> environment \<Rightarrow> string \<Rightarrow> string \<Rightarrow> string list \<Rightarrow> pystr res" where
  "env_choice fold_case environ name fallback allowed =
     bind_res (env_value environ name (lit fallback)) (\<lambda>value.
       let normalized = fold_case value
       in if normalized \<notin> set (map lit allowed) then Inl ConfigurationError else Inr normalized)"

definition env_origin :: "(pystr \<Rightarrow> bool) \<Rightarrow> environment \<Rightarrow> string \<Rightarrow> pystr res" where
  "env_origin netloc_ok environ name =
     bind_res (env_value environ name []) (\<lambda>value.
     bind_res (urlsplit netloc_ok value) (\<lambda>parsed.
       if sl_scheme parsed \<notin> {lit ''http'', lit ''https''} \<or> sl_netloc parsed = [] then Inl ConfigurationError
       else if has_userinfo parsed then Inl ConfigurationError
       else if sl_path parsed \<notin> {[], [47]} \<or> sl_query parsed \<noteq> [] \<or> sl_fragment parsed \<noteq> [] then Inl ConfigurationError
       else case url_port parsed of
           Inl _ \<Rightarrow> Inl ConfigurationError
         | Inr port \<Rightarrow>
             if hostname_missing parsed then Inl ConfigurationError
             else if (case port of None \<Rightarrow> False | Some n \<Rightarrow> \<not> n \<le> 65535) then Inl ConfigurationError
             else Inr (rev (dropWhile (\<lambda>c. c = 47) (rev value)))))"

definition env_database_url :: "(pystr \<Rightarrow> bool) \<Rightarrow> environment \<Rightarrow> pystr res" where
  "env_database_url netloc_ok environ =
     bind_res (env_value environ ''DATABASE_URL'' []) (\<lambda>value.
     bind_res (urlsplit netloc_ok value) (\<lambda>parsed.
       if sl_scheme parsed \<notin> {lit ''postgres'', lit ''postgresql''} \<or> sl_netloc parsed = [] then Inl ConfigurationError
       else case url_port parsed of
           Inl _ \<Rightarrow> Inl ConfigurationError
         | Inr port \<Rightarrow>
             if hostname_missing parsed then Inl ConfigurationError
             else if (case port of None \<Rightarrow> False | Some n \<Rightarrow> \<not> n \<le> 65535) then Inl ConfigurationError
             else if sl_fragment parsed \<noteq> [] then Inl ConfigurationError
             else Inr value))"

definition turn_secret :: "environment \<Rightarrow> string \<Rightarrow> bool \<Rightarrow> pystr option res" where
  "turn_secret environ name required =
     (case dict_get environ (lit name) of
        None \<Rightarrow> if required then Inl ConfigurationError else Inr None
      | Some raw_value \<Rightarrow> let value = py_strip raw_value in if value = [] then Inl ConfigurationError else Inr (Some value))"

section \<open>Settings\<close>

record settings =
  st_app_env :: pystr
  st_app_origin :: pystr
  st_api_origin :: pystr
  st_database_url :: pystr
  st_log_level :: pystr
  st_auth_adapter :: pystr
  st_turn_adapter :: pystr
  st_rate_limit_secret :: pystr
  st_supabase_url :: "pystr option"
  st_supabase_publishable_key :: "pystr option"
  st_availability_probe_token :: "pystr option"
  st_cloudflare_turn_key_id :: "pystr option"
  st_cloudflare_turn_api_token :: "pystr option"

definition APP_ENVIRONMENTS :: "string list" where "APP_ENVIRONMENTS = [''development'', ''test'', ''production'']"
definition LOG_LEVELS :: "string list" where "LOG_LEVELS = [''DEBUG'', ''INFO'', ''WARNING'', ''ERROR'', ''CRITICAL'']"
definition AUTH_ADAPTERS :: "string list" where "AUTH_ADAPTERS = [''supabase'', ''fake'']"
definition TURN_ADAPTERS :: "string list" where "TURN_ADAPTERS = [''cloudflare'', ''fake'', ''disabled'']"
definition DEFAULT_RATE_LIMIT_SECRET :: pystr where "DEFAULT_RATE_LIMIT_SECRET = lit ''local-development-rate-limit-secret''"

definition check_adapters :: "pystr \<Rightarrow> pystr \<Rightarrow> pystr \<Rightarrow> pystr option \<Rightarrow> pystr option \<Rightarrow> unit res" where
  "check_adapters app_env auth_adapter turn_adapter supabase_url supabase_publishable_key =
     (if app_env = lit ''production'' \<and> (auth_adapter = lit ''fake'' \<or> turn_adapter = lit ''fake'')
      then Inl ConfigurationError
      else if auth_adapter = lit ''supabase'' \<and> (supabase_url = None \<or> supabase_publishable_key = None)
      then Inl ConfigurationError
      else Inr ())"

definition supabase_origin :: "(pystr \<Rightarrow> bool) \<Rightarrow> environment \<Rightarrow> pystr option \<Rightarrow> pystr option res" where
  "supabase_origin netloc_ok source supabase_url =
     (case supabase_url of
        None \<Rightarrow> Inr None
      | Some _ \<Rightarrow> bind_res (env_origin netloc_ok source ''SUPABASE_URL'') (\<lambda>url. Inr (Some url)))"

definition settings_from_env ::
    "(pystr \<Rightarrow> pystr) \<Rightarrow> (pystr \<Rightarrow> pystr) \<Rightarrow> (pystr \<Rightarrow> bool) \<Rightarrow> environment \<Rightarrow> settings res" where
  "settings_from_env casefold upper netloc_ok source =
     bind_res (env_choice casefold source ''APP_ENV'' ''development'' APP_ENVIRONMENTS) (\<lambda>app_env.
     bind_res (env_choice upper source ''LOG_LEVEL'' ''INFO'' LOG_LEVELS) (\<lambda>log_level.
     bind_res (env_choice casefold source ''AUTH_ADAPTER'' ''fake'' AUTH_ADAPTERS) (\<lambda>auth_adapter.
     bind_res (env_choice casefold source ''TURN_ADAPTER'' ''fake'' TURN_ADAPTERS) (\<lambda>turn_adapter.
     bind_res (env_value source ''RATE_LIMIT_SECRET'' DEFAULT_RATE_LIMIT_SECRET) (\<lambda>rate_limit_secret.
     bind_res (optional_value source ''SUPABASE_URL'') (\<lambda>supabase_url.
     bind_res (optional_value source ''SUPABASE_PUBLISHABLE_KEY'') (\<lambda>supabase_publishable_key.
     bind_res (optional_value source ''AVAILABILITY_PROBE_TOKEN'') (\<lambda>availability_probe_token.
     bind_res (turn_secret source ''CLOUDFLARE_TURN_KEY_ID'' (turn_adapter = lit ''cloudflare'')) (\<lambda>cloudflare_turn_key_id.
     bind_res (turn_secret source ''CLOUDFLARE_TURN_API_TOKEN'' (turn_adapter = lit ''cloudflare'')) (\<lambda>cloudflare_turn_api_token.
     bind_res (check_adapters app_env auth_adapter turn_adapter supabase_url supabase_publishable_key) (\<lambda>_.
     bind_res (env_origin netloc_ok source ''APP_ORIGIN'') (\<lambda>app_origin.
     bind_res (env_origin netloc_ok source ''API_ORIGIN'') (\<lambda>api_origin.
     bind_res (env_database_url netloc_ok source) (\<lambda>database_url.
     bind_res (supabase_origin netloc_ok source supabase_url) (\<lambda>url.
       Inr \<lparr>st_app_env = app_env, st_app_origin = app_origin, st_api_origin = api_origin, st_database_url = database_url,
            st_log_level = log_level, st_auth_adapter = auth_adapter, st_turn_adapter = turn_adapter,
            st_rate_limit_secret = rate_limit_secret, st_supabase_url = url,
            st_supabase_publishable_key = supabase_publishable_key,
            st_availability_probe_token = availability_probe_token,
            st_cloudflare_turn_key_id = cloudflare_turn_key_id,
            st_cloudflare_turn_api_token = cloudflare_turn_api_token\<rparr>)))))))))))))))"

definition load_settings ::
    "(pystr \<Rightarrow> pystr) \<Rightarrow> (pystr \<Rightarrow> pystr) \<Rightarrow> (pystr \<Rightarrow> bool) \<Rightarrow> environment \<Rightarrow> settings res" where
  "load_settings casefold upper netloc_ok environ = settings_from_env casefold upper netloc_ok environ"

text \<open>The adapters \<open>lifespan\<close> of \<open>app/main.py\<close> builds from the settings.\<close>

definition configured_adapters :: "settings \<Rightarrow> (gateway_choice \<times> turn_choice) res" where
  "configured_adapters st =
     bind_res (create_auth_gateway (st_app_env st) (st_auth_adapter st) (st_supabase_url st) (st_supabase_publishable_key st))
       (\<lambda>gateway.
     bind_res (create_turn_credential_provider (st_app_env st) (st_turn_adapter st) (st_cloudflare_turn_key_id st)
                 (st_cloudflare_turn_api_token st))
       (\<lambda>provider. Inr (gateway, provider)))"

section \<open>Facts\<close>

lemma bind_resE:
  assumes "bind_res x k = Inr v"
  obtains y where "x = Inr y" and "k y = Inr v"
  using assms by (auto simp: bind_res_Inr)

lemma env_choice_Inr: "env_choice f environ name fallback allowed = Inr v \<Longrightarrow> v \<in> set (map lit allowed)"
  by (auto simp: env_choice_def bind_res_Inr Let_def split: if_splits)

lemma optional_value_Some: "optional_value environ name = Inr (Some v) \<Longrightarrow> v \<noteq> []"
  by (auto simp: optional_value_def Let_def split: option.splits if_splits)

lemma turn_secret_Inr: "turn_secret environ name required = Inr v \<Longrightarrow> (required \<longrightarrow> v \<noteq> None) \<and> v \<noteq> Some []"
  by (auto simp: turn_secret_def Let_def split: option.splits if_splits)

lemma env_origin_not_Nil:
  assumes "env_origin netloc_ok environ name = Inr v"
  shows "v \<noteq> []"
proof
  assume "v = []"
  from assms [unfolded env_origin_def] obtain raw parsed where parsed: "urlsplit netloc_ok raw = Inr parsed"
    and rest: "(if sl_scheme parsed \<notin> {lit ''http'', lit ''https''} \<or> sl_netloc parsed = [] then Inl ConfigurationError
       else if has_userinfo parsed then Inl ConfigurationError
       else if sl_path parsed \<notin> {[], [47]} \<or> sl_query parsed \<noteq> [] \<or> sl_fragment parsed \<noteq> [] then Inl ConfigurationError
       else case url_port parsed of
           Inl _ \<Rightarrow> Inl ConfigurationError
         | Inr port \<Rightarrow>
             if hostname_missing parsed then Inl ConfigurationError
             else if (case port of None \<Rightarrow> False | Some n \<Rightarrow> \<not> n \<le> 65535) then Inl ConfigurationError
             else Inr (rev (dropWhile (\<lambda>c. c = 47) (rev raw)))) = Inr v"
    by (elim bind_resE)
  have "sl_scheme parsed \<in> {lit ''http'', lit ''https''}" using rest by (auto split: if_splits)
  moreover have "lit ''http'' \<noteq> []" "lit ''https'' \<noteq> []" by code_simp+
  ultimately have scheme: "sl_scheme parsed \<noteq> []" by auto
  have "v = rev (dropWhile (\<lambda>c. c = 47) (rev raw))" using rest by (auto split: if_splits sum.splits)
  then have "\<forall>c\<in>set raw. c = 47" using \<open>v = []\<close> by simp
  then have all: "\<forall>c\<in>set (urlsplit_clean raw). c \<noteq> 58" by (auto simp: urlsplit_clean_def dest!: set_dropWhileD)
  then have no_colon: "takeWhile (\<lambda>c. c \<noteq> 58) (urlsplit_clean raw) = urlsplit_clean raw"
    by (simp add: takeWhile_eq_all_conv)
  have "split_scheme (urlsplit_clean raw) = ([], urlsplit_clean raw)"
    unfolding split_scheme_def Let_def no_colon by simp
  then have "sl_scheme parsed = []" using parsed by (auto simp: urlsplit_def Let_def split: prod.splits if_splits)
  then show False using scheme by simp
qed

lemma settings_Inr:
  assumes "settings_from_env casefold upper netloc_ok source = Inr st"
  shows "st_app_env st \<in> set (map lit APP_ENVIRONMENTS)" and "st_log_level st \<in> set (map lit LOG_LEVELS)"
    and "st_auth_adapter st \<in> set (map lit AUTH_ADAPTERS)" and "st_turn_adapter st \<in> set (map lit TURN_ADAPTERS)"
    and "st_app_env st = lit ''production'' \<Longrightarrow> st_auth_adapter st \<noteq> lit ''fake'' \<and> st_turn_adapter st \<noteq> lit ''fake''"
    and "st_auth_adapter st = lit ''supabase'' \<Longrightarrow>
      \<exists>url key. st_supabase_url st = Some url \<and> url \<noteq> [] \<and> st_supabase_publishable_key st = Some key \<and> key \<noteq> []"
    and "st_turn_adapter st = lit ''cloudflare'' \<Longrightarrow>
      \<exists>key token. st_cloudflare_turn_key_id st = Some key \<and> key \<noteq> [] \<and> st_cloudflare_turn_api_token st = Some token \<and> token \<noteq> []"
    and "st_app_origin st \<noteq> []" and "st_api_origin st \<noteq> []"
proof -
  from assms [unfolded settings_from_env_def] obtain app_env log_level auth turn url0 key id token u o1 o2 url where
    c: "env_choice casefold source ''APP_ENV'' ''development'' APP_ENVIRONMENTS = Inr app_env"
      "env_choice upper source ''LOG_LEVEL'' ''INFO'' LOG_LEVELS = Inr log_level"
      "env_choice casefold source ''AUTH_ADAPTER'' ''fake'' AUTH_ADAPTERS = Inr auth"
      "env_choice casefold source ''TURN_ADAPTER'' ''fake'' TURN_ADAPTERS = Inr turn"
      "optional_value source ''SUPABASE_PUBLISHABLE_KEY'' = Inr key"
      "turn_secret source ''CLOUDFLARE_TURN_KEY_ID'' (turn = lit ''cloudflare'') = Inr id"
      "turn_secret source ''CLOUDFLARE_TURN_API_TOKEN'' (turn = lit ''cloudflare'') = Inr token"
      "check_adapters app_env auth turn url0 key = Inr u"
      "env_origin netloc_ok source ''APP_ORIGIN'' = Inr o1" "env_origin netloc_ok source ''API_ORIGIN'' = Inr o2"
      "supabase_origin netloc_ok source url0 = Inr url"
    and st: "st_app_env st = app_env" "st_log_level st = log_level" "st_auth_adapter st = auth" "st_turn_adapter st = turn"
      "st_supabase_url st = url" "st_supabase_publishable_key st = key" "st_cloudflare_turn_key_id st = id"
      "st_cloudflare_turn_api_token st = token" "st_app_origin st = o1" "st_api_origin st = o2"
    by (elim bind_resE) (drule sum.inject(2) [THEN iffD1], hypsubst, rule that, assumption+, simp_all)
  show "st_app_env st \<in> set (map lit APP_ENVIRONMENTS)" "st_log_level st \<in> set (map lit LOG_LEVELS)"
    "st_auth_adapter st \<in> set (map lit AUTH_ADAPTERS)" "st_turn_adapter st \<in> set (map lit TURN_ADAPTERS)"
    unfolding st by (rule env_choice_Inr, rule c)+
  show "st_auth_adapter st \<noteq> lit ''fake'' \<and> st_turn_adapter st \<noteq> lit ''fake''" if "st_app_env st = lit ''production''"
    using that c(8) unfolding st by (auto simp: check_adapters_def split: if_splits)
  show "\<exists>url key. st_supabase_url st = Some url \<and> url \<noteq> [] \<and> st_supabase_publishable_key st = Some key \<and> key \<noteq> []"
    if "st_auth_adapter st = lit ''supabase''"
    using that c(5,8,11) env_origin_not_Nil optional_value_Some unfolding st
    by (auto simp: check_adapters_def supabase_origin_def bind_res_Inr split: if_splits option.splits)
  show "\<exists>key token. st_cloudflare_turn_key_id st = Some key \<and> key \<noteq> [] \<and> st_cloudflare_turn_api_token st = Some token \<and> token \<noteq> []"
    if "st_turn_adapter st = lit ''cloudflare''"
    using that turn_secret_Inr [OF c(6)] turn_secret_Inr [OF c(7)] unfolding st by auto
  show "st_app_origin st \<noteq> []" "st_api_origin st \<noteq> []"
    unfolding st by (rule env_origin_not_Nil, rule c)+
qed

lemma adapter_names:
  "lit ''supabase'' \<noteq> lit ''fake''" "lit ''cloudflare'' \<noteq> lit ''fake''" "lit ''disabled'' \<noteq> lit ''fake''"
  "lit ''disabled'' \<noteq> lit ''cloudflare''" "lit ''production'' \<noteq> lit ''test''"
  by code_simp+

text \<open>What the two factories build from settings that loaded.\<close>

lemma configured_gateway:
  assumes "settings_from_env casefold upper netloc_ok source = Inr st"
  shows "create_auth_gateway (st_app_env st) (st_auth_adapter st) (st_supabase_url st) (st_supabase_publishable_key st) =
    (if st_auth_adapter st \<noteq> lit ''fake''
     then Inr (SupabaseGateway (new_supabase_gateway (the (st_supabase_url st)) (the (st_supabase_publishable_key st))))
     else if st_app_env st = lit ''test'' then Inr (FakeGateway \<lparr>fg_otps = [], fg_requested_emails = []\<rparr>)
     else Inl ConfigurationError)"
proof (cases "st_auth_adapter st = lit ''fake''")
  case True
  then show ?thesis by (simp add: create_auth_gateway_def new_fake_gateway_def require_test_environment_def)
next
  case False
  then have "st_auth_adapter st = lit ''supabase''" using settings_Inr(3) [OF assms] by (auto simp: AUTH_ADAPTERS_def)
  then show ?thesis using settings_Inr(6) [OF assms] adapter_names by (auto simp: create_auth_gateway_def)
qed

lemma configured_relay:
  assumes "settings_from_env casefold upper netloc_ok source = Inr st"
  shows "create_turn_credential_provider (st_app_env st) (st_turn_adapter st) (st_cloudflare_turn_key_id st)
      (st_cloudflare_turn_api_token st) =
    (if st_turn_adapter st = lit ''fake''
     then if st_app_env st = lit ''test'' then Inr (FakeTurn []) else Inl ConfigurationError
     else if st_turn_adapter st = lit ''cloudflare''
     then bind_res (new_cloudflare_provider (the (st_cloudflare_turn_key_id st)) (the (st_cloudflare_turn_api_token st)))
       (\<lambda>p. Inr (CloudflareTurn p))
     else Inr DisabledTurn)"
proof -
  have "st_turn_adapter st = lit ''cloudflare'' \<or> st_turn_adapter st = lit ''fake'' \<or> st_turn_adapter st = lit ''disabled''"
    using settings_Inr(4) [OF assms] by (auto simp: TURN_ADAPTERS_def)
  then show ?thesis
    using settings_Inr(7) [OF assms] adapter_names
    by (auto simp: create_turn_credential_provider_def new_fake_turn_provider_def require_test_environment_def)
qed

text \<open>The adapters the names of the settings stand for, with the secrets of the settings.\<close>

definition gateway_for :: "settings \<Rightarrow> gateway_choice \<Rightarrow> bool" where
  "gateway_for st gateway \<longleftrightarrow>
     st_auth_adapter st = lit ''supabase'' \<and>
       (\<exists>url key. st_supabase_url st = Some url \<and> st_supabase_publishable_key st = Some key \<and> url \<noteq> [] \<and> key \<noteq> [] \<and>
          gateway = SupabaseGateway (new_supabase_gateway url key)) \<or>
     st_auth_adapter st = lit ''fake'' \<and> st_app_env st = lit ''test'' \<and>
       gateway = FakeGateway \<lparr>fg_otps = [], fg_requested_emails = []\<rparr>"

definition relay_for :: "settings \<Rightarrow> turn_choice \<Rightarrow> bool" where
  "relay_for st provider \<longleftrightarrow>
     st_turn_adapter st = lit ''cloudflare'' \<and>
       (\<exists>i t i' t'. st_cloudflare_turn_key_id st = Some i \<and> st_cloudflare_turn_api_token st = Some t \<and>
          required_turn_text i = Inr i' \<and> required_turn_text t = Inr t' \<and>
          provider = CloudflareTurn \<lparr>cp_turn_key_id = i', cp_api_token = t'\<rparr>) \<or>
     st_turn_adapter st = lit ''disabled'' \<and> provider = DisabledTurn \<or>
     st_turn_adapter st = lit ''fake'' \<and> st_app_env st = lit ''test'' \<and> provider = FakeTurn []"

lemma gateway_built:
  assumes "settings_from_env casefold upper netloc_ok source = Inr st"
  shows "create_auth_gateway (st_app_env st) (st_auth_adapter st) (st_supabase_url st) (st_supabase_publishable_key st) =
    Inr gateway \<longleftrightarrow> gateway_for st gateway"
proof -
  have "st_auth_adapter st = lit ''supabase'' \<or> st_auth_adapter st = lit ''fake''"
    using settings_Inr(3) [OF assms] by (auto simp: AUTH_ADAPTERS_def)
  then show ?thesis
    using settings_Inr(6) [OF assms] adapter_names(1) unfolding configured_gateway [OF assms] gateway_for_def by auto
qed

lemma relay_built:
  assumes "settings_from_env casefold upper netloc_ok source = Inr st"
  shows "create_turn_credential_provider (st_app_env st) (st_turn_adapter st) (st_cloudflare_turn_key_id st)
      (st_cloudflare_turn_api_token st) = Inr provider \<longleftrightarrow> relay_for st provider"
proof -
  have turn: "st_turn_adapter st = lit ''cloudflare'' \<or> st_turn_adapter st = lit ''disabled'' \<or> st_turn_adapter st = lit ''fake''"
    using settings_Inr(4) [OF assms] by (auto simp: TURN_ADAPTERS_def)
  then show ?thesis
    unfolding configured_relay [OF assms] relay_for_def
  proof (elim disjE, goal_cases)
    case 1
    with settings_Inr(7) [OF assms] adapter_names show ?case by (auto simp: new_cloudflare_provider_def bind_res_Inr)
  qed (use adapter_names in auto)
qed

section \<open>Properties\<close>

text \<open>
  C36.  Accepted settings give exactly the configured adapters.  When the settings load, both adapters
  are built if and only if each is one of these: the Supabase gateway, with the address and the key of
  the settings, neither empty, for \<open>supabase\<close>; the Cloudflare relay, with the key identifier and the API
  token of the settings, for \<open>cloudflare\<close>; no relay for \<open>disabled\<close>; a fake for \<open>fake\<close>, and only in the
  test environment.  Settings with a fake adapter do not load in production; in development they load,
  but then the start fails with \<open>ConfigurationError\<close>, although the deployment guide and the example
  environment offer fakes for development.  No other settings make the start fail
  but those with a relay secret the provider refuses.
\<close>

theorem settings_give_safe_adapters:
  assumes "load_settings casefold upper netloc_ok environ = Inr st"
  shows "(configured_adapters st = Inr (gateway, provider) \<longleftrightarrow> gateway_for st gateway \<and> relay_for st provider) \<and>
    (st_app_env st = lit ''production'' \<longrightarrow> st_auth_adapter st \<noteq> lit ''fake'' \<and> st_turn_adapter st \<noteq> lit ''fake'') \<and>
    (configured_adapters st = Inl e \<longleftrightarrow>
      (if (st_auth_adapter st = lit ''fake'' \<or> st_turn_adapter st = lit ''fake'') \<and> st_app_env st \<noteq> lit ''test''
       then e = ConfigurationError
       else st_turn_adapter st = lit ''cloudflare'' \<and>
         (\<exists>i t. st_cloudflare_turn_key_id st = Some i \<and> st_cloudflare_turn_api_token st = Some t \<and>
            new_cloudflare_provider i t = Inl e)))"
proof (intro conjI)
  note loaded = assms [unfolded load_settings_def]
  show "configured_adapters st = Inr (gateway, provider) \<longleftrightarrow> gateway_for st gateway \<and> relay_for st provider"
    using gateway_built [OF loaded] relay_built [OF loaded] by (auto simp: configured_adapters_def bind_res_Inr)
  show "st_app_env st = lit ''production'' \<longrightarrow> st_auth_adapter st \<noteq> lit ''fake'' \<and> st_turn_adapter st \<noteq> lit ''fake''"
    using settings_Inr(5) [OF loaded] by blast
  show "configured_adapters st = Inl e \<longleftrightarrow>
      (if (st_auth_adapter st = lit ''fake'' \<or> st_turn_adapter st = lit ''fake'') \<and> st_app_env st \<noteq> lit ''test''
       then e = ConfigurationError
       else st_turn_adapter st = lit ''cloudflare'' \<and>
         (\<exists>i t. st_cloudflare_turn_key_id st = Some i \<and> st_cloudflare_turn_api_token st = Some t \<and>
            new_cloudflare_provider i t = Inl e))"
    using settings_Inr(7) [OF loaded] adapter_names
    unfolding configured_adapters_def configured_gateway [OF loaded] configured_relay [OF loaded]
    by (auto simp: bind_res_def split: sum.splits)
qed

definition production_environ :: environment where
  "production_environ = map (\<lambda>(k, v). (lit k, lit v))
     [(''APP_ENV'', ''Production''), (''AUTH_ADAPTER'', ''supabase''), (''TURN_ADAPTER'', ''cloudflare''),
      (''SUPABASE_URL'', ''https://p.example''), (''SUPABASE_PUBLISHABLE_KEY'', ''k''),
      (''CLOUDFLARE_TURN_KEY_ID'', ''id''), (''CLOUDFLARE_TURN_API_TOKEN'', ''t''),
      (''APP_ORIGIN'', ''https://app.example/''), (''API_ORIGIN'', ''https://api.example:8443''),
      (''DATABASE_URL'', ''postgresql://u:p@db.example:5432/x'')]"

definition production_settings :: settings where
  "production_settings =
     \<lparr>st_app_env = lit ''production'', st_app_origin = lit ''https://app.example'',
      st_api_origin = lit ''https://api.example:8443'', st_database_url = lit ''postgresql://u:p@db.example:5432/x'',
      st_log_level = lit ''INFO'', st_auth_adapter = lit ''supabase'', st_turn_adapter = lit ''cloudflare'',
      st_rate_limit_secret = DEFAULT_RATE_LIMIT_SECRET, st_supabase_url = Some (lit ''https://p.example''),
      st_supabase_publishable_key = Some (lit ''k''), st_availability_probe_token = None,
      st_cloudflare_turn_key_id = Some (lit ''id''), st_cloudflare_turn_api_token = Some (lit ''t'')\<rparr>"

theorem settings_give_safe_adapters_witness:
  "load_settings (map ascii_lower) id (\<lambda>_. True) production_environ = Inr production_settings \<and>
   configured_adapters production_settings =
     Inr (SupabaseGateway (new_supabase_gateway (lit ''https://p.example'') (lit ''k'')),
       CloudflareTurn \<lparr>cp_turn_key_id = lit ''id'', cp_api_token = lit ''t''\<rparr>)"
proof -
  have load: "load_settings (map ascii_lower) id (\<lambda>_. True) production_environ = Inr production_settings" by code_simp
  have text_ok: "required_turn_text (lit ''id'') = Inr (lit ''id'')" "required_turn_text (lit ''t'') = Inr (lit ''t'')"
    "lit ''https://p.example'' \<noteq> []" "lit ''k'' \<noteq> []" by code_simp+
  show ?thesis
    using load settings_give_safe_adapters [OF load, THEN conjunct1, THEN iffD2]
    by (simp add: production_settings_def gateway_for_def relay_for_def text_ok)
qed

end
