(* ===== verification/Logging.thy ===== *)
theory Logging
  imports Adapters
begin

text \<open>
  \<open>app/logging.py\<close>: the redaction of log records and the JSON lines they become.  The regular
  expressions of the module are values of the type \<open>re\<close> below, whose matcher lists the matches of an
  expression in the order in which the backtracking matcher of Python's \<open>re\<close> tries them.  \<open>word\<close> says
  which characters are word characters and \<open>casefold\<close> is the method of \<open>str\<close>; both are Unicode tables.
\<close>

section \<open>Regular expressions\<close>

datatype re =
    Eps
  | One "nat \<Rightarrow> bool"
  | Seq re re
  | Alt re re
  | Opt re
  | Many "nat \<Rightarrow> bool"
  | Few "nat \<Rightarrow> bool"
  | Group string re
  | SameAs string
  | NotAfter "nat \<Rightarrow> bool"
  | Boundary

text \<open>
  Where a match stands: the character before it, the text after it, and the named groups so far.
  \<open>Many\<close> is the greedy \<open>*\<close> of a character class, \<open>Few\<close> the lazy \<open>*?\<close>.
\<close>

type_synonym spot = "nat option \<times> pystr \<times> (string, pystr) dict"

fun many :: "(nat \<Rightarrow> bool) \<Rightarrow> nat option \<Rightarrow> pystr \<Rightarrow> (nat option \<times> pystr) list" where
  "many c prev [] = [(prev, [])]"
| "many c prev (x # xs) = (if c x then many c (Some x) xs else []) @ [(prev, x # xs)]"

primrec strip_prefix :: "pystr \<Rightarrow> nat option \<times> pystr \<Rightarrow> (nat option \<times> pystr) option" where
  "strip_prefix [] s = Some s"
| "strip_prefix (x # xs) s = (case snd s of [] \<Rightarrow> None | y # ys \<Rightarrow> if x = y then strip_prefix xs (Some y, ys) else None)"

primrec runs :: "(nat \<Rightarrow> bool) \<Rightarrow> re \<Rightarrow> spot \<Rightarrow> spot list" where
  "runs word Eps s = [s]"
| "runs word (One c) s =
     (case s of (prev, rest, groups) \<Rightarrow> case rest of [] \<Rightarrow> [] | x # xs \<Rightarrow> if c x then [(Some x, xs, groups)] else [])"
| "runs word (Seq p q) s = concat (map (runs word q) (runs word p s))"
| "runs word (Alt p q) s = runs word p s @ runs word q s"
| "runs word (Opt p) s = runs word p s @ [s]"
| "runs word (Many c) s = (case s of (prev, rest, groups) \<Rightarrow> map (\<lambda>(p, r). (p, r, groups)) (many c prev rest))"
| "runs word (Few c) s = (case s of (prev, rest, groups) \<Rightarrow> map (\<lambda>(p, r). (p, r, groups)) (rev (many c prev rest)))"
| "runs word (Group name p) s =
     map (\<lambda>(prev, rest, groups). (prev, rest, dict_set name (take (length (fst (snd s)) - length rest) (fst (snd s))) groups))
       (runs word p s)"
| "runs word (SameAs name) s =
     (case s of (prev, rest, groups) \<Rightarrow>
        case dict_get groups name of
          None \<Rightarrow> []
        | Some t \<Rightarrow> (case strip_prefix t (prev, rest) of None \<Rightarrow> [] | Some (p, r) \<Rightarrow> [(p, r, groups)]))"
| "runs word (NotAfter c) s = (case fst s of None \<Rightarrow> [s] | Some x \<Rightarrow> if c x then [] else [s])"
| "runs word Boundary s =
     (let before = (case fst s of None \<Rightarrow> False | Some x \<Rightarrow> word x);
          after = (case fst (snd s) of [] \<Rightarrow> False | x # _ \<Rightarrow> word x)
      in if before \<noteq> after then [s] else [])"

text \<open>
  \<open>Pattern.sub\<close>, for patterns that never match the empty string, as the four of the module
  (\<open>patterns_consume\<close> below).
\<close>

function re_sub :: "(nat \<Rightarrow> bool) \<Rightarrow> re \<Rightarrow> ((string, pystr) dict \<Rightarrow> pystr) \<Rightarrow> nat option \<Rightarrow> pystr \<Rightarrow> pystr" where
  "re_sub word p repl prev [] = []"
| "re_sub word p repl prev (x # xs) =
     (case runs word p (prev, x # xs, []) of
        [] \<Rightarrow> x # re_sub word p repl (Some x) xs
      | (q, rest, groups) # _ \<Rightarrow>
          if length rest < length (x # xs) then repl groups @ re_sub word p repl q rest
          else x # re_sub word p repl (Some x) xs)"
  by pat_completeness auto
termination
  by (relation "measure (\<lambda>(word, p, repl, prev, s). length s)") auto

text \<open>
  With \<open>re.IGNORECASE\<close> a letter also matches its upper case, and \<open>i\<close>, \<open>s\<close> and \<open>k\<close> match U+0130 and
  U+0131, U+017F and U+212A.
\<close>

definition ignorecase :: "nat \<Rightarrow> nat \<Rightarrow> bool" where
  "ignorecase c x \<longleftrightarrow>
     ascii_lower x = c \<or> c = 105 \<and> (x = 304 \<or> x = 305) \<or> c = 115 \<and> x = 383 \<or> c = 107 \<and> x = 8490"

definition ascii_alnum :: "nat \<Rightarrow> bool" where
  "ascii_alnum x \<longleftrightarrow>
     48 \<le> x \<and> x \<le> 57 \<or> 97 \<le> ascii_lower x \<and> ascii_lower x \<le> 122 \<or> x \<in> {304, 305, 383, 8490}"

definition literal :: "string \<Rightarrow> re" where
  "literal s = foldr Seq (map (\<lambda>c. One (ignorecase c)) (lit s)) Eps"

definition Many1 :: "(nat \<Rightarrow> bool) \<Rightarrow> re" where
  "Many1 c = Seq (One c) (Many c)"

definition quote_char :: "nat \<Rightarrow> bool" where
  "quote_char x \<longleftrightarrow> x = 39 \<or> x = 34"

text \<open>\<open>first[-_ ]?second\<close>.\<close>

definition joined :: "string \<Rightarrow> string \<Rightarrow> re" where
  "joined first second = Seq (literal first) (Seq (Opt (One (\<lambda>x. x = 45 \<or> x = 95 \<or> x = 32))) (literal second))"

text \<open>\<open>\s*[:=]\s*\<close>.\<close>

definition assignment_sign :: re where
  "assignment_sign = Seq (Many py_isspace) (Seq (One (\<lambda>x. x = 58 \<or> x = 61)) (Many py_isspace))"

section \<open>Patterns\<close>

definition REDACTED :: pystr where
  "REDACTED = lit ''[REDACTED]''"

definition SENSITIVE_KEY_MARKERS :: "string list" where
  "SENSITIVE_KEY_MARKERS =
     [''authorization'', ''cookie'', ''session'', ''csrf'', ''token'', ''password'', ''passphrase'', ''secret'',
      ''apikey'', ''privatekey'', ''signingkey'', ''otp'']"

definition SENSITIVE_FIELD_PATTERN :: re where
  "SENSITIVE_FIELD_PATTERN =
     Seq (foldr Alt
       [literal ''authorization'', joined ''proxy'' ''authorization'', literal ''cookie'', joined ''set'' ''cookie'',
        literal ''session'', literal ''csrf'', literal ''token'', literal ''password'', literal ''passphrase'',
        literal ''secret'', joined ''api'' ''key'', joined ''private'' ''key'', joined ''signing'' ''key'']
       (literal ''otp''))
     (Many (\<lambda>x. x = 45 \<or> x = 95 \<or> ascii_alnum x))"

definition header_value :: "nat \<Rightarrow> bool" where
  "header_value x \<longleftrightarrow> x \<notin> {13, 10, 44, 125}"

definition header_prefix :: "re \<Rightarrow> re" where
  "header_prefix name = Group ''prefix'' (Seq (NotAfter ascii_alnum) (Seq name assignment_sign))"

definition AUTH_HEADER_RE :: re where
  "AUTH_HEADER_RE =
     Seq (header_prefix (Alt (literal ''authorization'') (joined ''proxy'' ''authorization''))) (Group ''value'' (Many1 header_value))"

definition COOKIE_HEADER_RE :: re where
  "COOKIE_HEADER_RE =
     Seq (header_prefix (Alt (literal ''cookie'') (joined ''set'' ''cookie''))) (Group ''value'' (Many1 header_value))"

definition SENSITIVE_ASSIGNMENT_RE :: re where
  "SENSITIVE_ASSIGNMENT_RE =
     Seq (header_prefix (Seq (Opt (One quote_char)) (Seq SENSITIVE_FIELD_PATTERN (Opt (One quote_char)))))
     (Alt (Seq (Group ''quote'' (One quote_char)) (Seq (Group ''quoted'' (Few (\<lambda>x. x \<noteq> 10))) (SameAs ''quote'')))
       (Group ''bare'' (Many1 (\<lambda>x. \<not> py_isspace x \<and> x \<notin> {44, 59, 125, 93}))))"

definition BEARER_RE :: re where
  "BEARER_RE =
     Seq (Group ''prefix'' (Seq Boundary
       (Seq (Alt (literal ''bearer'') (Alt (literal ''basic'') (literal ''digest''))) (Many1 py_isspace))))
     (Group ''value'' (Many1 (\<lambda>x. \<not> py_isspace x \<and> x \<notin> {44, 59})))"

section \<open>Redaction of text and values\<close>

definition group :: "(string, pystr) dict \<Rightarrow> string \<Rightarrow> pystr" where
  "group groups name = (case dict_get groups name of None \<Rightarrow> [] | Some t \<Rightarrow> t)"

definition replace_header :: "(string, pystr) dict \<Rightarrow> pystr" where
  "replace_header groups = group groups ''prefix'' @ REDACTED"

definition replace_assignment :: "(string, pystr) dict \<Rightarrow> pystr" where
  "replace_assignment groups = group groups ''prefix'' @ group groups ''quote'' @ REDACTED @ group groups ''quote''"

definition redact_text :: "(nat \<Rightarrow> bool) \<Rightarrow> pystr \<Rightarrow> pystr" where
  "redact_text word value0 =
     (let redacted = re_sub word SENSITIVE_ASSIGNMENT_RE replace_assignment None value0;
          redacted = re_sub word AUTH_HEADER_RE replace_header None redacted;
          redacted = re_sub word COOKIE_HEADER_RE replace_header None redacted
      in re_sub word BEARER_RE replace_header None redacted)"

definition normalise_key :: "(pystr \<Rightarrow> pystr) \<Rightarrow> pystr \<Rightarrow> pystr" where
  "normalise_key casefold key = filter (\<lambda>x. 97 \<le> x \<and> x \<le> 122 \<or> 48 \<le> x \<and> x \<le> 57) (casefold key)"

text \<open>\<open>marker in text\<close>.\<close>

fun contains :: "pystr \<Rightarrow> pystr \<Rightarrow> bool" where
  "contains marker [] = (marker = [])"
| "contains marker (x # xs) = (take (length marker) (x # xs) = marker \<or> contains marker xs)"

definition is_sensitive_key :: "(pystr \<Rightarrow> pystr) \<Rightarrow> pystr \<Rightarrow> bool" where
  "is_sensitive_key casefold key = list_ex (\<lambda>marker. contains (lit marker) (normalise_key casefold key)) SENSITIVE_KEY_MARKERS"

text \<open>
  The values a record carries: a mapping lists \<open>str(key)\<close> with each value, a set its elements in the
  order of iteration, and any other object is its \<open>str\<close>.
\<close>

datatype log_value =
    LNone
  | LBool bool
  | LInt int
  | LFloat "rat option" pystr
  | LStr pystr
  | LBytes bytes
  | LMap "(pystr \<times> log_value) list"
  | LSeq "log_value list"
  | LSet "log_value list"
  | LOther pystr

fun redact_value :: "(nat \<Rightarrow> bool) \<Rightarrow> (pystr \<Rightarrow> pystr) \<Rightarrow> pystr option \<Rightarrow> log_value \<Rightarrow> log_value" where
  "redact_value word casefold key v =
     (if (case key of None \<Rightarrow> False | Some k \<Rightarrow> is_sensitive_key casefold k) then LStr REDACTED
      else case v of
          LNone \<Rightarrow> LNone
        | LBool b \<Rightarrow> LBool b
        | LInt n \<Rightarrow> LInt n
        | LFloat r t \<Rightarrow> LFloat r t
        | LStr s \<Rightarrow> LStr (redact_text word s)
        | LBytes _ \<Rightarrow> LStr REDACTED
        | LMap ms \<Rightarrow> LMap (fold (\<lambda>(k, x). dict_set k x) (map (\<lambda>(k, x). (k, redact_value word casefold (Some k) x)) ms) [])
        | LSeq xs \<Rightarrow> LSeq (map (redact_value word casefold None) xs)
        | LSet xs \<Rightarrow> LSeq (map (redact_value word casefold None) xs)
        | LOther s \<Rightarrow> LStr (redact_text word s))"

section \<open>Records and lines\<close>

text \<open>
  A \<open>LogRecord\<close>.  \<open>lr_exc_info\<close> is the text \<open>formatException\<close> gives for the exception, \<open>lr_fields\<close> the rest
  of the record's \<open>__dict__\<close>; \<open>percent\<close> is the \<open>%\<close> of \<open>str\<close>, which can raise, and \<open>timestamp\<close> the
  ISO text of the time of creation.
\<close>

record log_record =
  lr_name :: log_value
  lr_levelname :: log_value
  lr_created :: log_value
  lr_msg :: pystr
  lr_args :: "log_value list"
  lr_exc_info :: "pystr option"
  lr_exc_text :: "pystr option"
  lr_stack_info :: "pystr option"
  lr_fields :: "(pystr, log_value) dict"

type_synonym percent = "pystr \<Rightarrow> log_value list \<Rightarrow> pystr res"

definition get_message :: "percent \<Rightarrow> log_record \<Rightarrow> pystr res" where
  "get_message percent r = (if lr_args r = [] then Inr (lr_msg r) else percent (lr_msg r) (lr_args r))"

definition STANDARD_RECORD_FIELDS :: "string list" where
  "STANDARD_RECORD_FIELDS =
     [''name'', ''msg'', ''args'', ''levelname'', ''levelno'', ''pathname'', ''filename'', ''module'', ''exc_info'',
      ''exc_text'', ''stack_info'', ''lineno'', ''funcName'', ''created'', ''msecs'', ''relativeCreated'', ''thread'',
      ''threadName'', ''processName'', ''process'', ''taskName'', ''message'']"

definition redacting_filter ::
    "(nat \<Rightarrow> bool) \<Rightarrow> (pystr \<Rightarrow> pystr) \<Rightarrow> percent \<Rightarrow> log_record \<Rightarrow> log_record res" where
  "redacting_filter word casefold percent r =
     bind_res (get_message percent r) (\<lambda>message.
       let redacted = (\<lambda>key. redact_value word casefold (Some key))
       in Inr (r\<lparr>lr_msg := redact_text word message, lr_args := [],
                 lr_exc_info := None,
                 lr_exc_text := (case lr_exc_info r of None \<Rightarrow> lr_exc_text r | Some t \<Rightarrow> Some (redact_text word t)),
                 lr_stack_info := (case lr_stack_info r of None \<Rightarrow> None | Some t \<Rightarrow> Some (redact_text word t)),
                 lr_name := redacted (lit ''name'') (lr_name r),
                 lr_levelname := redacted (lit ''levelname'') (lr_levelname r),
                 lr_created := redacted (lit ''created'') (lr_created r),
                 lr_fields := map (\<lambda>(key, v). (key, redacted key v)) (lr_fields r)\<rparr>))"

text \<open>What \<open>json.dumps\<close> accepts; other objects raise \<open>TypeError\<close>.\<close>

fun json_value :: "log_value \<Rightarrow> json res"
  and json_values :: "log_value list \<Rightarrow> json list res"
  and json_fields :: "(pystr \<times> log_value) list \<Rightarrow> (pystr \<times> json) list res" where
  "json_value LNone = Inr JNull"
| "json_value (LBool b) = Inr (JBool b)"
| "json_value (LInt n) = Inr (JInt n)"
| "json_value (LFloat r t) = Inr (JFloat r t)"
| "json_value (LStr s) = Inr (JStr s)"
| "json_value (LSeq xs) = bind_res (json_values xs) (\<lambda>ys. Inr (JArr ys))"
| "json_value (LMap ms) = bind_res (json_fields ms) (\<lambda>ys. Inr (JObj ys))"
| "json_value _ = Inl TypeError"
| "json_values [] = Inr []"
| "json_values (x # xs) = bind_res (json_value x) (\<lambda>y. bind_res (json_values xs) (\<lambda>ys. Inr (y # ys)))"
| "json_fields [] = Inr []"
| "json_fields ((k, x) # ms) = bind_res (json_value x) (\<lambda>y. bind_res (json_fields ms) (\<lambda>ys. Inr ((k, y) # ys)))"

definition log_event ::
    "(nat \<Rightarrow> bool) \<Rightarrow> (pystr \<Rightarrow> pystr) \<Rightarrow> (log_value \<Rightarrow> pystr) \<Rightarrow> pystr \<Rightarrow> log_record \<Rightarrow> (pystr, log_value) dict" where
  "log_event word casefold timestamp message r =
     (let event = [(lit ''timestamp'', LStr (timestamp (lr_created r))), (lit ''level'', lr_levelname r),
                   (lit ''logger'', lr_name r), (lit ''message'', LStr (redact_text word message))];
          event = fold (\<lambda>(key, v). if key \<in> set (map lit STANDARD_RECORD_FIELDS) then id
                                    else dict_set key (redact_value word casefold (Some key) v)) (lr_fields r) event
      in case lr_exc_text r of
           None \<Rightarrow> event
         | Some t \<Rightarrow> if t = [] then event else dict_set (lit ''exception'') (LStr (redact_text word t)) event)"

definition json_format ::
    "(nat \<Rightarrow> bool) \<Rightarrow> (pystr \<Rightarrow> pystr) \<Rightarrow> percent \<Rightarrow> (log_value \<Rightarrow> pystr) \<Rightarrow> log_record \<Rightarrow> pystr res" where
  "json_format word casefold percent timestamp r =
     bind_res (get_message percent r) (\<lambda>message.
     bind_res (json_fields (log_event word casefold timestamp message r)) (\<lambda>event.
       Inr (json_dumps False (JObj event))))"

text \<open>What a handler with the filter and the formatter of the module writes for a record.\<close>

definition log_line ::
    "(nat \<Rightarrow> bool) \<Rightarrow> (pystr \<Rightarrow> pystr) \<Rightarrow> percent \<Rightarrow> (log_value \<Rightarrow> pystr) \<Rightarrow> log_record \<Rightarrow> pystr res" where
  "log_line word casefold percent timestamp r =
     bind_res (redacting_filter word casefold percent r) (json_format word casefold percent timestamp)"

section \<open>Configuration of the root logger\<close>

record log_handler =
  lh_redacting :: bool
  lh_marked :: bool
  lh_json :: bool

record root_logger =
  rl_level :: int
  rl_handlers :: "log_handler list"

definition LEVEL_NAMES :: "(string \<times> int) list" where
  "LEVEL_NAMES = [(''CRITICAL'', 50), (''FATAL'', 50), (''ERROR'', 40), (''WARN'', 30), (''WARNING'', 30),
     (''INFO'', 20), (''DEBUG'', 10), (''NOTSET'', 0)]"

definition resolve_level :: "(pystr \<Rightarrow> pystr) \<Rightarrow> (pystr + int) option \<Rightarrow> int res" where
  "resolve_level upper level =
     (case level of
        None \<Rightarrow> Inr 20
      | Some (Inr n) \<Rightarrow> Inr n
      | Some (Inl name) \<Rightarrow>
          (case map_of (map (\<lambda>(k, n). (lit k, n)) LEVEL_NAMES) (upper (py_strip name)) of
             None \<Rightarrow> Inl ValueError
           | Some n \<Rightarrow> Inr n))"

definition add_redaction_filter :: "log_handler \<Rightarrow> log_handler" where
  "add_redaction_filter h = (if \<not> lh_redacting h then h\<lparr>lh_redacting := True\<rparr> else h)"

definition configure_logging ::
    "(pystr \<Rightarrow> pystr) \<Rightarrow> (pystr + int) option \<Rightarrow> pystr option \<Rightarrow> root_logger \<Rightarrow> unit res \<times> root_logger" where
  "configure_logging upper level env_level logger =
     (case resolve_level upper (case level of None \<Rightarrow> map_option Inl env_level | Some l \<Rightarrow> Some l) of
        Inl e \<Rightarrow> (Inl e, logger)
      | Inr n \<Rightarrow>
          let handlers = map add_redaction_filter (rl_handlers logger);
              handlers = (if list_ex lh_marked handlers then handlers
                          else handlers @ [add_redaction_filter \<lparr>lh_redacting = False, lh_marked = True, lh_json = True\<rparr>])
          in (Inr (), \<lparr>rl_level = n, rl_handlers = handlers\<rparr>))"

section \<open>Lemmas on values\<close>

text \<open>Two values that show the same: they differ only under sensitive keys and inside byte strings.\<close>

fun shows_same :: "(pystr \<Rightarrow> pystr) \<Rightarrow> log_value \<Rightarrow> log_value \<Rightarrow> bool"
  and shows_same_all :: "(pystr \<Rightarrow> pystr) \<Rightarrow> log_value list \<Rightarrow> log_value list \<Rightarrow> bool"
  and shows_same_fields :: "(pystr \<Rightarrow> pystr) \<Rightarrow> (pystr \<times> log_value) list \<Rightarrow> (pystr \<times> log_value) list \<Rightarrow> bool" where
  "shows_same casefold (LBytes _) w = (case w of LBytes _ \<Rightarrow> True | _ \<Rightarrow> False)"
| "shows_same casefold (LMap ms) w = (case w of LMap ns \<Rightarrow> shows_same_fields casefold ms ns | _ \<Rightarrow> False)"
| "shows_same casefold (LSeq xs) w = (case w of LSeq ys \<Rightarrow> shows_same_all casefold xs ys | _ \<Rightarrow> False)"
| "shows_same casefold (LSet xs) w = (case w of LSet ys \<Rightarrow> shows_same_all casefold xs ys | _ \<Rightarrow> False)"
| "shows_same casefold v w = (v = w)"
| "shows_same_all casefold [] ys = (ys = [])"
| "shows_same_all casefold (x # xs) ys = (case ys of [] \<Rightarrow> False | y # ys' \<Rightarrow> shows_same casefold x y \<and> shows_same_all casefold xs ys')"
| "shows_same_fields casefold [] ns = (ns = [])"
| "shows_same_fields casefold ((k, x) # ms) ns =
     (case ns of [] \<Rightarrow> False | (l, y) # ns' \<Rightarrow>
        l = k \<and> (is_sensitive_key casefold k \<or> shows_same casefold x y) \<and> shows_same_fields casefold ms ns')"

declare redact_value.simps [simp del]

lemma redact_value_hidden [simp]: "is_sensitive_key casefold k \<Longrightarrow> redact_value word casefold (Some k) v = LStr REDACTED"
  by (simp add: redact_value.simps)

lemma redact_shows_same:
  "shows_same casefold v w \<Longrightarrow> redact_value word casefold key v = redact_value word casefold key w"
  "shows_same_all casefold xs ys \<Longrightarrow> map (redact_value word casefold None) xs = map (redact_value word casefold None) ys"
  "shows_same_fields casefold ms ns \<Longrightarrow>
     map (\<lambda>(k, x). (k, redact_value word casefold (Some k) x)) ms = map (\<lambda>(k, x). (k, redact_value word casefold (Some k) x)) ns"
proof (induction casefold v w and casefold xs ys and casefold ms ns arbitrary: key and key and key
    rule: shows_same_shows_same_all_shows_same_fields.induct)
  case (2 casefold ms w)
  then show ?case by (auto simp: redact_value.simps [of word casefold key] split: log_value.splits)
next
  case (3 casefold xs w)
  then show ?case by (auto simp: redact_value.simps [of word casefold key] split: log_value.splits)
next
  case (4 casefold xs w)
  then show ?case by (auto simp: redact_value.simps [of word casefold key] split: log_value.splits)
next
  case (7 casefold x xs ys)
  then show ?case by (cases ys) auto
next
  case (9 casefold k x ms ns)
  then show ?case by (cases ns) auto
qed (auto simp: redact_value.simps split: log_value.splits)

text \<open>Floats write themselves without control characters.\<close>

fun plain_floats :: "log_value \<Rightarrow> bool"
  and plain_floats_all :: "log_value list \<Rightarrow> bool"
  and plain_floats_fields :: "(pystr \<times> log_value) list \<Rightarrow> bool" where
  "plain_floats (LFloat r t) = list_all (\<lambda>c. 32 \<le> c) t"
| "plain_floats (LMap ms) = plain_floats_fields ms"
| "plain_floats (LSeq xs) = plain_floats_all xs"
| "plain_floats (LSet xs) = plain_floats_all xs"
| "plain_floats _ = True"
| "plain_floats_all [] = True"
| "plain_floats_all (x # xs) = (plain_floats x \<and> plain_floats_all xs)"
| "plain_floats_fields [] = True"
| "plain_floats_fields ((k, x) # ms) = (plain_floats x \<and> plain_floats_fields ms)"

lemma plain_floats_all_iff: "plain_floats_all xs \<longleftrightarrow> (\<forall>x\<in>set xs. plain_floats x)"
  by (induction xs) auto

lemma plain_floats_fields_iff: "plain_floats_fields ms \<longleftrightarrow> (\<forall>(k, x)\<in>set ms. plain_floats x)"
  by (induction ms) auto

lemma dict_set_subset: "set (dict_set k v d) \<subseteq> insert (k, v) (set d)"
  unfolding dict_set_def by (induction d) auto

lemma fold_dict_set_subset: "set (fold (\<lambda>(k, x). dict_set k x) ms d) \<subseteq> set ms \<union> set d"
proof (induction ms arbitrary: d)
  case (Cons m ms)
  have "set (case m of (k, x) \<Rightarrow> dict_set k x d) \<subseteq> insert m (set d)"
    by (cases m) (simp add: dict_set_subset)
  then show ?case using Cons [of "case m of (k, x) \<Rightarrow> dict_set k x d"] by (auto simp: case_prod_unfold)
qed simp

text \<open>A value that \<open>json.dumps\<close> writes on one line.\<close>

definition writable :: "log_value \<Rightarrow> bool" where
  "writable v \<longleftrightarrow> plain_floats v \<and> \<not> isl (json_value v)"

lemma json_values_Inr: "\<not> isl (json_values xs) \<longleftrightarrow> (\<forall>x\<in>set xs. \<not> isl (json_value x))"
  by (induction xs) (auto simp: bind_res_def split: sum.splits)

lemma json_fields_Inr: "\<not> isl (json_fields ms) \<longleftrightarrow> (\<forall>(k, x)\<in>set ms. \<not> isl (json_value x))"
proof (induction ms)
  case (Cons m ms)
  then show ?case by (cases m) (auto simp: bind_res_def split: sum.splits)
qed simp

lemma writable_simps [simp]:
  "writable (LStr s)" "writable LNone" "writable (LBool b)" "writable (LInt n)"
  "writable (LSeq xs) \<longleftrightarrow> (\<forall>x\<in>set xs. writable x)"
  "writable (LMap ms) \<longleftrightarrow> (\<forall>(k, x)\<in>set ms. writable x)"
proof -
  show "writable (LSeq xs) \<longleftrightarrow> (\<forall>x\<in>set xs. writable x)"
    using json_values_Inr [of xs] by (auto simp: writable_def plain_floats_all_iff bind_res_def split: sum.splits)
  show "writable (LMap ms) \<longleftrightarrow> (\<forall>(k, x)\<in>set ms. writable x)"
    using json_fields_Inr [of ms] by (auto simp: writable_def plain_floats_fields_iff bind_res_def split: sum.splits)
qed (simp_all add: writable_def)

lemma redact_value_writable: "plain_floats v \<Longrightarrow> writable (redact_value word casefold key v)"
proof (induction v arbitrary: key)
  case (LMap ms)
  have "writable (redact_value word casefold (Some k) x)" if "(k, x) \<in> set ms" for k x
    using LMap that by (force simp: plain_floats_fields_iff)
  then show ?case
    using fold_dict_set_subset [of "map (\<lambda>(k, x). (k, redact_value word casefold (Some k) x)) ms" "[]"]
    by (subst redact_value.simps) fastforce
next
  case (LSeq xs)
  then show ?case by (subst redact_value.simps) (auto simp: plain_floats_all_iff)
next
  case (LSet xs)
  then show ?case by (subst redact_value.simps) (auto simp: plain_floats_all_iff)
next
  case (LFloat r t)
  then show ?case by (subst redact_value.simps) (simp add: writable_def)
qed (simp_all add: redact_value.simps)

lemma printable_int: "c \<in> set (int_str n) \<Longrightarrow> 32 \<le> c"
  by (auto simp: int_str_def dest!: dec_digits_range split: if_splits)

lemma printable_escape: "c \<in> set (unicode_escape x) \<Longrightarrow> 32 \<le> c"
  unfolding unicode_escape_def set_append by (elim UnE, force, drule hex_digits_range, simp)

lemma printable_char: "c \<in> set (escape_char False x) \<Longrightarrow> 32 \<le> c"
  unfolding escape_char_def by (simp split: if_splits) (auto dest: printable_escape)

lemma printable_string: "c \<in> set (json_string False s) \<Longrightarrow> 32 \<le> c"
  by (auto simp: json_string_def dest: printable_char)

lemma json_items_set: "set (json_items b (x # xs)) \<subseteq> insert 44 (set (json_dumps b x) \<union> set (json_items b xs))"
  by (cases xs) auto

lemma json_members_set:
  "set (json_members b ((k, x) # ms)) \<subseteq> {44, 58} \<union> set (json_string b k) \<union> set (json_dumps b x) \<union> set (json_members b ms)"
  by (cases ms) auto

lemma lit_printable: "c \<in> set (lit ''null'') \<Longrightarrow> 32 \<le> c" "c \<in> set (lit ''true'') \<Longrightarrow> 32 \<le> c" "c \<in> set (lit ''false'') \<Longrightarrow> 32 \<le> c"
  by (auto simp: lit_def)

lemma json_dumps_printable:
  "json_value v = Inr j \<Longrightarrow> plain_floats v \<Longrightarrow> \<forall>c\<in>set (json_dumps False j). 32 \<le> c"
  "json_values xs = Inr js \<Longrightarrow> plain_floats_all xs \<Longrightarrow> \<forall>c\<in>set (json_items False js). 32 \<le> c"
  "json_fields ms = Inr fs \<Longrightarrow> plain_floats_fields ms \<Longrightarrow> \<forall>c\<in>set (json_members False fs). 32 \<le> c"
proof (induction v and xs and ms arbitrary: j and js and fs rule: json_value_json_values_json_fields.induct)
  case (10 x xs)
  then show ?case using json_items_set by (fastforce simp: bind_res_Inr)
next
  case (12 k x ms)
  then show ?case using json_members_set printable_string by (fastforce simp: bind_res_Inr)
qed (auto simp: bind_res_Inr list_all_iff lit_printable printable_int printable_string)

section \<open>Lemmas on records\<close>

text \<open>Records that differ only under sensitive keys of their fields and inside byte strings.\<close>

definition record_shows_same :: "(pystr \<Rightarrow> pystr) \<Rightarrow> log_record \<Rightarrow> log_record \<Rightarrow> bool" where
  "record_shows_same casefold r q \<longleftrightarrow>
     shows_same_fields casefold (lr_fields r) (lr_fields q) \<and> r = q\<lparr>lr_fields := lr_fields r\<rparr>"

definition plain_record :: "log_record \<Rightarrow> bool" where
  "plain_record r \<longleftrightarrow> plain_floats (lr_name r) \<and> plain_floats (lr_levelname r) \<and> plain_floats_fields (lr_fields r)"

lemma redacting_filter_shows_same:
  assumes "record_shows_same casefold r q"
  shows "redacting_filter word casefold percent r = redacting_filter word casefold percent q"
proof -
  obtain fs where r: "r = q\<lparr>lr_fields := fs\<rparr>" and same: "shows_same_fields casefold fs (lr_fields q)"
    using assms unfolding record_shows_same_def by (metis log_record.select_convs(9) log_record.surjective log_record.update_convs(9))
  show ?thesis
    using redact_shows_same(3) [OF same, of word]
    by (simp add: r redacting_filter_def get_message_def Let_def cong: option.case_cong)
qed

lemma log_event_writable:
  assumes "plain_floats_fields (lr_fields r)" and "writable (lr_levelname r)" and "writable (lr_name r)"
  shows "\<forall>(k, x)\<in>set (log_event word casefold timestamp message r). writable x"
proof -
  have step: "\<forall>(k, x)\<in>set (dict_set k0 v d). writable x" if "\<forall>(k, x)\<in>set d. writable x" "writable v" for k0 v d
    using that dict_set_subset [of k0 v d] by fastforce
  have fields: "\<forall>(k, x)\<in>set (fold (\<lambda>(key, v). if key \<in> S then id
      else dict_set key (redact_value word casefold (Some key) v)) ms d). writable x"
    if "plain_floats_fields ms" "\<forall>(k, x)\<in>set d. writable x" for S ms d
    using that
  proof (induction ms arbitrary: d)
    case (Cons m ms)
    obtain k v where m: "m = (k, v)" by (cases m)
    have "\<forall>(k, x)\<in>set (if k \<in> S then d else dict_set k (redact_value word casefold (Some k) v) d). writable x"
      using step [OF Cons.prems(2), of "redact_value word casefold (Some k) v" k] Cons.prems redact_value_writable by (simp add: m)
    then show ?case using Cons.IH Cons.prems(1) by (cases "k \<in> S") (simp_all add: m)
  qed simp
  have head: "\<forall>(k, x)\<in>set [(lit ''timestamp'', LStr (timestamp (lr_created r))), (lit ''level'', lr_levelname r),
      (lit ''logger'', lr_name r), (lit ''message'', LStr (redact_text word message))]. writable x"
    using assms(2,3) by simp
  have tail: "\<forall>(k, x)\<in>set (case e of None \<Rightarrow> d | Some t \<Rightarrow> if t = [] then d else dict_set k0 (LStr (f t)) d). writable x"
    if "\<forall>(k, x)\<in>set d. writable x" for d e k0 f
    using that step [OF that writable_simps(1)] by (simp split: option.split)
  show ?thesis
    unfolding log_event_def Let_def by (rule tail, rule fields, rule assms(1), rule head)
qed

lemma plain_redacted_fields:
  "plain_floats_fields ms \<Longrightarrow> plain_floats_fields (map (\<lambda>(key, v). (key, redact_value word casefold (Some key) v)) ms)"
  using redact_value_writable by (fastforce simp: plain_floats_fields_iff writable_def)

lemma json_format_total:
  assumes "plain_floats_fields (lr_fields r)" and "writable (lr_levelname r)" and "writable (lr_name r)" and "lr_args r = []"
  shows "\<exists>line. json_format word casefold percent timestamp r = Inr line \<and> list_all (\<lambda>c. 32 \<le> c) line"
proof -
  let ?event = "log_event word casefold timestamp (lr_msg r) r"
  have w: "writable (LMap ?event)" using log_event_writable [OF assms(1-3)] by simp
  then obtain js where js: "json_value (LMap ?event) = Inr js" unfolding writable_def by (cases "json_value (LMap ?event)") auto
  then have "\<forall>c\<in>set (json_dumps False js). 32 \<le> c" using json_dumps_printable(1) w unfolding writable_def by blast
  then show ?thesis using js assms(4) by (auto simp: json_format_def get_message_def bind_res_Inr list_all_iff bind_res_def split: sum.splits)
qed

section \<open>Properties\<close>

text \<open>
  C35.  A log line hides what its record keeps under sensitive keys.  Let the message of a record be one
  that can be formatted, and let its floats print as plain text.  Then the handler does write a line;
  the line has no code point below 32, in particular no line feed and no carriage return, so that no
  logged text starts a second line (the codes from 127 to 159 are left as they are by
  \<open>ensure_ascii=False\<close>); and every record that differs from it only in values under sensitive keys, at
  any depth of its fields, or in the contents of byte strings gives the same line.
\<close>

theorem log_line_hides_fields:
  assumes "record_shows_same casefold r q" and "plain_record r" and "get_message percent r = Inr message"
  shows "\<exists>line. log_line word casefold percent timestamp r = Inr line \<and> log_line word casefold percent timestamp q = Inr line \<and>
    list_all (\<lambda>c. 32 \<le> c) line"
proof -
  obtain f where f: "redacting_filter word casefold percent r = Inr f"
    and parts: "lr_args f = []" "lr_levelname f = redact_value word casefold (Some (lit ''levelname'')) (lr_levelname r)"
      "lr_name f = redact_value word casefold (Some (lit ''name'')) (lr_name r)"
      "lr_fields f = map (\<lambda>(key, v). (key, redact_value word casefold (Some key) v)) (lr_fields r)"
    using assms(3) by (simp add: redacting_filter_def Let_def bind_res_def)
  have plain: "plain_floats_fields (lr_fields f)" and wl: "writable (lr_levelname f)" and wn: "writable (lr_name f)"
    using assms(2) unfolding parts(2-4) plain_record_def by (simp_all add: plain_redacted_fields redact_value_writable)
  obtain line where "json_format word casefold percent timestamp f = Inr line" "list_all (\<lambda>c. 32 \<le> c) line"
    using json_format_total [OF plain wl wn parts(1), of word casefold percent timestamp] by blast
  then show ?thesis
    using f redacting_filter_shows_same [OF assms(1), of word percent] by (auto simp: log_line_def bind_res_def)
qed

definition log_sample :: "pystr \<Rightarrow> bytes \<Rightarrow> log_record" where
  "log_sample secret raw =
     \<lparr>lr_name = LStr (lit ''app''), lr_levelname = LStr (lit ''INFO''), lr_created = LInt 0, lr_msg = lit ''token=q'',
      lr_args = [], lr_exc_info = None, lr_exc_text = None, lr_stack_info = None,
      lr_fields = [(lit ''lineno'', LInt 7), (lit ''body'', LMap [(lit ''API-Key'', LStr secret), (lit ''raw'', LBytes raw)])]\<rparr>"

theorem log_line_hides_fields_witness:
  "\<exists>line. log_line ascii_alnum (map ascii_lower) (\<lambda>_ _. Inl TypeError) (\<lambda>_. lit ''T'') (log_sample (lit ''k1'') [1, 2]) = Inr line \<and>
     log_line ascii_alnum (map ascii_lower) (\<lambda>_ _. Inl TypeError) (\<lambda>_. lit ''T'') (log_sample (lit ''other'') []) = Inr line \<and>
     list_all (\<lambda>c. 32 \<le> c) line"
proof -
  have "record_shows_same (map ascii_lower) (log_sample (lit ''k1'') [1, 2]) (log_sample (lit ''other'') [])"
    "plain_record (log_sample (lit ''k1'') [1, 2])"
    "get_message (\<lambda>_ _. Inl TypeError) (log_sample (lit ''k1'') [1, 2]) = Inr (lit ''token=q'')" by code_simp+
  then show ?thesis by (rule log_line_hides_fields)
qed

section \<open>Authorization headers\<close>

lemma many_subset: "(p, r) \<in> set (many c prev s) \<Longrightarrow> set r \<subseteq> set s"
  by (induction c prev s rule: many.induct) (auto split: if_splits)

lemma many_all: "list_all c xs \<Longrightarrow> \<exists>p ys. many c prev xs = (p, []) # ys"
proof (induction xs arbitrary: prev)
  case (Cons x xs)
  then obtain p ys where "many c (Some x) xs = (p, []) # ys" by fastforce
  then show ?case using Cons.prems by simp
qed simp

lemma strip_prefix_subset: "strip_prefix t s = Some (p, r) \<Longrightarrow> set r \<subseteq> set (snd s)"
proof (induction t arbitrary: s)
  case (Cons x t)
  then obtain y ys where s: "snd s = y # ys" "strip_prefix t (Some y, ys) = Some (p, r)" by (auto split: list.splits if_splits)
  then show ?case using Cons.IH by fastforce
qed auto

text \<open>Expressions that match at least one character; the four patterns of the module are such.\<close>

primrec consumes :: "re \<Rightarrow> bool" where
  "consumes Eps = False"
| "consumes (One c) = True"
| "consumes (Seq p q) = (consumes p \<or> consumes q)"
| "consumes (Alt p q) = (consumes p \<and> consumes q)"
| "consumes (Opt p) = False"
| "consumes (Many c) = False"
| "consumes (Few c) = False"
| "consumes (Group name p) = consumes p"
| "consumes (SameAs name) = False"
| "consumes (NotAfter c) = False"
| "consumes Boundary = False"

lemma many_length: "(p, r) \<in> set (many c prev s) \<Longrightarrow> length r \<le> length s"
  by (induction c prev s rule: many.induct) (auto split: if_splits)

lemma strip_prefix_length: "strip_prefix t s = Some (p, r) \<Longrightarrow> length r \<le> length (snd s)"
proof (induction t arbitrary: s)
  case (Cons x t)
  then obtain y ys where s: "snd s = y # ys" "strip_prefix t (Some y, ys) = Some (p, r)" by (auto split: list.splits if_splits)
  then show ?case using Cons.IH by fastforce
qed auto

lemma runs_shorter:
  "(p', r', g') \<in> set (runs word e (p, r, g)) \<Longrightarrow> length r' \<le> length r \<and> (consumes e \<longrightarrow> length r' < length r)"
proof (induction e arbitrary: p r g p' r' g')
  case (Seq e1 e2)
  then obtain p1 r1 g1 where 1: "(p1, r1, g1) \<in> set (runs word e1 (p, r, g))" and 2: "(p', r', g') \<in> set (runs word e2 (p1, r1, g1))"
    by auto
  show ?case using Seq.IH(1) [OF 1] Seq.IH(2) [OF 2] by auto
next
  case (Group name e)
  then obtain g1 where "(p', r', g1) \<in> set (runs word e (p, r, g))" by auto
  then show ?case using Group.IH by simp
next
  case (SameAs name)
  then obtain t where "strip_prefix t (p, r) = Some (p', r')" by (auto split: option.splits)
  then show ?case using strip_prefix_length by fastforce
next
  case (Alt e1 e2)
  then have "(p', r', g') \<in> set (runs word e1 (p, r, g)) \<or> (p', r', g') \<in> set (runs word e2 (p, r, g))" by simp
  then show ?case using Alt.IH by fastforce
next
  case (Opt e)
  then have "(p', r', g') \<in> set (runs word e (p, r, g)) \<or> r' = r" by auto
  then show ?case using Opt.IH by fastforce
qed (auto split: list.splits if_splits option.splits dest!: many_length simp: Let_def)

lemma patterns_consume:
  "consumes SENSITIVE_ASSIGNMENT_RE" "consumes AUTH_HEADER_RE" "consumes COOKIE_HEADER_RE" "consumes BEARER_RE"
  by (simp_all add: SENSITIVE_ASSIGNMENT_RE_def AUTH_HEADER_RE_def COOKIE_HEADER_RE_def BEARER_RE_def header_prefix_def
      assignment_sign_def Many1_def)

text \<open>A match leaves characters of the text, and its groups hold characters of the text.\<close>

lemma runs_inside:
  "(p', r', g') \<in> set (runs word e (p, r, g)) \<Longrightarrow>
     set r' \<subseteq> set r \<and> (\<forall>(n, t)\<in>set g'. (n, t) \<in> set g \<or> set t \<subseteq> set r)"
proof (induction e arbitrary: p r g p' r' g')
  case (Seq e1 e2)
  then obtain p1 r1 g1 where 1: "(p1, r1, g1) \<in> set (runs word e1 (p, r, g))" and 2: "(p', r', g') \<in> set (runs word e2 (p1, r1, g1))"
    by auto
  show ?case using Seq.IH(1) [OF 1] Seq.IH(2) [OF 2] by fastforce
next
  case (Group name e)
  then obtain g1 where 1: "(p', r', g1) \<in> set (runs word e (p, r, g))"
    and g': "g' = dict_set name (take (length r - length r') r) g1" by auto
  show ?case using Group.IH [OF 1] dict_set_subset [of name "take (length r - length r') r" g1] set_take_subset [of _ r]
    unfolding g' by fastforce
next
  case (SameAs name)
  then obtain t where "strip_prefix t (p, r) = Some (p', r')" "g' = g" by (auto split: option.splits)
  then show ?case using strip_prefix_subset by fastforce
next
  case (Alt e1 e2)
  then have "(p', r', g') \<in> set (runs word e1 (p, r, g)) \<or> (p', r', g') \<in> set (runs word e2 (p, r, g))" by simp
  then show ?case using Alt.IH by blast
next
  case (Opt e)
  then have "(p', r', g') \<in> set (runs word e (p, r, g)) \<or> p' = p \<and> r' = r \<and> g' = g" by auto
  then show ?case using Opt.IH by blast
qed (auto split: list.splits if_splits option.splits dest!: many_subset simp: Let_def)

lemma re_sub_subset:
  assumes "\<And>groups. set (repl groups) \<subseteq> extra \<union> (\<Union>(n, t)\<in>set groups. set t)"
  shows "set (re_sub word e repl prev s) \<subseteq> set s \<union> extra"
  using assms
proof (induction word e repl prev s rule: re_sub.induct)
  case (2 word p repl prev x xs)
  show ?case
  proof (cases "runs word p (prev, x # xs, [])")
    case Nil
    then show ?thesis using 2 by auto
  next
    case (Cons m ms)
    obtain q rest groups where m: "m = (q, rest, groups)" by (cases m)
    have inside: "set rest \<subseteq> set (x # xs)" "\<forall>(n, t)\<in>set groups. set t \<subseteq> set (x # xs)"
      using runs_inside [of q rest groups word p prev "x # xs" "[]"] Cons m by auto
    have "set (repl groups) \<subseteq> set (x # xs) \<union> extra" using 2(4) [of groups] inside(2) by fastforce
    moreover have "set (re_sub word p repl q rest) \<subseteq> set rest \<union> extra" if "length rest < length (x # xs)"
      using 2(2) [OF Cons m [symmetric] refl that] 2(4) by simp
    moreover have "set (re_sub word p repl (Some x) xs) \<subseteq> set xs \<union> extra" if "\<not> length rest < length (x # xs)"
      using 2(3) [OF Cons m [symmetric] refl that] 2(4) by simp
    ultimately show ?thesis using Cons m inside(1) by auto
  qed
qed simp

lemmas pattern_defs = literal_def joined_def assignment_sign_def ignorecase_def ascii_lower_def quote_char_def Many1_def

lemma spaces: "py_isspace 32" "\<not> py_isspace 58" "\<not> py_isspace 91"
  by (simp_all add: py_isspace_def)

lemma quote_blank: "\<not> quote_char 32"
  by (simp add: quote_char_def)

definition authorization_text :: pystr where
  "authorization_text = lit ''Authorization: ''"

lemma assignment_prefix:
  assumes "\<not> py_isspace x"
  shows "runs word (header_prefix (Seq (Opt (One quote_char)) (Seq SENSITIVE_FIELD_PATTERN (Opt (One quote_char)))))
     (None, authorization_text @ x # xs, []) =
   [(Some 32, x # xs, [(''prefix'', authorization_text)]),
    (Some 58, 32 # x # xs, [(''prefix'', lit ''Authorization:'')])]"
  using assms
  by (simp add: header_prefix_def SENSITIVE_FIELD_PATTERN_def pattern_defs lit_def ascii_alnum_def spaces authorization_text_def
     dict_set_def)

lemma auth_prefix:
  assumes "\<not> py_isspace x"
  shows "runs word (header_prefix (Alt (literal ''authorization'') (joined ''proxy'' ''authorization'')))
     (None, authorization_text @ x # xs, []) =
   [(Some 32, x # xs, [(''prefix'', authorization_text)]),
    (Some 58, 32 # x # xs, [(''prefix'', lit ''Authorization:'')])]"
  using assms
  by (simp add: header_prefix_def pattern_defs lit_def spaces authorization_text_def dict_set_def)

lemma many_starts: "\<exists>p r ys. many c prev xs = (p, r) # ys \<and> set r \<subseteq> set xs \<and> length r \<le> length xs"
proof (induction xs arbitrary: prev)
  case (Cons x xs)
  then obtain p r ys where "many c (Some x) xs = (p, r) # ys" "set r \<subseteq> set xs" "length r \<le> length xs" by metis
  then show ?case by (cases "c x") auto
qed simp

lemma alnum_plain:
  assumes "ascii_alnum x"
  shows "\<not> py_isspace x" and "x \<notin> {44, 59, 125, 93}" and "\<not> quote_char x"
  using assms by (auto simp: ascii_alnum_def ascii_lower_def py_isspace_def quote_char_def split: if_splits)

text \<open>The first pass replaces the first word of the header's value, the second the rest of the line.\<close>

lemma assignment_run:
  assumes "ascii_alnum x"
  shows "\<exists>p rest bare ys. runs word SENSITIVE_ASSIGNMENT_RE (None, authorization_text @ x # xs, []) =
     (p, rest, [(''prefix'', authorization_text), (''bare'', bare)]) # ys \<and> set rest \<subseteq> set xs \<and> length rest \<le> length xs"
proof -
  let ?bare = "\<lambda>x. \<not> py_isspace x \<and> x \<notin> {44, 59, 125, 93}"
  obtain p r ys where "many ?bare (Some x) xs = (p, r) # ys" "set r \<subseteq> set xs" "length r \<le> length xs"
    using many_starts [of ?bare "Some x" xs] by (elim exE conjE) (rule that)
  then obtain bare zs where word: "runs word (Group ''bare'' (Many1 ?bare)) (Some 32, x # xs, [(''prefix'', authorization_text)]) =
      (p, r, [(''prefix'', authorization_text), (''bare'', bare)]) # zs" and r: "set r \<subseteq> set xs" "length r \<le> length xs"
    using alnum_plain [OF assms] by (simp add: Many1_def dict_set_def)
  have unquoted: "runs word (Seq (Group ''quote'' (One quote_char)) e) (Some 32, x # xs, g) = []" for e g
    using alnum_plain(3) [OF assms] by simp
  show ?thesis
    unfolding SENSITIVE_ASSIGNMENT_RE_def runs.simps(3) [of word "header_prefix _"]
      assignment_prefix [OF alnum_plain(1) [OF assms]] list.map concat.simps runs.simps(4) unquoted word
    using r by auto
qed

lemma auth_run:
  assumes "\<not> py_isspace x" and "list_all header_value (x # xs)"
  shows "\<exists>p ys g. runs word AUTH_HEADER_RE (None, authorization_text @ x # xs, []) =
     (p, [], [(''prefix'', authorization_text), (''value'', x # xs)]) # ys"
proof -
  obtain p ys where "many header_value (Some x) xs = (p, []) # ys" using many_all assms(2) by fastforce
  then show ?thesis using auth_prefix [OF assms(1), of word xs] assms
    by (simp add: AUTH_HEADER_RE_def Many1_def dict_set_def)
qed

lemma no_cookie_left: "re_sub word COOKIE_HEADER_RE replace_header None (authorization_text @ REDACTED) = authorization_text @ REDACTED"
  by (simp add: COOKIE_HEADER_RE_def header_prefix_def pattern_defs lit_def authorization_text_def REDACTED_def ascii_alnum_def)

lemma no_bearer_left: "re_sub word BEARER_RE replace_header None (authorization_text @ REDACTED) = authorization_text @ REDACTED"
  by (simp add: BEARER_RE_def pattern_defs lit_def authorization_text_def REDACTED_def Let_def)

lemma replace_assignment_set: "set (replace_assignment groups) \<subseteq> set REDACTED \<union> (\<Union>(n, t)\<in>set groups. set t)"
proof -
  have "set (group groups name) \<subseteq> (\<Union>(n, t)\<in>set groups. set t)" for name
    by (cases "map_of groups name") (auto simp: group_def dict_get_def dest!: map_of_SomeD)
  then show ?thesis by (fastforce simp: replace_assignment_def)
qed

text \<open>
  C38.  The credentials of an authorization header are redacted as a whole.  A text that consists of
  \<open>Authorization:\<close>, a blank and a value which starts with a letter or a digit and has no carriage return,
  line feed, comma or closing brace becomes the header name with the marker by the composition of the
  four passes, whatever the value: its scheme, its words and assignments inside it are all gone.  The
  condition that the header begins the text cannot be dropped, as \<open>header_after_key_shown\<close> below shows.
\<close>

theorem authorization_header_redacted:
  assumes "ascii_alnum x" and "list_all (\<lambda>c. c \<notin> {13, 10, 44, 125}) (x # xs)"
  shows "redact_text word (lit ''Authorization: '' @ x # xs) = lit ''Authorization: [REDACTED]''"
proof -
  obtain p rest bare ys where run: "runs word SENSITIVE_ASSIGNMENT_RE (None, authorization_text @ x # xs, []) =
     (p, rest, [(''prefix'', authorization_text), (''bare'', bare)]) # ys" and rest: "set rest \<subseteq> set xs" "length rest \<le> length xs"
    using assignment_run [OF assms(1), of word xs] by blast
  let ?after = "re_sub word SENSITIVE_ASSIGNMENT_RE replace_assignment p rest"
  obtain c cs where name: "authorization_text = c # cs" by (simp add: authorization_text_def lit_def)
  have first: "re_sub word SENSITIVE_ASSIGNMENT_RE replace_assignment None (authorization_text @ x # xs) =
      authorization_text @ REDACTED @ ?after"
    using run rest(2) by (simp add: name replace_assignment_def group_def dict_get_def)
  obtain ds where red: "REDACTED = 91 # ds" and ds: "list_all header_value (91 # ds)"
    by (simp add: REDACTED_def lit_def header_value_def)
  have "list_all header_value ?after"
    using re_sub_subset [OF replace_assignment_set, of word SENSITIVE_ASSIGNMENT_RE p rest] rest(1) assms(2) ds red
    by (auto simp: list_all_iff header_value_def)
  then obtain q zs where "runs word AUTH_HEADER_RE (None, authorization_text @ 91 # ds @ ?after, []) =
      (q, [], [(''prefix'', authorization_text), (''value'', 91 # ds @ ?after)]) # zs"
    using auth_run [OF spaces(3), of "ds @ ?after" word] ds by auto
  then have "re_sub word AUTH_HEADER_RE replace_header None (authorization_text @ REDACTED @ ?after) = authorization_text @ REDACTED"
    by (simp add: name red replace_header_def group_def dict_get_def)
  then have "redact_text word (authorization_text @ x # xs) = authorization_text @ REDACTED"
    by (simp add: redact_text_def first no_cookie_left no_bearer_left)
  then show ?thesis by (simp add: authorization_text_def REDACTED_def lit_def)
qed

theorem authorization_header_redacted_witness:
  "redact_text ascii_alnum (lit ''Authorization: Bearer abc; token=q'') = lit ''Authorization: [REDACTED]''"
  using authorization_header_redacted [of 66 "lit ''earer abc; token=q''" ascii_alnum]
  by (simp add: lit_def ascii_alnum_def ascii_lower_def)

text \<open>A quoted value with an escaped quote is redacted only up to that quote.\<close>

lemma escaped_quote_shown:
  "redact_text ascii_alnum (lit ''password=\"a'' @ [92, 34] @ lit ''bc\"'') = lit ''password=\"[REDACTED]\"bc\"''"
  by code_simp

text \<open>
  Behind another sensitive name the header name itself is taken for the secret, so that the header
  pattern no longer applies and the credential is shown.
\<close>

lemma header_after_key_shown:
  "redact_text ascii_alnum (lit ''token=Authorization: Token abc'') = lit ''token=[REDACTED] Token abc''"
  by code_simp

section \<open>Configuration\<close>

text \<open>After the configuration every handler redacts and one writes JSON lines; configuring again changes nothing.\<close>

lemma configure_logging_redacts:
  assumes "configure_logging upper level env_level logger = (Inr u, logger')"
  shows "list_all lh_redacting (rl_handlers logger')" and "list_ex lh_marked (rl_handlers logger')"
    and "configure_logging upper level env_level logger' = (Inr (), logger')"
proof -
  let ?hs = "map add_redaction_filter (rl_handlers logger)"
  let ?new = "add_redaction_filter \<lparr>lh_redacting = False, lh_marked = True, lh_json = True\<rparr>"
  obtain n where n: "resolve_level upper (case level of None \<Rightarrow> map_option Inl env_level | Some l \<Rightarrow> Some l) = Inr n"
    and l: "logger' = \<lparr>rl_level = n, rl_handlers = (if list_ex lh_marked ?hs then ?hs else ?hs @ [?new])\<rparr>"
    using assms by (auto simp: configure_logging_def Let_def split: sum.splits)
  have red: "lh_redacting (add_redaction_filter h)" for h by (simp add: add_redaction_filter_def)
  then show all: "list_all lh_redacting (rl_handlers logger')" by (auto simp: l list_all_iff)
  show marked: "list_ex lh_marked (rl_handlers logger')"
    by (simp add: l add_redaction_filter_def)
  have "map add_redaction_filter (rl_handlers logger') = rl_handlers logger'"
    using all by (intro map_idI) (simp add: add_redaction_filter_def list_all_iff)
  then show "configure_logging upper level env_level logger' = (Inr (), logger')"
    using marked n by (simp add: configure_logging_def) (simp add: l)
qed

end
