(* ===== verification/Spec2Isabelle.thy ===== *)
theory Spec2Isabelle
  imports SocketAdmission BucketLocks Cleanup Turn HttpBoundary Config Logging
begin

text \<open>
  \<^bold>\<open>The SelfRelay control plane.\<close>  SelfRelay lets the devices of one account send files to each other,
  peer to peer and end-to-end encrypted.  The control plane, \<open>src/backend/app\<close>, never sees a file: it
  signs accounts in by e-mail code, registers devices by their signing keys, issues sessions and
  one-time WebSocket tickets, keeps the presence of devices and relays their signaling messages, holds
  the state machine of transfer offers, and issues credentials of a TURN relay.  Its state is a
  PostgreSQL database behind repositories, with in-memory repositories of the same contracts for the
  test environment, and two objects of the process: the presence manager and the store of pending
  sign-ins and registrations.  This development models all of that; a definition has the name of the
  function or method it translates where HOL allows it.

  \<^bold>\<open>How the parts interact.\<close>  A request passes the middlewares (\<open>HttpBoundary\<close>), a route
  (\<open>EmailAuth\<close>, \<open>DeviceRoutes\<close>, \<open>SessionApi\<close>, \<open>TransferRoutes\<close>, \<open>Turn\<close>, \<open>SocketAdmission\<close>) checks its origin, its
  session and its CSRF secret (\<open>SessionApi\<close>), and calls a service (\<open>EmailAuth\<close>, \<open>DeviceAuth\<close>,
  \<open>TransferService\<close>, \<open>Turn\<close>) over ports of the repositories.  A device signs in in three stages: a code
  sent by e-mail yields a bootstrap token, the token and a proof of the key register the device, and
  later logins answer a challenge with a signature; each success opens a session.  A session trades a
  ticket for a socket, and the socket loop relays signaling between the two parties of a transfer while
  \<open>TransferService\<close> moves the transfer through its states.

  \<^bold>\<open>Theories and sources\<close> (under \<open>src/backend/app\<close>).
  \<^item> \<open>Prelude\<close>, \<open>Statements\<close>: results, dictionaries, statement shapes, tables, transactions
    (\<open>repositories/base.py\<close>, \<open>database.py\<close>); \<open>PyText\<close>: the text, time and JSON functions of Python that the
    messages depend on; \<open>Models\<close>: \<open>repositories/models.py\<close> and the schema of \<open>supabase/migrations\<close>.
  \<^item> \<open>TransferRepo\<close>, \<open>TransferMem\<close>, \<open>TransferPort\<close>: \<open>repositories/transfers.py\<close>, both repositories and
    the port their clients use; \<open>TransferService\<close>, \<open>TransferRoutes\<close>: \<open>transfers.py\<close>.
  \<^item> \<open>Metrics\<close>: \<open>metrics.py\<close>; \<open>Signaling\<close>, \<open>Presence\<close>, \<open>PresenceSafety\<close>, \<open>SocketAdmission\<close>: \<open>presence.py\<close>
    (validation of messages, the manager and the socket loop, its invariants, tickets and handshake).
  \<^item> \<open>Encoding\<close>, \<open>DeviceCrypto\<close>: \<open>device_crypto.py\<close>; \<open>SessionRepo\<close>, \<open>SessionPort\<close>, \<open>SessionApi\<close>:
    \<open>repositories/sessions.py\<close>, \<open>sessions.py\<close>, \<open>session_api.py\<close> and the origin checks of \<open>security.py\<close>.
  \<^item> \<open>TicketRepo\<close>: \<open>repositories/websocket_tickets.py\<close>; \<open>RateLimit\<close>: \<open>repositories/rate_limits.py\<close> and the
    limiter of \<open>auth.py\<close>, one call at a time; \<open>BucketLocks\<close>: \<open>consume_many\<close> as interleaved transactions with
    row locks; \<open>Cleanup\<close>: \<open>repositories/cleanup.py\<close>.
  \<^item> \<open>DeviceRepo\<close>: \<open>repositories/accounts.py\<close>, \<open>repositories/devices.py\<close>; \<open>OneTime\<close>: \<open>repositories/challenges.py\<close>,
    \<open>repositories/device_linking_otps.py\<close>; \<open>SecurityEvents\<close>: \<open>repositories/security_events.py\<close>.
  \<^item> \<open>Adapters\<close>: \<open>adapters.py\<close>; \<open>EmailAuth\<close>: \<open>auth.py\<close>; \<open>DeviceAuth\<close>, \<open>DeviceRoutes\<close>: \<open>device_auth.py\<close> and the
    logout route of \<open>session_api.py\<close>; \<open>Turn\<close>: \<open>turn.py\<close>.
  \<^item> \<open>HttpBoundary\<close>: the middlewares of \<open>security.py\<close>, \<open>operator_metrics.py\<close>, \<open>availability\<close>, \<open>database.py\<close>, the
    handlers of \<open>main.py\<close>; \<open>Config\<close>: \<open>config.py\<close> and the adapters \<open>main.py\<close> builds; \<open>Logging\<close>:
    \<open>logging.py\<close>.
  \<^item> This theory: the properties of the transfer routes on the whole stack.

  \<^bold>\<open>State and effects.\<close>  The database is one record of tables, a table the list of its rows, and a
  statement a total function on it that either succeeds or, when a \<open>CHECK\<close> or \<open>UNIQUE\<close> constraint
  fails, raises and changes nothing.  \<open>now\<close> is the statement's \<open>CURRENT_TIMESTAMP\<close>; a clock gives the
  successive readings a call takes, in any order of values unless a theorem says otherwise.  Objects of
  the process are records passed along; each critical section of a lock, and each stretch of the
  presence manager between two suspension points, is one definition, so that step relations
  (\<open>transfer_step\<close>, \<open>session_step\<close>, \<open>device_step\<close>, \<open>presence_step\<close>, \<open>offer_step\<close>) and lists of
  operations or events (\<open>tx_event\<close>) describe every interleaving of them.  Exceptions are values of \<open>exc\<close>; the
  subclass relation that \<open>except\<close> clauses use is a function on them.

  \<^bold>\<open>Interfaces.\<close>  Each port of the code is a locale with the laws its clients use, interpreted for both
  repositories: \<open>transfer_repository\<close> (\<open>sqlr\<close>, \<open>memr\<close>), \<open>session_repository\<close> (\<open>sqls\<close>, \<open>mems\<close>),
  \<open>ticket_repository\<close> (\<open>sqlk\<close>, \<open>memk\<close>), \<open>rate_limiter\<close> (\<open>meml\<close>, \<open>sqll\<close>), \<open>account_store\<close> and \<open>otp_login\<close> (\<open>sqla\<close>,
  \<open>prodl\<close>, \<open>mema\<close>, \<open>testl\<close>), \<open>device_stores\<close> (\<open>sqld\<close>, \<open>memd\<close>).  \<open>single_use\<close> says of a step system that no
  credential is accepted twice, for tickets, challenges, linking codes and bootstrap tokens;
  \<open>table\<close> holds the facts of a table with constraints.

  \<^bold>\<open>What is shown.\<close>
  \<^item> Transfers: the SQL statements move a transfer only along \<open>_VALID_TRANSITIONS\<close>, finished ones never
    change, accounts neither see nor influence each other's transfers, the table constraints make no
    update fail but the transition to \<open>failed\<close> without a proper code, the in-memory repository refines
    the statements under the same condition (\<open>TransferRepo\<close>, \<open>TransferMem\<close>); the service keeps the limits
    on active transfers and shows a peer's key only to a party (\<open>TransferService\<close>); the accept route
    answers only the recipient's authenticated session, and a failing transfer route is refused by the
    session dependency, which changes at most a last-seen time, or answers 400, 409 or 429 (here).
  \<^item> Presence: in every reachable state of the manager the limits on sockets, queues and signaling hold
    and a message reaches only the other party (\<open>PresenceSafety\<close>); exactly the well-formed messages are
    accepted (\<open>Signaling\<close>); a socket is admitted for one open ticket and gets its session's identity, and a ticket
    in time does admit (\<open>SocketAdmission\<close>).
  \<^item> Sessions and devices: a write needs the exact origin, the cookie and the CSRF secret, an ended
    session never authenticates again, both logout routes are final, a revoked device stays revoked
    (\<open>SessionApi\<close>, \<open>SessionRepo\<close>, \<open>DeviceRoutes\<close>, \<open>DeviceRepo\<close>); a login or registration succeeds only with
    a signature over exactly its challenge and happens once (\<open>DeviceAuth\<close>, \<open>DeviceCrypto\<close>, \<open>OneTime\<close>);
    an e-mail code yields credentials of the confirmed identity only, usable once (\<open>EmailAuth\<close>).
  \<^item> Limits and housekeeping: a bucket of the process-local limiter, and under any interleaving of
    transactions a stored bucket of the persistent one, grants at most twice its limit in any window,
    while concurrent first requests of a bucket without a row escape the limit (\<open>BucketLocks\<close>); the two
    limiters agree when their calls do not overlap (\<open>RateLimit\<close>); the retention job deletes nothing that
    is live and drains its backlog (\<open>Cleanup\<close>); relay credentials go to parties of live transfers only
    (\<open>Turn\<close>).
  \<^item> Boundary: which requests the body limit refuses, buffers and passes on, and which the operator
    endpoints admit, exactly (\<open>HttpBoundary\<close>); which adapters accepted settings give, exactly, fakes only
    in the test environment (\<open>Config\<close>); log lines have no line breaks and do not depend on values under
    sensitive keys, and the value of a text that is an authorization header is redacted by the composed
    patterns (\<open>Logging\<close>).

  \<^bold>\<open>Parameters.\<close>  SHA-256 and HMAC, the random source and the identifiers \<open>uuid4\<close> and the database
  generate, the \<open>cryptography\<close> package (DER coding, keys, ECDSA verification), the HTTP client, the
  asyncpg driver's answers, the size PostgreSQL gives a \<open>jsonb\<close> value, the Unicode tables behind
  \<open>casefold\<close>, \<open>upper\<close>, \<open>normalize\<close>, \<open>isalnum\<close> and \<open>urlsplit\<close>, and the \<open>%\<close> of \<open>str\<close> are arguments of the
  definitions that use them.  Where a theorem relies on one of them, it is a hypothesis: for instance
  that the identifiers generated for one-time credentials are distinct.

  \<^bold>\<open>Termination.\<close>  Every definition is a total function and no fuel is used: the loops of the code run
  over lists of rows, requests, messages or characters.  The socket loop runs over the list of frames
  the client sends and the body buffer over the messages delivered so far; a list without an end of the
  body gives the verdict that it is still reading.

  \<^bold>\<open>Not modelled.\<close>  The frontend (TypeScript, not part of the service); the parsing of request bodies by
  pydantic and the routing of FastAPI, whose results the routes take as arguments; the asyncpg pool, its
  timeouts and \<open>Database.execute\<close>, which no repository calls; the scheduling of the writer tasks of
  sockets beyond the order of their steps, and \<open>flush_outbound\<close>, which only waits; the wiring of
  \<open>lifespan\<close> in \<open>main.py\<close> beyond the services and adapters it builds.
\<close>

section \<open>Concrete requests\<close>

text \<open>A session of the recipient's device, and what authenticating it at time 9 leaves of a session.\<close>

definition session_11 :: session where
  "session_11 = sample_session\<lparr>se_device_id := 11\<rparr>"

definition seen_at_9 :: "session \<Rightarrow> session" where
  "seen_at_9 x = x\<lparr>se_last_seen_at := 9, se_idle_expires_at := days 30 + 9\<rparr>"

lemma sample_sessions_seen:
  "require_session_csrf sample_request id (\<lambda>_. 9) (session_db [session_11]) =
     (Inr (seen_at_9 session_11), session_db [seen_at_9 session_11])"
  "require_session_csrf sample_request id (\<lambda>_. 9) (session_db [sample_session]) =
     (Inr (seen_at_9 sample_session), session_db [seen_at_9 sample_session])"
  by code_simp+

lemma sample_sessions_fields:
  "se_user_id (seen_at_9 session_11) = 1" "se_device_id (seen_at_9 session_11) = 11"
  "se_user_id (seen_at_9 sample_session) = 1" "se_device_id (seen_at_9 sample_session) = 10"
  by (simp_all add: seen_at_9_def session_11_def sample_session_def new_session_def)

lemma sample_accepts:
  "\<not> isl (fst (service_accept sample_service (at_time 9) 1 7 11 (sample_manager, session_db [seen_at_9 session_11])))"
  "fst (service_accept sample_service (at_time 9) 1 7 10 (sample_manager, session_db [seen_at_9 sample_session])) =
     Inl TransferError"
  by code_simp+

lemmas sample_route_simps =
  accept_transfer_def as_writer_def with_service_def sample_sessions_seen sample_sessions_fields

section \<open>Properties that span the components\<close>

text \<open>
  C2.  A transfer is accepted only by an authenticated device that is its recipient.  When the route
  answers, on the SQL repositories, the request came from the application's origin with the cookie
  and the CSRF secret of a stored, usable session bound to an active device; the stored transfer is
  now accepted, it belongs to that session's account, its recipient is that session's device, it was
  an open offer before, and the response describes it.
\<close>

theorem accept_route_authorized:
  assumes "session_inv d" and "sql_inv d" and "rq_session rq = None"
    and "rq_session_repository rq = Some sql_sessions" and "sv_repository sv = sql_port"
    and "accept_transfer rq (Some sv) sha256 clk rd t (m, d) = (Inr response, m', d')"
  shows "\<exists>origin cookie csrf y r.
    rq_app_origin rq = Some origin \<and> rq_origin rq = Some origin \<and>
    rq_cookie rq = Some cookie \<and> y \<in> set (app_sessions d) \<and> se_token_hash y = sha256 cookie \<and>
    session_usable (clk 0) y \<and> session_bound d y \<and>
    rq_csrf_token rq = Some csrf \<and> sha256 csrf = se_csrf_hash y \<and>
    r \<in> set (transfer_requests d') \<and> tr_id r = t \<and> tr_user_id r = se_user_id y \<and>
    tr_recipient_device_id r = se_device_id y \<and> tr_status r = Accepted \<and>
    (\<exists>q\<in>set (transfer_requests d). same_offer q r \<and> tr_status q = Offered) \<and>
    response = public_response r ''accepted''"
proof -
  from assms(6) obtain x d1 where
    auth: "require_session_csrf rq sha256 clk d = (Inr x, d1)" and
    body: "respond (\<lambda>r. public_response r ''accepted'') unavailable
      (service_accept sv rd (se_user_id x) t (se_device_id x) (m, d1)) = (Inr response, m', d')"
    unfolding accept_transfer_def
    by (elim as_writer_cases) (auto simp: with_service_def)
  obtain r where r: "service_accept sv rd (se_user_id x) t (se_device_id x) (m, d1) = (Inr r, m', d')"
      "response = public_response r ''accepted''"
    using body unfolding respond_Inr by blast
  have tables: "transfer_requests d1 = transfer_requests d"
    using require_session_csrf_tables [OF auth assms(4)] by blast
  then have "sql_inv d1" using assms(2) by (simp add: sql_inv_def)
  note acc = sqlr.accept_result [OF assms(5) this r(1)]
  obtain origin cookie csrf y where
    y: "rq_app_origin rq = Some origin" "rq_origin rq = Some origin" "rq_cookie rq = Some cookie"
      "y \<in> set (app_sessions d)" "se_token_hash y = sha256 cookie" "session_usable (clk 0) y"
      "session_bound d y" "session_evolves y x" "rq_csrf_token rq = Some csrf" "sha256 csrf = se_csrf_hash y"
    using write_request_session [OF assms(1,3,4) auth] by blast
  have "se_user_id x = se_user_id y" "se_device_id x = se_device_id y"
    using y(8) by (simp_all add: session_evolves_def)
  then show ?thesis using y r(2) acc unfolding tables by metis
qed

theorem accept_route_authorized_witness:
  "\<exists>response m' d' r. accept_transfer sample_request (Some sample_service) id (\<lambda>_. 9) (at_time 9) 7
       (sample_manager, session_db [session_11]) = (Inr response, m', d') \<and>
     r \<in> set (transfer_requests d') \<and> tr_status r = Accepted \<and> tr_recipient_device_id r = 11"
proof -
  let ?r = "accept_transfer sample_request (Some sample_service) id (\<lambda>_. 9) (at_time 9) 7
       (sample_manager, session_db [session_11])"
  have "\<not> isl (fst ?r)"
    using sample_accepts(1) by (auto simp: sample_route_simps respond_def split: prod.splits sum.splits)
  then obtain response m' d' where r: "?r = (Inr response, m', d')" by (metis prod.collapse sum.collapse(2))
  have inv: "session_inv (session_db [session_11])" "sql_inv (session_db [session_11])" by code_simp+
  have rq: "rq_session sample_request = None" "rq_session_repository sample_request = Some sql_sessions"
    "sv_repository sample_service = sql_port" by (simp_all add: sample_request_def sample_service_def)
  from accept_route_authorized [OF inv rq r] obtain y x where
    "y \<in> set (app_sessions (session_db [session_11]))" "x \<in> set (transfer_requests d')" "tr_status x = Accepted"
    "tr_recipient_device_id x = se_device_id y" by blast
  moreover have "se_device_id session_11 = 11" "app_sessions (session_db [session_11]) = [session_11]"
    by (simp_all add: session_11_def sample_session_def new_session_def session_db_def)
  ultimately show ?thesis using r by auto
qed



end
